(* ===== verification/Prelude.thy ===== *)
theory Prelude
  imports Main "HOL-Library.Word" "HOL-Library.List_Lexorder" "HOL-Library.Char_ord"
begin

text \<open>
  Shared vocabulary of the development: the exceptions the node throws, the result type of
  operations that may throw, loops whose body may throw, the decimal rendering of
  \<open>std::to_string\<close>, and ordered association lists that stand for \<open>std::map\<close>.
\<close>

section \<open>Machine integers\<close>

type_synonym u64 = "64 word"

lemma unat_u64_less: "unat (w :: u64) < 2 ^ 64"
proof -
  have "unat w < 2 ^ LENGTH(64)" by (rule unsigned_less)
  then show ?thesis by simp
qed

text \<open>\<open>time_t\<close> and the \<open>std::chrono\<close> differences are exact seconds: signed overflow is
  undefined in C++, so no wrap-around is given to them.\<close>

type_synonym time = int

section \<open>Exceptions and results\<close>

datatype uri_problem = uri_missing | uri_duplicate | uri_invalid

text \<open>The exceptions of exception.hpp and of the standard library. An amount is a
  \<open>(whole, fraction)\<close> pair here. \<open>Public_key_error\<close> and \<open>Signature_error\<close> are the exceptions
  of mesh.pp's keys, \<open>External_error\<close> is whatever else a library outside the
  repository throws (a key missing from a loader);
  \<open>Undefined_behaviour\<close> marks a C++ operation with no defined result, such as
  \<open>front()\<close> of an empty vector.\<close>

datatype exn =
    Runtime_error string
  | Logic_error string
  | Wrong_data string
  | Wrong_request string
  | Authority_error string string
  | Not_enough_balance string "u64 \<times> u64" "u64 \<times> u64"
  | Too_long_string string nat
  | Uri_error string uri_problem
  | Public_key_error string
  | Signature_error string
  | External_error
  | Undefined_behaviour

type_synonym 'a res = "exn + 'a"

definition bind_res :: "'a res \<Rightarrow> ('a \<Rightarrow> 'b res) \<Rightarrow> 'b res" where
  "bind_res r f = (case r of Inl e \<Rightarrow> Inl e | Inr x \<Rightarrow> f x)"

definition throw_if :: "bool \<Rightarrow> exn \<Rightarrow> 'a res \<Rightarrow> 'a res" where
  "throw_if b e k = (if b then Inl e else k)"

definition is_ok :: "'a res \<Rightarrow> bool" where
  "is_ok r = (case r of Inl _ \<Rightarrow> False | Inr _ \<Rightarrow> True)"

named_theorems result_simps \<open>inversion of the result combinators\<close>

lemma bind_res_simps [simp]:
  "bind_res (Inl e) f = Inl e" "bind_res (Inr x) f = f x"
  by (simp_all add: bind_res_def)

lemma bind_res_Inr_iff [result_simps]:
  "bind_res r f = Inr y \<longleftrightarrow> (\<exists>x. r = Inr x \<and> f x = Inr y)"
  by (cases r) simp_all

lemma bind_res_Inl_iff:
  "bind_res r f = Inl e \<longleftrightarrow> r = Inl e \<or> (\<exists>x. r = Inr x \<and> f x = Inl e)"
  by (cases r) simp_all

lemma bind_res_assoc: "bind_res (bind_res r f) g = bind_res r (\<lambda>x. bind_res (f x) g)"
  by (cases r) simp_all

lemma throw_if_simps [simp]:
  "throw_if True e k = Inl e" "throw_if False e k = k"
  by (simp_all add: throw_if_def)

lemma throw_if_Inr_iff [result_simps]: "throw_if b e k = Inr y \<longleftrightarrow> \<not> b \<and> k = Inr y"
  by (simp add: throw_if_def)

lemma throw_if_Inl_iff: "throw_if b e k = Inl d \<longleftrightarrow> (b \<and> e = d) \<or> (\<not> b \<and> k = Inl d)"
  by (auto simp: throw_if_def)

lemma is_ok_simps [simp]: "is_ok (Inl e) = False" "is_ok (Inr x) = True"
  by (simp_all add: is_ok_def)

lemma is_ok_iff: "is_ok r \<longleftrightarrow> (\<exists>x. r = Inr x)"
  by (cases r) simp_all

lemma is_ok_bind_iff: "is_ok (bind_res r f) \<longleftrightarrow> (\<exists>x. r = Inr x \<and> is_ok (f x))"
  by (cases r) simp_all

lemma bind_res_cong [fundef_cong]:
  "r = r' \<Longrightarrow> (\<And>x. r' = Inr x \<Longrightarrow> f x = g x) \<Longrightarrow> bind_res r f = bind_res r' g"
  by (cases r') simp_all

text \<open>A \<open>for\<close> loop whose body may throw: the exception leaves the loop.\<close>

fun fold_res :: "('a \<Rightarrow> 's \<Rightarrow> 's res) \<Rightarrow> 'a list \<Rightarrow> 's \<Rightarrow> 's res" where
  "fold_res f [] s = Inr s"
| "fold_res f (x # xs) s = bind_res (f x s) (\<lambda>s'. fold_res f xs s')"

lemma fold_res_append: "fold_res f (xs @ ys) s = bind_res (fold_res f xs s) (\<lambda>t. fold_res f ys t)"
proof (induction xs arbitrary: s)
  case (Cons x xs)
  then show ?case by (cases "f x s") simp_all
qed simp

text \<open>The loop rule: what every iteration keeps holds at the end.\<close>

lemma fold_res_invariant:
  assumes "fold_res f xs s = Inr t" "I s"
    and step: "\<And>x u v. x \<in> set xs \<Longrightarrow> I u \<Longrightarrow> f x u = Inr v \<Longrightarrow> I v"
  shows "I t"
  using assms
proof (induction xs arbitrary: s)
  case (Cons x xs)
  from Cons.prems(1) obtain u where "f x s = Inr u" "fold_res f xs u = Inr t"
    by (auto simp: result_simps)
  moreover have "I u" using Cons.prems(2,3) \<open>f x s = Inr u\<close> by auto
  ultimately show ?case using Cons.IH Cons.prems(3) by (metis list.set_intros(2))
qed simp

text \<open>A loop run forwards and undone backwards, each step undone by its inverse.\<close>

lemma fold_res_undo:
  assumes "fold_res f xs s = Inr t" "I s"
    and keep: "\<And>x u v. x \<in> set xs \<Longrightarrow> I u \<Longrightarrow> f x u = Inr v \<Longrightarrow> I v"
    and undo: "\<And>x u v. x \<in> set xs \<Longrightarrow> I u \<Longrightarrow> f x u = Inr v \<Longrightarrow> g x v = Inr u"
  shows "fold_res g (rev xs) t = Inr s"
  using assms
proof (induction xs arbitrary: s)
  case (Cons x xs)
  from Cons.prems(1) obtain u where u: "f x s = Inr u" "fold_res f xs u = Inr t"
    by (auto simp: result_simps)
  have "I u" using Cons.prems(2,3) u(1) by auto
  have "fold_res g (rev xs) t = Inr u"
    using Cons.IH [OF u(2) \<open>I u\<close>] Cons.prems(3,4) by (metis list.set_intros(2))
  moreover have "g x u = Inr s" using Cons.prems(2,4) u(1) by auto
  ultimately show ?case by (simp add: fold_res_append)
qed simp

section \<open>Decimal numerals (std::to_string)\<close>

fun to_string_nat :: "nat \<Rightarrow> string" where
  "to_string_nat n =
     (if n < 10 then [char_of (48 + n)]
      else to_string_nat (n div 10) @ [char_of (48 + n mod 10)])"

declare to_string_nat.simps [simp del]

definition to_string_u64 :: "u64 \<Rightarrow> string" where
  "to_string_u64 w = to_string_nat (unat w)"

lemma char_of_digit_inj:
  assumes "m < 10" "n < 10" "char_of (48 + m :: nat) = char_of (48 + n)"
  shows "m = n"
proof -
  have "of_char (char_of (48 + m)) = (of_char (char_of (48 + n)) :: nat)"
    using assms(3) by simp
  then show ?thesis using assms(1,2) by (simp add: of_char_of)
qed

lemma to_string_nat_nonempty [simp]: "to_string_nat n \<noteq> []"
  by (subst to_string_nat.simps) simp

lemma to_string_nat_single: "to_string_nat n = [c] \<Longrightarrow> n < 10"
  by (subst (asm) to_string_nat.simps) (auto split: if_splits)

lemma to_string_nat_inj: "to_string_nat m = to_string_nat n \<Longrightarrow> m = n"
proof (induction m arbitrary: n rule: to_string_nat.induct)
  case (1 m)
  show ?case
  proof (cases "m < 10 \<or> n < 10")
    case True
    then have "m < 10" "n < 10"
      using "1.prems" to_string_nat_single by (metis to_string_nat.simps)+
    then show ?thesis
      using "1.prems" char_of_digit_inj by (simp add: to_string_nat.simps)
  next
    case False
    then have "to_string_nat (m div 10) = to_string_nat (n div 10)"
      and "char_of (48 + m mod 10) = (char_of (48 + n mod 10) :: char)"
      using "1.prems" by (simp_all add: to_string_nat.simps [of m] to_string_nat.simps [of n])
    then have "m div 10 = n div 10" "m mod 10 = n mod 10"
      using "1.IH" False char_of_digit_inj by auto
    then show ?thesis by (metis div_mult_mod_eq)
  qed
qed

lemma to_string_u64_inj [simp]: "to_string_u64 a = to_string_u64 b \<longleftrightarrow> a = b"
  unfolding to_string_u64_def using to_string_nat_inj unsigned_word_eqI by metis

section \<open>Ordered maps (std::map)\<close>

text \<open>An association list in ascending key order; \<open>omap_alter\<close> is the
  \<open>m[k] = f(m[k])\<close> of the code, with \<open>None\<close> for a key not present yet.\<close>

type_synonym ('k, 'v) omap = "('k \<times> 'v) list"

fun omap_alter :: "'k::linorder \<Rightarrow> ('v option \<Rightarrow> 'v) \<Rightarrow> ('k, 'v) omap \<Rightarrow> ('k, 'v) omap" where
  "omap_alter k f [] = [(k, f None)]"
| "omap_alter k f ((k', v) # m) =
     (if k < k' then (k, f None) # (k', v) # m
      else if k = k' then (k', f (Some v)) # m
      else (k', v) # omap_alter k f m)"

definition omap_ok :: "('k::linorder, 'v) omap \<Rightarrow> bool" where
  "omap_ok m \<longleftrightarrow> sorted_wrt (<) (map fst m)"

lemma keys_omap_alter [simp]: "fst ` set (omap_alter k f m) = insert k (fst ` set m)"
proof (induction m)
  case (Cons a m)
  then show ?case by (cases a) (simp add: insert_commute)
qed simp

lemma omap_ok_Nil [simp]: "omap_ok []"
  by (simp add: omap_ok_def)

lemma omap_ok_alter: "omap_ok m \<Longrightarrow> omap_ok (omap_alter k f m)"
proof (induction m)
  case (Cons a m)
  then show ?case
    using keys_omap_alter [of k f m] by (cases a) (auto simp: omap_ok_def)
qed (simp add: omap_ok_def)

lemma map_of_omap_alter:
  "omap_ok m \<Longrightarrow> map_of (omap_alter k f m) = (map_of m)(k \<mapsto> f (map_of m k))"
proof (induction m)
  case (Cons a m)
  obtain k' v where a: "a = (k', v)" by force
  have tail: "map_of m k = None" if "k < k'"
    using Cons.prems that by (force simp: a omap_ok_def map_of_eq_None_iff)
  show ?case using Cons tail by (auto simp: a omap_ok_def)
qed simp

lemma omap_alter_none_iff: "map_of (omap_alter k f m) l = None \<longleftrightarrow> l \<noteq> k \<and> map_of m l = None"
  by (simp add: map_of_eq_None_iff)

text \<open>The total of a measure over the values grows by exactly what the entry grows.\<close>

lemma sum_omap_alter:
  fixes g :: "'v \<Rightarrow> nat"
  assumes "omap_ok m"
  shows "sum_list (map (g \<circ> snd) (omap_alter k f m)) + (case map_of m k of None \<Rightarrow> 0 | Some v \<Rightarrow> g v)
    = sum_list (map (g \<circ> snd) m) + g (f (map_of m k))"
  using assms
proof (induction m)
  case (Cons a m)
  obtain k' v where a: "a = (k', v)" by force
  have tail: "map_of m k = None" if "k < k'"
    using Cons.prems that by (force simp: a omap_ok_def map_of_eq_None_iff)
  show ?case using Cons tail by (auto simp: a omap_ok_def)
qed simp

text \<open>Assignment and erasure. Maps with the same entries are equal.\<close>

definition omap_set :: "'k::linorder \<Rightarrow> 'v \<Rightarrow> ('k, 'v) omap \<Rightarrow> ('k, 'v) omap" where
  "omap_set k v = omap_alter k (\<lambda>_. v)"

definition omap_erase :: "'k \<Rightarrow> ('k, 'v) omap \<Rightarrow> ('k, 'v) omap" where
  "omap_erase k m = filter (\<lambda>p. fst p \<noteq> k) m"

lemma omap_eqI:
  assumes "omap_ok m" "omap_ok n" "map_of m = map_of n"
  shows "m = n"
proof -
  have dist: "distinct (map fst l) \<and> sorted (map fst l)" if "omap_ok l" for l :: "('a, 'b) omap"
    using that unfolding omap_ok_def by (simp add: strict_sorted_iff)
  have "set m = set n" using dist assms map_of_eqI by (metis map_of_inject_set)
  moreover have "inj_on fst (set m)" using dist [OF assms(1)] by (simp add: distinct_map)
  ultimately show ?thesis
    using dist [OF assms(1)] dist [OF assms(2)] map_sorted_distinct_set_unique [of fst m n] by simp
qed

lemma omap_ok_set [simp]: "omap_ok m \<Longrightarrow> omap_ok (omap_set k v m)"
  by (simp add: omap_set_def omap_ok_alter)

lemma map_of_omap_set [simp]: "omap_ok m \<Longrightarrow> map_of (omap_set k v m) = (map_of m)(k \<mapsto> v)"
  by (simp add: omap_set_def map_of_omap_alter)

lemma omap_set_not_Nil [simp]: "omap_set k v m \<noteq> []"
  by (cases m) (auto simp: omap_set_def split: if_splits)

lemma omap_ok_erase [simp]: "omap_ok m \<Longrightarrow> omap_ok (omap_erase k m)"
  unfolding omap_ok_def omap_erase_def by (induction m) auto

lemma map_of_omap_erase [simp]: "map_of (omap_erase k m) = (map_of m)(k := None)"
  by (induction m) (auto simp: omap_erase_def)

lemma omap_erase_absent: "map_of m k = None \<Longrightarrow> omap_erase k m = m"
  by (auto simp: omap_erase_def filter_id_conv map_of_eq_None_iff)

lemma omap_erase_set: "omap_ok m \<Longrightarrow> map_of m k = None \<Longrightarrow> omap_erase k (omap_set k v m) = m"
  by (rule omap_eqI) auto

lemma omap_set_same: "omap_ok m \<Longrightarrow> map_of m k = Some v \<Longrightarrow> omap_set k v m = m"
  by (rule omap_eqI) auto

lemma omap_Nil_iff: "m = [] \<longleftrightarrow> map_of m = Map.empty"
  by (cases m) (auto simp: fun_eq_iff split: if_splits)

section \<open>Sums over finite maps\<close>

definition map_total :: "('v \<Rightarrow> nat) \<Rightarrow> ('k \<rightharpoonup> 'v) \<Rightarrow> nat" where
  "map_total g m = (\<Sum>k \<in> dom m. g (the (m k)))"

lemma map_total_upd:
  "finite (dom m) \<Longrightarrow>
   map_total g (m(k \<mapsto> v)) + (case m k of None \<Rightarrow> 0 | Some u \<Rightarrow> g u) = map_total g m + g v"
proof -
  assume fin: "finite (dom m)"
  have rest: "(\<Sum>x \<in> dom m - {k}. g (the ((m(k \<mapsto> v)) x))) = (\<Sum>x \<in> dom m - {k}. g (the (m x)))"
    by (rule sum.cong) auto
  show ?thesis
  proof (cases "m k")
    case None
    then have "dom m - {k} = dom m" by auto
    then show ?thesis using fin None rest by (simp add: map_total_def sum.insert_remove)
  next
    case (Some u)
    then have "map_total g m = g u + (\<Sum>x \<in> dom m - {k}. g (the (m x)))"
      using fin sum.remove [of "dom m" k "\<lambda>x. g (the (m x))"] by (auto simp: map_total_def)
    then show ?thesis using fin Some rest by (simp add: map_total_def sum.insert_remove)
  qed
qed

lemma map_total_del:
  assumes "finite (dom m)"
  shows "map_total g (m(k := None)) + (case m k of None \<Rightarrow> 0 | Some u \<Rightarrow> g u) = map_total g m"
proof (cases "m k")
  case None
  then show ?thesis by (simp add: map_total_def fun_upd_idem)
next
  case (Some u)
  have "(\<Sum>x \<in> dom m - {k}. g (the ((m(k := None)) x))) = (\<Sum>x \<in> dom m - {k}. g (the (m x)))"
    by (rule sum.cong) auto
  then show ?thesis
    using assms Some sum.remove [of "dom m" k "\<lambda>x. g (the (m x))"] domI [of m k u]
    by (simp add: map_total_def)
qed

end
