(* ===== verification/Coin.thy ===== *)
theory Coin
  imports Prelude
begin

text \<open>
  The amounts of libblockchain/coin.hpp and coin.cpp: a whole part and a number of fractions,
  both \<open>uint64_t\<close>, with 10^8 fractions in a whole. Additions and products wrap around as the
  C++ does; a difference, a quotient and the checked constructor may throw.
\<close>

section \<open>The class\<close>

datatype coin = Coin (whole: u64) (fraction: u64)

definition fractions_in_whole :: u64 where
  "fractions_in_whole = 100000000"

definition coin_zero :: coin where
  "coin_zero = Coin 0 0"

definition coin_new :: "u64 \<Rightarrow> u64 \<Rightarrow> coin res" where
  "coin_new w f =
     throw_if (f \<ge> fractions_in_whole)
       (Runtime_error (''invalid coin amount: ('' @ to_string_u64 w @ '', '' @ to_string_u64 f @ '')''))
       (Inr (Coin w f))"

text \<open>The converting constructor from a message's \<open>Coin\<close>, which has the same two fields but
  comes from outside and need not respect the bound on the fraction.\<close>

definition coin_of :: "coin \<Rightarrow> coin res" where
  "coin_of c = coin_new (whole c) (fraction c)"

definition to_uint64_t :: "coin \<Rightarrow> u64" where
  "to_uint64_t c = fractions_in_whole * whole c + fraction c"

definition coin_to_string :: "coin \<Rightarrow> string" where
  "coin_to_string c = ''('' @ to_string_u64 (whole c) @ '','' @ to_string_u64 (fraction c) @ '')''"

definition coin_empty :: "coin \<Rightarrow> bool" where
  "coin_empty c \<longleftrightarrow> whole c = 0 \<and> fraction c = 0"

definition coin_pair :: "coin \<Rightarrow> u64 \<times> u64" where
  "coin_pair c = (whole c, fraction c)"

section \<open>Comparison\<close>

definition coin_gt :: "coin \<Rightarrow> coin \<Rightarrow> bool" where
  "coin_gt a b \<longleftrightarrow> whole a > whole b \<or> (whole a = whole b \<and> fraction a > fraction b)"

definition coin_lt :: "coin \<Rightarrow> coin \<Rightarrow> bool" where
  "coin_lt a b = coin_gt b a"

definition coin_ge :: "coin \<Rightarrow> coin \<Rightarrow> bool" where
  "coin_ge a b = (\<not> coin_gt b a)"

definition coin_le :: "coin \<Rightarrow> coin \<Rightarrow> bool" where
  "coin_le a b = (\<not> coin_gt a b)"

definition coin_eq :: "coin \<Rightarrow> coin \<Rightarrow> bool" where
  "coin_eq a b \<longleftrightarrow> \<not> coin_gt a b \<and> \<not> coin_gt b a"

definition coin_neq :: "coin \<Rightarrow> coin \<Rightarrow> bool" where
  "coin_neq a b \<longleftrightarrow> coin_gt a b \<or> coin_gt b a"

lemma lex_asym:
  fixes a b :: "'a::linorder" and c d :: "'b::linorder"
  shows "a > b \<or> (a = b \<and> c > d) \<Longrightarrow> \<not> (b > a \<or> (b = a \<and> d > c))"
  by auto

lemma lex_total:
  fixes a b :: "'a::linorder" and c d :: "'b::linorder"
  shows "a > b \<or> (a = b \<and> c > d) \<or> (a = b \<and> c = d) \<or> (b > a \<or> (b = a \<and> d > c))"
  by auto

lemma lex_trans:
  fixes a b c :: "'a::linorder" and d e f :: "'b::linorder"
  shows "a > b \<or> (a = b \<and> d > e) \<Longrightarrow> b > c \<or> (b = c \<and> e > f) \<Longrightarrow> a > c \<or> (a = c \<and> d > f)"
  by auto

text \<open>The six operators are one linear order.\<close>

instantiation coin :: linorder
begin

definition less_coin :: "coin \<Rightarrow> coin \<Rightarrow> bool" where
  "less_coin = coin_lt"

definition less_eq_coin :: "coin \<Rightarrow> coin \<Rightarrow> bool" where
  "less_eq_coin = coin_le"

instance
proof
  fix a b c :: coin
  note defs = less_coin_def less_eq_coin_def coin_lt_def coin_le_def
  have asym: "coin_gt x y \<Longrightarrow> \<not> coin_gt y x" for x y
    unfolding coin_gt_def by (rule lex_asym)
  have total: "coin_gt x y \<or> x = y \<or> coin_gt y x" for x y
    unfolding coin_gt_def
    using lex_total [of "whole x" "whole y" "fraction x" "fraction y"] coin.expand by blast
  have trans: "coin_gt x y \<Longrightarrow> coin_gt y z \<Longrightarrow> coin_gt x z" for x y z
    unfolding coin_gt_def by (rule lex_trans)
  show "(a < b) = (a \<le> b \<and> \<not> b \<le> a)"
    unfolding defs using asym by blast
  show "a \<le> a" unfolding defs using asym by blast
  show "a \<le> b \<Longrightarrow> b \<le> c \<Longrightarrow> a \<le> c"
    unfolding defs using total trans by blast
  show "a \<le> b \<Longrightarrow> b \<le> a \<Longrightarrow> a = b"
    unfolding defs using total by blast
  show "a \<le> b \<or> b \<le> a"
    unfolding defs using asym by blast
qed

end

section \<open>Arithmetic\<close>

definition coin_plus :: "coin \<Rightarrow> coin \<Rightarrow> coin" where
  "coin_plus a b =
     (let f = fraction a + fraction b;
          (w, f) = (if f \<ge> fractions_in_whole then (whole a + 1, f - fractions_in_whole) else (whole a, f))
      in Coin (w + whole b) f)"

definition coin_minus :: "coin \<Rightarrow> coin \<Rightarrow> coin res" where
  "coin_minus a b =
     throw_if (whole a < whole b \<or> (whole a = whole b \<and> fraction a < fraction b))
       (Runtime_error ''cannot have negative result for coin'')
       (let (w, f) = (if fraction a < fraction b then (whole a - 1, fraction a + fractions_in_whole)
                      else (whole a, fraction a))
        in Inr (Coin (w - whole b) (f - fraction b)))"

definition coin_times :: "coin \<Rightarrow> u64 \<Rightarrow> coin" where
  "coin_times c t =
     (let w = whole c * t; f = fraction c * t
      in Coin (w + f div fractions_in_whole) (f mod fractions_in_whole))"

definition coin_div :: "coin \<Rightarrow> u64 \<Rightarrow> coin res" where
  "coin_div c t =
     throw_if (t = 0) (Runtime_error ''zero division'')
       (let f = fraction c + whole c mod t * fractions_in_whole
        in Inr (Coin (whole c div t) (f div t)))"

definition coin_mod :: "coin \<Rightarrow> u64 \<Rightarrow> coin res" where
  "coin_mod c t = bind_res (coin_div c t) (\<lambda>q. coin_minus c (coin_times q t))"

section \<open>Meaning\<close>

lemma carry_arith: "q * 100000000 + r = f \<Longrightarrow> (w + q) * 100000000 \<le> w * 100000000 + (f :: nat)"
  by auto

lemma borrow_arith:
  fixes fa fb wa wb :: nat
  assumes "fa < fb" "wb < wa" "fb < 100000000"
  shows "fa + 100000000 - fb < 100000000
    \<and> (wa - 1 - wb) * 100000000 + (fa + 100000000 - fb) = wa * 100000000 + fa - (wb * 100000000 + fb)"
proof -
  obtain k j where "wa = Suc (wb + k)" "fb = Suc (fa + j)"
    using assms(1,2) less_imp_Suc_add by blast
  then show ?thesis using assms(3) by (simp add: add.commute)
qed

lemma no_borrow_arith:
  fixes fa fb wa wb :: nat
  assumes "fb \<le> fa" "wb \<le> wa"
  shows "(wa - wb) * 100000000 + (fa - fb) = wa * 100000000 + fa - (wb * 100000000 + fb)"
proof -
  obtain k j where "wa = wb + k" "fa = fb + j" using assms le_Suc_ex by blast
  then show ?thesis by (simp add: algebra_simps)
qed

lemma div_mod_scale: "w * c + f = (f + w mod t * c) + w div t * c * (t :: nat)"
proof -
  have "w * c = (w div t * t + w mod t) * c" by simp
  then show ?thesis by (simp only: algebra_simps)
qed

text \<open>The number of fractions an amount stands for, and the class invariant.\<close>

definition coin_val :: "coin \<Rightarrow> nat" where
  "coin_val c = unat (whole c) * 100000000 + unat (fraction c)"

definition coin_ok :: "coin \<Rightarrow> bool" where
  "coin_ok c \<longleftrightarrow> fraction c < fractions_in_whole"

abbreviation val_limit :: nat where
  "val_limit \<equiv> 2 ^ 64 * 100000000"

lemma unat_fractions [simp]: "unat fractions_in_whole = 100000000"
  by (simp add: fractions_in_whole_def)

lemma coin_ok_iff: "coin_ok c \<longleftrightarrow> unat (fraction c) < 100000000"
  by (simp add: coin_ok_def word_less_nat_alt)

lemma coin_val_limit: "coin_ok c \<Longrightarrow> coin_val c < val_limit"
  using unat_u64_less [of "whole c"] by (simp add: coin_ok_iff coin_val_def)

lemma coin_ok_zero [simp]: "coin_ok coin_zero" "coin_val coin_zero = 0" "coin_empty coin_zero"
  by (simp_all add: coin_ok_iff coin_zero_def coin_val_def coin_empty_def)

lemma coin_empty_iff: "coin_empty c \<longleftrightarrow> c = coin_zero"
  by (cases c) (simp add: coin_empty_def coin_zero_def)

lemma coin_empty_val: "coin_empty c \<longleftrightarrow> coin_val c = 0"
  by (simp add: coin_empty_def coin_val_def word_unat_eq_iff)

lemma coin_of_Inr_iff [result_simps]: "coin_of c = Inr d \<longleftrightarrow> coin_ok c \<and> d = c"
  by (cases c) (auto simp: coin_of_def coin_new_def coin_ok_def throw_if_def)

lemma coin_of_ok [simp]: "coin_ok c \<Longrightarrow> coin_of c = Inr c"
  by (simp add: coin_of_Inr_iff)

text \<open>Comparing well-formed amounts is comparing their values.\<close>

lemma coin_less_val: "coin_ok a \<Longrightarrow> coin_ok b \<Longrightarrow> a < b \<longleftrightarrow> coin_val a < coin_val b"
  unfolding less_coin_def coin_lt_def coin_gt_def coin_ok_iff coin_val_def
    word_less_nat_alt word_unat_eq_iff by linarith

lemma coin_val_inj: "coin_ok a \<Longrightarrow> coin_ok b \<Longrightarrow> coin_val a = coin_val b \<Longrightarrow> a = b"
  using coin_less_val [of a b] coin_less_val [of b a] by (metis less_irrefl linorder_less_linear)

lemma coin_le_val: "coin_ok a \<Longrightarrow> coin_ok b \<Longrightarrow> a \<le> b \<longleftrightarrow> coin_val a \<le> coin_val b"
  using coin_less_val [of b a] by (simp add: not_less [symmetric])

lemma coin_plus_ok: "coin_ok a \<Longrightarrow> coin_ok b \<Longrightarrow> coin_ok (coin_plus a b)"
  unfolding coin_ok_iff coin_plus_def Let_def
  by (auto simp: word_le_nat_alt unat_word_ariths unat_sub split: if_splits)

lemma coin_plus_val:
  assumes "coin_ok a" "coin_ok b" "coin_val a + coin_val b < val_limit"
  shows "coin_val (coin_plus a b) = coin_val a + coin_val b"
proof -
  let ?f = "fraction a + fraction b"
  have f: "unat ?f = unat (fraction a) + unat (fraction b)"
    using assms(1,2) by (simp add: coin_ok_iff unat_word_ariths)
  show ?thesis
  proof (cases "fractions_in_whole \<le> ?f")
    case True
    then have ge: "100000000 \<le> unat (fraction a) + unat (fraction b)"
      using f by (simp add: word_le_nat_alt)
    then have "unat (whole a) + 1 + unat (whole b) < 2 ^ 64"
      using assms(3) by (simp add: coin_val_def)
    then have "unat (whole a + 1 + whole b) = unat (whole a) + 1 + unat (whole b)"
      by (simp add: unat_word_ariths)
    then show ?thesis
      using True ge f by (simp add: coin_plus_def coin_val_def unat_sub)
  next
    case False
    have "unat (whole a) + unat (whole b) < 2 ^ 64"
      using assms(3) by (simp add: coin_val_def)
    then have "unat (whole a + whole b) = unat (whole a) + unat (whole b)"
      by (simp add: unat_word_ariths)
    then show ?thesis using False f by (simp add: coin_plus_def coin_val_def)
  qed
qed

lemma coin_minus_eq:
  assumes "coin_ok a" "coin_ok b"
  shows "(coin_minus a b = Inr d) \<longleftrightarrow> coin_ok d \<and> coin_val b \<le> coin_val a \<and> coin_val d = coin_val a - coin_val b"
proof (cases "a < b")
  case True
  then have "coin_val a < coin_val b" using assms by (simp add: coin_less_val)
  moreover have "coin_minus a b = Inl (Runtime_error ''cannot have negative result for coin'')"
    using True by (auto simp: coin_minus_def less_coin_def coin_lt_def coin_gt_def)
  ultimately show ?thesis by simp
next
  case False
  then have le: "coin_val b \<le> coin_val a" using assms coin_less_val by (simp add: not_less)
  let ?p = "if fraction a < fraction b then (whole a - 1, fraction a + fractions_in_whole)
            else (whole a, fraction a)"
  let ?d = "Coin (fst ?p - whole b) (snd ?p - fraction b)"
  have eq: "coin_minus a b = Inr ?d"
    using False by (auto simp: coin_minus_def less_coin_def coin_lt_def coin_gt_def)
  have d: "coin_ok ?d \<and> coin_val ?d = coin_val a - coin_val b"
  proof (cases "fraction a < fraction b")
    case True
    then have fr: "unat (fraction a) < unat (fraction b)" by (simp add: word_less_nat_alt)
    then have wl: "unat (whole b) < unat (whole a)"
      using le assms by (simp add: coin_val_def coin_ok_iff)
    have f1: "unat (fraction a + fractions_in_whole) = unat (fraction a) + 100000000"
      using assms by (simp add: coin_ok_iff unat_word_ariths)
    have f2: "unat (fraction a + fractions_in_whole - fraction b)
        = unat (fraction a) + 100000000 - unat (fraction b)"
      using f1 fr assms by (subst unat_sub) (simp_all add: word_le_nat_alt coin_ok_iff)
    have w1: "unat (whole a - 1) = unat (whole a) - 1"
      using wl by (subst unat_sub) (simp_all add: word_le_nat_alt)
    have w2: "unat (whole a - 1 - whole b) = unat (whole a) - 1 - unat (whole b)"
      using w1 wl by (subst unat_sub) (simp_all add: word_le_nat_alt)
    show ?thesis
      using True f2 w2 borrow_arith [OF fr wl] assms(2) by (simp add: coin_val_def coin_ok_iff)
  next
    case nl: False
    then have fr: "unat (fraction b) \<le> unat (fraction a)" by (simp add: word_less_nat_alt)
    have wl: "unat (whole b) \<le> unat (whole a)"
      using le assms fr by (simp add: coin_val_def coin_ok_iff)
    have "unat (fraction a - fraction b) = unat (fraction a) - unat (fraction b)"
      "unat (whole a - whole b) = unat (whole a) - unat (whole b)"
      using fr wl by (simp_all add: unat_sub word_le_nat_alt)
    then show ?thesis
      using nl no_borrow_arith [OF fr wl] assms(1) by (simp add: coin_val_def coin_ok_iff)
  qed
  show ?thesis using eq d le coin_val_inj by auto
qed

lemma coin_minus_Inl: "coin_ok a \<Longrightarrow> coin_ok b \<Longrightarrow> coin_val a < coin_val b \<Longrightarrow>
    coin_minus a b = Inl (Runtime_error ''cannot have negative result for coin'')"
  using coin_less_val [of a b]
  by (auto simp: coin_minus_def less_coin_def coin_lt_def coin_gt_def)

lemma coin_minus_total:
  assumes "coin_ok a" "coin_ok b" "coin_val b \<le> coin_val a"
  shows "\<exists>d. coin_minus a b = Inr d"
proof -
  have "\<not> a < b" using assms by (simp add: coin_less_val)
  then show ?thesis
    by (auto simp: coin_minus_def less_coin_def coin_lt_def coin_gt_def)
qed

lemma coin_plus_minus:
  assumes "coin_ok a" "coin_ok b" "coin_val a + coin_val b < val_limit"
  shows "coin_minus (coin_plus a b) b = Inr a"
  using assms by (subst coin_minus_eq) (simp_all add: coin_plus_ok coin_plus_val)

lemma coin_minus_plus:
  assumes "coin_ok a" "coin_ok b" "coin_minus a b = Inr d"
  shows "coin_plus d b = a"
proof -
  have d: "coin_ok d" "coin_val b \<le> coin_val a" "coin_val d = coin_val a - coin_val b"
    using assms by (simp_all add: coin_minus_eq)
  have "coin_val d + coin_val b < val_limit"
    using d coin_val_limit [OF assms(1)] by simp
  then show ?thesis
    using d assms by (intro coin_val_inj) (simp_all add: coin_plus_ok coin_plus_val)
qed

lemma coin_times_ok: "coin_ok (coin_times c t)"
  by (simp add: coin_ok_iff coin_times_def Let_def unat_mod)

lemma coin_times_val:
  assumes "unat (fraction c) * unat t < 2 ^ 64" "coin_val c * unat t < val_limit"
  shows "coin_val (coin_times c t) = coin_val c * unat t"
proof -
  let ?W = "unat (whole c) * unat t" and ?F = "unat (fraction c) * unat t"
  have f: "unat (fraction c * t) = ?F"
    using assms(1) by (simp add: unat_word_ariths)
  have total: "coin_val c * unat t = ?W * 100000000 + ?F"
    by (simp add: coin_val_def algebra_simps)
  have F: "?F div 100000000 * 100000000 + ?F mod 100000000 = ?F"
    by (rule div_mult_mod_eq)
  have "(?W + ?F div 100000000) * 100000000 \<le> coin_val c * unat t"
    using carry_arith [OF F] by (simp only: total)
  then have lim: "?W + ?F div 100000000 < 2 ^ 64"
    using assms(2) by (meson le_less_trans mult_less_cancel2)
  have w: "unat (whole c * t) = ?W"
    using lim by (simp add: unat_word_ariths)
  have "unat (whole c * t + fraction c * t div fractions_in_whole) = ?W + ?F div 100000000"
    using lim f w by (simp add: unat_word_ariths(1) unat_div)
  then have "coin_val (coin_times c t) = (?W + ?F div 100000000) * 100000000 + ?F mod 100000000"
    using f by (simp add: coin_times_def Let_def coin_val_def unat_mod)
  then show ?thesis using F by (simp add: total add_mult_distrib)
qed

text \<open>The fraction of a quotient stays below the bound whatever the divisor, even where the
  intermediate product wraps.\<close>

lemma coin_div_ok:
  assumes "coin_ok c" "coin_div c t = Inr d"
  shows "coin_ok d"
proof -
  have t: "0 < unat t"
    using assms(2) by (auto simp: coin_div_def throw_if_def unat_gt_0 split: if_splits)
  let ?f = "fraction c + whole c mod t * fractions_in_whole"
  have d: "d = Coin (whole c div t) (?f div t)"
    using assms(2) by (auto simp: coin_div_def throw_if_def Let_def split: if_splits)
  have le: "unat ?f \<le> unat (fraction c) + unat (whole c) mod unat t * 100000000"
    by (simp add: unat_word_ariths unat_mod)
  have "unat (whole c) mod unat t * 100000000 \<le> (unat t - 1) * 100000000"
    using mod_less_divisor [OF t, of "unat (whole c)"] by (intro mult_le_mono1) linarith
  then have "unat (fraction c) + unat (whole c) mod unat t * 100000000 < unat t * 100000000"
    using assms(1) t by (simp add: coin_ok_iff algebra_simps)
  then have "unat ?f < 100000000 * unat t"
    using le by (simp add: mult.commute)
  then have "unat ?f div unat t < 100000000"
    by (rule less_mult_imp_div_less)
  then show ?thesis by (simp add: d coin_ok_iff unat_div)
qed

lemma coin_div_val:
  assumes "coin_val c < 2 ^ 64" "coin_div c t = Inr d"
  shows "coin_val d = coin_val c div unat t"
proof -
  let ?t = "unat t" and ?w = "unat (whole c)" and ?f = "unat (fraction c)"
  have t: "0 < ?t"
    using assms(2) by (auto simp: coin_div_def throw_if_def unat_gt_0 split: if_splits)
  have d: "d = Coin (whole c div t) ((fraction c + whole c mod t * fractions_in_whole) div t)"
    using assms(2) by (auto simp: coin_div_def throw_if_def Let_def split: if_splits)
  have "?f + ?w mod ?t * 100000000 \<le> coin_val c"
    by (simp add: coin_val_def)
  then have lim: "?f + ?w mod ?t * 100000000 < 2 ^ 64" using assms(1) by linarith
  have n: "unat (fraction c + whole c mod t * fractions_in_whole) = ?f + ?w mod ?t * 100000000"
    using lim by (simp add: unat_word_ariths unat_mod)
  have "coin_val c = (?f + ?w mod ?t * 100000000) + ?w div ?t * 100000000 * ?t"
    using div_mod_scale [of ?w 100000000 ?t] by (simp add: coin_val_def)
  then have "coin_val c div ?t = ?w div ?t * 100000000 + (?f + ?w mod ?t * 100000000) div ?t"
    using t by simp
  then show ?thesis using n by (simp add: d coin_val_def unat_div)
qed

lemma coin_div_total: "t \<noteq> 0 \<Longrightarrow> \<exists>d. coin_div c t = Inr d"
  by (simp add: coin_div_def)

lemma coin_mod_val:
  assumes ok: "coin_ok c" and lim: "coin_val c < 2 ^ 64" and t: "t \<noteq> 0"
  shows "\<exists>d. coin_mod c t = Inr d \<and> coin_ok d \<and> coin_val d = coin_val c mod unat t"
proof -
  obtain q where q: "coin_div c t = Inr q" using coin_div_total [OF t] by blast
  have qv: "coin_val q = coin_val c div unat t" using coin_div_val [OF lim q] .
  have "coin_val q * unat t \<le> coin_val c" by (simp add: qv)
  then have le: "coin_val q * unat t < 2 ^ 64" using lim by linarith
  have "unat (fraction q) * unat t \<le> coin_val q * unat t"
    by (intro mult_le_mono1) (simp add: coin_val_def)
  then have frac: "unat (fraction q) * unat t < 2 ^ 64" using le by linarith
  have tv: "coin_val (coin_times q t) = coin_val q * unat t"
    using frac le by (intro coin_times_val) simp_all
  have le': "coin_val (coin_times q t) \<le> coin_val c" by (simp add: tv qv)
  then obtain d where d: "coin_minus c (coin_times q t) = Inr d"
    using coin_minus_total [OF ok coin_times_ok] by blast
  then have "coin_ok d" "coin_val d = coin_val c - coin_val c div unat t * unat t"
    using coin_minus_eq [OF ok coin_times_ok] by (simp_all add: tv qv)
  then show ?thesis using q d by (simp add: coin_mod_def minus_div_mult_eq_mod)
qed

section \<open>Amounts are exact\<close>

text \<open>The six comparison operators of \<open>coin\<close> order valid amounts by their number of
  fractions.\<close>

theorem coin_order_exact:
  assumes "coin_ok a" "coin_ok b"
  shows "(coin_gt a b \<longleftrightarrow> coin_val a > coin_val b) \<and> (coin_lt a b \<longleftrightarrow> coin_val a < coin_val b)
    \<and> (coin_ge a b \<longleftrightarrow> coin_val a \<ge> coin_val b) \<and> (coin_le a b \<longleftrightarrow> coin_val a \<le> coin_val b)
    \<and> (coin_eq a b \<longleftrightarrow> a = b) \<and> (coin_neq a b \<longleftrightarrow> a \<noteq> b)"
proof -
  have gt: "coin_gt x y \<longleftrightarrow> coin_val x > coin_val y" if "coin_ok x" "coin_ok y" for x y
    using coin_less_val [OF that(2,1)] by (simp add: less_coin_def coin_lt_def)
  have "a = b \<longleftrightarrow> coin_val a = coin_val b" using coin_val_inj [OF assms] by auto
  then show ?thesis
    using gt [OF assms] gt [OF assms(2,1)]
    by (auto simp: coin_lt_def coin_ge_def coin_le_def coin_eq_def coin_neq_def)
qed

theorem coin_order_exact_witness:
  "coin_lt (Coin 3 99999999) (Coin 4 0) \<longleftrightarrow> coin_val (Coin 3 99999999) < coin_val (Coin 4 0)"
  using coin_order_exact [of "Coin 3 99999999" "Coin 4 0"] by (simp add: coin_ok_def fractions_in_whole_def)

text \<open>A sum that fits into 64 bits of whole coins is exact, carries included, and
  subtracting gives the amount back; a difference is exact, and it is refused exactly when it
  would be negative.\<close>

theorem coin_plus_minus_exact:
  assumes "coin_ok a" "coin_ok b"
  shows "(coin_val a + coin_val b < val_limit \<longrightarrow>
      coin_ok (coin_plus a b) \<and> coin_val (coin_plus a b) = coin_val a + coin_val b \<and> coin_minus (coin_plus a b) b = Inr a)
    \<and> (coin_val a < coin_val b \<longrightarrow> coin_minus a b = Inl (Runtime_error ''cannot have negative result for coin''))
    \<and> (coin_val b \<le> coin_val a \<longrightarrow>
         (\<exists>d. coin_minus a b = Inr d \<and> coin_ok d \<and> coin_val d = coin_val a - coin_val b \<and> coin_plus d b = a))"
proof (intro conjI impI)
  assume lim: "coin_val a + coin_val b < val_limit"
  show "coin_ok (coin_plus a b)" "coin_val (coin_plus a b) = coin_val a + coin_val b"
    "coin_minus (coin_plus a b) b = Inr a"
    using assms lim by (simp_all add: coin_plus_ok coin_plus_val coin_plus_minus)
next
  assume "coin_val a < coin_val b"
  then show "coin_minus a b = Inl (Runtime_error ''cannot have negative result for coin'')"
    using coin_minus_Inl [OF assms] by blast
next
  assume "coin_val b \<le> coin_val a"
  then obtain d where d: "coin_minus a b = Inr d" using coin_minus_total [OF assms] by blast
  then show "\<exists>d. coin_minus a b = Inr d \<and> coin_ok d \<and> coin_val d = coin_val a - coin_val b \<and> coin_plus d b = a"
    using coin_minus_eq [OF assms, of d] coin_minus_plus [OF assms d] by blast
qed

theorem coin_plus_minus_exact_witness:
  "coin_minus (coin_plus (Coin 1 60000000) (Coin 2 70000000)) (Coin 2 70000000) = Inr (Coin 1 60000000)
    \<and> coin_val (coin_plus (Coin 1 60000000) (Coin 2 70000000)) = 430000000"
  using coin_plus_minus_exact [of "Coin 1 60000000" "Coin 2 70000000"]
  by (simp add: coin_ok_def fractions_in_whole_def coin_val_def)

text \<open>For amounts below 2^64 fractions, quotient and remainder are those of the number of
  fractions.\<close>

theorem coin_div_mod_exact:
  assumes "coin_ok c" "coin_val c < 2 ^ 64" "t \<noteq> 0"
  shows "\<exists>q r. coin_div c t = Inr q \<and> coin_mod c t = Inr r \<and> coin_ok q \<and> coin_ok r
    \<and> coin_val q = coin_val c div unat t \<and> coin_val r = coin_val c mod unat t
    \<and> coin_val q * unat t + coin_val r = coin_val c"
proof -
  obtain q where q: "coin_div c t = Inr q" using coin_div_total [OF assms(3)] by blast
  obtain r where r: "coin_mod c t = Inr r" "coin_ok r" "coin_val r = coin_val c mod unat t"
    using coin_mod_val [OF assms] by blast
  show ?thesis using q r coin_div_ok [OF assms(1) q] coin_div_val [OF assms(2) q] by simp
qed

theorem coin_div_mod_exact_witness:
  "\<exists>q r. coin_div (Coin 10 5) 3 = Inr q \<and> coin_mod (Coin 10 5) 3 = Inr r \<and> coin_val q * 3 + coin_val r = 1000000005"
  using coin_div_mod_exact [of "Coin 10 5" 3] by (auto simp: coin_ok_def fractions_in_whole_def coin_val_def)

text \<open>The bound is needed: half of two hundred billion coins, computed by the division
  the rewards use, is off because the remainder times 10^8 wraps around.\<close>

theorem coin_div_wraps:
  "coin_div (Coin 200000000000 0) 400000000000 = Inr (Coin 0 3883139)
    \<and> coin_val (Coin 200000000000 0) div unat (400000000000 :: u64) = 50000000"
  by (simp add: coin_div_def fractions_in_whole_def coin_val_def)

end
