(* ===== verification/Messages.thy ===== *)
theory Messages
  imports Coin
begin

text \<open>
  The messages of libblockchain/message.idl and types.idl that the ledger stores or executes,
  field by field, and the record of functions the ledger takes from outside the repository:
  the hash, key and signature functions of mesh.pp and the serialisers and type numbers that
  belt.pp generates from the .idl files.
\<close>

section \<open>Enumerations\<close>

datatype node_type = NT_blockchain | NT_channel | NT_storage

datatype update_type = UT_store | UT_remove

datatype reward_type = RT_initial | RT_miner | RT_author | RT_channel | RT_storage | RT_sponsored_return

section \<open>Actions\<close>

record transfer =
  tf_from :: string
  tf_to :: string
  tf_amount :: coin
  tf_message :: string

text \<open>A \<open>Set UInt64\<close> is listed in its iteration order; it has no duplicates.\<close>

record authorization_update =
  au_update_type :: update_type
  au_owner :: string
  au_actor :: string
  au_action_ids :: "u64 list"

record file_action =
  fl_uri :: string
  fl_author_addresses :: "string list"

record content_unit =
  cu_uri :: string
  cu_content_id :: u64
  cu_author_addresses :: "string list"
  cu_channel_address :: string
  cu_file_uris :: "string list"

record content =
  ct_content_id :: u64
  ct_channel_address :: string
  ct_content_unit_uris :: "string list"

record role =
  rl_node_address :: string
  rl_node_type :: node_type

record storage_update =
  su_status :: update_type
  su_file_uri :: string
  su_storage_address :: string

record statistics_count =
  sc_count :: u64
  sc_peer_address :: string

record statistics_file =
  sf_file_uri :: string
  sf_unit_uri :: string
  sf_count_items :: "statistics_count list"

record service_statistics =
  ss_server_address :: string
  ss_start_time_point :: time
  ss_end_time_point :: time
  ss_file_items :: "statistics_file list"

record sponsor_content_unit =
  sp_sponsor_address :: string
  sp_uri :: string
  sp_start_time_point :: time
  sp_hours :: u64
  sp_amount :: coin

record cancel_sponsor_content_unit =
  cs_sponsor_address :: string
  cs_uri :: string
  cs_transaction_hash :: string

text \<open>What peers also send each other in signed transactions and never store in a block.\<close>

datatype ip_type = IP_any | IP_ipv4 | IP_ipv6

record ip_destination =
  ip_port :: "16 word"
  ip_dest_address :: string

record ip_address =
  ip_kind :: ip_type
  ip_local :: ip_destination
  ip_remote :: ip_destination

record address_info =
  ai_node_address :: string
  ai_ip_address :: ip_address
  ai_ssl_ip_address :: ip_address

record letter =
  lt_from :: string
  lt_to :: string
  lt_message :: string

record storage_update_command =
  uc_status :: update_type
  uc_file_uri :: string
  uc_storage_address :: string
  uc_channel_address :: string

datatype package =
    AddressInfo address_info
  | Letter letter
  | StorageUpdateCommand storage_update_command
  | Unknown_package

text \<open>The \<open>Object action\<close> of a transaction; a package of any other type is
  \<open>Other_action\<close>, the \<open>default\<close> of every \<open>switch (package.type())\<close>.\<close>

datatype action =
    Transfer transfer
  | AuthorizationUpdate authorization_update
  | File file_action
  | ContentUnit content_unit
  | Content content
  | Role role
  | StorageUpdate storage_update
  | ServiceStatistics service_statistics
  | SponsorContentUnit sponsor_content_unit
  | CancelSponsorContentUnit cancel_sponsor_content_unit
  | is_Other_action: Other_action package

text \<open>Message types that carry an authorisation id (\<open>T::rtt\<close>).\<close>

datatype kind =
    K_Transfer | K_AuthorizationUpdate | K_File | K_ContentUnit | K_Content | K_Role
  | K_StorageUpdate | K_ServiceStatistics | K_SponsorContentUnit | K_CancelSponsorContentUnit
  | K_AddressInfo | K_Letter | K_StorageUpdateCommand | K_Block

section \<open>Transactions and blocks\<close>

record transaction =
  tx_creation :: time
  tx_expiry :: time
  tx_fee :: coin
  tx_action :: action

record authority =
  at_address :: string
  at_signature :: string

record signed_transaction =
  transaction_details :: transaction
  authorizations :: "authority list"

record reward =
  rw_to :: string
  rw_amount :: coin
  rw_type :: reward_type

record block_header =
  block_number :: u64
  delta :: u64
  c_sum :: u64
  c_const :: u64
  prev_hash :: string
  time_signed :: time

record block_header_extended = block_header +
  block_hash :: string

record block =
  header :: block_header
  rewards :: "reward list"
  signed_transactions :: "signed_transaction list"

record signed_block =
  block_details :: block
  authorization :: authority

section \<open>Functions from outside the repository\<close>

text \<open>
  \<open>x_hash\<close>, \<open>x_from_base58\<close>, \<open>x_distance\<close>: mesh.pp's \<open>hash\<close>,
  \<open>from_base58\<close> (which may throw) and \<open>distance\<close>. \<open>x_public_key_ok\<close>: whether the
  constructor of \<open>meshpp::public_key\<close> accepts a string; \<open>x_signature_ok\<close>: whether
  the constructor of \<open>meshpp::signature\<close> accepts key, message and signature.
  \<open>x_set_order\<close>: the sequence in which a \<open>std::unordered_set\<close> is iterated after the
  given elements were inserted into it, which the standard leaves open.
  \<open>x_rtt\<close>: the generated type numbers. The others are the generated \<open>to_string\<close>.
\<close>

record ext =
  x_hash :: "string \<Rightarrow> string"
  x_from_base58 :: "string \<Rightarrow> string res"
  x_public_key_ok :: "string \<Rightarrow> bool"
  x_signature_ok :: "string \<Rightarrow> string \<Rightarrow> string \<Rightarrow> bool"
  x_distance :: "string \<Rightarrow> string \<Rightarrow> u64"
  x_transaction_string :: "transaction \<Rightarrow> string"
  x_signed_transaction_string :: "signed_transaction \<Rightarrow> string"
  x_block_string :: "block \<Rightarrow> string"
  x_set_order :: "string list \<Rightarrow> string list"
  x_rtt :: "kind \<Rightarrow> u64"
  x_node_type_string :: "node_type \<Rightarrow> string"

text \<open>What the code relies on in \<open>x_set_order\<close>: every inserted element is visited.\<close>

definition set_order_ok :: "ext \<Rightarrow> bool" where
  "set_order_ok E \<longleftrightarrow> (\<forall>xs. set (x_set_order E xs) = set xs)"

text \<open>A concrete instance, for evaluating the model on examples.\<close>

definition sample_rtt :: "kind \<Rightarrow> u64" where
  "sample_rtt k = (case k of K_Transfer \<Rightarrow> 8 | K_AuthorizationUpdate \<Rightarrow> 9 | K_File \<Rightarrow> 24
     | K_ContentUnit \<Rightarrow> 25 | K_Content \<Rightarrow> 26 | K_Role \<Rightarrow> 27 | K_StorageUpdate \<Rightarrow> 29
     | K_ServiceStatistics \<Rightarrow> 30 | K_SponsorContentUnit \<Rightarrow> 33 | K_CancelSponsorContentUnit \<Rightarrow> 34
     | K_AddressInfo \<Rightarrow> 28 | K_Letter \<Rightarrow> 90 | K_StorageUpdateCommand \<Rightarrow> 89 | K_Block \<Rightarrow> 5)"

definition sample_ext :: ext where
  "sample_ext = \<lparr> x_hash = (\<lambda>s. CHR ''#'' # s),
     x_from_base58 = (\<lambda>s. Inr (replicate 32 (CHR ''x''))),
     x_public_key_ok = (\<lambda>s. s \<noteq> []),
     x_signature_ok = (\<lambda>k m g. k \<noteq> [] \<and> g \<noteq> []),
     x_distance = (\<lambda>a b. of_nat (length a + length b)),
     x_transaction_string = (\<lambda>t. to_string_u64 (whole (tx_fee t))),
     x_signed_transaction_string =
       (\<lambda>s. to_string_u64 (whole (tx_fee (transaction_details s))) @ concat (map at_address (authorizations s))),
     x_block_string = (\<lambda>b. to_string_u64 (block_number (header b))),
     x_set_order = remdups,
     x_rtt = sample_rtt,
     x_node_type_string = (\<lambda>nt. case nt of NT_blockchain \<Rightarrow> ''b'' | NT_channel \<Rightarrow> ''c'' | NT_storage \<Rightarrow> ''s'') \<rparr>"

lemma set_order_ok_sample [simp]: "set_order_ok sample_ext"
  by (simp add: set_order_ok_def sample_ext_def)

text \<open>\<open>meshpp::public_key pb_key(s);\<close> used only for its check.\<close>

definition check_public_key :: "ext \<Rightarrow> string \<Rightarrow> 'a res \<Rightarrow> 'a res" where
  "check_public_key E s k = throw_if (\<not> x_public_key_ok E s) (Public_key_error s) k"

lemma check_public_key_Inr [result_simps]:
  "check_public_key E s k = Inr y \<longleftrightarrow> x_public_key_ok E s \<and> k = Inr y"
  by (auto simp: check_public_key_def throw_if_def)

text \<open>The \<open>meshpp::from_base58(uri).length() != 32\<close> check of the uri fields.\<close>

definition check_hash_uri :: "ext \<Rightarrow> string \<Rightarrow> exn \<Rightarrow> 'a res \<Rightarrow> 'a res" where
  "check_hash_uri E uri e k = bind_res (x_from_base58 E uri) (\<lambda>h. throw_if (length h \<noteq> 32) e k)"

definition hash_uri_ok :: "ext \<Rightarrow> string \<Rightarrow> bool" where
  "hash_uri_ok E uri \<longleftrightarrow> (\<exists>h. x_from_base58 E uri = Inr h \<and> length h = 32)"

lemma check_hash_uri_Inr [result_simps]:
  "check_hash_uri E uri e k = Inr y \<longleftrightarrow> hash_uri_ok E uri \<and> k = Inr y"
  by (auto simp: check_hash_uri_def hash_uri_ok_def result_simps)

definition front_address :: "signed_transaction \<Rightarrow> string res" where
  "front_address st = (case authorizations st of [] \<Rightarrow> Inl Undefined_behaviour
     | a # _ \<Rightarrow> Inr (at_address a))"

definition back_address :: "signed_transaction \<Rightarrow> string res" where
  "back_address st = (if authorizations st = [] then Inl Undefined_behaviour
     else Inr (at_address (last (authorizations st))))"

end
