(* ===== verification/Balances.thy ===== *)
theory Balances
  imports Messages
begin

text \<open>
  The interface through which transfers, fees and rewards move money: increase one balance,
  decrease another. The locale states what a store of balances promises; the lemmas on moving
  an amount, on its conservation and on undoing it are proved once from these promises and
  reused for every action. Ledger\_State interprets it on the operations of state.cpp.
\<close>

locale balances =
  fixes bal :: "'s \<Rightarrow> string \<Rightarrow> coin"
    and upd :: "string \<Rightarrow> coin \<Rightarrow> 's \<Rightarrow> 's"
    and inc :: "string \<Rightarrow> coin \<Rightarrow> 's \<Rightarrow> 's res"
    and dec :: "string \<Rightarrow> coin \<Rightarrow> 's \<Rightarrow> 's res"
    and inv :: "'s \<Rightarrow> bool"
    and total :: "'s \<Rightarrow> nat"
  assumes bal_ok: "inv s \<Longrightarrow> coin_ok (bal s k)"
    and inv_upd: "inv s \<Longrightarrow> coin_ok a \<Longrightarrow> inv (upd k a s)"
    and bal_upd: "bal (upd k a s) l = (if l = k then a else bal s l)"
    and upd_upd: "upd k b (upd k a s) = upd k b s"
    and upd_commute: "k \<noteq> l \<Longrightarrow> upd k a (upd l b s) = upd l b (upd k a s)"
    and upd_self: "inv s \<Longrightarrow> upd k (bal s k) s = s"
    and total_upd: "inv s \<Longrightarrow> total (upd k a s) + coin_val (bal s k) = total s + coin_val a"
    and inc_eq: "inv s \<Longrightarrow> coin_ok a \<Longrightarrow> inc k a s = Inr (upd k (coin_plus (bal s k) a) s)"
    and dec_eq: "inv s \<Longrightarrow> coin_ok a \<Longrightarrow> dec k a s =
      (if bal s k < a then Inl (Not_enough_balance k (coin_pair (bal s k)) (coin_pair a))
       else bind_res (coin_minus (bal s k) a) (\<lambda>d. Inr (upd k d s)))"
begin

lemma bal_le_total: "inv s \<Longrightarrow> coin_val (bal s k) \<le> total s"
  using total_upd [of s k coin_zero] by simp

lemma two_bals_le_total:
  assumes "inv s" "k \<noteq> l"
  shows "coin_val (bal s k) + coin_val (bal s l) \<le> total s"
  using bal_le_total [of "upd k coin_zero s" l] total_upd [OF assms(1), of k coin_zero] assms
  by (simp add: inv_upd bal_upd)

lemma inc_spec:
  assumes "inv s" "coin_ok a" "coin_val (bal s k) + coin_val a < val_limit" "inc k a s = Inr t"
  shows "inv t" "total t = total s + coin_val a"
    "\<And>l. coin_val (bal t l) = coin_val (bal s l) + (if l = k then coin_val a else 0)"
proof -
  have t: "t = upd k (coin_plus (bal s k) a) s" using assms by (simp add: inc_eq)
  have v: "coin_val (coin_plus (bal s k) a) = coin_val (bal s k) + coin_val a"
    using assms bal_ok by (simp add: coin_plus_val)
  show "inv t" using t assms by (simp add: inv_upd bal_ok coin_plus_ok)
  show "total t = total s + coin_val a" using total_upd [OF assms(1), of k "coin_plus (bal s k) a"] t v by simp
  show "coin_val (bal t l) = coin_val (bal s l) + (if l = k then coin_val a else 0)" for l
    using t v by (simp add: bal_upd)
qed

lemma dec_spec:
  assumes "inv s" "coin_ok a" "dec k a s = Inr t"
  shows "inv t" "total s = total t + coin_val a" "coin_val a \<le> coin_val (bal s k)"
    "\<And>l. coin_val (bal s l) = coin_val (bal t l) + (if l = k then coin_val a else 0)"
proof -
  obtain d where d: "coin_minus (bal s k) a = Inr d" "t = upd k d s"
    using assms by (auto simp: dec_eq result_simps split: if_splits)
  have v: "coin_ok d" "coin_val a \<le> coin_val (bal s k)" "coin_val d = coin_val (bal s k) - coin_val a"
    using d(1) coin_minus_eq [OF bal_ok [OF assms(1)] assms(2)] by auto
  show "inv t" using d v assms by (simp add: inv_upd)
  show "coin_val a \<le> coin_val (bal s k)" by (rule v(2))
  show "total s = total t + coin_val a" using total_upd [OF assms(1), of k d] d v by simp
  show "coin_val (bal s l) = coin_val (bal t l) + (if l = k then coin_val a else 0)" for l
    using d v by (simp add: bal_upd)
qed

text \<open>A debit succeeds exactly when the balance covers it.\<close>

lemma dec_total:
  assumes "inv s" "coin_ok a" "coin_val a \<le> coin_val (bal s k)"
  shows "\<exists>t. dec k a s = Inr t"
proof -
  obtain d where "coin_minus (bal s k) a = Inr d"
    using coin_minus_total [OF bal_ok [OF assms(1)] assms(2,3)] by blast
  then show ?thesis
    using assms coin_less_val [OF bal_ok [OF assms(1)] assms(2)] by (simp add: dec_eq)
qed

lemma dec_inc:
  assumes "inv s" "coin_ok a" "dec k a s = Inr t"
  shows "inc k a t = Inr s"
proof -
  obtain d where d: "coin_minus (bal s k) a = Inr d" "t = upd k d s"
    using assms by (auto simp: dec_eq result_simps split: if_splits)
  have "coin_plus d a = bal s k"
    using coin_minus_plus [OF bal_ok [OF assms(1)] assms(2) d(1)] .
  moreover have "inv t" using dec_spec(1) assms by blast
  ultimately show ?thesis using assms d by (simp add: inc_eq bal_upd upd_upd upd_self)
qed

lemma inc_dec:
  assumes "inv s" "coin_ok a" "coin_val (bal s k) + coin_val a < val_limit" "inc k a s = Inr t"
  shows "dec k a t = Inr s"
proof -
  let ?b = "coin_plus (bal s k) a"
  have t: "t = upd k ?b s" using assms by (simp add: inc_eq)
  have v: "coin_val ?b = coin_val (bal s k) + coin_val a"
    using coin_plus_val [OF bal_ok [OF assms(1)] assms(2,3)] .
  have "inv t" using inc_spec(1) assms by blast
  moreover have "\<not> ?b < a"
    using v assms coin_less_val [OF coin_plus_ok [OF bal_ok [OF assms(1)] assms(2)] assms(2)] by simp
  moreover have "coin_minus ?b a = Inr (bal s k)"
    using coin_plus_minus [OF bal_ok [OF assms(1)] assms(2,3)] .
  ultimately show ?thesis using assms t by (simp add: dec_eq bal_upd upd_upd upd_self)
qed

text \<open>Crediting \<open>to\<close> and then debiting \<open>from\<close>: the order in which transfers and fees
  are executed. The bound on the total supply keeps the credit from wrapping.\<close>

lemma move_spec:
  assumes s: "inv s" "2 * total s < val_limit" and a: "coin_ok a" "coin_val a \<le> coin_val (bal s from)"
  shows "\<exists>t u. inc to a s = Inr t \<and> dec from a t = Inr u \<and> inv t \<and> inv u \<and> total u = total s
    \<and> coin_val (bal s to) + coin_val a < val_limit
    \<and> (\<forall>k. coin_val (bal u k) + (if k = from then coin_val a else 0)
         = coin_val (bal s k) + (if k = to then coin_val a else 0))"
proof -
  have lim: "coin_val (bal s to) + coin_val a < val_limit"
    using bal_le_total [OF s(1), of to] bal_le_total [OF s(1), of "from"] a(2) s(2) by linarith
  obtain t where t: "inc to a s = Inr t" using inc_eq s(1) a(1) by blast
  note ti = inc_spec [OF s(1) a(1) lim t]
  have "coin_val a \<le> coin_val (bal t from)" using a(2) ti(3) by simp
  then obtain u where u: "dec from a t = Inr u" using dec_total ti(1) a(1) by blast
  note ud = dec_spec [OF ti(1) a(1) u]
  have "\<forall>k. coin_val (bal u k) + (if k = from then coin_val a else 0)
         = coin_val (bal s k) + (if k = to then coin_val a else 0)"
    using ti(3) ud(4) by metis
  then show ?thesis using t u ti ud lim by auto
qed

text \<open>The undo of a transfer: credit \<open>from\<close>, debit \<open>to\<close>.\<close>

lemma move_undo:
  assumes "inv s" "coin_ok a" "coin_val (bal s to) + coin_val a < val_limit"
    and "inc to a s = Inr t" "dec from a t = Inr u"
  shows "bind_res (inc from a u) (dec to a) = Inr s"
  using dec_inc [OF inc_spec(1) [OF assms(1-4)] assms(2,5)] inc_dec [OF assms(1-4)] by simp

text \<open>The undo of a fee works in the other order: debit the receiver, then credit the payer.\<close>

lemma move_undo_rev:
  assumes s: "inv s" "2 * total s < val_limit" and a: "coin_ok a" "coin_val a \<le> coin_val (bal s from)"
    and m: "inc to a s = Inr t" "dec from a t = Inr u"
  shows "bind_res (dec to a u) (inc from a) = Inr s"
proof -
  have lim: "coin_val (bal s to) + coin_val a < val_limit"
    using bal_le_total [OF s(1), of to] bal_le_total [OF s(1), of "from"] a(2) s(2) by linarith
  note ti = inc_spec [OF s(1) a(1) lim m(1)] and ud = dec_spec [OF inc_spec(1) [OF s(1) a(1) lim m(1)] a(1) m(2)]
  show ?thesis
  proof (cases "to = from")
    case True
    then have "u = s" using inc_dec [OF s(1) a(1) lim m(1)] m(2) by simp
    moreover obtain v where "dec from a s = Inr v" using dec_total [OF s(1) a] by blast
    ultimately show ?thesis using dec_inc [OF s(1) a(1)] True by simp
  next
    case False
    have "coin_val a \<le> coin_val (bal u to)"
      using ti(3) ud(4) [of to] False by simp
    then obtain v where v: "dec to a u = Inr v" using dec_total [OF ud(1) a(1)] by blast
    note vd = dec_spec [OF ud(1) a(1) v]
    obtain d where d: "coin_minus (bal t from) a = Inr d" "u = upd from d t"
      using m(2) a ti(1) by (auto simp: dec_eq result_simps split: if_splits)
    obtain e where e: "coin_minus (bal u to) a = Inr e" "v = upd to e u"
      using v a ud(1) by (auto simp: dec_eq result_simps split: if_splits)
    have t: "t = upd to (coin_plus (bal s to) a) s" using m(1) s a by (simp add: inc_eq)
    have "bal u to = coin_plus (bal s to) a" using d(2) t False by (simp add: bal_upd)
    then have e': "e = bal s to"
      using e(1) coin_plus_minus [OF bal_ok [OF s(1)] a(1) lim] by simp
    have "v = upd from d s"
      using e(2) d(2) t False e' by (simp add: upd_commute upd_upd upd_self s(1))
    moreover have "coin_plus d a = bal s from"
      using coin_minus_plus [OF bal_ok [OF ti(1)] a(1) d(1)] t False by (simp add: bal_upd)
    ultimately have "inc from a v = Inr s"
      using a vd(1) by (simp add: inc_eq bal_upd upd_upd upd_self s(1))
    then show ?thesis using v by simp
  qed
qed

end

end
