(* ===== verification/Ledger_State.thy ===== *)
theory Ledger_State
  imports Balances
begin

text \<open>
  libblockchain/state.cpp: the account balances, the balance of the node's own account as the
  chain knows it, and the roles. A \<open>meshpp::map_loader\<close> is modelled by its contents, a map.
  The address behind \<open>pimpl_node->front_public_key()\<close> is the parameter \<open>own\<close>.
\<close>

section \<open>State and operations\<close>

datatype state_layer = Layer_chain | Layer_pool

record state =
  m_accounts :: "string \<rightharpoonup> coin"
  m_node_accounts :: "string \<rightharpoonup> coin"
  m_roles :: "string \<rightharpoonup> role"

definition state_clear :: "state \<Rightarrow> state" where
  "state_clear s = s\<lparr>m_accounts := Map.empty, m_node_accounts := Map.empty, m_roles := Map.empty\<rparr>"

definition get_balance :: "string \<Rightarrow> state_layer \<Rightarrow> state \<Rightarrow> coin" where
  "get_balance key layer s =
     (if layer = Layer_pool \<and> key \<in> dom (m_accounts s) then the (m_accounts s key)
      else if layer = Layer_chain \<and> key \<in> dom (m_node_accounts s) then the (m_node_accounts s key)
      else coin_zero)"

definition set_balance :: "string \<Rightarrow> string \<Rightarrow> coin \<Rightarrow> state_layer \<Rightarrow> state \<Rightarrow> state" where
  "set_balance own key amount layer s =
     (let entry = (if coin_empty amount then None else Some amount);
          s1 = s\<lparr>m_accounts := (m_accounts s)(key := entry)\<rparr>
      in if layer = Layer_chain \<and> own = key
         then s1\<lparr>m_node_accounts := (m_node_accounts s1)(key := entry)\<rparr>
         else s1)"

definition increase_balance :: "string \<Rightarrow> string \<Rightarrow> coin \<Rightarrow> state_layer \<Rightarrow> state \<Rightarrow> state res" where
  "increase_balance own key amount layer s =
     (if coin_empty amount then Inr s
      else bind_res (coin_of (get_balance key Layer_pool s)) (\<lambda>balance.
             Inr (set_balance own key (coin_plus balance amount) layer s)))"

definition decrease_balance :: "string \<Rightarrow> string \<Rightarrow> coin \<Rightarrow> state_layer \<Rightarrow> state \<Rightarrow> state res" where
  "decrease_balance own key amount layer s =
     (if coin_empty amount then Inr s
      else bind_res (coin_of (get_balance key Layer_pool s)) (\<lambda>balance.
             throw_if (balance < amount) (Not_enough_balance key (coin_pair balance) (coin_pair amount))
               (bind_res (coin_minus balance amount) (\<lambda>rest.
                  Inr (set_balance own key rest layer s)))))"

definition get_role :: "string \<Rightarrow> state \<Rightarrow> node_type option" where
  "get_role nodeid s = map_option rl_node_type (m_roles s nodeid)"

definition insert_role :: "role \<Rightarrow> state \<Rightarrow> state res" where
  "insert_role r s =
     throw_if (rl_node_address r \<in> dom (m_roles s)) (Logic_error ''role already exists'')
       (Inr (s\<lparr>m_roles := (m_roles s)(rl_node_address r \<mapsto> r)\<rparr>))"

definition remove_role :: "string \<Rightarrow> state \<Rightarrow> state" where
  "remove_role nodeid s = s\<lparr>m_roles := (m_roles s)(nodeid := None)\<rparr>"

text \<open>\<open>keys\<close> lists the key set of the role loader in its iteration order.\<close>

definition get_nodes :: "node_type \<Rightarrow> string list \<Rightarrow> state \<Rightarrow> string list" where
  "get_nodes nt keys s = filter (\<lambda>node_id. get_role node_id s = Some nt) keys"

section \<open>Well-formed states\<close>

text \<open>Accounts without money have no entry, every stored amount respects the bound on the
  fraction, and only the node's own balance is mirrored at the chain layer.\<close>

definition state_wf :: "string \<Rightarrow> state \<Rightarrow> bool" where
  "state_wf own s \<longleftrightarrow> finite (dom (m_accounts s))
     \<and> (\<forall>k c. m_accounts s k = Some c \<longrightarrow> coin_ok c \<and> \<not> coin_empty c)
     \<and> dom (m_node_accounts s) \<subseteq> {own}"

definition synced :: "string \<Rightarrow> state \<Rightarrow> bool" where
  "synced own s \<longleftrightarrow> m_node_accounts s own = m_accounts s own"

definition total_supply :: "state \<Rightarrow> nat" where
  "total_supply s = map_total coin_val (m_accounts s)"

named_theorems state_simps \<open>what the balance operations change\<close>

lemma get_balance_pool: "get_balance k Layer_pool s = (case m_accounts s k of None \<Rightarrow> coin_zero | Some c \<Rightarrow> c)"
  by (auto simp: get_balance_def split: option.splits)

lemma get_balance_chain: "get_balance k Layer_chain s = (case m_node_accounts s k of None \<Rightarrow> coin_zero | Some c \<Rightarrow> c)"
  by (auto simp: get_balance_def split: option.splits)

lemma get_set_balance [state_simps]:
  "get_balance k' Layer_pool (set_balance own k a layer s) = (if k' = k then a else get_balance k' Layer_pool s)"
  by (auto simp: get_balance_pool set_balance_def Let_def coin_empty_iff split: option.splits)

lemma set_balance_roles [state_simps, simp]: "m_roles (set_balance own k a layer s) = m_roles s"
  by (simp add: set_balance_def Let_def)

lemma get_role_set_balance [state_simps, simp]: "get_role n (set_balance own k a layer s) = get_role n s"
  by (simp add: get_role_def)

lemma set_balance_wf:
  "state_wf own s \<Longrightarrow> coin_ok a \<Longrightarrow> state_wf own (set_balance own k a layer s)"
  by (auto simp: state_wf_def set_balance_def Let_def split: if_splits)

lemma set_balance_set_balance:
  "set_balance own k b layer (set_balance own k a layer s) = set_balance own k b layer s"
  by (auto simp: set_balance_def Let_def)

lemma set_balance_commute:
  "k \<noteq> l \<Longrightarrow> set_balance own k a layer (set_balance own l b layer s)
     = set_balance own l b layer (set_balance own k a layer s)"
  by (auto simp: set_balance_def Let_def fun_upd_twist)

lemma set_balance_self:
  assumes "state_wf own s" "layer = Layer_pool \<or> synced own s"
  shows "set_balance own k (get_balance k Layer_pool s) layer s = s"
proof -
  have "(if coin_empty (get_balance k Layer_pool s) then None else Some (get_balance k Layer_pool s)) = m_accounts s k"
    using assms(1) by (auto simp: get_balance_pool state_wf_def split: option.splits)
  moreover have "(m_node_accounts s)(own := m_accounts s own) = m_node_accounts s"
    if "layer = Layer_chain"
    using assms(2) that by (auto simp: synced_def)
  ultimately show ?thesis by (auto simp: set_balance_def Let_def)
qed

lemma set_balance_synced:
  "layer = Layer_chain \<or> k \<noteq> own \<Longrightarrow> synced own s \<Longrightarrow> synced own (set_balance own k a layer s)"
  by (auto simp: synced_def set_balance_def Let_def)

lemma balance_ok [simp]: "state_wf own s \<Longrightarrow> coin_ok (get_balance k Layer_pool s)"
  by (auto simp: get_balance_pool state_wf_def split: option.splits)

lemma supply_set_balance:
  assumes "state_wf own s"
  shows "total_supply (set_balance own k a layer s) + coin_val (get_balance k Layer_pool s) = total_supply s + coin_val a"
proof -
  have fin: "finite (dom (m_accounts s))" using assms by (simp add: state_wf_def)
  have acc: "m_accounts (set_balance own k a layer s)
      = (m_accounts s)(k := if coin_empty a then None else Some a)"
    by (simp add: set_balance_def Let_def)
  show ?thesis
  proof (cases "coin_empty a")
    case True
    then have "coin_val a = 0" by (simp add: coin_empty_val)
    then show ?thesis
      using map_total_del [OF fin, of coin_val k] True acc
      by (simp add: total_supply_def get_balance_pool split: option.splits)
  next
    case False
    then show ?thesis
      using map_total_upd [OF fin, of coin_val k a] acc
      by (simp add: total_supply_def get_balance_pool split: option.splits)
  qed
qed

lemma balance_le_supply: "state_wf own s \<Longrightarrow> coin_val (get_balance k Layer_pool s) \<le> total_supply s"
  using supply_set_balance [of own s k coin_zero Layer_pool] by simp

lemma two_balances_le_supply:
  assumes "state_wf own s" "k \<noteq> l"
  shows "coin_val (get_balance k Layer_pool s) + coin_val (get_balance l Layer_pool s) \<le> total_supply s"
proof -
  let ?t = "set_balance own k coin_zero Layer_pool s"
  have "state_wf own ?t" using assms(1) by (simp add: set_balance_wf)
  then have "coin_val (get_balance l Layer_pool ?t) \<le> total_supply ?t" by (rule balance_le_supply)
  then show ?thesis
    using supply_set_balance [OF assms(1), of k coin_zero Layer_pool] assms(2)
    by (simp add: get_set_balance)
qed

section \<open>The balance interface\<close>

text \<open>State of one layer in which every balance operation has an inverse: at the chain layer
  the mirrored balance of the node must agree with its account.\<close>

definition layer_wf :: "string \<Rightarrow> state_layer \<Rightarrow> state \<Rightarrow> bool" where
  "layer_wf own layer s \<longleftrightarrow> state_wf own s \<and> (layer = Layer_chain \<longrightarrow> synced own s)"

definition money_ok :: "string \<Rightarrow> state_layer \<Rightarrow> state \<Rightarrow> bool" where
  "money_ok own layer s \<longleftrightarrow> layer_wf own layer s \<and> 2 * total_supply s < val_limit"

lemma layer_wf_state: "layer_wf own layer s \<Longrightarrow> state_wf own s"
  by (simp add: layer_wf_def)

lemma layer_wf_set_balance:
  "layer_wf own layer s \<Longrightarrow> coin_ok a \<Longrightarrow> layer_wf own layer (set_balance own k a layer s)"
  by (cases layer) (auto simp: layer_wf_def set_balance_wf set_balance_synced)

lemma coin_plus_zero: "coin_empty a \<Longrightarrow> coin_ok b \<Longrightarrow> coin_plus b a = b"
  by (cases b) (auto simp: coin_empty_def coin_plus_def coin_ok_def)

lemma coin_minus_zero: "coin_empty a \<Longrightarrow> coin_ok b \<Longrightarrow> \<not> b < a \<and> coin_minus b a = Inr b"
  by (simp add: coin_less_val coin_minus_eq coin_empty_iff)

lemma layer_set_balance_self:
  "layer_wf own layer s \<Longrightarrow> set_balance own k (get_balance k Layer_pool s) layer s = s"
  by (cases layer) (auto simp: layer_wf_def intro!: set_balance_self)

lemma increase_balance_eq:
  assumes "layer_wf own layer s" "coin_ok a"
  shows "increase_balance own k a layer s
    = Inr (set_balance own k (coin_plus (get_balance k Layer_pool s) a) layer s)"
proof (cases "coin_empty a")
  case True
  then have "set_balance own k (coin_plus (get_balance k Layer_pool s) a) layer s = s"
    using assms balance_ok [OF layer_wf_state [OF assms(1)]]
    by (simp add: coin_plus_zero layer_set_balance_self)
  then show ?thesis using True by (simp add: increase_balance_def)
next
  case False
  then show ?thesis
    using balance_ok [OF layer_wf_state [OF assms(1)], of k] by (simp add: increase_balance_def)
qed

lemma decrease_balance_eq:
  assumes "layer_wf own layer s" "coin_ok a"
  shows "decrease_balance own k a layer s =
      (if get_balance k Layer_pool s < a
       then Inl (Not_enough_balance k (coin_pair (get_balance k Layer_pool s)) (coin_pair a))
       else bind_res (coin_minus (get_balance k Layer_pool s) a) (\<lambda>d. Inr (set_balance own k d layer s)))"
proof (cases "coin_empty a")
  case True
  have ok: "coin_ok (get_balance k Layer_pool s)"
    using balance_ok [OF layer_wf_state [OF assms(1)]] .
  have "set_balance own k (get_balance k Layer_pool s) layer s = s"
    using assms(1) by (rule layer_set_balance_self)
  then show ?thesis using True coin_minus_zero [OF True ok] by (simp add: decrease_balance_def)
next
  case False
  then show ?thesis
    using balance_ok [OF layer_wf_state [OF assms(1)], of k]
    by (simp add: decrease_balance_def throw_if_def)
qed

interpretation ledger: balances "\<lambda>s k. get_balance k Layer_pool s"
  "\<lambda>k a. set_balance own k a layer" "\<lambda>k a. increase_balance own k a layer"
  "\<lambda>k a. decrease_balance own k a layer" "layer_wf own layer" total_supply for own layer
proof unfold_locales
  fix s k l a b
  assume wf: "layer_wf own layer s"
  show "coin_ok (get_balance k Layer_pool s)" using balance_ok [OF layer_wf_state [OF wf]] .
  show "coin_ok a \<Longrightarrow> layer_wf own layer (set_balance own k a layer s)"
    using wf by (rule layer_wf_set_balance)
  show "set_balance own k (get_balance k Layer_pool s) layer s = s"
    using wf by (rule layer_set_balance_self)
  show "total_supply (set_balance own k a layer s) + coin_val (get_balance k Layer_pool s)
      = total_supply s + coin_val a"
    using layer_wf_state [OF wf] by (rule supply_set_balance)
next
  fix s k l a b
  show "get_balance l Layer_pool (set_balance own k a layer s) = (if l = k then a else get_balance l Layer_pool s)"
    by (rule get_set_balance)
  show "set_balance own k b layer (set_balance own k a layer s) = set_balance own k b layer s"
    by (rule set_balance_set_balance)
  show "k \<noteq> l \<Longrightarrow> set_balance own k a layer (set_balance own l b layer s)
      = set_balance own l b layer (set_balance own k a layer s)"
    by (rule set_balance_commute)
qed (simp_all add: increase_balance_eq decrease_balance_eq)

text \<open>Balance operations leave the roles alone.\<close>

lemma increase_balance_roles [simp]: "increase_balance own k a layer s = Inr t \<Longrightarrow> m_roles t = m_roles s"
  by (auto simp: increase_balance_def result_simps split: if_splits)

lemma decrease_balance_roles [simp]: "decrease_balance own k a layer s = Inr t \<Longrightarrow> m_roles t = m_roles s"
  by (auto simp: decrease_balance_def result_simps split: if_splits)

text \<open>Roles are inserted once and removed without trace.\<close>

lemma insert_remove_role: "insert_role r s = Inr t \<Longrightarrow> remove_role (rl_node_address r) t = s"
  by (auto simp: insert_role_def remove_role_def result_simps domIff fun_upd_idem)

lemma insert_role_frame:
  "insert_role r s = Inr t \<Longrightarrow> m_accounts t = m_accounts s \<and> m_node_accounts t = m_node_accounts s"
  by (auto simp: insert_role_def result_simps)

lemma get_role_insert:
  "insert_role r s = Inr t \<Longrightarrow>
   get_role n t = (if n = rl_node_address r then Some (rl_node_type r) else get_role n s)"
  by (auto simp: insert_role_def get_role_def result_simps)

end
