(* ===== verification/Authority_Manager.thy ===== *)
theory Authority_Manager
  imports Messages "HOL-Library.AList_Mapping"
begin

text \<open>
  libblockchain/authority\_manager.cpp: which key may act for which account. An account is
  absent from the store as long as it is its own and only authority; the two \<open>smart\<close>
  operations materialise such a default record before an update and drop it afterwards.
\<close>

section \<open>State and operations\<close>

record account_authorization =
  default_full :: bool
  action_ids :: "u64 set"

type_synonym account_authorizations = "(string, account_authorization) mapping"

type_synonym authority_store = "string \<rightharpoonup> account_authorizations"

definition full_record :: account_authorization where
  "full_record = \<lparr>default_full = True, action_ids = {}\<rparr>"

definition dummy_record :: account_authorization where
  "dummy_record = \<lparr>default_full = False, action_ids = {}\<rparr>"

definition get_record :: "string \<Rightarrow> string \<Rightarrow> authority_store \<Rightarrow> account_authorization res" where
  "get_record address auth A =
     (case A address of
        None \<Rightarrow> Inr (if auth = address then full_record else dummy_record)
      | Some auths \<Rightarrow>
          (case Mapping.lookup auths auth of
             None \<Rightarrow> throw_if (auth = address)
                       (Logic_error ''authority_manager::get_record: authority == address'') (Inr dummy_record)
           | Some r \<Rightarrow> Inr r))"

definition check_authority :: "string \<Rightarrow> string \<Rightarrow> u64 \<Rightarrow> authority_store \<Rightarrow> bool res" where
  "check_authority address auth action_id A =
     bind_res (get_record address auth A) (\<lambda>r.
       Inr (if action_id \<in> action_ids r then \<not> default_full r else default_full r))"

definition get_authority :: "string \<Rightarrow> string" where
  "get_authority address = address"

text \<open>The loop of \<open>find_authority\<close> over the set of authorities, in iteration order.\<close>

fun first_authority :: "string \<Rightarrow> u64 \<Rightarrow> authority_store \<Rightarrow> string list \<Rightarrow> string res" where
  "first_authority address action_id A [] = Inr []"
| "first_authority address action_id A (auth # auths) =
     bind_res (check_authority address auth action_id A) (\<lambda>ok.
       if ok then Inr auth else first_authority address action_id A auths)"

definition find_authority :: "string list \<Rightarrow> string \<Rightarrow> u64 \<Rightarrow> authority_store \<Rightarrow> string res" where
  "find_authority auths address action_id A =
     (if A address = None then Inr (if address \<in> set auths then address else [])
      else first_authority address action_id A auths)"

definition set_record :: "string \<Rightarrow> string \<Rightarrow> account_authorization \<Rightarrow> authority_store \<Rightarrow> authority_store res" where
  "set_record address auth r A =
     (case A address of
        None \<Rightarrow> Inl (Logic_error ''authority_manager::set_record: false == m_pimpl->m_authority_store.contains(address)'')
      | Some auths \<Rightarrow>
          throw_if (Mapping.lookup auths auth = None)
            (Logic_error ''authority_manager::set_record: it_authority == auths.authorizations.end()'')
            (Inr (A(address \<mapsto> Mapping.update auth r auths))))"

definition smart_create_dummy_record :: "string \<Rightarrow> string \<Rightarrow> authority_store \<Rightarrow> authority_store" where
  "smart_create_dummy_record address auth A =
     (let A1 = (if A address = None then A(address \<mapsto> Mapping.update address full_record Mapping.empty) else A)
      in if address \<noteq> auth
         then (let auths = the (A1 address)
               in A1(address \<mapsto> (if Mapping.lookup auths auth = None
                                  then Mapping.update auth dummy_record auths else auths)))
         else A1)"

definition smart_cleanup_dummy_record :: "string \<Rightarrow> string \<Rightarrow> authority_store \<Rightarrow> authority_store res" where
  "smart_cleanup_dummy_record address auth A =
     bind_res
       (if address \<noteq> auth
        then (case A address of
                None \<Rightarrow> Inl (Logic_error ''authority_manager::smart_cleanup_dummy_record: false == m_pimpl->m_authority_store.contains(address)'')
              | Some auths \<Rightarrow>
                  (case Mapping.lookup auths auth of
                     None \<Rightarrow> Inl (Logic_error ''authority_manager::smart_cleanup_dummy_record: it_authority == auths.authorizations.end()'')
                   | Some r \<Rightarrow> Inr (if \<not> default_full r \<and> action_ids r = {}
                                     then A(address \<mapsto> Mapping.delete auth auths) else A)))
        else Inr A)
       (\<lambda>A1. case A1 address of
           None \<Rightarrow> Inr A1
         | Some auths \<Rightarrow>
             (case Mapping.lookup auths address of
                None \<Rightarrow> Inl (Logic_error ''authority_manager::smart_cleanup_dummy_record: it_address == auths.authorizations.end()'')
              | Some r \<Rightarrow> Inr (if default_full r \<and> action_ids r = {} \<and> Mapping.size auths = 1
                                then A1(address := None) else A1)))"

section \<open>Normal form\<close>

text \<open>
  The store keeps no information that the defaults already give: an account's own record is
  present, another authority's record is not the dummy, and the account is absent when its own
  default record is all there is.
\<close>

definition auths_wf :: "string \<Rightarrow> account_authorizations \<Rightarrow> bool" where
  "auths_wf address m \<longleftrightarrow> finite (Mapping.keys m) \<and> Mapping.lookup m address \<noteq> None
     \<and> (\<forall>k r. Mapping.lookup m k = Some r \<longrightarrow> k \<noteq> address \<longrightarrow> r \<noteq> dummy_record)
     \<and> m \<noteq> Mapping.update address full_record Mapping.empty"

definition authority_wf :: "authority_store \<Rightarrow> bool" where
  "authority_wf A \<longleftrightarrow> (\<forall>address m. A address = Some m \<longrightarrow> auths_wf address m)"

text \<open>The record an authority has for an account, total and without exceptions.\<close>

definition record_of :: "authority_store \<Rightarrow> string \<Rightarrow> string \<Rightarrow> account_authorization" where
  "record_of A address auth =
     (case A address of
        None \<Rightarrow> if auth = address then full_record else dummy_record
      | Some m \<Rightarrow> (case Mapping.lookup m auth of None \<Rightarrow> dummy_record | Some r \<Rightarrow> r))"

lemma get_record_eq:
  assumes "authority_wf A"
  shows "get_record address auth A = Inr (record_of A address auth)"
proof (cases "A address")
  case (Some m)
  then have "Mapping.lookup m address \<noteq> None" using assms by (simp add: authority_wf_def auths_wf_def)
  then show ?thesis using Some
    by (auto simp: get_record_def record_of_def throw_if_def split: option.splits)
qed (simp add: get_record_def record_of_def)

lemma check_authority_eq:
  "authority_wf A \<Longrightarrow> check_authority address auth i A
     = Inr (default_full (record_of A address auth) \<noteq> (i \<in> action_ids (record_of A address auth)))"
  by (auto simp: check_authority_def get_record_eq)

lemma dummy_iff: "r = dummy_record \<longleftrightarrow> \<not> default_full r \<and> action_ids r = {}"
  by (cases r) (auto simp: dummy_record_def)

lemma full_iff: "r = full_record \<longleftrightarrow> default_full r \<and> action_ids r = {}"
  by (cases r) (auto simp: full_record_def)

lemma mapping_size_one:
  assumes "Mapping.lookup m a = Some r"
  shows "Mapping.size m = 1 \<longleftrightarrow> m = Mapping.update a r Mapping.empty"
proof
  assume "Mapping.size m = 1"
  then have "card (Mapping.keys m) = 1" by (simp add: Mapping.size_def split: if_splits)
  moreover have "a \<in> Mapping.keys m" using assms by (simp add: keys_is_none_rep Option.is_none_def)
  ultimately have keys: "Mapping.keys m = {a}" by (metis card_1_singletonE singletonD)
  show "m = Mapping.update a r Mapping.empty"
  proof (rule mapping_eqI)
    fix x
    have "Mapping.lookup m x = None" if "x \<noteq> a"
      using keys that by (metis keys_is_none_rep Option.is_none_def singletonD)
    then show "Mapping.lookup m x = Mapping.lookup (Mapping.update a r Mapping.empty) x"
      using assms by (cases "x = a") (simp_all add: lookup_update')
  qed
next
  assume "m = Mapping.update a r Mapping.empty"
  then show "Mapping.size m = 1" by (simp add: Mapping.size_def)
qed

text \<open>Two normal stores that give every authority the same record are the same store.\<close>

lemma auths_eqI:
  assumes "auths_wf a m" "auths_wf a n"
    and same: "\<And>k. record_of (A(a \<mapsto> m)) a k = record_of (B(a \<mapsto> n)) a k"
  shows "m = n"
proof (rule mapping_eqI)
  fix k
  show "Mapping.lookup m k = Mapping.lookup n k"
    using assms(1,2) same [of k] unfolding auths_wf_def record_of_def
    by (cases "k = a") (auto split: option.splits)
qed

lemma auths_wf_not_default:
  assumes "auths_wf a m"
  shows "\<exists>k. record_of (A(a \<mapsto> m)) a k \<noteq> record_of (B(a := None)) a k"
proof (rule ccontr)
  assume "\<not> ?thesis"
  then have same: "record_of (A(a \<mapsto> m)) a k = record_of (B(a := None)) a k" for k by blast
  have "m = Mapping.update a full_record Mapping.empty"
  proof (rule mapping_eqI)
    fix k
    show "Mapping.lookup m k = Mapping.lookup (Mapping.update a full_record Mapping.empty) k"
      using assms same [of k] unfolding auths_wf_def record_of_def
      by (cases "k = a") (auto simp: lookup_update' split: option.splits)
  qed
  then show False using assms by (simp add: auths_wf_def)
qed

lemma record_of_local: "A a = B a \<Longrightarrow> record_of A a k = record_of B a k"
  by (simp add: record_of_def)

lemma authority_store_eqI:
  assumes wf: "authority_wf A" "authority_wf B"
    and same: "\<And>a k. record_of A a k = record_of B a k"
  shows "A = B"
proof
  fix a
  show "A a = B a"
  proof (cases "A a"; cases "B a")
    fix m n assume "A a = Some m" "B a = Some n"
    moreover have "A(a \<mapsto> m) = A" "B(a \<mapsto> n) = B" using calculation by auto
    ultimately show ?thesis
      using auths_eqI [of a m n A B] wf same by (auto simp: authority_wf_def)
  next
    fix m assume "A a = Some m" "B a = None"
    moreover have "A(a \<mapsto> m) = A" "B(a := None) = B" using calculation by auto
    ultimately show ?thesis
      using auths_wf_not_default [of a m A B] wf same by (auto simp: authority_wf_def)
  next
    fix n assume "A a = None" "B a = Some n"
    moreover have "B(a \<mapsto> n) = B" "A(a := None) = A" using calculation by auto
    ultimately show ?thesis
      using auths_wf_not_default [of a n B A] wf same by (auto simp: authority_wf_def)
  qed simp
qed

section \<open>Updating one record\<close>

text \<open>The bracket every update runs in: create the default records, replace the record of
  \<open>auth\<close>, drop what became a default again.\<close>

definition put_record :: "string \<Rightarrow> string \<Rightarrow> account_authorization \<Rightarrow> authority_store \<Rightarrow> authority_store res" where
  "put_record address auth r A =
     bind_res (set_record address auth r (smart_create_dummy_record address auth A))
       (smart_cleanup_dummy_record address auth)"

lemma lookup_delete': "Mapping.lookup (Mapping.delete k m) l = (if l = k then None else Mapping.lookup m l)"
  by transfer auto

lemma create_dummy_record:
  assumes "authority_wf A"
  obtains m where "smart_create_dummy_record a k A = A(a \<mapsto> m)" "finite (Mapping.keys m)"
    "Mapping.lookup m k = Some (record_of A a k)" "Mapping.lookup m a = Some (record_of A a a)"
    "\<And>l. Mapping.lookup m l = None \<Longrightarrow> record_of A a l = dummy_record"
    "\<And>l r. Mapping.lookup m l = Some r \<Longrightarrow> r = record_of A a l \<and> (l \<noteq> k \<longrightarrow> l \<noteq> a \<longrightarrow> r \<noteq> dummy_record)"
proof (cases "A a")
  case None
  let ?m = "if k = a then Mapping.update a full_record Mapping.empty
    else Mapping.update k dummy_record (Mapping.update a full_record Mapping.empty)"
  show ?thesis
    by (rule that [of ?m])
      (use None in \<open>auto simp: smart_create_dummy_record_def record_of_def lookup_update' Let_def
        split: if_splits\<close>)
next
  case (Some m)
  then have wf: "auths_wf a m" using assms by (simp add: authority_wf_def)
  let ?m = "if k \<noteq> a \<and> Mapping.lookup m k = None then Mapping.update k dummy_record m else m"
  have own: "Mapping.lookup m a \<noteq> None" and fin: "finite (Mapping.keys m)"
    and nd: "\<And>l r. Mapping.lookup m l = Some r \<Longrightarrow> l \<noteq> a \<Longrightarrow> r \<noteq> dummy_record"
    using wf by (auto simp: auths_wf_def)
  show ?thesis
  proof (rule that [of ?m])
    show "smart_create_dummy_record a k A = A(a \<mapsto> ?m)"
      using Some by (auto simp: smart_create_dummy_record_def Let_def fun_upd_idem)
    show "finite (Mapping.keys ?m)" using fin by simp
    show "Mapping.lookup ?m k = Some (record_of A a k)"
      using Some own by (auto simp: record_of_def lookup_update' split: option.splits)
    show "Mapping.lookup ?m a = Some (record_of A a a)"
      using Some own by (auto simp: record_of_def lookup_update' split: option.splits)
    show "record_of A a l = dummy_record" if "Mapping.lookup ?m l = None" for l
      using that Some by (auto simp: record_of_def lookup_update' split: option.splits if_splits)
    show "r = record_of A a l \<and> (l \<noteq> k \<longrightarrow> l \<noteq> a \<longrightarrow> r \<noteq> dummy_record)"
      if "Mapping.lookup ?m l = Some r" for l r
      using that Some nd by (auto simp: record_of_def lookup_update' split: option.splits if_splits)
  qed
qed

text \<open>Cleaning up leaves a normal store that reads the same.\<close>

lemma cleanup_dummy_record:
  assumes others: "\<And>b m. b \<noteq> a \<Longrightarrow> A b = Some m \<Longrightarrow> auths_wf b m"
    and own: "A a = Some m" "finite (Mapping.keys m)" "Mapping.lookup m k \<noteq> None" "Mapping.lookup m a \<noteq> None"
    and nd: "\<And>l r. Mapping.lookup m l = Some r \<Longrightarrow> l \<noteq> k \<Longrightarrow> l \<noteq> a \<Longrightarrow> r \<noteq> dummy_record"
  obtains B where "smart_cleanup_dummy_record a k A = Inr B" "authority_wf B"
    "\<And>b l. record_of B b l = record_of A b l"
proof -
  obtain r ra where r: "Mapping.lookup m k = Some r" "Mapping.lookup m a = Some ra" using own by auto
  define n where "n = (if k \<noteq> a \<and> r = dummy_record then Mapping.delete k m else m)"
  define B where "B = A(a := if n = Mapping.update a full_record Mapping.empty then None else Some n)"
  have n: "Mapping.lookup n a = Some ra" "finite (Mapping.keys n)"
    "\<And>l. Mapping.lookup n l = (if k \<noteq> a \<and> r = dummy_record \<and> l = k then None else Mapping.lookup m l)"
    using r own by (auto simp: n_def lookup_delete')
  have A1: "(if a \<noteq> k
        then (case A a of
                None \<Rightarrow> Inl (Logic_error ''authority_manager::smart_cleanup_dummy_record: false == m_pimpl->m_authority_store.contains(address)'')
              | Some auths \<Rightarrow>
                  (case Mapping.lookup auths k of
                     None \<Rightarrow> Inl (Logic_error ''authority_manager::smart_cleanup_dummy_record: it_authority == auths.authorizations.end()'')
                   | Some r \<Rightarrow> Inr (if \<not> default_full r \<and> action_ids r = {}
                                     then A(a \<mapsto> Mapping.delete k auths) else A)))
        else Inr A) = Inr (A(a \<mapsto> n))"
    using own r by (auto simp: n_def dummy_iff fun_upd_idem)
  have "full_record = ra \<and> n = Mapping.update a ra Mapping.empty
      \<longleftrightarrow> n = Mapping.update a full_record Mapping.empty"
    using n(1) by (metis lookup_update option.inject)
  then have "smart_cleanup_dummy_record a k A = Inr B"
    unfolding smart_cleanup_dummy_record_def A1 bind_res_simps
    using n(1) mapping_size_one [OF n(1)] full_iff [of ra] by (auto simp: B_def)
  moreover have "authority_wf B"
    unfolding authority_wf_def
  proof (intro allI impI)
    fix b m' assume b: "B b = Some m'"
    show "auths_wf b m'"
    proof (cases "b = a")
      case True
      then have "m' = n" "n \<noteq> Mapping.update a full_record Mapping.empty"
        using b by (auto simp: B_def split: if_splits)
      moreover have "l \<noteq> a \<longrightarrow> r' \<noteq> dummy_record" if "Mapping.lookup n l = Some r'" for l r'
        using that nd [of l r'] r n(3) [of l] by (cases "l = k") (auto split: if_splits)
      ultimately show ?thesis using True n(1,2) by (auto simp: auths_wf_def)
    qed (use b others in \<open>auto simp: B_def\<close>)
  qed
  moreover have "record_of B b l = record_of A b l" for b l
  proof (cases "b = a")
    case True
    show ?thesis
    proof (cases "n = Mapping.update a full_record Mapping.empty")
      case def: True
      then have "Mapping.lookup n l = (if l = a then Some full_record else None)"
        by (simp add: lookup_update')
      then show ?thesis using True own(1) r n(3) [of l] def
        by (auto simp: B_def record_of_def split: if_splits option.splits)
    next
      case False
      then show ?thesis using True own(1) r n(3) [of l]
        by (auto simp: B_def record_of_def split: if_splits option.splits)
    qed
  qed (simp add: B_def record_of_def)
  ultimately show ?thesis using that by blast
qed

lemma put_record_spec:
  assumes "authority_wf A"
  obtains B where "put_record a k r A = Inr B" "authority_wf B"
    "\<And>b l. record_of B b l = (if b = a \<and> l = k then r else record_of A b l)"
proof -
  obtain m where m: "smart_create_dummy_record a k A = A(a \<mapsto> m)" "finite (Mapping.keys m)"
    "Mapping.lookup m k = Some (record_of A a k)" "Mapping.lookup m a = Some (record_of A a a)"
    "\<And>l. Mapping.lookup m l = None \<Longrightarrow> record_of A a l = dummy_record"
    "\<And>l r. Mapping.lookup m l = Some r \<Longrightarrow> r = record_of A a l \<and> (l \<noteq> k \<longrightarrow> l \<noteq> a \<longrightarrow> r \<noteq> dummy_record)"
    by (rule create_dummy_record [OF assms, of a k]) (rule that)
  define C where "C = A(a \<mapsto> Mapping.update k r m)"
  have set: "set_record a k r (smart_create_dummy_record a k A) = Inr C"
    using m(1,3) by (simp add: set_record_def C_def)
  have rec: "record_of C b l = (if b = a \<and> l = k then r else record_of A b l)" for b l
  proof (cases "b = a \<and> l \<noteq> k")
    case True
    then show ?thesis using m(5,6) [of l]
      by (auto simp: C_def record_of_def [of "A(a \<mapsto> _)"] lookup_update' split: option.splits)
  qed (auto simp: C_def record_of_def lookup_update')
  obtain B where "smart_cleanup_dummy_record a k C = Inr B" "authority_wf B"
    "\<And>b l. record_of B b l = record_of C b l"
  proof (rule cleanup_dummy_record [of a C "Mapping.update k r m" k])
    show "auths_wf b m'" if "b \<noteq> a" "C b = Some m'" for b m'
      using that assms by (simp add: C_def authority_wf_def)
    show "C a = Some (Mapping.update k r m)" by (simp add: C_def)
    show "finite (Mapping.keys (Mapping.update k r m))" using m(2) by simp
    show "Mapping.lookup (Mapping.update k r m) k \<noteq> None" by simp
    show "Mapping.lookup (Mapping.update k r m) a \<noteq> None" using m(4) by (simp add: lookup_update')
    show "r' \<noteq> dummy_record"
      if "Mapping.lookup (Mapping.update k r m) l = Some r'" "l \<noteq> k" "l \<noteq> a" for l r'
      using that m(6) by (simp add: lookup_update')
  qed (rule that)
  then show ?thesis using that rec set by (simp add: put_record_def)
qed

end
