(* ===== verification/Documents.thy ===== *)
theory Documents
  imports Messages
begin

text \<open>
  libblockchain/documents.cpp, first part: the registries of files and content units and the
  map from a file to the storages that hold it. The records behind the sponsoring maps are
  declared here too, because all six maps live in one \<open>documents\<close> object; their
  operations are in the theory Sponsoring.
\<close>

section \<open>State\<close>

text \<open>types.idl. Sizes and indexes of the vectors are natural numbers: they count elements in
  memory and stay far below 2^64.\<close>

record sponsored_information =
  si_start_time_point :: time
  si_end_time_point :: time
  si_amount :: coin
  si_time_points_used_before :: nat
  si_sponsor_address :: string
  si_transaction_hash :: string
  si_cancelled :: bool

record content_unit_sponsored_information =
  ci_uri :: string
  ci_sponsored_informations :: "sponsored_information list"
  ci_time_points_used :: "time list"
  ci_index_si :: "nat list"

record sponsored_information_header =
  ih_uri :: string
  ih_transaction_hash :: string
  ih_block_number :: u64
  ih_manually_cancelled :: coin

text \<open>The \<open>Hash\<close> of expirations is kept in key order; where the code iterates it, the
  order of the visit is left to \<open>x_set_order\<close>.\<close>

type_synonym sponsored_information_headers = "(string, sponsored_information_header) omap"

record transaction_hash_to_block_number =
  hb_transaction_hash :: string
  hb_block_number :: u64

record documents =
  m_files :: "string \<rightharpoonup> file_action"
  m_units :: "string \<rightharpoonup> content_unit"
  m_storages :: "string \<rightharpoonup> string set"
  m_content_unit_sponsored_information :: "string \<rightharpoonup> content_unit_sponsored_information"
  m_sponsored_informations_expiring :: "string \<rightharpoonup> sponsored_information_headers"
  m_sponsored_informations_hash_to_block :: "string \<rightharpoonup> transaction_hash_to_block_number"

definition documents_clear :: "documents \<Rightarrow> documents" where
  "documents_clear d = \<lparr> m_files = Map.empty, m_units = Map.empty, m_storages = Map.empty,
     m_content_unit_sponsored_information = Map.empty,
     m_sponsored_informations_expiring = Map.empty,
     m_sponsored_informations_hash_to_block = Map.empty \<rparr>"

section \<open>Files and content units\<close>

definition file_exists :: "string \<Rightarrow> documents \<Rightarrow> bool" where
  "file_exists uri d \<longleftrightarrow> uri \<noteq> [] \<and> m_files d uri \<noteq> None"

text \<open>The loops over a \<open>std::unordered_set\<close> take the uris in the order of the visit.\<close>

fun files_exist :: "string list \<Rightarrow> documents \<Rightarrow> bool \<times> string" where
  "files_exist [] d = (True, [])"
| "files_exist (uri # uris) d = (if \<not> file_exists uri d then (False, uri) else files_exist uris d)"

definition insert_file :: "file_action \<Rightarrow> documents \<Rightarrow> bool \<times> documents" where
  "insert_file f d =
     (if m_files d (fl_uri f) \<noteq> None then (False, d)
      else (True, d\<lparr>m_files := (m_files d)(fl_uri f \<mapsto> f)\<rparr>))"

definition remove_file :: "string \<Rightarrow> documents \<Rightarrow> documents" where
  "remove_file uri d = d\<lparr>m_files := (m_files d)(uri := None)\<rparr>"

definition get_file :: "string \<Rightarrow> documents \<Rightarrow> file_action res" where
  "get_file uri d = (case m_files d uri of None \<Rightarrow> Inl External_error | Some f \<Rightarrow> Inr f)"

definition unit_exists :: "string \<Rightarrow> documents \<Rightarrow> bool" where
  "unit_exists uri d \<longleftrightarrow> uri \<noteq> [] \<and> m_units d uri \<noteq> None"

fun units_exist :: "string list \<Rightarrow> documents \<Rightarrow> bool \<times> string" where
  "units_exist [] d = (True, [])"
| "units_exist (uri # uris) d = (if \<not> unit_exists uri d then (False, uri) else units_exist uris d)"

definition insert_unit :: "content_unit \<Rightarrow> documents \<Rightarrow> bool \<times> documents" where
  "insert_unit u d =
     (if m_units d (cu_uri u) \<noteq> None then (False, d)
      else (True, d\<lparr>m_units := (m_units d)(cu_uri u \<mapsto> u)\<rparr>))"

definition remove_unit :: "string \<Rightarrow> documents \<Rightarrow> documents" where
  "remove_unit uri d = d\<lparr>m_units := (m_units d)(uri := None)\<rparr>"

definition get_unit :: "string \<Rightarrow> documents \<Rightarrow> content_unit res" where
  "get_unit uri d = (case m_units d uri of None \<Rightarrow> Inl External_error | Some u \<Rightarrow> Inr u)"

text \<open>The contract both registries offer to the actions that write them.\<close>

locale registry =
  fixes key :: "'v \<Rightarrow> string"
    and find :: "'s \<Rightarrow> string \<rightharpoonup> 'v"
    and put :: "'v \<Rightarrow> 's \<Rightarrow> bool \<times> 's"
    and erase :: "string \<Rightarrow> 's \<Rightarrow> 's"
  assumes put_old: "find s (key v) \<noteq> None \<Longrightarrow> put v s = (False, s)"
    and put_new: "find s (key v) = None \<Longrightarrow>
      fst (put v s) \<and> find (snd (put v s)) = (find s)(key v \<mapsto> v) \<and> erase (key v) (snd (put v s)) = s"
begin

lemma put_ok: "fst (put v s) \<longleftrightarrow> find s (key v) = None"
  using put_old put_new by (cases "find s (key v)") auto

lemma erase_put: "find s (key v) = None \<Longrightarrow> erase (key v) (snd (put v s)) = s"
  using put_new by blast

lemma find_put: "find (snd (put v s)) k = (if k = key v \<and> find s k = None then Some v else find s k)"
  using put_old put_new by (cases "find s (key v)") auto

lemma put_keeps: "find s k = Some w \<Longrightarrow> find (snd (put v s)) k = Some w"
  by (simp add: find_put)

end

interpretation files: registry fl_uri m_files insert_file remove_file
  by unfold_locales (simp_all add: insert_file_def remove_file_def fun_upd_idem)

interpretation units: registry cu_uri m_units insert_unit remove_unit
  by unfold_locales (simp_all add: insert_unit_def remove_unit_def fun_upd_idem)

lemma files_exist_iff: "fst (files_exist uris d) \<longleftrightarrow> (\<forall>uri \<in> set uris. file_exists uri d)"
  by (induction uris) auto

lemma units_exist_iff: "fst (units_exist uris d) \<longleftrightarrow> (\<forall>uri \<in> set uris. unit_exists uri d)"
  by (induction uris) auto

lemma files_exist_missing:
  "\<not> fst (files_exist uris d) \<Longrightarrow> snd (files_exist uris d) \<in> set uris \<and> \<not> file_exists (snd (files_exist uris d)) d"
  by (induction uris) auto

lemma units_exist_missing:
  "\<not> fst (units_exist uris d) \<Longrightarrow> snd (units_exist uris d) \<in> set uris \<and> \<not> unit_exists (snd (units_exist uris d)) d"
  by (induction uris) auto

lemma get_unit_exists: "unit_exists uri d \<Longrightarrow> \<exists>u. get_unit uri d = Inr u"
  by (auto simp: unit_exists_def get_unit_def)

section \<open>Storages\<close>

definition storage_update_doc :: "string \<Rightarrow> string \<Rightarrow> update_type \<Rightarrow> documents \<Rightarrow> documents" where
  "storage_update_doc uri address status d =
     (if status = UT_store
      then (case m_storages d uri of
              None \<Rightarrow> d\<lparr>m_storages := (m_storages d)(uri \<mapsto> {address})\<rparr>
            | Some holders \<Rightarrow> d\<lparr>m_storages := (m_storages d)(uri \<mapsto> insert address holders)\<rparr>)
      else (case m_storages d uri of
              None \<Rightarrow> d
            | Some holders \<Rightarrow>
                let holders' = holders - {address}
                in d\<lparr>m_storages := (m_storages d)(uri := if holders' = {} then None else Some holders')\<rparr>))"

definition storage_has_uri :: "string \<Rightarrow> string \<Rightarrow> documents \<Rightarrow> bool" where
  "storage_has_uri uri address d =
     (case m_storages d uri of None \<Rightarrow> False | Some holders \<Rightarrow> address \<in> holders)"

text \<open>No file has an empty set of holders.\<close>

definition storages_wf :: "documents \<Rightarrow> bool" where
  "storages_wf d \<longleftrightarrow> (\<forall>uri. m_storages d uri \<noteq> Some {})"

lemma storage_update_wf: "storages_wf d \<Longrightarrow> storages_wf (storage_update_doc uri a s d)"
  by (auto simp: storages_wf_def storage_update_doc_def Let_def split: option.splits)

lemma storage_has_uri_update:
  "storage_has_uri u b (storage_update_doc uri a s d) \<longleftrightarrow>
     (if u = uri \<and> b = a then s = UT_store else storage_has_uri u b d)"
  by (cases s) (auto simp: storage_has_uri_def storage_update_doc_def Let_def split: option.splits)

lemma storages_eqI:
  assumes "storages_wf d" "storages_wf e"
    and has: "\<And>u a. storage_has_uri u a d = storage_has_uri u a e"
    and rest: "d\<lparr>m_storages := Map.empty\<rparr> = e\<lparr>m_storages := Map.empty\<rparr>"
  shows "d = e"
proof -
  have "m_storages d = m_storages e"
  proof
    fix u
    show "m_storages d u = m_storages e u"
      using assms(1,2) has [of u] unfolding storages_wf_def storage_has_uri_def
      by (cases "m_storages d u"; cases "m_storages e u") (auto, (metis ex_in_conv)+)
  qed
  then show ?thesis using rest by (cases d; cases e) simp
qed

text \<open>An update that changes something is undone by the opposite update.\<close>

lemma storage_update_undo:
  assumes "storages_wf d" "storage_has_uri uri a d \<longleftrightarrow> s = UT_remove"
  shows "storage_update_doc uri a (if s = UT_remove then UT_store else UT_remove) (storage_update_doc uri a s d) = d"
proof (rule storages_eqI)
  show "storage_has_uri u b (storage_update_doc uri a (if s = UT_remove then UT_store else UT_remove)
      (storage_update_doc uri a s d)) = storage_has_uri u b d" for u b
    using assms(2) by (cases s) (auto simp: storage_has_uri_update)
  show "(storage_update_doc uri a (if s = UT_remove then UT_store else UT_remove)
      (storage_update_doc uri a s d))\<lparr>m_storages := Map.empty\<rparr> = d\<lparr>m_storages := Map.empty\<rparr>"
    by (cases s) (auto simp: storage_update_doc_def Let_def split: option.splits)
qed (use assms(1) in \<open>simp_all add: storage_update_wf\<close>)

lemma storage_update_frame [simp]:
  "m_files (storage_update_doc uri a s d) = m_files d"
  "m_units (storage_update_doc uri a s d) = m_units d"
  by (auto simp: storage_update_doc_def Let_def split: option.splits)

end
