(* ===== verification/Blockchain.thy ===== *)
theory Blockchain
  imports Messages
begin

text \<open>
  libblockchain/blockchain.cpp: the headers, the blocks and the cached last header and hash.
  A \<open>meshpp::vector_loader\<close> is modelled by its contents; its \<open>at\<close> and
  \<open>pop_back\<close> outside the contents throw.
\<close>

section \<open>State and operations\<close>

record blockchain =
  m_last_hash :: string
  m_last_header :: block_header
  m_header :: "block_header list"
  m_blocks :: "signed_block list"

definition bc_length :: "blockchain \<Rightarrow> u64" where
  "bc_length b = of_nat (length (m_blocks b))"

definition bc_at :: "u64 \<Rightarrow> blockchain \<Rightarrow> signed_block res" where
  "bc_at number b = (if unat number < length (m_blocks b) then Inr (m_blocks b ! unat number) else Inl External_error)"

definition header_at :: "u64 \<Rightarrow> blockchain \<Rightarrow> block_header res" where
  "header_at number b = (if unat number < length (m_header b) then Inr (m_header b ! unat number) else Inl External_error)"

definition block_hash_of :: "ext \<Rightarrow> block \<Rightarrow> string" where
  "block_hash_of E bl = x_hash E (x_block_string E bl)"

definition update_state :: "ext \<Rightarrow> blockchain \<Rightarrow> blockchain" where
  "update_state E b =
     (if m_blocks b = [] then b
      else let signed_block = last (m_blocks b)
           in b\<lparr>m_last_header := header (block_details signed_block),
                m_last_hash := block_hash_of E (block_details signed_block)\<rparr>)"

definition extend_header :: "block_header \<Rightarrow> string \<Rightarrow> block_header_extended" where
  "extend_header h hash = \<lparr> block_number = block_number h, delta = delta h, c_sum = c_sum h,
     c_const = c_const h, prev_hash = prev_hash h, time_signed = time_signed h, block_hash = hash \<rparr>"

definition last_header_ex :: "blockchain \<Rightarrow> block_header_extended" where
  "last_header_ex b = extend_header (m_last_header b) (m_last_hash b)"

definition insert_block :: "ext \<Rightarrow> signed_block \<Rightarrow> blockchain \<Rightarrow> blockchain res" where
  "insert_block E signed_block b =
     (let bl = block_details signed_block
      in throw_if (block_number (header bl) \<noteq> bc_length b) (Runtime_error ''Wrong block to insert!'')
           (Inr (update_state E (b\<lparr>m_header := m_header b @ [header bl],
                                   m_blocks := m_blocks b @ [signed_block]\<rparr>))))"

definition header_ex_at :: "u64 \<Rightarrow> blockchain \<Rightarrow> block_header_extended res" where
  "header_ex_at number b =
     (if number \<noteq> bc_length b - 1
      then bind_res (header_at number b) (\<lambda>h.
             bind_res (header_at (number + 1) b) (\<lambda>next_header.
               Inr (extend_header h (prev_hash next_header))))
      else Inr (last_header_ex b))"

definition remove_last_block :: "ext \<Rightarrow> blockchain \<Rightarrow> blockchain res" where
  "remove_last_block E b =
     throw_if (bc_length b = 1) (Runtime_error ''Nothing to remove!'')
       (throw_if (m_header b = [] \<or> m_blocks b = []) External_error
         (Inr (update_state E (b\<lparr>m_header := butlast (m_header b), m_blocks := butlast (m_blocks b)\<rparr>))))"

text \<open>The loop of \<open>get_miner\<close>; an address is never empty, so the empty string stands for
  no miner found yet.\<close>

fun miner_of :: "reward list \<Rightarrow> string \<Rightarrow> string res" where
  "miner_of [] miner = Inr miner"
| "miner_of (r # rs) miner =
     (if rw_type r = RT_miner
      then throw_if (miner \<noteq> []) (Logic_error ''blockchain::get_miner: false == miner.empty()'')
             (miner_of rs (rw_to r))
      else miner_of rs miner)"

definition get_miner :: "signed_block \<Rightarrow> string res" where
  "get_miner signed_block =
     bind_res (miner_of (rewards (block_details signed_block)) []) (\<lambda>miner.
       Inr (if miner = [] then at_address (authorization signed_block) else miner))"

definition bc_clear :: "blockchain \<Rightarrow> blockchain" where
  "bc_clear b = b\<lparr>m_header := [], m_blocks := []\<rparr>"

section \<open>Well-formed chains\<close>

text \<open>Headers mirror the blocks, block numbers are positions, and the cached values belong to
  the last block.\<close>

definition blockchain_wf :: "ext \<Rightarrow> blockchain \<Rightarrow> bool" where
  "blockchain_wf E b \<longleftrightarrow> m_header b = map (header \<circ> block_details) (m_blocks b)
     \<and> length (m_blocks b) < 2 ^ 64
     \<and> (\<forall>i < length (m_blocks b). block_number (m_header b ! i) = of_nat i)
     \<and> update_state E b = b"

definition linked :: "ext \<Rightarrow> blockchain \<Rightarrow> bool" where
  "linked E b \<longleftrightarrow> (\<forall>i. Suc i < length (m_blocks b) \<longrightarrow>
     prev_hash (m_header b ! Suc i) = block_hash_of E (block_details (m_blocks b ! i)))"

lemma unat_of_nat_u64: "n < 2 ^ 64 \<Longrightarrow> unat (of_nat n :: u64) = n"
  by (simp add: unsigned_of_nat take_bit_nat_eq_self)

lemma of_nat_u64_inj: "m < 2 ^ 64 \<Longrightarrow> n < 2 ^ 64 \<Longrightarrow> (of_nat m :: u64) = of_nat n \<longleftrightarrow> m = n"
  using unat_of_nat_u64 by metis

lemma update_state_contents [simp]:
  "m_blocks (update_state E b) = m_blocks b" "m_header (update_state E b) = m_header b"
  by (simp_all add: update_state_def Let_def)

lemma update_state_idem [simp]: "update_state E (update_state E b) = update_state E b"
  by (simp add: update_state_def Let_def)

lemma insert_block_Inr:
  "insert_block E sb b = Inr c \<longleftrightarrow> block_number (header (block_details sb)) = bc_length b
     \<and> c = update_state E (b\<lparr>m_header := m_header b @ [header (block_details sb)], m_blocks := m_blocks b @ [sb]\<rparr>)"
  by (auto simp: insert_block_def Let_def result_simps)

lemma insert_block_wf:
  assumes "insert_block E sb b = Inr c" "blockchain_wf E b" "Suc (length (m_blocks b)) < 2 ^ 64"
  shows "blockchain_wf E c"
  using assms by (auto simp: insert_block_Inr blockchain_wf_def bc_length_def nth_append less_Suc_eq)

lemma remove_insert_block:
  assumes wf: "blockchain_wf E b" and "m_blocks b \<noteq> []" "Suc (length (m_blocks b)) < 2 ^ 64"
    and ins: "insert_block E sb b = Inr c"
  shows "remove_last_block E c = Inr b"
proof -
  let ?d = "b\<lparr>m_header := m_header b @ [header (block_details sb)], m_blocks := m_blocks b @ [sb]\<rparr>"
  have c: "c = update_state E ?d" using ins by (simp add: insert_block_Inr)
  have "unat (bc_length c) = Suc (length (m_blocks b))"
    using assms(3) unat_of_nat_u64 [of "Suc (length (m_blocks b))"] by (simp add: c bc_length_def)
  then have one: "bc_length c \<noteq> 1" using assms(2) by auto
  have "update_state E (c\<lparr>m_header := m_header b, m_blocks := m_blocks b\<rparr>) = update_state E b"
    using assms(2) by (simp add: c update_state_def Let_def)
  then have "update_state E (c\<lparr>m_header := m_header b, m_blocks := m_blocks b\<rparr>) = b"
    using wf by (simp add: blockchain_wf_def)
  then show ?thesis using one by (simp add: remove_last_block_def c)
qed

lemma remove_last_block_wf:
  assumes "blockchain_wf E b" "remove_last_block E b = Inr c"
  shows "blockchain_wf E c"
  using assms by (auto simp: remove_last_block_def result_simps blockchain_wf_def nth_butlast map_butlast)

lemma header_at_wf:
  "blockchain_wf E b \<Longrightarrow> i < length (m_blocks b) \<Longrightarrow>
   header_at (of_nat i) b = Inr (header (block_details (m_blocks b ! i)))"
  by (auto simp: header_at_def blockchain_wf_def unat_of_nat_u64)

lemma last_header_wf:
  "blockchain_wf E b \<Longrightarrow> m_blocks b \<noteq> [] \<Longrightarrow>
   m_last_header b = header (block_details (last (m_blocks b)))
     \<and> m_last_hash b = block_hash_of E (block_details (last (m_blocks b)))"
  unfolding blockchain_wf_def update_state_def Let_def by (metis (no_types, lifting)
    blockchain.select_convs(1,2) blockchain.surjective blockchain.update_convs(1,2))

lemma header_ex_at_wf:
  assumes wf: "blockchain_wf E b" and "linked E b" and i: "i < length (m_blocks b)"
  shows "header_ex_at (of_nat i) b = Inr (extend_header (header (block_details (m_blocks b ! i)))
    (block_hash_of E (block_details (m_blocks b ! i))))"
proof -
  have small: "length (m_blocks b) < 2 ^ 64" using wf by (simp add: blockchain_wf_def)
  have "bc_length b - 1 = of_nat (length (m_blocks b) - 1)"
    using i by (cases "length (m_blocks b)") (simp_all add: bc_length_def)
  then have last: "(of_nat i :: u64) = bc_length b - 1 \<longleftrightarrow> i = length (m_blocks b) - 1"
    using small i by (simp only: of_nat_u64_inj)
  show ?thesis
  proof (cases "i = length (m_blocks b) - 1")
    case True
    moreover have "m_blocks b ! i = List.last (m_blocks b)" using i True by (subst last_conv_nth) auto
    moreover have "m_blocks b \<noteq> []" using i by auto
    ultimately show ?thesis
      using last last_header_wf [OF wf] by (auto simp: header_ex_at_def last_header_ex_def)
  next
    case False
    then have "Suc i < length (m_blocks b)" using i by simp
    moreover have "(of_nat i + 1 :: u64) = of_nat (Suc i)" by simp
    moreover have "m_header b ! Suc i = header (block_details (m_blocks b ! Suc i))"
      using calculation wf by (simp add: blockchain_wf_def)
    ultimately show ?thesis
      using last False header_at_wf [OF wf] i
        assms(2) [unfolded linked_def, rule_format, OF \<open>Suc i < _\<close>]
      by (simp add: header_ex_at_def del: of_nat_Suc)
  qed
qed

lemma miner_of_found:
  "miner \<noteq> [] \<Longrightarrow> miner_of rs miner =
     (if \<exists>r \<in> set rs. rw_type r = RT_miner
      then Inl (Logic_error ''blockchain::get_miner: false == miner.empty()'') else Inr miner)"
  by (induction rs) auto

text \<open>Whose block it is: the receiver of the only miner reward, or the signer without one.\<close>

lemma get_miner_none:
  "\<forall>r \<in> set (rewards (block_details sb)). rw_type r \<noteq> RT_miner \<Longrightarrow>
   get_miner sb = Inr (at_address (authorization sb))"
proof -
  have "\<forall>r \<in> set rs. rw_type r \<noteq> RT_miner \<Longrightarrow> miner_of rs [] = Inr []" for rs
    by (induction rs) auto
  then show "\<forall>r \<in> set (rewards (block_details sb)). rw_type r \<noteq> RT_miner \<Longrightarrow> ?thesis"
    by (simp add: get_miner_def)
qed

end
