(* ===== verification/Sponsoring.thy ===== *)
theory Sponsoring
  imports Documents Blockchain
begin

text \<open>
  libblockchain/documents.cpp, second part: the sponsorships of content units. A sponsorship
  is an amount for a time span; every block pays out the part that belongs to the time since
  the last block that used the unit, and what is left over when the sponsorship expires or is
  cancelled goes back to the sponsor.
\<close>

section \<open>The index of live sponsorships\<close>

definition BLOCK_MINE_DELAY :: nat where
  "BLOCK_MINE_DELAY = 600"

definition item_live :: "time \<Rightarrow> nat \<Rightarrow> sponsored_information \<Rightarrow> bool" where
  "item_live tp used_size item \<longleftrightarrow>
     \<not> (si_end_time_point item \<le> tp \<and> si_time_points_used_before item < used_size)"

definition item_delay :: "time \<Rightarrow> sponsored_information \<Rightarrow> time" where
  "item_delay tp item = (if tp < si_start_time_point item then si_start_time_point item - tp else 0)"

text \<open>The first loop of \<open>refresh_index\<close> and its sort. \<open>std::sort\<close> leaves the order of
  entries with equal delays open; the stable sort is one admitted outcome.\<close>

fun collect_index :: "time \<Rightarrow> nat \<Rightarrow> sponsored_information list \<Rightarrow> nat list \<Rightarrow> (nat \<times> time) list res" where
  "collect_index tp used_size infos [] = Inr []"
| "collect_index tp used_size infos (index # rest) =
     (if length infos \<le> index then collect_index tp used_size infos rest
      else let item = infos ! index
           in throw_if (used_size < si_time_points_used_before item)
                (Logic_error ''item.time_points_used_before > cusi.time_points_used.size()'')
                (if \<not> item_live tp used_size item then collect_index tp used_size infos rest
                 else bind_res (collect_index tp used_size infos rest) (\<lambda>arr.
                        Inr ((index, item_delay tp item) # arr))))"

definition refresh_index :: "content_unit_sponsored_information \<Rightarrow> content_unit_sponsored_information res" where
  "refresh_index c =
     (if ci_time_points_used c = [] then Inl Undefined_behaviour
      else bind_res (collect_index (last (ci_time_points_used c)) (length (ci_time_points_used c))
                       (ci_sponsored_informations c) (ci_index_si c)) (\<lambda>arr.
             Inr (c\<lparr>ci_index_si := map fst (sort_key snd arr)\<rparr>)))"

section \<open>Expiry\<close>

definition get_expiring_block_number :: "blockchain \<Rightarrow> time \<Rightarrow> u64 res" where
  "get_expiring_block_number b item_end_tp =
     bind_res (header_at 0 b) (\<lambda>genesis.
       let genesis_tp = time_signed genesis; expiring = bc_length b
       in Inr (if genesis_tp < item_end_tp
               then let seconds = (word_of_int (item_end_tp - genesis_tp) :: u64);
                        expected = seconds div of_nat BLOCK_MINE_DELAY;
                        expected = (if seconds mod of_nat BLOCK_MINE_DELAY \<noteq> 0 then expected + 1 else expected)
                    in (if expiring < expected then expected else expiring)
               else expiring))"

definition expiration_entry_ref_by_block :: "u64 \<Rightarrow> documents \<Rightarrow> sponsored_information_headers res" where
  "expiration_entry_ref_by_block number d =
     (case m_sponsored_informations_expiring d (to_string_u64 number) of
        None \<Rightarrow> Inl (Logic_error ''false == m_pimpl->m_sponsored_informations_expiring.contains(std::to_string(block_number))'')
      | Some expirings \<Rightarrow> Inr expirings)"

definition expiration_entry_ref_by_block_by_hash :: "u64 \<Rightarrow> string \<Rightarrow> documents \<Rightarrow> sponsored_information_header res" where
  "expiration_entry_ref_by_block_by_hash number hash d =
     bind_res (expiration_entry_ref_by_block number d) (\<lambda>expirings.
       case map_of expirings hash of
         None \<Rightarrow> Inl (Logic_error ''0 == expirings.expirations.count(transaction_hash)'')
       | Some entry \<Rightarrow> Inr entry)"

definition expiration_entry_ref_by_hash :: "string \<Rightarrow> documents \<Rightarrow> sponsored_information_header res" where
  "expiration_entry_ref_by_hash hash d =
     (case m_sponsored_informations_hash_to_block d hash of
        None \<Rightarrow> Inl (Logic_error ''false == m_pimpl->m_sponsored_informations_hash_to_block.contains(transaction_hash)'')
      | Some hash_to_block \<Rightarrow> expiration_entry_ref_by_block_by_hash (hb_block_number hash_to_block) hash d)"

text \<open>Assigning to the referenced entry.\<close>

definition set_manually_cancelled :: "string \<Rightarrow> coin \<Rightarrow> documents \<Rightarrow> documents" where
  "set_manually_cancelled hash amount d =
     (case m_sponsored_informations_hash_to_block d hash of
        None \<Rightarrow> d
      | Some hash_to_block \<Rightarrow>
          let number = to_string_u64 (hb_block_number hash_to_block)
          in (case m_sponsored_informations_expiring d number of
                None \<Rightarrow> d
              | Some expirings \<Rightarrow>
                  d\<lparr>m_sponsored_informations_expiring := (m_sponsored_informations_expiring d)(number \<mapsto>
                      map (\<lambda>(h, entry). (h, if h = hash then entry\<lparr>ih_manually_cancelled := amount\<rparr> else entry)) expirings)\<rparr>))"

definition content_unit_uri_sponsor_expiring :: "ext \<Rightarrow> u64 \<Rightarrow> documents \<Rightarrow> (string \<times> string) list" where
  "content_unit_uri_sponsor_expiring E number d =
     (case m_sponsored_informations_expiring d (to_string_u64 number) of
        None \<Rightarrow> []
      | Some expirings \<Rightarrow>
          concat (map (\<lambda>hash. case map_of expirings hash of
                     None \<Rightarrow> []
                   | Some entry \<Rightarrow> if ih_manually_cancelled entry = coin_zero
                                   then [(ih_uri entry, ih_transaction_hash entry)] else [])
                   (x_set_order E (map fst expirings))))"

section \<open>Adding a sponsorship and taking it back\<close>

definition sponsored_information_of :: "sponsor_content_unit \<Rightarrow> string \<Rightarrow> nat \<Rightarrow> sponsored_information" where
  "sponsored_information_of spi transaction_hash used_before =
     \<lparr> si_start_time_point = sp_start_time_point spi,
       si_end_time_point = sp_start_time_point spi + sint (sp_hours spi) * 3600,
       si_amount = sp_amount spi,
       si_time_points_used_before = used_before,
       si_sponsor_address = sp_sponsor_address spi,
       si_transaction_hash = transaction_hash,
       si_cancelled = False \<rparr>"

text \<open>The record of the content unit with the sponsorship pushed to its back.\<close>

definition push_sponsored_information ::
  "sponsor_content_unit \<Rightarrow> string \<Rightarrow> documents \<Rightarrow> content_unit_sponsored_information res" where
  "push_sponsored_information spi transaction_hash d =
     (case m_content_unit_sponsored_information d (sp_uri spi) of
        Some c \<Rightarrow>
          throw_if (ci_sponsored_informations c = []) (Logic_error ''cusi.sponsored_informations.empty()'')
          (throw_if (ci_time_points_used c = []) (Logic_error ''cusi.time_points_used.empty()'')
            (let si = sponsored_information_of spi transaction_hash (length (ci_time_points_used c))
             in refresh_index (c\<lparr>ci_index_si := ci_index_si c @ [length (ci_sponsored_informations c)],
                                 ci_sponsored_informations := ci_sponsored_informations c @ [si]\<rparr>)))
      | None \<Rightarrow>
          refresh_index \<lparr> ci_uri = sp_uri spi,
            ci_sponsored_informations = [sponsored_information_of spi transaction_hash 1],
            ci_time_points_used = [sp_start_time_point spi], ci_index_si = [0] \<rparr>)"

definition expiring_entry :: "sponsor_content_unit \<Rightarrow> string \<Rightarrow> u64 \<Rightarrow> sponsored_information_header" where
  "expiring_entry spi transaction_hash expiring =
     \<lparr> ih_uri = sp_uri spi, ih_transaction_hash = transaction_hash,
       ih_block_number = expiring, ih_manually_cancelled = coin_zero \<rparr>"

text \<open>The insertions into the three maps, once nothing can throw any more. \<open>insert\<close> of a
  \<open>map_loader\<close> answers whether it inserted, and leaves a present key alone.\<close>

definition add_sponsorship ::
  "sponsor_content_unit \<Rightarrow> string \<Rightarrow> content_unit_sponsored_information \<Rightarrow> u64 \<Rightarrow> documents \<Rightarrow> documents" where
  "add_sponsorship spi transaction_hash c expiring d =
     (let number = to_string_u64 expiring;
          expirings = (case m_sponsored_informations_expiring d number of None \<Rightarrow> [] | Some e \<Rightarrow> e)
      in d\<lparr>m_content_unit_sponsored_information := (m_content_unit_sponsored_information d)(sp_uri spi \<mapsto> c),
           m_sponsored_informations_expiring := (m_sponsored_informations_expiring d)
             (number \<mapsto> omap_alter transaction_hash (\<lambda>_. expiring_entry spi transaction_hash expiring) expirings),
           m_sponsored_informations_hash_to_block :=
             (if m_sponsored_informations_hash_to_block d transaction_hash = None
              then (m_sponsored_informations_hash_to_block d)
                     (transaction_hash \<mapsto> \<lparr> hb_transaction_hash = transaction_hash, hb_block_number = expiring \<rparr>)
              else m_sponsored_informations_hash_to_block d)\<rparr>)"

definition sponsor_content_unit_apply ::
  "blockchain \<Rightarrow> sponsor_content_unit \<Rightarrow> string \<Rightarrow> documents \<Rightarrow> documents res" where
  "sponsor_content_unit_apply b spi transaction_hash d =
     (let item_end_tp = sp_start_time_point spi + sint (sp_hours spi) * 3600
      in throw_if (item_end_tp \<le> sp_start_time_point spi) (Runtime_error ''item_end_tp <= item_start_tp'')
         (bind_res (push_sponsored_information spi transaction_hash d) (\<lambda>c.
          bind_res (get_expiring_block_number b item_end_tp) (\<lambda>expiring.
            Inr (add_sponsorship spi transaction_hash c expiring d)))))"

definition check_expiring_entry :: "sponsored_information_header \<Rightarrow> string \<Rightarrow> string \<Rightarrow> u64 \<Rightarrow> 'a res \<Rightarrow> 'a res" where
  "check_expiring_entry entry uri transaction_hash expiring k =
     throw_if (ih_uri entry \<noteq> uri) (Logic_error ''expiration_item.uri != spi.uri'')
     (throw_if (ih_block_number entry \<noteq> expiring) (Logic_error ''expiration_item.block_number != expiring_block_number'')
     (throw_if (ih_transaction_hash entry \<noteq> transaction_hash)
        (Logic_error ''expiration_item.transaction_hash != si.transaction_hash'')
     (throw_if (ih_manually_cancelled entry \<noteq> coin_zero)
        (Logic_error ''expiration_item.manually_cancelled != StorageTypes::Coin()'') k)))"

definition pop_sponsored_information ::
  "sponsor_content_unit \<Rightarrow> string \<Rightarrow> content_unit_sponsored_information \<Rightarrow>
   (sponsored_information \<times> content_unit_sponsored_information option) res" where
  "pop_sponsored_information spi transaction_hash c =
     throw_if (ci_sponsored_informations c = [] \<or> si_amount (last (ci_sponsored_informations c)) \<noteq> sp_amount spi)
       (Logic_error ''cusi.sponsored_informations.back().amount != si'')
     (throw_if (ci_time_points_used c = []) (Logic_error ''cusi.time_points_used.empty()'')
       (let si = last (ci_sponsored_informations c)
        in throw_if (length (ci_time_points_used c) \<noteq> si_time_points_used_before si)
             (Logic_error ''cusi.time_points_used.size() != cusi.sponsored_informations.back().time_points_used_before'')
           (throw_if (si_transaction_hash si \<noteq> transaction_hash) (Logic_error ''si.transaction_hash != transaction_hash'')
           (throw_if (si_cancelled si) (Logic_error ''si.cancelled == true'')
             (let c' = c\<lparr>ci_sponsored_informations := butlast (ci_sponsored_informations c)\<rparr>
              in if ci_sponsored_informations c' = [] then Inr (si, None)
                 else bind_res (refresh_index c') (\<lambda>c''. Inr (si, Some c'')))))))"

definition sponsor_content_unit_revert ::
  "blockchain \<Rightarrow> sponsor_content_unit \<Rightarrow> string \<Rightarrow> documents \<Rightarrow> documents res" where
  "sponsor_content_unit_revert b spi transaction_hash d =
     (case m_content_unit_sponsored_information d (sp_uri spi) of
        None \<Rightarrow> Inl External_error
      | Some c \<Rightarrow>
          bind_res (pop_sponsored_information spi transaction_hash c) (\<lambda>(si, c').
          bind_res (get_expiring_block_number b (si_end_time_point si)) (\<lambda>expiring.
            let d1 = d\<lparr>m_content_unit_sponsored_information := (m_content_unit_sponsored_information d)(sp_uri spi := c')\<rparr>;
                number = to_string_u64 expiring
            in bind_res (expiration_entry_ref_by_block expiring d1) (\<lambda>expirings.
               case map_of expirings (si_transaction_hash si) of
                 None \<Rightarrow> Inl (Logic_error ''0 == expirings.expirations.count(si.transaction_hash)'')
               | Some entry \<Rightarrow>
                   check_expiring_entry entry (sp_uri spi) (si_transaction_hash si) expiring
                     (let expirings' = omap_erase (si_transaction_hash si) expirings
                      in Inr (d1\<lparr>m_sponsored_informations_expiring := (m_sponsored_informations_expiring d1)
                                   (number := if expirings' = [] then None else Some expirings'),
                                 m_sponsored_informations_hash_to_block :=
                                   (m_sponsored_informations_hash_to_block d1)(si_transaction_hash si := None)\<rparr>))))))"

section \<open>Paying out\<close>

datatype set_used_type = Set_used_apply | Set_used_revert

text \<open>What the loop of \<open>sponsored_content_unit_set_used\<close> reads and does not change.\<close>

record set_used_call =
  uc_type :: set_used_type
  uc_cancel :: string
  uc_manual_by :: string
  uc_pretend :: bool
  uc_start_tp :: time
  uc_end_tp :: time
  uc_used_size :: nat

type_synonym sponsored_parts = "(string, (string, coin) omap) omap"

text \<open>The part of the amount that belongs to the time from the last use to this one: the
  quotient per second times the seconds, and the remainder with the last second.\<close>

definition part_start :: "set_used_call \<Rightarrow> sponsored_information \<Rightarrow> time" where
  "part_start u item =
     (if si_time_points_used_before item = uc_used_size u then si_start_time_point item
      else max (uc_start_tp u) (si_start_time_point item))"

definition part_end :: "set_used_call \<Rightarrow> sponsored_information \<Rightarrow> time" where
  "part_end u item =
     (if uc_cancel u \<noteq> [] then si_end_time_point item else min (uc_end_tp u) (si_end_time_point item))"

definition split_part :: "coin \<Rightarrow> time \<Rightarrow> time \<Rightarrow> bool \<Rightarrow> coin res" where
  "split_part amount whole_duration part_duration to_the_end =
     bind_res (coin_div amount (word_of_int whole_duration)) (\<lambda>per_second.
       let part = coin_times per_second (word_of_int part_duration)
       in if to_the_end
          then bind_res (coin_mod amount (word_of_int whole_duration)) (\<lambda>rest. Inr (coin_plus part rest))
          else Inr part)"

definition sponsored_part :: "set_used_call \<Rightarrow> sponsored_information \<Rightarrow> coin res" where
  "sponsored_part u item =
     bind_res (coin_of (si_amount item)) (\<lambda>amount.
       split_part amount (si_end_time_point item - si_start_time_point item)
         (part_end u item - part_start u item) (part_end u item = si_end_time_point item))"

text \<open>How one iteration leaves: the next item, \<open>break\<close>, or \<open>return\<close> with an empty
  result, which only a pretended cancellation does.\<close>

datatype 's flow = Next 's | Break | Return

type_synonym set_used_state = "sponsored_parts \<times> sponsored_information list \<times> documents"

text \<open>What a cancellation does to the item and its expiration entry.\<close>

definition cancel_item ::
  "set_used_call \<Rightarrow> nat \<Rightarrow> coin \<Rightarrow> set_used_state \<Rightarrow> set_used_state flow res" where
  "cancel_item u index part st =
     (case st of (result, infos, d) \<Rightarrow>
        let item = infos ! index; manual = (uc_manual_by u \<noteq> [])
        in bind_res (expiration_entry_ref_by_hash (si_transaction_hash item) d) (\<lambda>entry.
           if uc_type u = Set_used_apply
           then if si_cancelled item
                then if uc_pretend u then Inr Return
                     else Inl (if manual then Wrong_data ''already cancelled'' else Logic_error ''already cancelled'')
                else throw_if (ih_manually_cancelled entry \<noteq> coin_zero)
                       (Logic_error ''StorageTypes::Coin() != expiration_entry.manually_cancelled'')
                       (if uc_pretend u then Inr (Next (result, infos, d))
                        else Inr (Next (result, infos[index := item\<lparr>si_cancelled := True\<rparr>],
                                        if manual then set_manually_cancelled (si_transaction_hash item) part d else d)))
           else throw_if (\<not> si_cancelled item) (Logic_error ''false == item.cancelled'')
                (throw_if (manual \<noteq> (ih_manually_cancelled entry \<noteq> coin_zero))
                   (Logic_error ''manual != (expiration_entry.manually_cancelled != StorageTypes::Coin())'')
                   (if uc_pretend u then Inr (Next (result, infos, d))
                    else Inr (Next (result, infos[index := item\<lparr>si_cancelled := False\<rparr>],
                                    if manual then set_manually_cancelled (si_transaction_hash item) coin_zero d else d))))))"

definition set_used_item :: "set_used_call \<Rightarrow> nat \<Rightarrow> set_used_state \<Rightarrow> set_used_state flow res" where
  "set_used_item u index st =
     (case st of (result, infos, d) \<Rightarrow>
        if length infos \<le> index then Inl Undefined_behaviour
        else let item = infos ! index
             in if uc_end_tp u \<le> si_start_time_point item then Inr Break
                else if uc_cancel u = [] \<and> si_cancelled item then Inr (Next st)
                else if uc_cancel u \<noteq> [] \<and> si_transaction_hash item \<noteq> uc_cancel u then Inr (Next st)
                else bind_res (sponsored_part u item) (\<lambda>part.
                     if part = coin_zero then Inr (Next st)
                     else let parts = (case map_of result (si_sponsor_address item) of None \<Rightarrow> [] | Some m \<Rightarrow> m)
                          in throw_if (map_of parts (si_transaction_hash item) \<noteq> None)
                               (Logic_error ''temp_result.insert({item.transaction_hash, part})'')
                             (let result' = omap_alter (si_sponsor_address item)
                                    (\<lambda>_. omap_alter (si_transaction_hash item) (\<lambda>_. part) parts) result
                              in if uc_manual_by u \<noteq> [] \<and> si_sponsor_address item \<noteq> uc_manual_by u
                                 then if uc_pretend u then Inr Return
                                      else Inl (Authority_error (uc_manual_by u) (si_sponsor_address item))
                                 else if uc_cancel u \<noteq> [] then cancel_item u index part (result', infos, d)
                                 else Inr (Next (result', infos, d)))))"

text \<open>The loop over \<open>index_si\<close>, with the flag of the early \<open>return\<close>.\<close>

fun set_used_items :: "set_used_call \<Rightarrow> nat list \<Rightarrow> set_used_state \<Rightarrow> (bool \<times> set_used_state) res" where
  "set_used_items u [] st = Inr (False, st)"
| "set_used_items u (index # rest) st =
     bind_res (set_used_item u index st) (\<lambda>f.
       case f of Next st' \<Rightarrow> set_used_items u rest st'
       | Break \<Rightarrow> Inr (False, st)
       | Return \<Rightarrow> Inr (True, ([], fst (snd st), snd (snd st))))"

text \<open>The branch that takes back the last use: its time point goes and every sponsorship is
  indexed again.\<close>

definition unuse_last ::
  "content_unit_sponsored_information \<Rightarrow> content_unit_sponsored_information res" where
  "unuse_last c =
     (let used = butlast (ci_time_points_used c)
      in throw_if (used = []) (Logic_error ''cusi.time_points_used.empty()'')
           (refresh_index (c\<lparr>ci_time_points_used := used, ci_index_si := [0..<length (ci_sponsored_informations c)]\<rparr>)))"

definition sponsored_content_unit_set_used ::
  "blockchain \<Rightarrow> string \<Rightarrow> u64 \<Rightarrow> set_used_type \<Rightarrow> string \<Rightarrow> string \<Rightarrow> bool \<Rightarrow> documents
     \<Rightarrow> (sponsored_parts \<times> documents) res" where
  "sponsored_content_unit_set_used b content_unit_uri number ty transaction_hash_to_cancel manual_by_account pretend d =
     (let pretend = (pretend \<and> \<not> (transaction_hash_to_cancel = [] \<or> ty = Set_used_revert));
          last = m_last_header b;
          tp = (if block_number last < number
                then time_signed last + of_nat (BLOCK_MINE_DELAY * unat (number - block_number last))
                else time_signed last)
      in throw_if (number \<noteq> block_number last \<and> number \<noteq> block_number last + 1) (Logic_error ''block_number range'')
         (case m_content_unit_sponsored_information d content_unit_uri of
            None \<Rightarrow> Inr ([], d)
          | Some c \<Rightarrow>
              throw_if (ci_sponsored_informations c = []) (Logic_error ''cusi.sponsored_informations.empty()'')
              (throw_if (ci_time_points_used c = []) (Logic_error ''cusi.time_points_used.empty()'')
                (let start_tp = List.last (ci_time_points_used c);
                     enter = (ty = Set_used_apply \<and> start_tp < tp)
                           \<or> (ty = Set_used_revert
                              \<and> ((tp = start_tp \<and> transaction_hash_to_cancel = [])
                                 \<or> (start_tp < tp \<and> transaction_hash_to_cancel \<noteq> [])))
                 in bind_res
                      (if enter
                       then bind_res
                              (if ty = Set_used_revert \<and> transaction_hash_to_cancel = [] then unuse_last c else Inr c) (\<lambda>c1.
                            let u = \<lparr> uc_type = ty, uc_cancel = transaction_hash_to_cancel, uc_manual_by = manual_by_account,
                                      uc_pretend = pretend, uc_start_tp = List.last (ci_time_points_used c1), uc_end_tp = tp,
                                      uc_used_size = length (ci_time_points_used c1) \<rparr>
                            in bind_res (set_used_items u (ci_index_si c1) ([], ci_sponsored_informations c1, d)) (\<lambda>(returned, result, infos, d1).
                               Inr (returned, result, c1\<lparr>ci_sponsored_informations := infos\<rparr>, d1)))
                       else Inr (False, [], c, d)) (\<lambda>(returned, result, c2, d1).
                    bind_res
                      (if \<not> returned \<and> ty = Set_used_apply \<and> transaction_hash_to_cancel = []
                       then refresh_index (c2\<lparr>ci_time_points_used := ci_time_points_used c2 @ [tp]\<rparr>)
                       else Inr c2) (\<lambda>c3.
                    Inr (result, d1\<lparr>m_content_unit_sponsored_information :=
                                     (m_content_unit_sponsored_information d1)(content_unit_uri \<mapsto> c3)\<rparr>)))))))"

section \<open>Refreshing the index\<close>

definition kept_index :: "content_unit_sponsored_information \<Rightarrow> nat \<Rightarrow> bool" where
  "kept_index c i \<longleftrightarrow> i < length (ci_sponsored_informations c)
     \<and> item_live (last (ci_time_points_used c)) (length (ci_time_points_used c)) (ci_sponsored_informations c ! i)"

definition index_delay :: "content_unit_sponsored_information \<Rightarrow> nat \<Rightarrow> time" where
  "index_delay c i = item_delay (last (ci_time_points_used c)) (ci_sponsored_informations c ! i)"

lemma insort_snd: "insort_key snd (x, f x) (map (\<lambda>i. (i, f i)) xs) = map (\<lambda>i. (i, f i)) (insort_key f x xs)"
  by (induction xs) auto

lemma sort_key_pairs: "sort_key snd (map (\<lambda>i. (i, f i)) xs) = map (\<lambda>i. (i, f i)) (sort_key f xs)"
  by (induction xs) (simp_all add: insort_snd)

lemma collect_index_eq:
  "collect_index tp n infos idx = Inr arr \<longleftrightarrow>
     (\<forall>i \<in> set idx. i < length infos \<longrightarrow> si_time_points_used_before (infos ! i) \<le> n)
     \<and> arr = map (\<lambda>i. (i, item_delay tp (infos ! i))) (filter (\<lambda>i. i < length infos \<and> item_live tp n (infos ! i)) idx)"
proof (induction idx arbitrary: arr)
  case (Cons i idx)
  then show ?case by (auto simp: Let_def result_simps throw_if_def not_less not_le)
qed auto

lemma refresh_index_Inr:
  "refresh_index c = Inr c' \<longleftrightarrow> ci_time_points_used c \<noteq> []
     \<and> (\<forall>i \<in> set (ci_index_si c). i < length (ci_sponsored_informations c) \<longrightarrow>
          si_time_points_used_before (ci_sponsored_informations c ! i) \<le> length (ci_time_points_used c))
     \<and> c' = c\<lparr>ci_index_si := sort_key (index_delay c) (filter (kept_index c) (ci_index_si c))\<rparr>"
proof -
  have "map fst (sort_key snd (map (\<lambda>i. (i, index_delay c i)) xs)) = sort_key (index_delay c) xs" for xs
    unfolding sort_key_pairs by (simp add: comp_def)
  then show ?thesis
    by (auto simp: refresh_index_def result_simps collect_index_eq index_delay_def kept_index_def [abs_def])
qed

text \<open>What every operation keeps of the sponsoring maps.\<close>

definition cusi_wf :: "content_unit_sponsored_information \<Rightarrow> bool" where
  "cusi_wf c \<longleftrightarrow> ci_sponsored_informations c \<noteq> [] \<and> refresh_index c = Inr c
     \<and> (\<forall>si \<in> set (ci_sponsored_informations c). si_time_points_used_before si \<le> length (ci_time_points_used c))"

definition sponsoring_wf :: "documents \<Rightarrow> bool" where
  "sponsoring_wf d \<longleftrightarrow>
     (\<forall>uri c. m_content_unit_sponsored_information d uri = Some c \<longrightarrow> cusi_wf c)
     \<and> (\<forall>n e. m_sponsored_informations_expiring d n = Some e \<longrightarrow> e \<noteq> [] \<and> omap_ok e)"

definition sponsorship_fresh :: "string \<Rightarrow> documents \<Rightarrow> bool" where
  "sponsorship_fresh hash d \<longleftrightarrow> m_sponsored_informations_hash_to_block d hash = None
     \<and> (\<forall>n e. m_sponsored_informations_expiring d n = Some e \<longrightarrow> map_of e hash = None)"

lemma cusi_wf_time_points: "cusi_wf c \<Longrightarrow> ci_time_points_used c \<noteq> []"
  by (simp add: cusi_wf_def refresh_index_Inr)

lemma cusi_wf_index:
  assumes "cusi_wf c"
  shows "filter (kept_index c) (ci_index_si c) = ci_index_si c"
    and "sort_key (index_delay c) (ci_index_si c) = ci_index_si c"
proof -
  have "c = c\<lparr>ci_index_si := sort_key (index_delay c) (filter (kept_index c) (ci_index_si c))\<rparr>"
    using assms by (simp add: cusi_wf_def refresh_index_Inr)
  then have eq: "ci_index_si c = sort_key (index_delay c) (filter (kept_index c) (ci_index_si c))"
    by (metis content_unit_sponsored_information.select_convs(4)
        content_unit_sponsored_information.surjective content_unit_sponsored_information.update_convs(4))
  then have "set (ci_index_si c) \<subseteq> {i. kept_index c i}" by (metis filter_is_subset mem_Collect_eq set_filter set_sort subsetI)
  then show filt: "filter (kept_index c) (ci_index_si c) = ci_index_si c"
    by (simp add: filter_id_conv subset_iff)
  show "sort_key (index_delay c) (ci_index_si c) = ci_index_si c" using eq filt by simp
qed

text \<open>Refreshing again changes nothing.\<close>

lemma refresh_index_wf:
  assumes "refresh_index c = Inr c'" "ci_sponsored_informations c \<noteq> []"
    and "\<forall>si \<in> set (ci_sponsored_informations c). si_time_points_used_before si \<le> length (ci_time_points_used c)"
  shows "cusi_wf c'"
proof -
  let ?idx = "sort_key (index_delay c) (filter (kept_index c) (ci_index_si c))"
  have c': "ci_time_points_used c \<noteq> []" "c' = c\<lparr>ci_index_si := ?idx\<rparr>"
    using assms(1) by (simp_all add: refresh_index_Inr)
  have fields: "index_delay (c\<lparr>ci_index_si := x\<rparr>) = index_delay c" "kept_index (c\<lparr>ci_index_si := x\<rparr>) = kept_index c" for x
    by (simp_all add: index_delay_def kept_index_def fun_eq_iff)
  have "filter (kept_index c) ?idx = ?idx" by (simp add: filter_id_conv)
  moreover have "sort_key (index_delay c) ?idx = ?idx" by (simp add: sort_key_id_if_sorted)
  ultimately have "refresh_index c' = Inr c'"
    using c' assms(3) by (simp add: refresh_index_Inr fields)
  then show ?thesis using assms(2,3) c' by (simp add: cusi_wf_def)
qed

lemma push_then_pop:
  assumes wf: "cusi_wf c"
    and push: "refresh_index (c\<lparr>ci_index_si := ci_index_si c @ [length (ci_sponsored_informations c)],
        ci_sponsored_informations := ci_sponsored_informations c @ [si]\<rparr>) = Inr c1"
  shows "refresh_index (c1\<lparr>ci_sponsored_informations := ci_sponsored_informations c\<rparr>) = Inr c"
proof -
  let ?n = "length (ci_sponsored_informations c)"
  let ?p = "c\<lparr>ci_index_si := ci_index_si c @ [?n], ci_sponsored_informations := ci_sponsored_informations c @ [si]\<rparr>"
  let ?q = "c1\<lparr>ci_sponsored_informations := ci_sponsored_informations c\<rparr>"
  let ?idx = "sort_key (index_delay ?p) (filter (kept_index ?p) (ci_index_si c @ [?n]))"
  have c1: "c1 = ?p\<lparr>ci_index_si := ?idx\<rparr>" using push by (simp add: refresh_index_Inr)
  have q: "?q = c\<lparr>ci_index_si := ?idx\<rparr>" by (simp add: c1)
  have kept: "kept_index ?q = kept_index c" "index_delay ?q = index_delay c"
    unfolding q by (simp_all add: kept_index_def index_delay_def fun_eq_iff)
  have "filter (kept_index c) (filter (kept_index ?p) (ci_index_si c @ [?n])) = filter (kept_index c) (ci_index_si c)"
    by (auto simp: kept_index_def nth_append intro!: filter_cong)
  then have "filter (kept_index c) ?idx = sort_key (index_delay ?p) (ci_index_si c)"
    using cusi_wf_index [OF wf] by (simp add: filter_sort)
  also have "\<dots> = ci_index_si c"
  proof (rule sort_key_id_if_sorted)
    have "\<forall>i \<in> set (ci_index_si c). kept_index c i"
      using cusi_wf_index(1) [OF wf] by (simp add: filter_id_conv)
    then have "map (index_delay ?p) (ci_index_si c) = map (index_delay c) (ci_index_si c)"
      by (simp add: index_delay_def kept_index_def nth_append)
    then show "sorted (map (index_delay ?p) (ci_index_si c))"
      using cusi_wf_index(2) [OF wf] sorted_sort_key by metis
  qed
  finally have idx: "sort_key (index_delay c) (filter (kept_index c) ?idx) = ci_index_si c"
    using cusi_wf_index(2) [OF wf] by simp
  have used: "\<forall>i \<in> set (ci_index_si ?q). i < length (ci_sponsored_informations ?q) \<longrightarrow>
      si_time_points_used_before (ci_sponsored_informations ?q ! i) \<le> length (ci_time_points_used ?q)"
    using wf by (auto simp: q cusi_wf_def)
  have "ci_index_si ?q = ?idx" by (simp add: q)
  then show ?thesis
    using used idx cusi_wf_time_points [OF wf] unfolding refresh_index_Inr kept by (simp add: q)
qed

lemma omap_erase_alter: "map_of m k = None \<Longrightarrow> omap_erase k (omap_alter k f m) = m"
proof (induction m)
  case (Cons a m)
  obtain l v where a: "a = (l, v)" by force
  have "map_of m k = None" "l \<noteq> k" using Cons.prems by (auto simp: a split: if_splits)
  then show ?case using Cons.IH omap_erase_absent [of m k] by (auto simp: a omap_erase_def)
qed (simp add: omap_erase_def)

lemma push_sponsored_information_wf:
  assumes "sponsoring_wf d" "push_sponsored_information spi hash d = Inr c"
  shows "cusi_wf c"
proof (cases "m_content_unit_sponsored_information d (sp_uri spi)")
  case None
  then show ?thesis using assms(2)
    by (auto simp: push_sponsored_information_def sponsored_information_of_def intro!: refresh_index_wf)
next
  case (Some e)
  then have "\<forall>si \<in> set (ci_sponsored_informations e). si_time_points_used_before si \<le> length (ci_time_points_used e)"
    using assms(1) by (simp add: sponsoring_wf_def cusi_wf_def)
  then show ?thesis using assms(2) Some
    by (auto simp: push_sponsored_information_def sponsored_information_of_def result_simps Let_def
        intro!: refresh_index_wf)
qed

lemma sponsor_apply_Inr:
  "sponsor_content_unit_apply b spi hash d = Inr d' \<longleftrightarrow>
     0 < sint (sp_hours spi) \<and> (\<exists>c expiring. push_sponsored_information spi hash d = Inr c
       \<and> get_expiring_block_number b (sp_start_time_point spi + sint (sp_hours spi) * 3600) = Inr expiring
       \<and> d' = add_sponsorship spi hash c expiring d)"
  by (auto simp: sponsor_content_unit_apply_def Let_def result_simps not_le)

lemma omap_alter_nonempty [simp]: "omap_alter k f m \<noteq> []"
  by (cases m) (auto split: prod.split if_splits)

lemma sponsor_apply_wf:
  assumes "sponsoring_wf d" "sponsor_content_unit_apply b spi hash d = Inr d'"
  shows "sponsoring_wf d'"
proof -
  obtain c expiring where "push_sponsored_information spi hash d = Inr c"
    and d': "d' = add_sponsorship spi hash c expiring d"
    using assms(2) by (auto simp: sponsor_apply_Inr)
  then have "cusi_wf c" using push_sponsored_information_wf [OF assms(1)] by blast
  then show ?thesis using assms(1)
    by (auto simp: sponsoring_wf_def d' add_sponsorship_def Let_def omap_ok_alter split: if_splits option.splits)
qed

lemma pop_push_sponsored_information:
  assumes wf: "sponsoring_wf d" and push: "push_sponsored_information spi hash d = Inr c"
  obtains si where
    "pop_sponsored_information spi hash c = Inr (si, m_content_unit_sponsored_information d (sp_uri spi))"
    "si_end_time_point si = sp_start_time_point spi + sint (sp_hours spi) * 3600"
    "si_transaction_hash si = hash"
proof (cases "m_content_unit_sponsored_information d (sp_uri spi)")
  case None
  then show ?thesis using push
    by (intro that [of "sponsored_information_of spi hash 1"])
      (auto simp: push_sponsored_information_def refresh_index_Inr pop_sponsored_information_def
        sponsored_information_of_def Let_def)
next
  case (Some e)
  let ?si = "sponsored_information_of spi hash (length (ci_time_points_used e))"
  have wfe: "cusi_wf e" using wf Some by (simp add: sponsoring_wf_def)
  have ref: "refresh_index (e\<lparr>ci_index_si := ci_index_si e @ [length (ci_sponsored_informations e)],
        ci_sponsored_informations := ci_sponsored_informations e @ [?si]\<rparr>) = Inr c"
    using push Some by (auto simp: push_sponsored_information_def Let_def result_simps)
  have popped: "refresh_index (c\<lparr>ci_sponsored_informations := ci_sponsored_informations e\<rparr>) = Inr e"
    by (rule push_then_pop [OF wfe ref])
  have c: "ci_sponsored_informations c = ci_sponsored_informations e @ [?si]"
    "ci_time_points_used c = ci_time_points_used e"
    using ref by (simp_all add: refresh_index_Inr)
  show ?thesis
    by (rule that [of ?si])
      (use Some c popped wfe cusi_wf_time_points [OF wfe] in
        \<open>simp_all add: pop_sponsored_information_def Let_def cusi_wf_def sponsored_information_of_def\<close>)
qed

lemma sponsor_revert_apply:
  assumes wf: "sponsoring_wf d" and fresh: "sponsorship_fresh hash d"
    and "sponsor_content_unit_apply b spi hash d = Inr d'"
  shows "sponsor_content_unit_revert b spi hash d' = Inr d"
proof -
  obtain c expiring where push: "push_sponsored_information spi hash d = Inr c"
    and ex: "get_expiring_block_number b (sp_start_time_point spi + sint (sp_hours spi) * 3600) = Inr expiring"
    and d': "d' = add_sponsorship spi hash c expiring d"
    using assms(3) by (auto simp: sponsor_apply_Inr)
  obtain si where si: "pop_sponsored_information spi hash c = Inr (si, m_content_unit_sponsored_information d (sp_uri spi))"
    "si_end_time_point si = sp_start_time_point spi + sint (sp_hours spi) * 3600" "si_transaction_hash si = hash"
    by (rule pop_push_sponsored_information [OF wf push])
  let ?n = "to_string_u64 expiring"
  let ?old = "case m_sponsored_informations_expiring d ?n of None \<Rightarrow> [] | Some e \<Rightarrow> e"
  have old: "map_of ?old hash = None" "omap_ok ?old"
    using fresh wf by (auto simp: sponsorship_fresh_def sponsoring_wf_def split: option.splits)
  have entry: "map_of (omap_alter hash (\<lambda>_. expiring_entry spi hash expiring) ?old) hash = Some (expiring_entry spi hash expiring)"
    by (simp add: map_of_omap_alter old)
  have erased: "omap_erase hash (omap_alter hash (\<lambda>_. expiring_entry spi hash expiring) ?old) = ?old"
    by (rule omap_erase_alter [OF old(1)])
  have restore: "(m_sponsored_informations_expiring d)(?n := if ?old = [] then None else Some ?old) = m_sponsored_informations_expiring d"
    using wf by (auto simp: sponsoring_wf_def fun_upd_idem_iff split: option.splits)
  have hb: "(m_sponsored_informations_hash_to_block d)(hash := None) = m_sponsored_informations_hash_to_block d"
    using fresh by (simp add: sponsorship_fresh_def fun_upd_idem_iff)
  have exp: "m_sponsored_informations_expiring d' = (m_sponsored_informations_expiring d)
      (?n \<mapsto> omap_alter hash (\<lambda>_. expiring_entry spi hash expiring) ?old)"
    and info: "m_content_unit_sponsored_information d' = (m_content_unit_sponsored_information d)(sp_uri spi \<mapsto> c)"
    and hash: "m_sponsored_informations_hash_to_block d' = (m_sponsored_informations_hash_to_block d)
      (hash \<mapsto> \<lparr> hb_transaction_hash = hash, hb_block_number = expiring \<rparr>)"
    and rest: "m_files d' = m_files d" "m_units d' = m_units d" "m_storages d' = m_storages d"
    using fresh by (simp_all add: d' add_sponsorship_def Let_def sponsorship_fresh_def)
  have check: "check_expiring_entry (expiring_entry spi hash expiring) (sp_uri spi) hash expiring k = k"
    for k :: "documents res"
    by (simp add: check_expiring_entry_def expiring_entry_def)
  have "sponsor_content_unit_revert b spi hash d' = Inr
      (d'\<lparr>m_content_unit_sponsored_information := (m_content_unit_sponsored_information d),
          m_sponsored_informations_expiring := (m_sponsored_informations_expiring d)(?n := if ?old = [] then None else Some ?old),
          m_sponsored_informations_hash_to_block := (m_sponsored_informations_hash_to_block d)(hash := None)\<rparr>)"
    using si ex entry erased
    by (simp add: sponsor_content_unit_revert_def Let_def expiration_entry_ref_by_block_def info exp hash check)
  also have "\<dots> = Inr d" unfolding restore hb using rest by simp
  finally show ?thesis .
qed

section \<open>The parts add up\<close>

lemma unat_word_of_duration: "0 \<le> d \<Longrightarrow> d < 2 ^ 64 \<Longrightarrow> unat (word_of_int d :: u64) = nat d"
  by (simp add: unsigned_of_int take_bit_int_eq_self)

lemma div_scale_le: "d \<le> n \<Longrightarrow> a div n * d \<le> (a :: nat)"
  by (meson div_times_less_eq_dividend le_trans mult_le_mono2)

lemma split_part_val:
  assumes ok: "coin_ok a" and small: "coin_val a < 2 ^ 64"
    and d: "0 \<le> d" "d \<le> w" "0 < w" "w < 2 ^ 64"
  shows "\<exists>p. split_part a w d to_end = Inr p \<and> coin_ok p
    \<and> coin_val p = coin_val a div nat w * nat d + (if to_end then coin_val a mod nat w else 0)"
proof -
  let ?w = "word_of_int w :: u64" and ?d = "word_of_int d :: u64"
  have w: "unat ?w = nat w" "unat ?d = nat d" using d by (simp_all add: unat_word_of_duration)
  have w0: "?w \<noteq> 0" using w(1) d(3) by (metis unat_eq_zero zero_less_nat_eq less_irrefl)
  obtain q where q: "coin_div a ?w = Inr q" using coin_div_total [OF w0] by blast
  have qv: "coin_val q = coin_val a div nat w" using coin_div_val [OF small q] by (simp add: w)
  have le: "coin_val q * nat d \<le> coin_val a" using d by (simp add: qv div_scale_le)
  have "unat (fraction q) * nat d \<le> coin_val q * nat d"
    by (intro mult_le_mono1) (simp add: coin_val_def)
  then have frac: "unat (fraction q) * unat ?d < 2 ^ 64" using le small unfolding w by linarith
  have lim: "coin_val q * unat ?d < val_limit" using le small by (simp add: w)
  have tv: "coin_val (coin_times q ?d) = coin_val a div nat w * nat d"
    using coin_times_val [OF frac lim] by (simp add: w qv)
  show ?thesis
  proof (cases to_end)
    case True
    obtain r where r: "coin_mod a ?w = Inr r" "coin_ok r" "coin_val r = coin_val a mod nat w"
      using coin_mod_val [OF ok small w0] by (auto simp: w)
    have "coin_val (coin_times q ?d) + coin_val r \<le> coin_val a + coin_val a"
      using le tv r(3) qv by (simp add: add_mono)
    then have "coin_val (coin_times q ?d) + coin_val r < val_limit" using small by simp
    then show ?thesis
      using True q r tv by (simp add: split_part_def Let_def coin_plus_ok coin_times_ok coin_plus_val)
  qed (use q tv in \<open>simp add: split_part_def Let_def coin_times_ok\<close>)
qed

text \<open>The calls that pay one sponsorship, at the time points \<open>ends\<close>: the first finds as many
  time points as the sponsorship recorded when it was made, each later one more.\<close>

fun uses_from :: "time \<Rightarrow> nat \<Rightarrow> time list \<Rightarrow> set_used_call list" where
  "uses_from start_tp used [] = []"
| "uses_from start_tp used (tp # tps) =
     \<lparr> uc_type = Set_used_apply, uc_cancel = [], uc_manual_by = [], uc_pretend = False,
       uc_start_tp = start_tp, uc_end_tp = tp, uc_used_size = used \<rparr> # uses_from tp (Suc used) tps"

definition payable :: "sponsored_information \<Rightarrow> bool" where
  "payable item \<longleftrightarrow> coin_ok (si_amount item) \<and> coin_val (si_amount item) < 2 ^ 64
     \<and> si_start_time_point item < si_end_time_point item
     \<and> si_end_time_point item - si_start_time_point item < 2 ^ 64"

lemma sponsored_part_val:
  assumes p: "payable item" and u: "uc_cancel u = []" "si_start_time_point item < uc_end_tp u"
    and at: "part_start u item = t" "si_start_time_point item \<le> t" "t \<le> part_end u item"
  defines "w \<equiv> nat (si_end_time_point item - si_start_time_point item)"
  shows "\<exists>part. sponsored_part u item = Inr part \<and> coin_ok part
    \<and> coin_val part = coin_val (si_amount item) div w * nat (part_end u item - t)
        + (if si_end_time_point item \<le> uc_end_tp u then coin_val (si_amount item) mod w else 0)"
proof -
  have "part_end u item \<le> si_end_time_point item" using u by (simp add: part_end_def)
  moreover have "part_end u item = si_end_time_point item \<longleftrightarrow> si_end_time_point item \<le> uc_end_tp u"
    using u by (auto simp: part_end_def min_def)
  ultimately show ?thesis
    using split_part_val [of "si_amount item" "part_end u item - t"
        "si_end_time_point item - si_start_time_point item" "part_end u item = si_end_time_point item"] p at
    by (cases "si_end_time_point item \<le> uc_end_tp u") (simp_all add: sponsored_part_def payable_def w_def)
qed

text \<open>After the first use, at \<open>t\<close>: the seconds still to come are paid, and the remainder.\<close>

lemma later_parts_sum:
  assumes p: "payable item" and used: "si_time_points_used_before item < used"
    and t: "si_start_time_point item < t" "t < si_end_time_point item"
    and ends: "sorted_wrt (<) (t # ends)" "ends \<noteq> []" "si_end_time_point item \<le> last ends"
      "\<forall>e \<in> set (butlast ends). e < si_end_time_point item"
  defines "w \<equiv> nat (si_end_time_point item - si_start_time_point item)"
    and "v \<equiv> coin_val (si_amount item)"
  shows "\<exists>parts. map (\<lambda>u. sponsored_part u item) (uses_from t used ends) = map Inr parts
    \<and> sum_list (map coin_val parts) = v div w * nat (si_end_time_point item - t) + v mod w"
  using used t ends
proof (induction ends arbitrary: t used)
  case (Cons e ends)
  let ?u = "\<lparr> uc_type = Set_used_apply, uc_cancel = [], uc_manual_by = [], uc_pretend = False,
       uc_start_tp = t, uc_end_tp = e, uc_used_size = used \<rparr>"
  have start: "part_start ?u item = t" using Cons.prems by (simp add: part_start_def)
  have te: "t < e" using Cons.prems by simp
  have "t \<le> part_end ?u item" using Cons.prems te by (simp add: part_end_def)
  then obtain part where part: "sponsored_part ?u item = Inr part"
    "coin_val part = v div w * nat (part_end ?u item - t) + (if si_end_time_point item \<le> e then v mod w else 0)"
    using sponsored_part_val [OF p, of ?u t] start Cons.prems te by (auto simp: w_def v_def)
  show ?case
  proof (cases "ends = []")
    case True
    then have "si_end_time_point item \<le> e" using Cons.prems by simp
    then show ?thesis using part True by (intro exI [of _ "[part]"]) (simp add: part_end_def)
  next
    case False
    then have e: "e < si_end_time_point item" using Cons.prems by simp
    obtain parts where parts: "map (\<lambda>u. sponsored_part u item) (uses_from e (Suc used) ends) = map Inr parts"
      "sum_list (map coin_val parts) = v div w * nat (si_end_time_point item - e) + v mod w"
      using Cons.IH [of "Suc used" e] Cons.prems e False te by auto
    have "nat (e - t) + nat (si_end_time_point item - e) = nat (si_end_time_point item - t)"
      using te e by simp
    then have "v div w * nat (e - t) + v div w * nat (si_end_time_point item - e)
        = v div w * nat (si_end_time_point item - t)"
      by (metis add_mult_distrib2)
    then show ?thesis using part parts e
      by (intro exI [of _ "part # parts"]) (simp add: part_end_def)
  qed
qed simp

lemma all_parts_sum:
  assumes p: "payable item"
    and ends: "sorted_wrt (<) ends" "ends \<noteq> []" "si_start_time_point item < hd ends"
      "si_end_time_point item \<le> last ends" "\<forall>e \<in> set (butlast ends). e < si_end_time_point item"
  shows "\<exists>parts. map (\<lambda>u. sponsored_part u item)
        (uses_from start_tp (si_time_points_used_before item) ends) = map Inr parts
    \<and> sum_list (map coin_val parts) = coin_val (si_amount item)"
proof -
  let ?w = "nat (si_end_time_point item - si_start_time_point item)" and ?v = "coin_val (si_amount item)"
  obtain e es where es: "ends = e # es" using ends(2) by (cases ends) auto
  let ?u = "\<lparr> uc_type = Set_used_apply, uc_cancel = [], uc_manual_by = [], uc_pretend = False,
       uc_start_tp = start_tp, uc_end_tp = e, uc_used_size = si_time_points_used_before item \<rparr>"
  have se: "si_start_time_point item < e" using ends es by simp
  have w: "si_start_time_point item < si_end_time_point item" using p by (simp add: payable_def)
  obtain part where part: "sponsored_part ?u item = Inr part"
    "coin_val part = ?v div ?w * nat (part_end ?u item - si_start_time_point item)
      + (if si_end_time_point item \<le> e then ?v mod ?w else 0)"
    using sponsored_part_val [OF p, of ?u "si_start_time_point item"] se w
    by (auto simp: part_start_def part_end_def)
  show ?thesis
  proof (cases "es = []")
    case True
    then have "si_end_time_point item \<le> e" using ends es by simp
    then show ?thesis using part True es by (intro exI [of _ "[part]"]) (simp add: part_end_def)
  next
    case False
    then have e: "e < si_end_time_point item" using ends es by simp
    obtain parts where parts: "map (\<lambda>u. sponsored_part u item)
        (uses_from e (Suc (si_time_points_used_before item)) es) = map Inr parts"
      "sum_list (map coin_val parts) = ?v div ?w * nat (si_end_time_point item - e) + ?v mod ?w"
      using later_parts_sum [OF p lessI se e, of es] ends es False by auto
    have "nat (e - si_start_time_point item) + nat (si_end_time_point item - e) = ?w"
      using se e by simp
    then have "?v div ?w * nat (e - si_start_time_point item) + (?v div ?w * nat (si_end_time_point item - e) + ?v mod ?w)
        = ?v"
      by (metis add.assoc add_mult_distrib2 div_mult_mod_eq)
    moreover have "coin_val part = ?v div ?w * nat (e - si_start_time_point item)"
      using part(2) e by (simp add: part_end_def)
    ultimately have "sum_list (map coin_val (part # parts)) = ?v" by (simp only: list.map sum_list.Cons parts(2))
    then show ?thesis using part(1) parts(1) es
      by (intro exI [of _ "part # parts"]) simp
  qed
qed

section \<open>What a call returns\<close>

definition parts_nonzero :: "sponsored_parts \<Rightarrow> bool" where
  "parts_nonzero r \<longleftrightarrow> (\<forall>(sponsor, parts) \<in> set r. \<forall>(hash, part) \<in> set parts. part \<noteq> coin_zero)"

lemma omap_alter_set: "set (omap_alter k (\<lambda>_. v) m) \<subseteq> set m \<union> {(k, v)}"
proof (induction m)
  case (Cons a m)
  obtain l v where a: "a = (l, v)" by force
  show ?case using Cons by (auto simp: a split: if_splits)
qed simp

lemma parts_nonzero_alter:
  assumes "parts_nonzero r" "part \<noteq> coin_zero"
  shows "parts_nonzero (omap_alter a (\<lambda>_. omap_alter h (\<lambda>_. part)
    (case map_of r a of None \<Rightarrow> [] | Some m \<Rightarrow> m)) r)"
proof -
  let ?m = "case map_of r a of None \<Rightarrow> [] | Some m \<Rightarrow> m"
  have "\<forall>(h, p) \<in> set ?m. p \<noteq> coin_zero"
  proof (cases "map_of r a")
    case (Some m)
    then have "(a, m) \<in> set r" by (rule map_of_SomeD)
    then show ?thesis using assms(1) Some unfolding parts_nonzero_def by auto
  qed simp
  then have "\<forall>(h, p) \<in> set (omap_alter h (\<lambda>_. part) ?m). p \<noteq> coin_zero"
    using omap_alter_set [of h part ?m] assms(2) by blast
  then show ?thesis
    using assms(1) omap_alter_set [of a "omap_alter h (\<lambda>_. part) ?m" r]
    unfolding parts_nonzero_def by blast
qed

lemma cancel_item_result:
  "cancel_item u i part (r, infos, d) = Inr (Next (r', infos', d')) \<Longrightarrow> r' = r"
  by (auto simp: cancel_item_def Let_def result_simps split: if_splits)

lemma set_used_item_nonzero:
  assumes "set_used_item u i (r, infos, d) = Inr (Next (r', infos', d'))" "parts_nonzero r"
  shows "parts_nonzero r'"
proof -
  have "r' = r \<or> (\<exists>a h part. part \<noteq> coin_zero \<and>
      r' = omap_alter a (\<lambda>_. omap_alter h (\<lambda>_. part) (case map_of r a of None \<Rightarrow> [] | Some m \<Rightarrow> m)) r)"
    using assms(1)
    by (auto simp: set_used_item_def Let_def result_simps split: if_splits dest!: cancel_item_result)
  then show ?thesis using parts_nonzero_alter assms(2) by blast
qed

lemma set_used_items_nonzero:
  "set_used_items u idx (r, infos, d) = Inr (early, r', rest) \<Longrightarrow> parts_nonzero r \<Longrightarrow> parts_nonzero r'"
proof (induction idx arbitrary: r infos d)
  case (Cons i idx)
  obtain f where f: "set_used_item u i (r, infos, d) = Inr f"
    "(case f of Next st' \<Rightarrow> set_used_items u idx st' | Break \<Rightarrow> Inr (False, r, infos, d)
       | Return \<Rightarrow> Inr (True, [], infos, d)) = Inr (early, r', rest)"
    using Cons.prems(1) by (auto simp: result_simps)
  show ?case
  proof (cases f)
    case (Next st')
    obtain r1 infos1 d1 where "st' = (r1, infos1, d1)" by (cases st') auto
    then show ?thesis using Cons f Next set_used_item_nonzero [of u i r infos d r1 infos1 d1] by simp
  qed (use f Cons.prems(2) in \<open>auto simp: parts_nonzero_def [of "[]"]\<close>)
qed simp

lemma set_used_nonzero:
  assumes "sponsored_content_unit_set_used b uri n ty h m p d = Inr (r, d')"
  shows "parts_nonzero r"
proof -
  have empty: "parts_nonzero []" by (simp add: parts_nonzero_def)
  show ?thesis using assms empty
    by (auto simp: sponsored_content_unit_set_used_def Let_def result_simps
        split: option.splits if_splits dest!: set_used_items_nonzero)
qed

end
