(* ===== verification/Action_Log.thy ===== *)
theory Action_Log
  imports Blockchain
begin

text \<open>
  libblockchain/action\_log.cpp: the append-only log of applied and reverted blocks and
  transactions. A revert never erases: it appends a marked copy of the entry it undoes, which
  the loop of \<open>revert\<close> finds by counting apply and revert marks backwards. The section on
  the stack shows that this loop is the pop of a stack.
\<close>

section \<open>Entries\<close>

datatype logging_type = LT_apply | LT_revert

record transaction_log =
  tl_fee :: coin
  tl_time_signed :: time
  tl_transaction_hash :: string
  tl_transaction_size :: u64
  tl_action :: action

record reward_log =
  rl_to :: string
  rl_amount :: coin
  rl_reward_type :: reward_type

record content_unit_impact_log =
  il_content_unit_uri :: string
  il_views_per_channel :: "(string \<times> u64) list"

record sponsor_content_unit_applied =
  sl_amount :: coin
  sl_transaction_hash :: string

record block_log =
  bl_block_hash :: string
  bl_block_number :: u64
  bl_time_signed :: time
  bl_authority :: string
  bl_block_size :: u64
  bl_transactions :: "transaction_log list"
  bl_rewards :: "reward_log list"
  bl_unit_uri_impacts :: "content_unit_impact_log list"
  bl_applied_sponsor_items :: "sponsor_content_unit_applied list"

datatype logged_action = Block_log block_log | Transaction_log transaction_log

record logged_transaction =
  logging_type :: logging_type
  log_index :: u64
  log_action :: logged_action

section \<open>State and operations\<close>

text \<open>\<open>m_revert_index\<close> is 64 bits wide: it is all ones for an empty log.\<close>

record action_log =
  m_actions :: "logged_transaction list"
  m_enabled :: bool
  m_revert_index :: u64

definition al_length :: "action_log \<Rightarrow> u64" where
  "al_length l = of_nat (length (m_actions l))"

definition al_init :: "logged_transaction list \<Rightarrow> bool \<Rightarrow> action_log" where
  "al_init actions log_enabled =
     \<lparr> m_actions = actions, m_enabled = log_enabled, m_revert_index = of_nat (length actions) - 1 \<rparr>"

text \<open>\<open>discard\<close> goes back to the committed entries.\<close>

definition al_discard :: "logged_transaction list \<Rightarrow> action_log \<Rightarrow> action_log" where
  "al_discard saved l = l\<lparr>m_actions := saved, m_revert_index := of_nat (length saved) - 1\<rparr>"

definition al_clear :: "action_log \<Rightarrow> action_log" where
  "al_clear l = l\<lparr>m_actions := []\<rparr>"

definition al_at :: "nat \<Rightarrow> action_log \<Rightarrow> logged_transaction res" where
  "al_at number l = (if number < length (m_actions l) then Inr (m_actions l ! number) else Inl External_error)"

definition al_insert :: "logged_action \<Rightarrow> action_log \<Rightarrow> action_log" where
  "al_insert a l =
     l\<lparr>m_actions := m_actions l @ [\<lparr> logging_type = LT_apply, log_index = al_length l, log_action = a \<rparr>],
       m_revert_index := al_length l\<rparr>"

definition transaction_log_of :: "ext \<Rightarrow> signed_transaction \<Rightarrow> transaction_log" where
  "transaction_log_of E st =
     (let serialized = x_signed_transaction_string E st
      in \<lparr> tl_fee = tx_fee (transaction_details st), tl_time_signed = tx_creation (transaction_details st),
           tl_transaction_hash = x_hash E serialized, tl_transaction_size = of_nat (length serialized),
           tl_action = tx_action (transaction_details st) \<rparr>)"

definition log_transaction :: "ext \<Rightarrow> signed_transaction \<Rightarrow> action_log \<Rightarrow> action_log" where
  "log_transaction E st l =
     (if \<not> m_enabled l then l else al_insert (Transaction_log (transaction_log_of E st)) l)"

definition log_block ::
  "ext \<Rightarrow> signed_block \<Rightarrow> (string, (string, u64) omap) omap \<Rightarrow> (string, coin) omap \<Rightarrow> action_log \<Rightarrow> action_log res" where
  "log_block E sb unit_uri_view_counts applied_sponsor_items l =
     (if \<not> m_enabled l then Inr l
      else let bl = block_details sb; serialized = x_block_string E bl
           in bind_res (get_miner sb) (\<lambda>miner.
                Inr (al_insert (Block_log
                  \<lparr> bl_block_hash = x_hash E serialized,
                    bl_block_number = block_number (header bl),
                    bl_time_signed = time_signed (header bl),
                    bl_authority = miner,
                    bl_block_size = of_nat (length serialized),
                    bl_transactions = map (transaction_log_of E) (signed_transactions bl),
                    bl_rewards = map (\<lambda>r. \<lparr> rl_to = rw_to r, rl_amount = rw_amount r, rl_reward_type = rw_type r \<rparr>) (rewards bl),
                    bl_unit_uri_impacts = map (\<lambda>(uri, views). \<lparr> il_content_unit_uri = uri, il_views_per_channel = views \<rparr>)
                      unit_uri_view_counts,
                    bl_applied_sponsor_items = map (\<lambda>(hash, amount). \<lparr> sl_amount = amount, sl_transaction_hash = hash \<rparr>)
                      applied_sponsor_items \<rparr>) l)))"

text \<open>
  The loop of \<open>revert\<close>, from \<open>index\<close> downwards. The counter starts at 0 and only
  becomes negative, which ends the loop, on an apply entry reached at 0; a natural number
  holds it while the loop runs.
\<close>

fun revert_scan :: "logged_transaction list \<Rightarrow> nat \<Rightarrow> nat \<Rightarrow> nat res" where
  "revert_scan actions index mark =
     (if length actions \<le> index then Inl External_error
      else if logging_type (actions ! index) = LT_revert
           then (case index of 0 \<Rightarrow> Inl (Runtime_error ''Nothing to revert!'')
                  | Suc i \<Rightarrow> revert_scan actions i (Suc mark))
           else (case mark of 0 \<Rightarrow> Inr index
                  | Suc m \<Rightarrow> (case index of 0 \<Rightarrow> Inl (Runtime_error ''Nothing to revert!'')
                       | Suc i \<Rightarrow> revert_scan actions i m)))"

declare revert_scan.simps [simp del]

definition al_revert :: "action_log \<Rightarrow> action_log res" where
  "al_revert l =
     (if \<not> m_enabled l then Inr l
      else bind_res (revert_scan (m_actions l) (unat (m_revert_index l)) 0) (\<lambda>index.
           bind_res (al_at index l) (\<lambda>info.
             Inr (l\<lparr>m_actions := m_actions l @ [info\<lparr>logging_type := LT_revert\<rparr>],
                    m_revert_index := of_nat index - 1\<rparr>))))"

section \<open>The stack behind the log\<close>

text \<open>The positions of the entries that are applied and not reverted, the latest first.\<close>

definition stack_step :: "nat \<Rightarrow> logged_transaction \<Rightarrow> nat list \<Rightarrow> nat list" where
  "stack_step i e s = (if logging_type e = LT_apply then i # s else tl s)"

fun open_from :: "nat \<Rightarrow> nat list \<Rightarrow> logged_transaction list \<Rightarrow> nat list" where
  "open_from i s [] = s"
| "open_from i s (e # es) = open_from (Suc i) (stack_step i e s) es"

definition open_entries :: "logged_transaction list \<Rightarrow> nat list" where
  "open_entries es = open_from 0 [] es"

text \<open>Every revert entry had something to undo.\<close>

definition log_balanced :: "logged_transaction list \<Rightarrow> bool" where
  "log_balanced es \<longleftrightarrow> (\<forall>i < length es. logging_type (es ! i) = LT_revert \<longrightarrow> open_entries (take i es) \<noteq> [])"

definition action_log_wf :: "action_log \<Rightarrow> bool" where
  "action_log_wf l \<longleftrightarrow> log_balanced (m_actions l) \<and> length (m_actions l) < 2 ^ 64 - 2
     \<and> (if unat (m_revert_index l) < length (m_actions l)
        then open_entries (take (Suc (unat (m_revert_index l))) (m_actions l)) = open_entries (m_actions l)
        else open_entries (m_actions l) = [])"

lemma open_from_append: "open_from i s (es @ fs) = open_from (i + length es) (open_from i s es) fs"
  by (induction es arbitrary: i s) simp_all

lemma open_entries_snoc: "open_entries (es @ [e]) = stack_step (length es) e (open_entries es)"
  by (simp add: open_entries_def open_from_append)

lemma open_entries_Nil [simp]: "open_entries [] = []"
  by (simp add: open_entries_def)

lemma open_entries_less: "i \<in> set (open_entries es) \<Longrightarrow> i < length es"
proof (induction es rule: rev_induct)
  case (snoc e es)
  then show ?case
    by (cases "open_entries es") (auto simp: open_entries_snoc stack_step_def split: if_splits)
qed simp

lemma open_entries_apply: "log_balanced es \<Longrightarrow> i \<in> set (open_entries es) \<Longrightarrow> logging_type (es ! i) = LT_apply"
proof (induction es rule: rev_induct)
  case (snoc e es)
  have bal: "log_balanced es"
    using snoc.prems(1) by (auto simp: log_balanced_def nth_append split: if_splits)
  show ?case
  proof (cases "i = length es")
    case True
    then have "i \<notin> set (tl (open_entries es))"
      using open_entries_less [of i es] by (cases "open_entries es") auto
    then show ?thesis using True snoc.prems(2) by (auto simp: open_entries_snoc stack_step_def split: if_splits)
  next
    case False
    then have i: "i \<in> set (open_entries es)"
      using snoc.prems(2) by (cases "open_entries es") (auto simp: open_entries_snoc stack_step_def split: if_splits)
    then show ?thesis using snoc.IH [OF bal i] open_entries_less [OF i] by (simp add: nth_append)
  qed
qed simp

lemma log_balanced_snoc:
  "log_balanced (es @ [e]) \<longleftrightarrow> log_balanced es \<and> (logging_type e = LT_revert \<longrightarrow> open_entries es \<noteq> [])"
  by (auto simp: log_balanced_def nth_append less_Suc_eq split: if_splits)

text \<open>The backwards scan reads the stack: with \<open>mark\<close> reverts outstanding it finds the entry
  at depth \<open>mark\<close>.\<close>

lemma revert_scan_stack:
  assumes "log_balanced es" "i < length es"
  shows "revert_scan es i mark =
    (let s = open_entries (take (Suc i) es)
     in if mark < length s then Inr (s ! mark) else Inl (Runtime_error ''Nothing to revert!''))"
  using assms
proof (induction i arbitrary: mark)
  case 0
  then have "take (Suc 0) es = [] @ [es ! 0]" by (simp add: take_Suc_conv_app_nth)
  moreover have "logging_type (es ! 0) \<noteq> LT_revert" using 0 by (force simp: log_balanced_def)
  ultimately show ?case using 0
    by (cases mark; cases "logging_type (es ! 0)")
      (simp_all add: revert_scan.simps open_entries_def stack_step_def Let_def)
next
  case (Suc i)
  let ?s = "open_entries (take (Suc i) es)"
  have take: "take (Suc (Suc i)) es = take (Suc i) es @ [es ! Suc i]"
    using Suc.prems by (simp add: take_Suc_conv_app_nth)
  have len: "length (take (Suc i) es) = Suc i" using Suc.prems by simp
  have ne: "logging_type (es ! Suc i) = LT_revert \<Longrightarrow> ?s \<noteq> []"
    using Suc.prems by (auto simp: log_balanced_def)
  have s: "open_entries (take (Suc (Suc i)) es) = stack_step (Suc i) (es ! Suc i) ?s"
    unfolding take open_entries_snoc len ..
  show ?case
  proof (cases "logging_type (es ! Suc i)")
    case LT_revert
    then obtain a t where at: "?s = a # t" using ne by (cases ?s) auto
    have "revert_scan es (Suc i) mark = revert_scan es i (Suc mark)"
      using LT_revert Suc.prems by (subst revert_scan.simps) simp
    then show ?thesis using Suc.IH [of "Suc mark"] Suc.prems LT_revert at
      by (simp add: s stack_step_def Let_def)
  next
    case LT_apply
    then show ?thesis using Suc.IH Suc.prems
      by (cases mark) (simp_all add: revert_scan.simps [of es "Suc i"] s stack_step_def Let_def)
  qed
qed

lemma al_insert_wf:
  assumes "action_log_wf l" "length (m_actions l) < 2 ^ 64 - 3"
  shows "action_log_wf (al_insert a l)"
    and "open_entries (m_actions (al_insert a l)) = length (m_actions l) # open_entries (m_actions l)"
proof -
  have "length (m_actions l) < 2 ^ 64" using assms(2) by simp
  then have "unat (of_nat (length (m_actions l)) :: u64) = length (m_actions l)"
    by (rule unat_of_nat_u64)
  then show "action_log_wf (al_insert a l)"
    using assms by (auto simp: action_log_wf_def al_insert_def al_length_def log_balanced_snoc)
  show "open_entries (m_actions (al_insert a l)) = length (m_actions l) # open_entries (m_actions l)"
    by (simp add: al_insert_def open_entries_snoc stack_step_def)
qed

lemma al_init_wf: "log_balanced es \<Longrightarrow> length es < 2 ^ 64 - 2 \<Longrightarrow> action_log_wf (al_init es en)"
proof (cases es)
  case (Cons e fs)
  assume es: "log_balanced es" "length es < 2 ^ 64 - 2"
  have "(of_nat (length es) - 1 :: u64) = of_nat (length fs)" using Cons by simp
  moreover have "unat (of_nat (length fs) :: u64) = length fs"
    using es(2) Cons by (intro unat_of_nat_u64) simp
  ultimately show ?thesis using es Cons by (simp add: action_log_wf_def al_init_def)
qed (simp add: action_log_wf_def al_init_def log_balanced_def)

text \<open>Below an open entry lies the stack as it was when the entry was logged.\<close>

lemma open_entries_below:
  "k < length (open_entries es) \<Longrightarrow> open_entries (take (open_entries es ! k) es) = drop (Suc k) (open_entries es)"
proof (induction es arbitrary: k rule: rev_induct)
  case (snoc e es)
  have old: "open_entries (take (open_entries es ! j) (es @ [e])) = drop (Suc j) (open_entries es)"
    if "j < length (open_entries es)" for j
    using snoc.IH [OF that] open_entries_less [OF nth_mem [OF that]] by simp
  show ?case
  proof (cases "logging_type e")
    case LT_apply
    then show ?thesis using old snoc.prems by (cases k) (simp_all add: open_entries_snoc stack_step_def)
  next
    case LT_revert
    then show ?thesis using old [of "Suc k"] snoc.prems
      by (cases "open_entries es") (simp_all add: open_entries_snoc stack_step_def)
  qed
qed simp

text \<open>What \<open>revert\<close> does, on both branches.\<close>

lemma al_revert_pop:
  assumes wf: "action_log_wf l" and en: "m_enabled l" and s: "open_entries (m_actions l) = i # s"
  defines "l' \<equiv> l\<lparr>m_actions := m_actions l @ [(m_actions l ! i)\<lparr>logging_type := LT_revert\<rparr>],
                  m_revert_index := of_nat i - 1\<rparr>"
  shows "al_revert l = Inr l'" "open_entries (m_actions l') = s"
proof -
  let ?r = "unat (m_revert_index l)"
  have r: "?r < length (m_actions l)" "open_entries (take (Suc ?r) (m_actions l)) = i # s"
    using wf s by (auto simp: action_log_wf_def split: if_splits)
  have "revert_scan (m_actions l) ?r 0 = Inr i"
    using revert_scan_stack [of "m_actions l" ?r 0] r wf by (simp add: action_log_wf_def Let_def)
  moreover have "i < length (m_actions l)" using open_entries_less [of i "m_actions l"] s by simp
  ultimately show "al_revert l = Inr l'" using en by (simp add: al_revert_def al_at_def l'_def)
  show "open_entries (m_actions l') = s" by (simp add: l'_def open_entries_snoc stack_step_def s)
qed

lemma al_revert_wf:
  assumes wf: "action_log_wf l" and "al_revert l = Inr l'" "length (m_actions l) < 2 ^ 64 - 3"
  shows "action_log_wf l'"
proof (cases "m_enabled l")
  case en: True
  show ?thesis
  proof (cases "open_entries (m_actions l)")
    case Nil
    have False
    proof (cases "unat (m_revert_index l) < length (m_actions l)")
      case True
      then show ?thesis using assms(2) en Nil revert_scan_stack [of "m_actions l" "unat (m_revert_index l)" 0] wf
        by (simp add: action_log_wf_def al_revert_def Let_def)
    next
      case False
      then show ?thesis using assms(2) en by (simp add: al_revert_def revert_scan.simps)
    qed
    then show ?thesis ..
  next
    case (Cons i s)
    note pop = al_revert_pop [OF wf en Cons]
    let ?e = "(m_actions l ! i)\<lparr>logging_type := LT_revert\<rparr>"
    have i: "i < length (m_actions l)" using open_entries_less [of i "m_actions l"] Cons by simp
    have l': "l' = l\<lparr>m_actions := m_actions l @ [?e], m_revert_index := of_nat i - 1\<rparr>"
      using pop(1) assms(2) by simp
    have below: "open_entries (take i (m_actions l)) = s"
      using open_entries_below [of 0 "m_actions l"] Cons by simp
    have bal: "log_balanced (m_actions l @ [?e])"
      using wf Cons by (simp add: log_balanced_snoc action_log_wf_def)
    show ?thesis
    proof (cases i)
      case 0
      then have "s = []" using below by simp
      moreover have "unat (of_nat i - 1 :: u64) = 2 ^ 64 - 1" using 0 by (simp add: unsigned_minus_1_eq_mask mask_eq_exp_minus_1)
      ultimately show ?thesis using bal assms(3) pop(2) by (simp add: action_log_wf_def l')
    next
      case (Suc j)
      have "unat (of_nat j :: u64) = j"
        using i Suc assms(3) by (intro unat_of_nat_u64) simp
      then have "unat (of_nat i - 1 :: u64) = j" using Suc by simp
      then show ?thesis using bal assms(3) pop(2) below i Suc by (simp add: action_log_wf_def l')
    qed
  qed
qed (use assms in \<open>simp add: al_revert_def\<close>)

lemma al_revert_empty:
  assumes "action_log_wf l" "m_enabled l" "open_entries (m_actions l) = []"
  shows "\<not> is_ok (al_revert l)"
proof (cases "unat (m_revert_index l) < length (m_actions l)")
  case True
  then show ?thesis using assms revert_scan_stack [of "m_actions l" "unat (m_revert_index l)" 0]
    by (simp add: action_log_wf_def al_revert_def Let_def)
next
  case False
  then show ?thesis using assms(2) by (simp add: al_revert_def revert_scan.simps)
qed

end
