(* ===== verification/Transaction_Cache.thy ===== *)
theory Transaction_Cache
  imports Messages
begin

text \<open>
  libblockchain/node\_internals.hpp: the cache of recent transactions, which keeps a transaction
  from entering twice, and the counter of served files that feeds the service statistics.
\<close>

section \<open>The transaction cache\<close>

definition TRANSACTION_MAX_LIFETIME_HOURS :: int where "TRANSACTION_MAX_LIFETIME_HOURS = 24"

definition NODES_TIME_SHIFT :: int where "NODES_TIME_SHIFT = 60"

text \<open>The value of an entry: whether the transaction is complete, and its creation time.\<close>

type_synonym cache_data = "string \<rightharpoonup> bool \<times> time"

record transaction_cache =
  cache_data :: cache_data
  cache_backup :: cache_data

definition tx_key :: "ext \<Rightarrow> signed_transaction \<Rightarrow> string" where
  "tx_key E st = x_hash E (x_signed_transaction_string E st)"

text \<open>The keys of the single-signature copies of a transaction with several signatures.\<close>

definition sub_keys :: "ext \<Rightarrow> signed_transaction \<Rightarrow> string list" where
  "sub_keys E st =
     (if 1 < length (authorizations st)
      then map (\<lambda>a. tx_key E (st\<lparr>authorizations := [a]\<rparr>)) (authorizations st) else [])"

text \<open>\<open>unordered_map::insert\<close> does not overwrite.\<close>

definition cache_insert :: "string \<Rightarrow> bool \<times> time \<Rightarrow> cache_data \<Rightarrow> cache_data" where
  "cache_insert k v d = (if d k = None then d(k \<mapsto> v) else d)"

definition add_chain :: "ext \<Rightarrow> signed_transaction \<Rightarrow> transaction_cache \<Rightarrow> bool \<times> transaction_cache" where
  "add_chain E st c =
     (let d = cache_data c; key = tx_key E st; v = (True, tx_creation (transaction_details st))
      in if d key \<noteq> None then (False, c)
         else if \<exists>k \<in> set (sub_keys E st). d k \<noteq> None then (False, c)
         else (True, c\<lparr>cache_data := cache_insert key v (fold (\<lambda>k. cache_insert k v) (sub_keys E st) d)\<rparr>))"

definition erase_chain :: "ext \<Rightarrow> signed_transaction \<Rightarrow> transaction_cache \<Rightarrow> transaction_cache" where
  "erase_chain E st c =
     c\<lparr>cache_data := fold (\<lambda>k d. d(k := None)) (sub_keys E st) ((cache_data c)(tx_key E st := None))\<rparr>"

definition add_pool :: "ext \<Rightarrow> signed_transaction \<Rightarrow> bool \<Rightarrow> transaction_cache \<Rightarrow> bool \<times> transaction_cache" where
  "add_pool E st complete c =
     (if cache_data c (tx_key E st) \<noteq> None then (False, c)
      else (True, c\<lparr>cache_data := (cache_data c)(tx_key E st \<mapsto> (complete, tx_creation (transaction_details st)))\<rparr>))"

definition erase_pool :: "ext \<Rightarrow> signed_transaction \<Rightarrow> transaction_cache \<Rightarrow> bool \<times> transaction_cache" where
  "erase_pool E st c =
     (case cache_data c (tx_key E st) of
        None \<Rightarrow> (False, c)
      | Some (complete, tp) \<Rightarrow> (complete, c\<lparr>cache_data := (cache_data c)(tx_key E st := None)\<rparr>))"

definition cache_clean :: "time \<Rightarrow> transaction_cache \<Rightarrow> transaction_cache" where
  "cache_clean tp c =
     c\<lparr>cache_data := (\<lambda>k. case cache_data c k of
        None \<Rightarrow> None
      | Some (complete, t) \<Rightarrow>
          if tp - t > TRANSACTION_MAX_LIFETIME_HOURS * 3600 + NODES_TIME_SHIFT then None else Some (complete, t))\<rparr>"

definition cache_contains :: "ext \<Rightarrow> signed_transaction \<Rightarrow> transaction_cache \<Rightarrow> bool" where
  "cache_contains E st c \<longleftrightarrow> cache_data c (tx_key E st) \<noteq> None"

text \<open>\<open>restore\<close> moves the backup out; what is left of a moved-from map is unspecified and is
  taken to be empty.\<close>

definition cache_backup_now :: "transaction_cache \<Rightarrow> transaction_cache" where
  "cache_backup_now c = c\<lparr>cache_backup := cache_data c\<rparr>"

definition cache_restore :: "transaction_cache \<Rightarrow> transaction_cache" where
  "cache_restore c = c\<lparr>cache_data := cache_backup c, cache_backup := Map.empty\<rparr>"

lemma fold_cache_insert:
  "fold (\<lambda>k. cache_insert k v) ks d k = (if d k = None \<and> k \<in> set ks then Some v else d k)"
  by (induction ks arbitrary: d) (auto simp: cache_insert_def)

lemma fold_cache_erase: "fold (\<lambda>k d. d(k := None)) ks d k = (if k \<in> set ks then None else d k)"
  by (induction ks arbitrary: d) auto

lemma add_chain_lookup:
  assumes "fst (add_chain E st c)"
  shows "cache_data (snd (add_chain E st c)) k =
    (if k = tx_key E st \<or> k \<in> set (sub_keys E st)
     then Some (True, tx_creation (transaction_details st)) else cache_data c k)"
  using assms by (auto simp: add_chain_def Let_def cache_insert_def fold_cache_insert split: if_splits)

lemma add_chain_ok:
  "fst (add_chain E st c) \<longleftrightarrow> cache_data c (tx_key E st) = None \<and> (\<forall>k \<in> set (sub_keys E st). cache_data c k = None)"
  by (auto simp: add_chain_def Let_def simp del: not_None_eq)

lemma add_chain_later:
  assumes "fst (add_chain E st c)" "fst (add_chain E st2 (snd (add_chain E st c)))"
  shows "fst (add_chain E st2 c)" "tx_key E st2 \<noteq> tx_key E st"
proof -
  have none: "cache_data c k = None \<and> k \<noteq> tx_key E st" if "cache_data (snd (add_chain E st c)) k = None" for k
    using that by (simp add: add_chain_lookup [OF assms(1)] split: if_splits)
  show "fst (add_chain E st2 c)" "tx_key E st2 \<noteq> tx_key E st"
    using assms(2) none unfolding add_chain_ok by blast+
qed

lemma add_chain_failed: "\<not> fst (add_chain E st c) \<Longrightarrow> snd (add_chain E st c) = c"
  by (auto simp: add_chain_def Let_def split: if_splits)

lemma erase_add_chain:
  assumes "fst (add_chain E st c)"
  shows "erase_chain E st (snd (add_chain E st c)) = c"
proof -
  have "cache_data (erase_chain E st (snd (add_chain E st c))) = cache_data c"
    using assms by (auto simp: erase_chain_def fold_cache_erase add_chain_lookup add_chain_ok)
  moreover have "cache_backup (erase_chain E st (snd (add_chain E st c))) = cache_backup c"
    by (auto simp: erase_chain_def add_chain_def Let_def)
  ultimately show ?thesis by (intro transaction_cache.equality) simp_all
qed

lemma erase_add_pool:
  "fst (add_pool E st complete c) \<Longrightarrow> erase_pool E st (snd (add_pool E st complete c)) = (complete, c)"
  by (auto simp: add_pool_def erase_pool_def fun_upd_idem simp del: not_None_eq split: if_splits)

lemma contains_add_pool [simp]: "cache_contains E st (snd (add_pool E st complete c))"
  by (simp add: cache_contains_def add_pool_def)

section \<open>The counter of served files\<close>

record service_unit =
  su_unit_file_uri :: string
  su_content_unit_uri :: string
  su_peer_address :: string

record service_unit_counter =
  sk_session_id :: string
  sk_time_point :: time
  sk_seconds :: u64

text \<open>The two nested \<open>unordered_map\<close>s as association lists in the order of their iteration,
  which the standard leaves open.\<close>

type_synonym counters = "(service_unit_counter \<times> bool) list"

type_synonym served_map = "(service_unit \<times> counters) list"

definition counter_end :: "service_unit_counter \<Rightarrow> time" where
  "counter_end k = sk_time_point k + sint (sk_seconds k)"

definition counters_insert :: "service_unit_counter \<Rightarrow> counters \<Rightarrow> counters" where
  "counters_insert k cs = (if k \<in> fst ` set cs then cs else cs @ [(k, False)])"

fun served_insert :: "service_unit \<Rightarrow> service_unit_counter \<Rightarrow> served_map \<Rightarrow> served_map" where
  "served_insert u k [] = [(u, [(k, False)])]"
| "served_insert u k ((v, cs) # m) =
     (if v = u then (v, counters_insert k cs) # m else (v, cs) # served_insert u k m)"

definition served :: "time \<Rightarrow> service_unit \<Rightarrow> service_unit_counter \<Rightarrow> served_map \<Rightarrow> served_map res" where
  "served now u k m =
     throw_if (sk_time_point k > now + NODES_TIME_SHIFT)
       (Logic_error ''unit_counter.time_point > now + chrono::seconds(NODES_TIME_SHIFT)'')
     (throw_if (counter_end k \<le> now - NODES_TIME_SHIFT)
       (Logic_error ''unit_counter.time_point + chrono::seconds(unit_counter.seconds) <= now - chrono::seconds(NODES_TIME_SHIFT)'')
     (Inr (served_insert u k m)))"

definition uncounted :: "counters \<Rightarrow> nat" where
  "uncounted cs = length (filter (\<lambda>(k, counted). \<not> counted) cs)"

definition keep_counters :: "time \<Rightarrow> counters \<Rightarrow> counters" where
  "keep_counters now cs =
     map (\<lambda>(k, counted). (k, True)) (filter (\<lambda>(k, counted). \<not> counter_end k \<le> now - NODES_TIME_SHIFT) cs)"

text \<open>The item of the unit and file, created at the back when it is not there yet.\<close>

fun add_count :: "string \<Rightarrow> string \<Rightarrow> statistics_count \<Rightarrow> statistics_file list \<Rightarrow> statistics_file list" where
  "add_count unit_uri file_uri n [] =
     [\<lparr> sf_file_uri = file_uri, sf_unit_uri = unit_uri, sf_count_items = [n] \<rparr>]"
| "add_count unit_uri file_uri n (f # fs) =
     (if sf_unit_uri f = unit_uri \<and> sf_file_uri f = file_uri
      then f\<lparr>sf_count_items := sf_count_items f @ [n]\<rparr> # fs
      else f # add_count unit_uri file_uri n fs)"

fun take_items :: "time \<Rightarrow> served_map \<Rightarrow> statistics_file list \<Rightarrow> statistics_file list \<times> served_map" where
  "take_items now [] items = (items, [])"
| "take_items now ((u, cs) # m) items =
     (let n = (of_nat (uncounted cs) :: u64);
          kept = keep_counters now cs;
          items' = (if n \<noteq> 0
                    then add_count (su_content_unit_uri u) (su_unit_file_uri u)
                           \<lparr> sc_count = n, sc_peer_address = su_peer_address u \<rparr> items
                    else items);
          (result, rest) = take_items now m items'
      in (result, if kept = [] then rest else (u, kept) # rest))"

definition take_statistics_info :: "time \<Rightarrow> served_map \<Rightarrow> service_statistics \<times> served_map" where
  "take_statistics_info now m =
     (let (items, m') = take_items now m []
      in (\<lparr> ss_server_address = [], ss_start_time_point = 0, ss_end_time_point = 0, ss_file_items = items \<rparr>, m'))"

definition total_uncounted :: "served_map \<Rightarrow> nat" where
  "total_uncounted m = sum_list (map (uncounted \<circ> snd) m)"

definition total_counted :: "statistics_file list \<Rightarrow> nat" where
  "total_counted items = sum_list (map (\<lambda>f. sum_list (map (\<lambda>n. unat (sc_count n)) (sf_count_items f))) items)"

lemma total_counted_add: "total_counted (add_count a b n items) = total_counted items + unat (sc_count n)"
  by (induction items) (auto simp: total_counted_def)

lemma take_items_fst:
  "fst (take_items now ((u, cs) # m) items) = fst (take_items now m
     (if (of_nat (uncounted cs) :: u64) \<noteq> 0
      then add_count (su_content_unit_uri u) (su_unit_file_uri u)
             \<lparr> sc_count = of_nat (uncounted cs), sc_peer_address = su_peer_address u \<rparr> items else items))"
  by (simp add: Let_def split: prod.split)

lemma take_items_snd: "snd (take_items now m items) = filter (\<lambda>(u, cs). cs \<noteq> [])
    (map (\<lambda>(u, cs). (u, keep_counters now cs)) m)"
proof (induction m arbitrary: items)
  case (Cons p m)
  obtain u cs where p: "p = (u, cs)" by force
  have "snd (take_items now (p # m) items) =
      (if keep_counters now cs = [] then [] else [(u, keep_counters now cs)]) @ snd (take_items now m
        (if (of_nat (uncounted cs) :: u64) \<noteq> 0
         then add_count (su_content_unit_uri u) (su_unit_file_uri u)
                \<lparr> sc_count = of_nat (uncounted cs), sc_peer_address = su_peer_address u \<rparr> items else items))"
    by (simp add: p Let_def split: prod.split)
  then show ?case unfolding Cons.IH by (simp add: p)
qed simp

lemma take_items_total:
  "total_uncounted m < 2 ^ 64 \<Longrightarrow>
   total_counted (fst (take_items now m items)) = total_counted items + total_uncounted m"
proof (induction m arbitrary: items)
  case (Cons p m)
  obtain u cs where p: "p = (u, cs)" by force
  have total: "total_uncounted (p # m) = uncounted cs + total_uncounted m"
    by (simp add: p total_uncounted_def)
  then have less: "uncounted cs < 2 ^ 64" "total_uncounted m < 2 ^ 64"
    using Cons.prems by simp_all
  let ?n = "of_nat (uncounted cs) :: u64"
  have n: "unat ?n = uncounted cs"
    using less by (simp add: unsigned_of_nat take_bit_nat_eq_self)
  show ?case
  proof (cases "?n = 0")
    case True
    then show ?thesis unfolding p take_items_fst using Cons.IH [OF less(2)] n total p by simp
  next
    case False
    then show ?thesis unfolding p take_items_fst
      using Cons.IH [OF less(2)] n total p by (simp add: total_counted_add)
  qed
qed (simp add: total_uncounted_def)

lemma uncounted_keep [simp]: "uncounted (keep_counters now cs) = 0"
  by (simp add: uncounted_def keep_counters_def case_prod_unfold filter_map comp_def)

lemma take_items_uncounted: "total_uncounted (snd (take_items now m items)) = 0"
  unfolding take_items_snd total_uncounted_def by (induction m) auto

lemma uncounted_insert:
  "k \<notin> fst ` set cs \<Longrightarrow> uncounted (counters_insert k cs) = Suc (uncounted cs)"
  by (simp add: counters_insert_def uncounted_def)

lemma total_uncounted_served:
  "(\<forall>cs. map_of m u = Some cs \<longrightarrow> k \<notin> fst ` set cs) \<Longrightarrow>
   total_uncounted (served_insert u k m) = Suc (total_uncounted m)"
  by (induction u k m rule: served_insert.induct)
    (simp_all add: total_uncounted_def uncounted_insert, simp add: uncounted_def)

end
