(* ===== verification/Storage.thy ===== *)
theory Storage
  imports Messages
begin

text \<open>
  libblockchain/storage.cpp and inbox.cpp: the files a storage keeps, the queue of files it
  still has to fetch from the channels, and the letters of a node. Every operation that saves
  does so before it returns, so the committed contents are the contents.
\<close>

section \<open>The files of a storage\<close>

record storage_file =
  sfl_mime_type :: string
  sfl_data :: string

type_synonym storage = "string \<rightharpoonup> storage_file"

text \<open>\<open>to_base64\<close> and \<open>from_base64\<close> of mesh.pp are parameters.\<close>

definition storage_put ::
  "ext \<Rightarrow> (string \<Rightarrow> string) \<Rightarrow> storage_file \<Rightarrow> storage \<Rightarrow> bool \<times> string \<times> storage" where
  "storage_put E to_base64 stored_file m =
     (let uri = x_hash E (sfl_data stored_file);
          stored = stored_file\<lparr>sfl_data := to_base64 (sfl_data stored_file)\<rparr>
      in if m uri = None then (True, uri, m(uri \<mapsto> stored)) else (False, uri, m))"

definition storage_get :: "(string \<Rightarrow> string) \<Rightarrow> string \<Rightarrow> storage \<Rightarrow> storage_file option" where
  "storage_get from_base64 uri m =
     map_option (\<lambda>f. f\<lparr>sfl_data := from_base64 (sfl_data f)\<rparr>) (m uri)"

definition storage_remove :: "string \<Rightarrow> storage \<Rightarrow> bool \<times> storage" where
  "storage_remove uri m = (if m uri = None then (False, m) else (True, m(uri := None)))"

lemma get_put_storage:
  assumes "storage_put E to_base64 stored_file m = (True, uri, m')"
    and "from_base64 (to_base64 (sfl_data stored_file)) = sfl_data stored_file"
  shows "storage_get from_base64 uri m' = Some stored_file"
  using assms by (auto simp: storage_put_def storage_get_def Let_def split: if_splits)

section \<open>The queue of file requests\<close>

definition STORAGE_MAX_FILE_REQUESTS :: nat where "STORAGE_MAX_FILE_REQUESTS = 100"

text \<open>\<open>sc_enabled\<close> is false when the controller was made without a path. The queue maps a
  file to the channel it is asked from; \<open>channels_files_requesting\<close> holds the requests
  under way and whether each was checked. Its two \<open>unordered_map\<close>s are only searched and
  counted, so the key order given to them here is not observed.\<close>

record storage_controller =
  sc_enabled :: bool
  sc_requests :: "string \<rightharpoonup> string"
  channels_files_requesting :: "(string, (string, bool) omap) omap"

datatype initiate_type = Initiate_check | Initiate_revert

definition enqueue :: "string \<Rightarrow> string \<Rightarrow> storage_controller \<Rightarrow> storage_controller" where
  "enqueue file_uri channel c =
     (if \<not> sc_enabled c then c
      else if sc_requests c file_uri = None
           then c\<lparr>sc_requests := (sc_requests c)(file_uri \<mapsto> channel)\<rparr> else c)"

definition sc_pop :: "string \<Rightarrow> string \<Rightarrow> storage_controller \<Rightarrow> storage_controller res" where
  "sc_pop file_uri channel c =
     (if \<not> sc_enabled c then Inr c
      else throw_if (case map_of (channels_files_requesting c) channel of
                       None \<Rightarrow> False | Some files \<Rightarrow> map_of files file_uri \<noteq> None)
             (Logic_error ''pop: it_file != it_channel->second.end()'')
             (case sc_requests c file_uri of
                None \<Rightarrow> Inl External_error
              | Some requested \<Rightarrow>
                  Inr (if requested = channel then c\<lparr>sc_requests := (sc_requests c)(file_uri := None)\<rparr> else c)))"

definition initiate :: "string \<Rightarrow> string \<Rightarrow> initiate_type \<Rightarrow> storage_controller \<Rightarrow> storage_controller res" where
  "initiate file_uri channel ty c =
     (if \<not> sc_enabled c then Inr c
      else case map_of (channels_files_requesting c) channel of
        None \<Rightarrow> Inl (Logic_error ''initiate: it_channel == m_pimpl->channels_files_requesting.end()'')
      | Some files \<Rightarrow>
          (case map_of files file_uri of
             None \<Rightarrow> Inl (Logic_error ''initiate: it_file == it_channel->second.end()'')
           | Some checked \<Rightarrow>
               if ty = Initiate_check
               then throw_if checked (Logic_error ''initiate: false != it_file->second'')
                      (Inr (c\<lparr>channels_files_requesting := omap_alter channel
                                (\<lambda>_. omap_alter file_uri (\<lambda>_. True) files) (channels_files_requesting c)\<rparr>))
               else let files' = filter (\<lambda>(f, _). f \<noteq> file_uri) files
                    in Inr (c\<lparr>channels_files_requesting :=
                                (if files' = [] then filter (\<lambda>(ch, _). ch \<noteq> channel) (channels_files_requesting c)
                                 else omap_alter channel (\<lambda>_. files') (channels_files_requesting c))\<rparr>)))"

definition requesting_count :: "storage_controller \<Rightarrow> nat" where
  "requesting_count c = sum_list (map (length \<circ> snd) (channels_files_requesting c))"

text \<open>The loop of \<open>get_file_requests\<close>: the unresolved channels seen, the number of requests
  under way, the requests to make.\<close>

fun request_files ::
  "string set \<Rightarrow> string list \<Rightarrow> string set \<times> nat \<times> (string \<times> string) list \<times> storage_controller
     \<Rightarrow> string set \<times> nat \<times> (string \<times> string) list \<times> storage_controller res" where
  "request_files resolved [] (unresolved, count_all, result, c) = (unresolved, count_all, result, Inr c)"
| "request_files resolved (file_uri # uris) (unresolved, count_all, result, c) =
     (case sc_requests c file_uri of
        None \<Rightarrow> (unresolved, count_all, result, Inl External_error)
      | Some channel \<Rightarrow>
          if channel \<notin> resolved
          then (if card unresolved = 10
                then request_files resolved uris (unresolved, count_all, result,
                       if channel \<notin> unresolved then c\<lparr>sc_requests := (sc_requests c)(file_uri := None)\<rparr> else c)
                else request_files resolved uris (insert channel unresolved, count_all, result, c))
          else if count_all = STORAGE_MAX_FILE_REQUESTS
          then request_files resolved uris (unresolved, count_all, result, c)
          else let files = (case map_of (channels_files_requesting c) channel of None \<Rightarrow> [] | Some m \<Rightarrow> m);
                   inserted = (map_of files file_uri = None);
                   c' = c\<lparr>channels_files_requesting := omap_alter channel
                            (\<lambda>_. if inserted then omap_alter file_uri (\<lambda>_. False) files else files)
                            (channels_files_requesting c)\<rparr>
               in if inserted
                  then request_files resolved uris (unresolved, Suc count_all, result @ [(file_uri, channel)], c')
                  else request_files resolved uris (unresolved, count_all, result, c'))"

definition get_file_requests ::
  "string list \<Rightarrow> string set \<Rightarrow> storage_controller \<Rightarrow> (string \<times> string) list \<times> storage_controller res" where
  "get_file_requests keys resolved c =
     (if \<not> sc_enabled c then ([], Inr c)
      else if requesting_count c \<noteq> 0 then ([], Inr c)
      else case request_files resolved keys ({}, 0, [], c) of (_, _, result, c') \<Rightarrow> (result, c'))"

lemma request_files_bound:
  assumes "request_files resolved uris (unresolved, n, result, c) = (u', n', result', c')"
    "length result = n" "n \<le> STORAGE_MAX_FILE_REQUESTS" "set (map snd result) \<subseteq> resolved"
  shows "length result' = n' \<and> n' \<le> STORAGE_MAX_FILE_REQUESTS \<and> set (map snd result') \<subseteq> resolved"
  using assms
proof (induction uris arbitrary: unresolved n result c)
  case (Cons uri uris)
  show ?case
  proof (cases "sc_requests c uri")
    case None
    then show ?thesis using Cons.prems by auto
  next
    case (Some channel)
    show ?thesis
    proof (cases "channel \<in> resolved \<and> n \<noteq> STORAGE_MAX_FILE_REQUESTS")
      case False
      then show ?thesis using Cons Some by (auto split: if_splits)
    next
      case True
      then have "Suc n \<le> STORAGE_MAX_FILE_REQUESTS" "set (map snd (result @ [(uri, channel)])) \<subseteq> resolved"
        using Cons.prems by auto
      then show ?thesis
        using True Cons.prems Some Cons.IH [OF _ _ _ Cons.prems(4)]
          Cons.IH [of unresolved "Suc n" "result @ [(uri, channel)]"]
        by (simp add: Let_def split: if_splits)
    qed
  qed
qed auto

section \<open>Letters\<close>

text \<open>The inbox of a node that has one; \<open>None\<close> stands for a node without.\<close>

type_synonym inbox = "letter list option"

definition inbox_length :: "inbox \<Rightarrow> nat" where
  "inbox_length b = (case b of None \<Rightarrow> 0 | Some letters \<Rightarrow> length letters)"

definition inbox_insert :: "letter \<Rightarrow> inbox \<Rightarrow> inbox" where
  "inbox_insert l b = map_option (\<lambda>letters. letters @ [l]) b"

definition inbox_at :: "nat \<Rightarrow> inbox \<Rightarrow> letter res" where
  "inbox_at number b =
     (case b of None \<Rightarrow> Inl Undefined_behaviour
      | Some letters \<Rightarrow> if number < length letters then Inr (letters ! number) else Inl External_error)"

lemma inbox_at_insert:
  "b \<noteq> None \<Longrightarrow> inbox_at (inbox_length b) (inbox_insert l b) = Inr l"
  by (auto simp: inbox_at_def inbox_length_def inbox_insert_def)

end
