(* ===== verification/Node_State.thy ===== *)
theory Node_State
  imports Ledger_State Authority_Manager Sponsoring Action_Log Transaction_Cache Storage
begin

text \<open>
  The state of a node as the class \<open>node_internals\<close> of node\_internals.hpp holds it: the six
  persistent parts that are saved and discarded together, the parts that are not, and what the
  ledger reads of the configuration and of the address service.
\<close>

section \<open>The node\<close>

record ledger =
  m_state :: state
  m_documents :: documents
  m_blockchain :: blockchain
  m_action_log :: action_log
  m_transaction_pool :: "signed_transaction list"
  m_authority_manager :: authority_store

text \<open>config.cpp, as far as the ledger asks for it.\<close>

record config =
  cf_public_key :: string
  cf_node_type :: node_type
  cf_manager_address :: string
  cf_transfer_only :: bool
  cf_testnet :: bool

text \<open>An entry of \<open>nodeid_service::get_addresses\<close>.\<close>

record public_address_info =
  pa_ip_address :: ip_address
  pa_ssl_ip_address :: ip_address
  pa_node_address :: string
  pa_seconds_since_checked :: u64

definition pa_local_address :: "public_address_info \<Rightarrow> string" where
  "pa_local_address i = ip_dest_address (ip_local (pa_ip_address i))"

text \<open>\<open>saved\<close> is what the loaders of the ledger have committed to disk, \<open>saved_requests\<close> what
  the loader of the storage controller has.\<close>

record node = ledger +
  saved :: ledger
  m_transaction_cache :: transaction_cache
  m_storage_controller :: storage_controller
  saved_requests :: "string \<rightharpoonup> string"
  m_service_statistics_broadcast_triggered :: bool
  m_inbox :: inbox
  pconfig :: config
  m_public_addresses :: "public_address_info list"
  m_block_reward_array :: "coin list"
  m_mine_amount_threshhold :: coin
  m_freeze_before_block :: u64
  pcounts_per_channel_views ::
    "(u64, (string, (string, u64) omap) omap) omap \<Rightarrow> u64 \<Rightarrow> bool \<Rightarrow> u64"
  pcontent_unit_validate_check :: "string list \<Rightarrow> u64 \<Rightarrow> bool \<Rightarrow> bool \<times> string"

definition own_address :: "node \<Rightarrow> string" where
  "own_address n = cf_public_key (pconfig n)"

definition node_save :: "node \<Rightarrow> node" where
  "node_save n = n\<lparr>saved := ledger.truncate n\<rparr>"

text \<open>\<open>save\<close> and \<open>commit\<close>, and \<open>discard\<close>, of the storage controller; a node that is not a storage has
  none. The files under way are not persistent.\<close>

definition controller_save :: "node \<Rightarrow> node" where
  "controller_save n =
     (if sc_enabled (m_storage_controller n)
      then n\<lparr>saved_requests := sc_requests (m_storage_controller n)\<rparr> else n)"

definition controller_discard :: "node \<Rightarrow> node" where
  "controller_discard n =
     (if sc_enabled (m_storage_controller n)
      then n\<lparr>m_storage_controller := (m_storage_controller n)\<lparr>sc_requests := saved_requests n\<rparr>\<rparr> else n)"

definition node_discard :: "ext \<Rightarrow> node \<Rightarrow> node" where
  "node_discard E n =
     (let l = saved n
      in n\<lparr>m_state := m_state l,
           m_documents := m_documents l,
           m_blockchain := update_state E ((m_blockchain n)\<lparr>m_header := m_header (m_blockchain l),
                                                            m_blocks := m_blocks (m_blockchain l)\<rparr>),
           m_action_log := al_discard (m_actions (m_action_log l)) (m_action_log n),
           m_transaction_pool := m_transaction_pool l,
           m_authority_manager := m_authority_manager l\<rparr>)"

definition clean_transaction_cache :: "node \<Rightarrow> node" where
  "clean_transaction_cache n =
     n\<lparr>m_transaction_cache := cache_clean (time_signed (m_last_header (m_blockchain n))) (m_transaction_cache n)\<rparr>"

definition node_get_balance :: "node \<Rightarrow> coin" where
  "node_get_balance n = get_balance (own_address n) Layer_chain (m_state n)"

definition is_miner :: "node \<Rightarrow> bool res" where
  "is_miner n =
     (if cf_node_type (pconfig n) = NT_blockchain
      then bind_res (coin_of (node_get_balance n)) (\<lambda>b. Inr (m_mine_amount_threshhold n \<le> b))
      else Inr False)"

definition blockchain_updated :: "time \<Rightarrow> node \<Rightarrow> bool" where
  "blockchain_updated now n \<longleftrightarrow> now - time_signed (m_last_header (m_blockchain n)) < int BLOCK_MINE_DELAY"

text \<open>The genesis block is read from its string by the generated parser, whose result is the
  argument here.\<close>

definition insert_genesis :: "ext \<Rightarrow> signed_block \<Rightarrow> node \<Rightarrow> node res" where
  "insert_genesis E signed_block n =
     (if 0 < bc_length (m_blockchain n) then Inr n
      else bind_res (fold_res (\<lambda>r s. bind_res (coin_of (rw_amount r)) (\<lambda>a.
                       increase_balance (own_address n) (rw_to r) a Layer_chain s))
                     (rewards (block_details signed_block)) (m_state n)) (\<lambda>s.
           bind_res (insert_block E signed_block (m_blockchain n)) (\<lambda>b.
           bind_res (log_block E signed_block [] [] (m_action_log n)) (\<lambda>l.
             Inr (node_save (n\<lparr>m_state := s, m_blockchain := b, m_action_log := l\<rparr>))))))"

section \<open>The default callbacks\<close>

definition max_views :: "(string, (string, u64) omap) omap \<Rightarrow> u64" where
  "max_views units = fold (\<lambda>(_, per_file) m. fold (\<lambda>(_, v) m. max m v) per_file m) units 0"

text \<open>\<open>counts_per_channel_views\<close> of node\_internals.hpp: the best file of each content id.\<close>

definition counts_per_channel_views ::
  "(u64, (string, (string, u64) omap) omap) omap \<Rightarrow> u64 \<Rightarrow> bool \<Rightarrow> u64" where
  "counts_per_channel_views item_per_owner block_no is_testnet =
     fold (\<lambda>(_, units) count. count + max_views units) item_per_owner 0"

fun first_duplicate :: "string list \<Rightarrow> string set \<Rightarrow> bool \<times> string" where
  "first_duplicate [] seen = (True, [])"
| "first_duplicate (uri # uris) seen = (if uri \<in> seen then (False, uri) else first_duplicate uris (insert uri seen))"

definition content_unit_validate_check :: "string list \<Rightarrow> u64 \<Rightarrow> bool \<Rightarrow> bool \<times> string" where
  "content_unit_validate_check file_uris block_no is_testnet = first_duplicate file_uris {}"

text \<open>The callbacks publiqd passes: the same, but for blocks that were accepted before a rule
  was fixed.\<close>

definition publiqd_exempt_views :: "u64 list" where
  "publiqd_exempt_views = [30335, 30438, 30346, 30460, 30463, 30478]"

definition publiqd_counts_per_channel_views ::
  "(u64, (string, (string, u64) omap) omap) omap \<Rightarrow> u64 \<Rightarrow> bool \<Rightarrow> u64" where
  "publiqd_counts_per_channel_views item_per_owner block_no is_testnet =
     fold (\<lambda>(_, units) count. count +
         fold (\<lambda>(_, per_file) m. fold (\<lambda>(_, v) m.
            if \<not> is_testnet \<and> block_no \<in> set publiqd_exempt_views then max count v else max m v) per_file m) units 0)
       item_per_owner 0"

definition publiqd_content_unit_validate_check :: "string list \<Rightarrow> u64 \<Rightarrow> bool \<Rightarrow> bool \<times> string" where
  "publiqd_content_unit_validate_check file_uris block_no is_testnet =
     (if is_testnet \<and> block_no \<in> {42846, 44727, 45433} then (True, []) else first_duplicate file_uris {})"

lemma first_duplicate_iff: "fst (first_duplicate uris seen) \<longleftrightarrow> distinct uris \<and> set uris \<inter> seen = {}"
  by (induction uris arbitrary: seen) auto

lemma content_unit_validate_check_distinct:
  "fst (content_unit_validate_check uris b t) \<longleftrightarrow> distinct uris"
  by (simp add: content_unit_validate_check_def first_duplicate_iff)

lemma publiqd_counts_same:
  "is_testnet \<or> block_no \<notin> set publiqd_exempt_views \<Longrightarrow>
   publiqd_counts_per_channel_views items block_no is_testnet = counts_per_channel_views items block_no is_testnet"
  unfolding publiqd_counts_per_channel_views_def counts_per_channel_views_def max_views_def
  by (intro fold_cong) auto

section \<open>Checks the actions share\<close>

definition CHANNEL_AMOUNT_THRESHOLD :: coin where "CHANNEL_AMOUNT_THRESHOLD = Coin 100000 0"

definition STORAGE_AMOUNT_THRESHOLD :: coin where "STORAGE_AMOUNT_THRESHOLD = Coin 10000 0"

text \<open>\<open>authorizations.size() != 1\<close> of the validations.\<close>

definition check_one_authorization :: "signed_transaction \<Rightarrow> 'a res \<Rightarrow> 'a res" where
  "check_one_authorization st k =
     (if length (authorizations st) \<noteq> 1
      then bind_res (back_address st) (\<lambda>address. Inl (Authority_error address []))
      else k)"

text \<open>The first signature must come from an authority of \<open>owner\<close> for this kind of message;
  \<open>bad\<close> is the exception for the others.\<close>

definition check_signer ::
  "ext \<Rightarrow> signed_transaction \<Rightarrow> string \<Rightarrow> kind \<Rightarrow> (string \<Rightarrow> exn) \<Rightarrow> node \<Rightarrow> 'a res \<Rightarrow> 'a res" where
  "check_signer E st owner ki bad n k =
     bind_res (front_address st) (\<lambda>signer.
     bind_res (check_authority owner signer (x_rtt E ki) (m_authority_manager n)) (\<lambda>ok.
       throw_if (\<not> ok) (bad signer) k))"

definition signer_ok :: "ext \<Rightarrow> signed_transaction \<Rightarrow> string \<Rightarrow> kind \<Rightarrow> node \<Rightarrow> bool res" where
  "signer_ok E st owner ki n =
     bind_res (front_address st) (\<lambda>signer. check_authority owner signer (x_rtt E ki) (m_authority_manager n))"

text \<open>The \<open>if (false == check\_authority(...)) return false;\<close> of \<open>action_can_apply\<close>.\<close>

definition and_then :: "bool res \<Rightarrow> bool res \<Rightarrow> bool res" where
  "and_then c k = bind_res c (\<lambda>ok. if ok then k else Inr False)"

definition authority_exception :: "string \<Rightarrow> string \<Rightarrow> exn" where
  "authority_exception owner signer = Authority_error signer (get_authority owner)"

text \<open>The \<open>logic_error\<close> of the reverts; its text quotes the call.\<close>

definition revert_exception :: "string \<Rightarrow> string \<Rightarrow> exn" where
  "revert_exception call_text signer =
     Logic_error (''false == impl.m_authority_manager.check_authority('' @ call_text @ '')'')"

lemma and_then_Inr_True [result_simps]: "and_then c k = Inr True \<longleftrightarrow> c = Inr True \<and> k = Inr True"
  by (auto simp: and_then_def result_simps split: if_splits)

lemma check_signer_Inr [result_simps]:
  "check_signer E st owner ki bad n k = Inr y \<longleftrightarrow> signer_ok E st owner ki n = Inr True \<and> k = Inr y"
  by (auto simp: check_signer_def signer_ok_def result_simps)

lemma check_signer_ok [simp]:
  "signer_ok E st owner ki n = Inr True \<Longrightarrow> check_signer E st owner ki bad n k = k"
  by (cases k) (auto simp: check_signer_def signer_ok_def result_simps throw_if_def)

lemma signer_ok_cong: "m_authority_manager n = m_authority_manager m \<Longrightarrow>
    signer_ok E st owner ki n = signer_ok E st owner ki m"
  by (simp add: signer_ok_def)

text \<open>An amount of a message becomes a \<open>coin\<close> when it is passed on, which checks it.\<close>

definition credit :: "string \<Rightarrow> coin \<Rightarrow> state_layer \<Rightarrow> node \<Rightarrow> node res" where
  "credit key amount layer n =
     bind_res (coin_of amount) (\<lambda>a.
     bind_res (increase_balance (own_address n) key a layer (m_state n)) (\<lambda>s. Inr (n\<lparr>m_state := s\<rparr>)))"

definition debit :: "string \<Rightarrow> coin \<Rightarrow> state_layer \<Rightarrow> node \<Rightarrow> node res" where
  "debit key amount layer n =
     bind_res (coin_of amount) (\<lambda>a.
     bind_res (decrease_balance (own_address n) key a layer (m_state n)) (\<lambda>s. Inr (n\<lparr>m_state := s\<rparr>)))"

definition covers :: "string \<Rightarrow> coin \<Rightarrow> node \<Rightarrow> bool res" where
  "covers key amount n =
     bind_res (coin_of (get_balance key Layer_pool (m_state n))) (\<lambda>balance.
     bind_res (coin_of amount) (\<lambda>a. Inr (\<not> balance < a)))"

definition node_money_ok :: "state_layer \<Rightarrow> node \<Rightarrow> bool" where
  "node_money_ok layer n \<longleftrightarrow> money_ok (own_address n) layer (m_state n)"

lemma own_address_update [simp]:
  "own_address (n\<lparr>m_state := s\<rparr>) = own_address n"
  "own_address (n\<lparr>m_transaction_cache := c\<rparr>) = own_address n"
  "own_address (n\<lparr>m_documents := d\<rparr>) = own_address n"
  by (simp_all add: own_address_def)

lemma covers_iff:
  assumes "node_money_ok layer n"
  shows "covers key amount n = Inr True \<longleftrightarrow>
    coin_ok amount \<and> coin_val amount \<le> coin_val (get_balance key Layer_pool (m_state n))"
proof -
  have ok: "coin_ok (get_balance key Layer_pool (m_state n))"
    using assms by (auto simp: node_money_ok_def money_ok_def layer_wf_def)
  show ?thesis using ok coin_less_val [OF ok] by (auto simp: covers_def result_simps)
qed

text \<open>Money moved between two accounts of a node: what \<open>action_apply\<close> of a transfer and
  \<open>fee_apply\<close> do, and the two ways they are undone.\<close>

definition move_money :: "string \<Rightarrow> string \<Rightarrow> coin \<Rightarrow> state_layer \<Rightarrow> node \<Rightarrow> node res" where
  "move_money receiver payer amount layer n =
     bind_res (credit receiver amount layer n) (\<lambda>n1. debit payer amount layer n1)"

lemma credit_Inr:
  "credit k a layer n = Inr n' \<longleftrightarrow> coin_ok a \<and> (\<exists>s. increase_balance (own_address n) k a layer (m_state n) = Inr s
     \<and> n' = n\<lparr>m_state := s\<rparr>)"
  by (auto simp: credit_def result_simps)

lemma debit_Inr:
  "debit k a layer n = Inr n' \<longleftrightarrow> coin_ok a \<and> (\<exists>s. decrease_balance (own_address n) k a layer (m_state n) = Inr s
     \<and> n' = n\<lparr>m_state := s\<rparr>)"
  by (auto simp: debit_def result_simps)

lemma move_money_Inr:
  "move_money r p a layer n = Inr n' \<longleftrightarrow> coin_ok a \<and>
     (\<exists>t u. increase_balance (own_address n) r a layer (m_state n) = Inr t
        \<and> decrease_balance (own_address n) p a layer t = Inr u \<and> n' = n\<lparr>m_state := u\<rparr>)"
  by (auto simp: move_money_def credit_Inr debit_Inr result_simps)

text \<open>Moving covered money succeeds, conserves the supply, touches the two balances only, and
  both undo orders give the old node back.\<close>

lemma move_money_spec:
  assumes n: "node_money_ok layer n" and a: "coin_ok a"
    "coin_val a \<le> coin_val (get_balance p Layer_pool (m_state n))"
  obtains n' where "move_money r p a layer n = Inr n'" "n' = n\<lparr>m_state := m_state n'\<rparr>"
    "node_money_ok layer n'" "total_supply (m_state n') = total_supply (m_state n)"
    "\<And>k. coin_val (get_balance k Layer_pool (m_state n')) + (if k = p then coin_val a else 0)
       = coin_val (get_balance k Layer_pool (m_state n)) + (if k = r then coin_val a else 0)"
    "move_money p r a layer n' = Inr n"
    "bind_res (debit r a layer n') (credit p a layer) = Inr n"
proof -
  let ?own = "own_address n" and ?s = "m_state n"
  have s: "layer_wf ?own layer ?s" "2 * total_supply ?s < val_limit"
    using n by (auto simp: node_money_ok_def money_ok_def)
  obtain t u where m: "increase_balance ?own r a layer ?s = Inr t" "decrease_balance ?own p a layer t = Inr u"
    "layer_wf ?own layer u" "total_supply u = total_supply ?s"
    "coin_val (get_balance r Layer_pool ?s) + coin_val a < val_limit"
    "\<forall>k. coin_val (get_balance k Layer_pool u) + (if k = p then coin_val a else 0)
       = coin_val (get_balance k Layer_pool ?s) + (if k = r then coin_val a else 0)"
    using ledger.move_spec [OF s a] by blast
  have undo: "bind_res (increase_balance ?own p a layer u) (decrease_balance ?own r a layer) = Inr ?s"
    by (rule ledger.move_undo [OF s(1) a(1) m(5,1,2)])
  have undo_rev: "bind_res (decrease_balance ?own r a layer u) (increase_balance ?own p a layer) = Inr ?s"
    by (rule ledger.move_undo_rev [OF s a m(1,2)])
  let ?n = "n\<lparr>m_state := u\<rparr>"
  have "move_money p r a layer ?n = Inr n"
    using undo a(1) by (auto simp: move_money_Inr result_simps)
  moreover have "bind_res (debit r a layer ?n) (credit p a layer) = Inr n"
    using undo_rev a(1) by (auto simp: credit_Inr debit_Inr result_simps)
  moreover have "move_money r p a layer n = Inr ?n" using m(1,2) a(1) by (simp add: move_money_Inr)
  moreover have "node_money_ok layer ?n"
    using m(3,4) s by (simp add: node_money_ok_def money_ok_def own_address_def)
  ultimately show ?thesis using m(4,6) by (intro that [of ?n]) simp_all
qed

text \<open>Money that moved was there; \<open>debit\<close> reports exactly the shortage.\<close>

lemma move_money_covered:
  assumes n: "node_money_ok layer n" and "r \<noteq> p" and m: "move_money r p a layer n = Inr n'"
  shows "coin_ok a" "coin_val a \<le> coin_val (get_balance p Layer_pool (m_state n))"
proof -
  have wf: "layer_wf (own_address n) layer (m_state n)"
    using n by (auto simp: node_money_ok_def money_ok_def)
  obtain t u where t: "coin_ok a" "increase_balance (own_address n) r a layer (m_state n) = Inr t"
    "decrease_balance (own_address n) p a layer t = Inr u"
    using m by (auto simp: move_money_Inr)
  show "coin_ok a" by (rule t(1))
  have t_eq: "t = set_balance (own_address n) r (coin_plus (get_balance r Layer_pool (m_state n)) a) layer (m_state n)"
    using increase_balance_eq [OF wf t(1)] t(2) by simp
  have "layer_wf (own_address n) layer t"
    unfolding t_eq using wf t(1) layer_wf_state [OF wf] by (intro layer_wf_set_balance coin_plus_ok) simp_all
  then have "coin_val a \<le> coin_val (get_balance p Layer_pool t)"
    using ledger.dec_spec(3) t by blast
  then show "coin_val a \<le> coin_val (get_balance p Layer_pool (m_state n))"
    using \<open>r \<noteq> p\<close> by (simp add: t_eq get_set_balance)
qed

end
