(* ===== verification/Samples.thy ===== *)
theory Samples
  imports Node_State
begin

text \<open>
  A small concrete node, with two accounts, one file, one content unit and a genesis block. The
  witnesses of the development apply the theorems to it.
\<close>

definition sample_state :: state where
  "sample_state = \<lparr> m_accounts = [''alice'' \<mapsto> Coin 100 0, ''bob'' \<mapsto> Coin 5 50000000],
     m_node_accounts = Map.empty, m_roles = Map.empty \<rparr>"

definition sample_unit :: content_unit where
  "sample_unit = \<lparr> cu_uri = ''u'', cu_content_id = 1, cu_author_addresses = [''bob''],
     cu_channel_address = ''chan'', cu_file_uris = [''f''] \<rparr>"

definition sample_documents :: documents where
  "sample_documents = \<lparr> m_files = [''f'' \<mapsto> \<lparr> fl_uri = ''f'', fl_author_addresses = [''bob''] \<rparr>],
     m_units = [''u'' \<mapsto> sample_unit], m_storages = Map.empty,
     m_content_unit_sponsored_information = Map.empty,
     m_sponsored_informations_expiring = Map.empty,
     m_sponsored_informations_hash_to_block = Map.empty \<rparr>"

definition sample_header :: "u64 \<Rightarrow> block_header" where
  "sample_header number = \<lparr> block_number = number, delta = 1, c_sum = number + 1, c_const = 1,
     prev_hash = [], time_signed = 600 * int (unat number) \<rparr>"

definition sample_block :: "u64 \<Rightarrow> signed_block" where
  "sample_block number =
     \<lparr> block_details = \<lparr> header = sample_header number, rewards = [], signed_transactions = [] \<rparr>,
       authorization = \<lparr> at_address = ''node'', at_signature = ''s'' \<rparr> \<rparr>"

definition sample_chain :: blockchain where
  "sample_chain = \<lparr> m_last_hash = block_hash_of sample_ext (block_details (sample_block 0)),
     m_last_header = sample_header 0, m_header = [sample_header 0], m_blocks = [sample_block 0] \<rparr>"

definition sample_ledger :: ledger where
  "sample_ledger = \<lparr> m_state = sample_state, m_documents = sample_documents, m_blockchain = sample_chain,
     m_action_log = al_init [] True, m_transaction_pool = [], m_authority_manager = Map.empty \<rparr>"

definition sample_config :: "node_type \<Rightarrow> bool \<Rightarrow> config" where
  "sample_config nt transfer_only = \<lparr> cf_public_key = ''node'', cf_node_type = nt, cf_manager_address = [],
     cf_transfer_only = transfer_only, cf_testnet = False \<rparr>"

definition sample_node_with :: "config \<Rightarrow> node" where
  "sample_node_with cf = ledger.extend sample_ledger
     \<lparr> saved = sample_ledger,
       m_transaction_cache = \<lparr> cache_data = Map.empty, cache_backup = Map.empty \<rparr>,
       m_storage_controller = \<lparr> sc_enabled = False, sc_requests = Map.empty, channels_files_requesting = [] \<rparr>,
       saved_requests = Map.empty, m_service_statistics_broadcast_triggered = False,
       m_inbox = None, pconfig = cf, m_public_addresses = [],
       m_block_reward_array = [Coin 1000 0], m_mine_amount_threshhold = Coin 1 0, m_freeze_before_block = -1,
       pcounts_per_channel_views = counts_per_channel_views,
       pcontent_unit_validate_check = content_unit_validate_check \<rparr>"

definition sample_node :: node where
  "sample_node = sample_node_with (sample_config NT_blockchain False)"

text \<open>A transaction signed by alice, and some actions for it.\<close>

definition sample_tx :: "action \<Rightarrow> signed_transaction" where
  "sample_tx a =
     \<lparr> transaction_details = \<lparr> tx_creation = 1000, tx_expiry = 2000, tx_fee = Coin 0 10000000, tx_action = a \<rparr>,
       authorizations = [\<lparr> at_address = ''alice'', at_signature = ''s'' \<rparr>] \<rparr>"

definition sample_transfer :: transfer where
  "sample_transfer = \<lparr> tf_from = ''alice'', tf_to = ''bob'', tf_amount = Coin 40 60000000, tf_message = [] \<rparr>"

definition sample_sponsorship :: sponsor_content_unit where
  "sample_sponsorship = \<lparr> sp_sponsor_address = ''alice'', sp_uri = ''u'', sp_start_time_point = 0,
     sp_hours = 2, sp_amount = Coin 10 0 \<rparr>"

lemmas sample_defs = sample_node_def sample_node_with_def sample_config_def sample_ledger_def sample_state_def
  sample_documents_def sample_unit_def sample_chain_def sample_block_def sample_header_def sample_tx_def
  sample_transfer_def sample_sponsorship_def ledger.defs al_init_def

lemma sample_supply: "total_supply sample_state = 10550000000"
proof -
  have "dom [''alice'' \<mapsto> Coin 100 0, ''bob'' \<mapsto> Coin 5 50000000] = {''alice'', ''bob''}" by auto
  then show ?thesis by (simp add: total_supply_def map_total_def sample_state_def coin_val_def)
qed

lemma sample_money: "money_ok ''node'' layer sample_state"
  using sample_supply
  by (auto simp: money_ok_def layer_wf_def state_wf_def synced_def coin_ok_def coin_empty_def
      fractions_in_whole_def sample_state_def split: if_splits)

lemma sample_node_fields [simp]:
  "m_state sample_node = sample_state" "m_documents sample_node = sample_documents"
  "m_authority_manager sample_node = Map.empty" "m_blockchain sample_node = sample_chain"
  "own_address sample_node = ''node''" "cf_transfer_only (pconfig sample_node) = False"
  "cf_node_type (pconfig sample_node) = NT_blockchain" "m_action_log sample_node = al_init [] True"
  by (simp_all add: sample_node_def sample_node_with_def sample_config_def sample_ledger_def ledger.defs own_address_def)

lemma sample_empty_cache: "fst (add_chain sample_ext st (m_transaction_cache sample_node))"
  by (simp add: add_chain_ok sample_node_def sample_node_with_def ledger.defs)

lemma sample_node_money [simp]: "node_money_ok layer sample_node"
  using sample_money by (simp add: node_money_ok_def)

lemma sample_documents_wf [simp]: "storages_wf sample_documents" "sponsoring_wf sample_documents"
  by (simp_all add: storages_wf_def sponsoring_wf_def sample_documents_def)

lemma sample_chain_wf [simp]: "blockchain_wf sample_ext sample_chain"
  by (simp add: blockchain_wf_def sample_chain_def sample_block_def sample_header_def update_state_def)

lemma sample_linked [simp]: "linked sample_ext sample_chain"
  by (simp add: linked_def sample_chain_def)

lemma al_init_fields [simp]: "m_actions (al_init es en) = es" "m_enabled (al_init es en) = en"
  by (simp_all add: al_init_def)

lemma sample_log_wf [simp]: "action_log_wf (al_init [] en)"
  by (rule al_init_wf) (simp_all add: log_balanced_def)

definition sample_log :: action_log where
  "sample_log = al_insert (Transaction_log (transaction_log_of sample_ext (sample_tx (Transfer sample_transfer)))) (al_init [] True)"

lemma sample_log_fields [simp]: "action_log_wf sample_log" "open_entries (m_actions sample_log) = [0]"
  "m_enabled sample_log" "length (m_actions sample_log) = 1"
  unfolding sample_log_def
  by (simp_all add: al_insert_wf, simp_all add: al_insert_def al_length_def)

lemma sample_signer [simp]:
  "signer_ok sample_ext (sample_tx a) ''alice'' ki sample_node = Inr True"
  by (simp add: signer_ok_def front_address_def sample_tx_def check_authority_def get_record_def full_record_def)

end
