(* ===== verification/Consensus.thy ===== *)
theory Consensus
  imports Blockchain
begin

text \<open>
  The consensus rules of communication\_p2p.cpp and node\_internals.hpp: the delta a miner earns
  with a block, the adjustment of the consensus constant over windows of DELTA\_STEP headers, and
  the relation between two headers in a row.
\<close>

section \<open>The delta of a miner\<close>

definition DELTA_STEP :: nat where "DELTA_STEP = 3"
definition DELTA_MAX :: u64 where "DELTA_MAX = 7000000000"
definition DELTA_UP :: u64 where "DELTA_UP = 4000000000"
definition DELTA_DOWN :: u64 where "DELTA_DOWN = 1000000000"
definition DIST_MAX :: u64 where "DIST_MAX = 4294967296"

text \<open>All products are 64 bits wide; a divisor that wraps to zero has no defined result.\<close>

definition calc_delta :: "ext \<Rightarrow> string \<Rightarrow> u64 \<Rightarrow> string \<Rightarrow> u64 \<Rightarrow> u64 res" where
  "calc_delta E key amount prev cons_const =
     (let dist = x_distance E (x_hash E key) prev;
          divisor = (dist + 1) * cons_const
      in if divisor = 0 then Inl Undefined_behaviour
         else let d = amount * DIST_MAX div divisor
              in Inr (if d > DELTA_MAX then DELTA_MAX else d))"

lemma calc_delta_le: "calc_delta E key amount prev cc = Inr d \<Longrightarrow> d \<le> DELTA_MAX"
  by (auto simp: calc_delta_def Let_def split: if_splits)

lemma calc_delta_exact:
  assumes "calc_delta E key amount prev cc = Inr d"
    and "unat amount < 2 ^ 32"
    and "(unat (x_distance E (x_hash E key) prev) + 1) * unat cc < 2 ^ 64"
  shows "unat d = min 7000000000 (unat amount * 2 ^ 32 div ((unat (x_distance E (x_hash E key) prev) + 1) * unat cc))"
proof -
  let ?dist = "x_distance E (x_hash E key) prev"
  have div: "(?dist + 1) * cc \<noteq> 0" and
    d: "d = (if amount * DIST_MAX div ((?dist + 1) * cc) > DELTA_MAX then DELTA_MAX else amount * DIST_MAX div ((?dist + 1) * cc))"
    using assms(1) by (auto simp: calc_delta_def Let_def split: if_splits)
  have cc: "0 < unat cc" using div by (simp add: unat_gt_0) (metis mult_zero_right)
  have "unat ?dist + 1 \<le> (unat ?dist + 1) * unat cc"
    using cc by (metis One_nat_def Suc_leI mult.right_neutral mult_le_mono2)
  then have "unat ?dist + 1 < 2 ^ 64" using assms(3) by linarith
  then have d1: "unat (?dist + 1) = unat ?dist + 1" by (simp add: unat_word_ariths)
  then have dv: "unat ((?dist + 1) * cc) = (unat ?dist + 1) * unat cc"
    using assms(3) by (simp add: unat_word_ariths)
  have "unat amount * 2 ^ 32 < 2 ^ 64" using assms(2) by simp
  then have am: "unat (amount * DIST_MAX) = unat amount * 2 ^ 32"
    by (simp add: unat_word_ariths DIST_MAX_def)
  have q: "unat (amount * DIST_MAX div ((?dist + 1) * cc)) = unat amount * 2 ^ 32 div ((unat ?dist + 1) * unat cc)"
    by (simp only: unat_div am dv)
  show ?thesis
    using q by (auto simp: d word_less_nat_alt DELTA_MAX_def min_def split: if_splits)
qed

section \<open>The consensus constant\<close>

definition next_c_const :: "u64 \<Rightarrow> u64 \<Rightarrow> u64" where
  "next_c_const expected delta_sum =
     (if delta_sum > of_nat DELTA_STEP * DELTA_UP then expected * 2
      else if delta_sum < of_nat DELTA_STEP * DELTA_DOWN \<and> expected > 1 then expected div 2
      else expected)"

type_synonym delta_vector = "(u64 \<times> u64) list"

text \<open>The inner loop over \<open>index2\<close>: the sum of the deltas, and the check of the header whose
  turn it is. \<open>Inl\<close> names the header with a wrong constant.\<close>

fun delta_steps :: "delta_vector \<Rightarrow> u64 \<Rightarrow> nat list \<Rightarrow> nat \<Rightarrow> u64 \<Rightarrow> (nat \<times> u64) + (nat \<times> u64)" where
  "delta_steps v expected [] check delta_sum = Inr (check, delta_sum)"
| "delta_steps v expected (i # is) check delta_sum =
     (if check = i
      then if snd (v ! i) \<noteq> expected then Inl (i, snd (v ! i))
           else delta_steps v expected is (Suc check) (delta_sum + fst (v ! i))
      else delta_steps v expected is check (delta_sum + fst (v ! i)))"

definition c_const_error :: "nat \<Rightarrow> u64 \<Rightarrow> u64 \<Rightarrow> string" where
  "c_const_error idx actual expected =
     ''c_const at index '' @ to_string_nat idx @ '' is expected to be '' @ to_string_u64 expected
       @ '' instead of '' @ to_string_u64 actual"

text \<open>The outer loop: the expected constant and the error, empty if there is none.\<close>

fun delta_windows :: "delta_vector \<Rightarrow> nat list \<Rightarrow> u64 \<Rightarrow> nat \<Rightarrow> u64 \<times> string" where
  "delta_windows v [] expected check = (expected, [])"
| "delta_windows v (k # ks) expected check =
     (let enough = (k + DELTA_STEP \<le> length v);
          last_index = (if enough then k + DELTA_STEP else length v)
      in case delta_steps v expected [k..<last_index] check 0 of
           Inl (idx, actual) \<Rightarrow> (expected, c_const_error idx actual expected)
         | Inr (check', delta_sum) \<Rightarrow>
             delta_windows v ks (if enough then next_c_const expected delta_sum else expected) check')"

definition check_delta_vector :: "delta_vector \<Rightarrow> (u64 \<times> string) res" where
  "check_delta_vector v =
     throw_if (v = []) (Logic_error ''check_delta_vector(): delta_vector.empty()'')
       (let enough = (DELTA_STEP \<le> length v)
        in Inr (delta_windows v [0..<(if enough then length v - DELTA_STEP + 1 else 1)]
                  (if enough then snd (v ! (DELTA_STEP - 1)) else snd (last v)) DELTA_STEP))"

text \<open>What the rule means: the constant of each header from the fourth on follows from the
  header before it and the deltas of the three before.\<close>

definition delta_sum3 :: "delta_vector \<Rightarrow> nat \<Rightarrow> u64" where
  "delta_sum3 v k = fst (v ! k) + fst (v ! (k + 1)) + fst (v ! (k + 2))"

definition c_const_follows :: "delta_vector \<Rightarrow> bool" where
  "c_const_follows v \<longleftrightarrow>
     (\<forall>i. 3 \<le> i \<and> i < length v \<longrightarrow> snd (v ! i) = next_c_const (snd (v ! (i - 1))) (delta_sum3 v (i - 3)))"

lemma window_indices: "[k..<k + 3] = [k, k + 1, k + 2]"
  by (simp add: upt_rec numeral_eq_Suc)

lemma delta_steps_window:
  "delta_steps v e [k..<k + 3] (k + 2) 0 =
     (if snd (v ! (k + 2)) \<noteq> e then Inl (k + 2, snd (v ! (k + 2))) else Inr (k + 3, delta_sum3 v k))"
  unfolding window_indices delta_sum3_def by (simp add: add.assoc)

lemma delta_steps_first: "delta_steps v e [0..<3] 3 0 = Inr (3, delta_sum3 v 0)"
  using window_indices [of 0] by (simp add: delta_sum3_def add.assoc)

lemma c_const_error_nonempty [simp]: "c_const_error i a e \<noteq> []"
  by (simp add: c_const_error_def)

lemma delta_windows_later:
  assumes "k + 2 \<le> length v"
  shows "(snd (delta_windows v [k..<length v - 2] e (k + 2)) = [] \<longleftrightarrow>
      (\<forall>i. k + 2 \<le> i \<and> i < length v \<longrightarrow>
         snd (v ! i) = (if i = k + 2 then e else next_c_const (snd (v ! (i - 1))) (delta_sum3 v (i - 3)))))
    \<and> (snd (delta_windows v [k..<length v - 2] e (k + 2)) = [] \<longrightarrow>
       fst (delta_windows v [k..<length v - 2] e (k + 2)) =
         (if k + 2 = length v then e else next_c_const (snd (last v)) (delta_sum3 v (length v - 3))))"
  using assms
proof (induction "length v - 2 - k" arbitrary: k e)
  case 0
  then have "length v = k + 2" by simp
  then show ?case by auto
next
  case (Suc m)
  then have k: "k < length v - 2" "k + 3 \<le> length v" by simp_all
  then have upt: "[k..<length v - 2] = k # [Suc k..<length v - 2]" by (simp add: upt_conv_Cons)
  let ?e = "next_c_const e (delta_sum3 v k)"
  let ?W = "delta_windows v [Suc k..<length v - 2] ?e (Suc k + 2)"
  have step: "delta_windows v [k..<length v - 2] e (k + 2) =
      (if snd (v ! (k + 2)) \<noteq> e then (e, c_const_error (k + 2) (snd (v ! (k + 2))) e) else ?W)"
    unfolding upt using k(2) delta_steps_window [of v e k]
    by (simp add: DELTA_STEP_def numeral_eq_Suc del: upt_Suc delta_steps.simps)
  have IH: "(snd ?W = [] \<longleftrightarrow> (\<forall>i. Suc k + 2 \<le> i \<and> i < length v \<longrightarrow>
         snd (v ! i) = (if i = Suc k + 2 then ?e else next_c_const (snd (v ! (i - 1))) (delta_sum3 v (i - 3)))))
    \<and> (snd ?W = [] \<longrightarrow> fst ?W =
         (if Suc k + 2 = length v then ?e else next_c_const (snd (last v)) (delta_sum3 v (length v - 3))))"
    using Suc k by (intro Suc.hyps(1)) simp_all
  show ?case
  proof (cases "snd (v ! (k + 2)) = e")
    case False
    then show ?thesis using step k by (auto intro!: exI [of _ "k + 2"])
  next
    case True
    have range: "(\<forall>i. k + 2 \<le> i \<and> i < length v \<longrightarrow>
         snd (v ! i) = (if i = k + 2 then e else next_c_const (snd (v ! (i - 1))) (delta_sum3 v (i - 3))))
      \<longleftrightarrow> (\<forall>i. Suc k + 2 \<le> i \<and> i < length v \<longrightarrow>
         snd (v ! i) = (if i = Suc k + 2 then ?e else next_c_const (snd (v ! (i - 1))) (delta_sum3 v (i - 3))))"
      (is "(\<forall>i. ?P i) \<longleftrightarrow> (\<forall>i. ?Q i)")
    proof
      assume P: "\<forall>i. ?P i"
      show "\<forall>i. ?Q i"
      proof
        fix i show "?Q i" using P [rule_format, of i] True by auto
      qed
    next
      assume Q: "\<forall>i. ?Q i"
      show "\<forall>i. ?P i"
      proof
        fix i show "?P i" using Q [rule_format, of i] True
          by (cases "i = k + 2"; cases "i = Suc k + 2") auto
      qed
    qed
    have last: "?e = next_c_const (snd (List.last v)) (delta_sum3 v (length v - 3))" if "Suc k + 2 = length v"
    proof -
      have "v \<noteq> []" "length v - 1 = k + 2" "length v - 3 = k" using that by auto
      then show ?thesis using True by (simp add: last_conv_nth)
    qed
    show ?thesis using IH step True range last k by auto
  qed
qed

lemma check_delta_vector_spec:
  assumes "3 \<le> length v"
  obtains c err where "check_delta_vector v = Inr (c, err)"
    "err = [] \<longleftrightarrow> c_const_follows v"
    "err = [] \<longrightarrow> c = next_c_const (snd (last v)) (delta_sum3 v (length v - 3))"
proof -
  let ?e = "next_c_const (snd (v ! 2)) (delta_sum3 v 0)"
  let ?W = "delta_windows v [1..<length v - 2] ?e 3"
  have upt: "[0..<length v - 3 + 1] = 0 # [1..<length v - 2]"
    using assms by (subst upt_conv_Cons) (simp_all add: Suc_diff_le [symmetric] numeral_eq_Suc)
  have "delta_windows v [0..<length v - 3 + 1] (snd (v ! 2)) 3 = ?W"
    unfolding upt using assms delta_steps_first [of v "snd (v ! 2)"]
    by (simp add: DELTA_STEP_def del: upt_Suc delta_steps.simps One_nat_def)
  then have c: "check_delta_vector v = Inr (fst ?W, snd ?W)"
    using assms by (auto simp: check_delta_vector_def DELTA_STEP_def Let_def throw_if_def)
  have three: "(1 :: nat) + 2 = 3" by simp
  note later = delta_windows_later [of 1 v ?e, unfolded three]
  have "snd ?W = [] \<longleftrightarrow> c_const_follows v"
  proof -
    have "(\<forall>i. 3 \<le> i \<and> i < length v \<longrightarrow>
         snd (v ! i) = (if i = 3 then ?e else next_c_const (snd (v ! (i - 1))) (delta_sum3 v (i - 3))))
      \<longleftrightarrow> c_const_follows v"
      unfolding c_const_follows_def by (intro iff_allI imp_cong refl) auto
    then show ?thesis using later assms by simp
  qed
  moreover have "snd ?W = [] \<longrightarrow> fst ?W = next_c_const (snd (last v)) (delta_sum3 v (length v - 3))"
  proof (cases "length v = 3")
    case True
    then have "last v = v ! 2" by (subst last_conv_nth) auto
    then show ?thesis using True by simp
  next
    case False
    then show ?thesis using later assms by simp
  qed
  ultimately show ?thesis using that c by blast
qed

section \<open>Two headers in a row\<close>

text \<open>The result is true when there is an error.\<close>

definition check_headers :: "block_header_extended \<Rightarrow> block_header_extended \<Rightarrow> bool" where
  "check_headers next_header h \<longleftrightarrow>
     block_number next_header \<noteq> block_number h + 1
     \<or> c_sum next_header \<le> c_sum h
     \<or> c_sum next_header \<noteq> delta next_header + c_sum h
     \<or> (c_const next_header \<noteq> c_const h \<and> c_const next_header \<noteq> c_const h * 2 \<and> c_const next_header \<noteq> c_const h div 2)
     \<or> prev_hash next_header \<noteq> block_hash h
     \<or> time_signed h > time_signed next_header
     \<or> time_signed next_header - time_signed h \<noteq> 600"

text \<open>Both directions of the constant's rule that \<open>check\_headers\<close> can see in two headers.\<close>

lemma next_c_const_cases: "next_c_const c s = c \<or> next_c_const c s = c * 2 \<or> next_c_const c s = c div 2"
  by (auto simp: next_c_const_def)

section \<open>Comparing service statistics\<close>

text \<open>\<open>STAT_ERROR_LIMIT\<close> is the double 1.2; the comparison is written with integers, which
  agrees with the rounded product for counts below 2^50.\<close>

definition stat_mismatch :: "u64 \<Rightarrow> u64 \<Rightarrow> bool" where
  "stat_mismatch a b \<longleftrightarrow> 5 * max (unat a) (unat b) > 6 * min (unat a) (unat b)"

lemma stat_mismatch_sym: "stat_mismatch a b = stat_mismatch b a"
  by (simp add: stat_mismatch_def max.commute min.commute)

lemma stat_mismatch_refl: "\<not> stat_mismatch a a"
  by (simp add: stat_mismatch_def)

end
