(* ===== verification/Store_Properties.thy ===== *)
theory Store_Properties
  imports Samples Consensus
begin

text \<open>
  What the stores of a node promise, each at the interface of its class: the chain of blocks,
  the action log, the authorities, the caches, the registries, the sponsorships and the
  consensus rules. Every theorem with hypotheses is followed by its instance at a concrete
  state.
\<close>

section \<open>Blocks\<close>

text \<open>C31: a block appended to a well-formed chain is found at its number, becomes the last
  header, leaves the older blocks alone, and removing the last block gives the old chain back
  in every field, the cached hash included.\<close>

theorem insert_remove_block:
  assumes wf: "blockchain_wf E b" "m_blocks b \<noteq> []" "Suc (length (m_blocks b)) < 2 ^ 64"
    and ins: "insert_block E sb b = Inr c"
  shows "blockchain_wf E c \<and> remove_last_block E c = Inr b
    \<and> bc_at (bc_length b) c = Inr sb \<and> (\<forall>i < bc_length b. bc_at i c = bc_at i b)
    \<and> m_last_header c = header (block_details sb) \<and> m_last_hash c = block_hash_of E (block_details sb)"
proof -
  have c: "m_blocks c = m_blocks b @ [sb]" and last: "m_last_header c = header (block_details sb)"
    "m_last_hash c = block_hash_of E (block_details sb)"
    using ins by (simp_all add: insert_block_Inr update_state_def)
  have len: "unat (bc_length b) = length (m_blocks b)"
    using wf(3) unat_of_nat_u64 [of "length (m_blocks b)"] by (simp add: bc_length_def)
  have at: "bc_at (bc_length b) c = Inr sb" by (simp add: bc_at_def c len)
  have old: "bc_at i c = bc_at i b" if "i < bc_length b" for i
    using that len by (simp add: bc_at_def c nth_append word_less_nat_alt)
  show ?thesis
    using insert_block_wf [OF ins wf(1,3)] remove_insert_block [OF wf(1,2,3) ins] last at old by simp
qed

theorem insert_remove_block_witness:
  "\<exists>c. insert_block sample_ext (sample_block 1) sample_chain = Inr c
    \<and> remove_last_block sample_ext c = Inr sample_chain \<and> bc_at 1 c = Inr (sample_block 1)"
proof -
  obtain c where c: "insert_block sample_ext (sample_block 1) sample_chain = Inr c"
    by (auto simp: insert_block_def sample_block_def sample_header_def sample_chain_def bc_length_def throw_if_def)
  have "m_blocks sample_chain \<noteq> []" "Suc (length (m_blocks sample_chain)) < 2 ^ 64" "bc_length sample_chain = 1"
    by (simp_all add: sample_chain_def bc_length_def)
  then show ?thesis using c insert_remove_block [OF sample_chain_wf _ _ c] by auto
qed

text \<open>In a well-formed and linked chain \<open>header_ex_at\<close>, which takes the hash of a
  block from its successor or from the cache, gives the true hash of every block.\<close>

theorem header_ex_at_hash:
  assumes "blockchain_wf E b" "linked E b" "i < length (m_blocks b)"
  shows "\<exists>h. header_ex_at (of_nat i) b = Inr h
    \<and> block_hash h = block_hash_of E (block_details (m_blocks b ! i))
    \<and> block_header.truncate h = header (block_details (m_blocks b ! i))"
  using header_ex_at_wf [OF assms] by (simp add: extend_header_def block_header.defs)

theorem header_ex_at_hash_witness:
  "\<exists>h. header_ex_at 0 sample_chain = Inr h
    \<and> block_hash h = block_hash_of sample_ext (block_details (sample_block 0))"
  using header_ex_at_hash [OF sample_chain_wf sample_linked, of 0] by (auto simp: sample_chain_def)

text \<open>The miner of a block is the receiver of its only miner reward, the signer when there
  is none, and a block with more miner rewards is an error. Receivers are public keys, so they
  are not empty.\<close>

theorem get_miner_spec:
  assumes "\<forall>r \<in> set (rewards (block_details sb)). rw_to r \<noteq> []"
  shows "get_miner sb =
     (case filter (\<lambda>r. rw_type r = RT_miner) (rewards (block_details sb)) of
        [] \<Rightarrow> Inr (at_address (authorization sb))
      | [r] \<Rightarrow> Inr (rw_to r)
      | _ \<Rightarrow> Inl (Logic_error ''blockchain::get_miner: false == miner.empty()''))"
proof -
  let ?L = "\<lambda>rs. filter (\<lambda>r. rw_type r = RT_miner) rs"
  have "\<forall>r \<in> set rs. rw_to r \<noteq> [] \<Longrightarrow> miner_of rs [] = (case ?L rs of [] \<Rightarrow> Inr [] | [r] \<Rightarrow> Inr (rw_to r)
      | _ \<Rightarrow> Inl (Logic_error ''blockchain::get_miner: false == miner.empty()''))" for rs
  proof (induction rs)
    case (Cons r rs)
    then show ?case
      using miner_of_found [of "rw_to r" rs] filter_empty_conv [of "\<lambda>r. rw_type r = RT_miner" rs]
      by (cases "?L rs") auto
  qed simp
  from this [OF assms] show ?thesis
    using assms filter_is_subset [of "\<lambda>r. rw_type r = RT_miner" "rewards (block_details sb)"]
    by (cases "?L (rewards (block_details sb))"; cases "tl (?L (rewards (block_details sb)))")
      (auto simp: get_miner_def)
qed

theorem get_miner_spec_witness:
  "get_miner ((sample_block 1)\<lparr>block_details := (block_details (sample_block 1))\<lparr>rewards :=
      [\<lparr> rw_to = ''bob'', rw_amount = Coin 1 0, rw_type = RT_miner \<rparr>]\<rparr>\<rparr>) = Inr ''bob''"
  using get_miner_spec [of "(sample_block 1)\<lparr>block_details := (block_details (sample_block 1))\<lparr>rewards :=
      [\<lparr> rw_to = ''bob'', rw_amount = Coin 1 0, rw_type = RT_miner \<rparr>]\<rparr>\<rparr>"]
  by (simp add: sample_block_def)

section \<open>The action log\<close>

text \<open>C29: reverting the action log undoes its latest entry that is still in force: it appends
  a marked copy of that entry, drops it from the stack of open entries and keeps the log well
  formed; with nothing in force it is an error.\<close>

theorem action_log_revert_pops:
  assumes "action_log_wf l" "m_enabled l" "length (m_actions l) < 2 ^ 64 - 3"
  shows "case open_entries (m_actions l) of
      [] \<Rightarrow> \<not> is_ok (al_revert l)
    | i # s \<Rightarrow> \<exists>l'. al_revert l = Inr l' \<and> open_entries (m_actions l') = s \<and> action_log_wf l'
        \<and> m_actions l' = m_actions l @ [(m_actions l ! i)\<lparr>logging_type := LT_revert\<rparr>]"
proof (cases "open_entries (m_actions l)")
  case Nil
  then show ?thesis using al_revert_empty [OF assms(1,2)] by simp
next
  case (Cons i s)
  then show ?thesis
    using al_revert_pop [OF assms(1,2) Cons] al_revert_wf [OF assms(1) _ assms(3)] by simp
qed

theorem action_log_revert_pops_witness:
  "\<exists>l'. al_revert sample_log = Inr l' \<and> open_entries (m_actions l') = [] \<and> action_log_wf l'"
  using action_log_revert_pops [of sample_log] by auto

text \<open>C30: logging a transaction and reverting the log leaves the same entries in force, whatever
  the log held before; nothing is ever erased from it.\<close>

theorem log_transaction_then_revert:
  assumes wf: "action_log_wf l" and len: "length (m_actions l) < 2 ^ 64 - 4"
  shows "\<exists>l'. al_revert (log_transaction E st l) = Inr l' \<and> action_log_wf l'
    \<and> open_entries (m_actions l') = open_entries (m_actions l)
    \<and> take (length (m_actions l)) (m_actions l') = m_actions l"
proof (cases "m_enabled l")
  case False
  then show ?thesis using wf by (simp add: log_transaction_def al_revert_def)
next
  case True
  let ?m = "al_insert (Transaction_log (transaction_log_of E st)) l"
  have m: "log_transaction E st l = ?m" "m_enabled ?m" using True by (simp_all add: log_transaction_def al_insert_def)
  have wf': "action_log_wf ?m" and o: "open_entries (m_actions ?m) = length (m_actions l) # open_entries (m_actions l)"
    using al_insert_wf [OF wf] len by simp_all
  have "length (m_actions ?m) < 2 ^ 64 - 3" using len by (simp add: al_insert_def)
  then show ?thesis
    using al_revert_pop [OF wf' m(2) o] al_revert_wf [OF wf'] by (simp add: m(1) al_insert_def)
qed

theorem log_transaction_then_revert_witness:
  "\<exists>l'. al_revert (log_transaction sample_ext (sample_tx (Transfer sample_transfer)) sample_log) = Inr l'
    \<and> open_entries (m_actions l') = [0]"
  using log_transaction_then_revert [of sample_log sample_ext "sample_tx (Transfer sample_transfer)"] by auto

section \<open>Authorities\<close>

text \<open>An account without an entry in the store is its own and only authority, for every
  kind of message.\<close>

theorem default_authority:
  assumes "A address = None"
  shows "check_authority address auth i A = Inr (auth = address)
    \<and> find_authority auths address i A = Inr (if address \<in> set auths then address else [])"
  using assms by (auto simp: check_authority_def get_record_def find_authority_def full_record_def dummy_record_def)

theorem default_authority_witness:
  "check_authority ''alice'' ''bob'' 8 Map.empty = Inr False \<and> check_authority ''alice'' ''alice'' 8 Map.empty = Inr True"
  using default_authority [of Map.empty "''alice''" "''bob''" 8 "[]"]
    default_authority [of Map.empty "''alice''" "''alice''" 8 "[]"] by simp

section \<open>The transaction cache\<close>











text \<open>Cleaning the cache keeps exactly the entries created at most a day and a minute
  before the given time, and keeps them unchanged.\<close>

theorem cache_clean_keeps_recent:
  "cache_data (cache_clean tp c) k = Some (complete, t) \<longleftrightarrow>
     cache_data c k = Some (complete, t) \<and> tp - t \<le> 24 * 3600 + 60"
  by (auto simp: cache_clean_def TRANSACTION_MAX_LIFETIME_HOURS_def NODES_TIME_SHIFT_def split: option.splits)

text \<open>The statistics taken from the service counter count every served unit exactly once:
  the first call reports all units not reported before, a call right after it reports none,
  and serving a unit with a new counter adds one to the next report.\<close>

theorem served_counted_once:
  assumes "total_uncounted m < 2 ^ 64"
  shows "total_counted (ss_file_items (fst (take_statistics_info now m))) = total_uncounted m
    \<and> total_counted (ss_file_items (fst (take_statistics_info now' (snd (take_statistics_info now m))))) = 0
    \<and> ((\<forall>cs. map_of m u = Some cs \<longrightarrow> k \<notin> fst ` set cs) \<longrightarrow> served now u k m = Inr m' \<longrightarrow>
        total_uncounted m' = Suc (total_uncounted m))"
proof -
  have first: "total_counted (ss_file_items (fst (take_statistics_info now m))) = total_uncounted m"
    using take_items_total [OF assms, of now "[]"]
    by (simp add: take_statistics_info_def case_prod_unfold Let_def total_counted_def [of "[]"])
  have snd: "total_uncounted (snd (take_statistics_info now m)) = 0"
    using take_items_uncounted [of now m "[]"] by (simp add: take_statistics_info_def case_prod_unfold Let_def)
  have "total_counted (ss_file_items (fst (take_statistics_info now' (snd (take_statistics_info now m))))) = 0"
    using take_items_total [of "snd (take_statistics_info now m)" now' "[]"] snd
    by (simp add: take_statistics_info_def [of now'] case_prod_unfold Let_def total_counted_def [of "[]"])
  then show ?thesis
    using first total_uncounted_served by (auto simp: served_def result_simps)
qed

theorem served_counted_once_witness:
  "total_counted (ss_file_items (fst (take_statistics_info 0
     [(\<lparr> su_unit_file_uri = ''f'', su_content_unit_uri = ''u'', su_peer_address = ''bob'' \<rparr>,
       [(\<lparr> sk_session_id = ''1'', sk_time_point = 0, sk_seconds = 5 \<rparr>, False),
        (\<lparr> sk_session_id = ''2'', sk_time_point = 0, sk_seconds = 5 \<rparr>, False)])]))) = 2"
  using served_counted_once [of "[(\<lparr> su_unit_file_uri = ''f'', su_content_unit_uri = ''u'', su_peer_address = ''bob'' \<rparr>,
       [(\<lparr> sk_session_id = ''1'', sk_time_point = 0, sk_seconds = 5 \<rparr>, False),
        (\<lparr> sk_session_id = ''2'', sk_time_point = 0, sk_seconds = 5 \<rparr>, False)])]" 0]
  by (simp add: total_uncounted_def uncounted_def)

section \<open>Registries, storages and their queue\<close>

text \<open>A storage update that changes something, applied and reverted, gives the documents
  back, and it changes who holds what at one file and one storage only.\<close>

theorem storage_update_toggles:
  assumes "storages_wf d" "storage_has_uri uri a d \<longleftrightarrow> s = UT_remove"
  shows "storages_wf (storage_update_doc uri a s d)
    \<and> (\<forall>u b. storage_has_uri u b (storage_update_doc uri a s d) \<longleftrightarrow>
         (if u = uri \<and> b = a then s = UT_store else storage_has_uri u b d))
    \<and> storage_update_doc uri a (if s = UT_remove then UT_store else UT_remove) (storage_update_doc uri a s d) = d"
  using storage_update_undo [OF assms] storage_update_wf [OF assms(1)] storage_has_uri_update by simp

theorem storage_update_toggles_witness:
  "storage_update_doc ''f'' ''s1'' UT_remove (storage_update_doc ''f'' ''s1'' UT_store sample_documents) = sample_documents
    \<and> storage_has_uri ''f'' ''s1'' (storage_update_doc ''f'' ''s1'' UT_store sample_documents)"
  using storage_update_toggles [of sample_documents "''f''" "''s1''" UT_store]
  by (simp add: storage_has_uri_def sample_documents_def storages_wf_def)

text \<open>A storage asks for at most a hundred files at a time, only from channels it can
  reach, and for none while requests are under way.\<close>

theorem file_requests_bounded:
  "get_file_requests keys resolved c = (requests, c') \<Longrightarrow>
     length requests \<le> 100 \<and> set (map snd requests) \<subseteq> resolved
     \<and> (requesting_count c \<noteq> 0 \<longrightarrow> requests = [] \<and> c' = Inr c)"
  using request_files_bound [of resolved keys "{}" 0 "[]" c]
  by (auto simp: get_file_requests_def STORAGE_MAX_FILE_REQUESTS_def split: if_splits prod.splits)

theorem file_requests_bounded_witness:
  "length (fst (get_file_requests [''f''] {''chan''}
     \<lparr> sc_enabled = True, sc_requests = [''f'' \<mapsto> ''chan''], channels_files_requesting = [] \<rparr>)) \<le> 100"
  using file_requests_bounded [of "[''f'']" "{''chan''}"
      "\<lparr> sc_enabled = True, sc_requests = [''f'' \<mapsto> ''chan''], channels_files_requesting = [] \<rparr>"]
  by (metis prod.collapse)

section \<open>Sponsorships\<close>

text \<open>C27: the parts a sponsorship pays at the blocks that use its unit, from the first use after
  its start to the first one at or after its end, add up to exactly the sponsored amount,
  however the uses are spaced and whatever the amount leaves as a remainder per second.\<close>

theorem sponsored_parts_add_up:
  assumes "payable item"
    and "sorted_wrt (<) ends" "ends \<noteq> []" "si_start_time_point item < hd ends"
      "si_end_time_point item \<le> last ends" "\<forall>e \<in> set (butlast ends). e < si_end_time_point item"
  shows "\<exists>parts. map (\<lambda>u. sponsored_part u item)
        (uses_from start_tp (si_time_points_used_before item) ends) = map Inr parts
    \<and> sum_list (map coin_val parts) = coin_val (si_amount item)"
  using assms by (rule all_parts_sum)

definition sample_item :: sponsored_information where
  "sample_item = \<lparr> si_start_time_point = 0, si_end_time_point = 7200, si_amount = Coin 10 1,
     si_time_points_used_before = 1, si_sponsor_address = ''alice'', si_transaction_hash = ''h'', si_cancelled = False \<rparr>"

theorem sponsored_parts_add_up_witness:
  "\<exists>parts. map (\<lambda>u. sponsored_part u sample_item) (uses_from 0 1 [600, 4000, 9000]) = map Inr parts
    \<and> sum_list (map coin_val parts) = 1000000001"
  using sponsored_parts_add_up [of sample_item "[600, 4000, 9000]" 0]
  by (simp add: payable_def sample_item_def coin_ok_def fractions_in_whole_def coin_val_def)

section \<open>Consensus\<close>

text \<open>C24: \<open>check_delta_vector\<close> on at least three headers accepts exactly the sequences in
  which every constant from the fourth on follows from the header before it and the sum of the
  three deltas before it: doubled above 3 DELTA\_UP, halved below 3 DELTA\_DOWN unless it is 1,
  else kept. The value it returns for an accepted sequence is the constant of the next block.\<close>

theorem check_delta_vector_rule:
  assumes "3 \<le> length v"
  shows "\<exists>c err. check_delta_vector v = Inr (c, err)
    \<and> (err = [] \<longleftrightarrow> (\<forall>i. 3 \<le> i \<and> i < length v \<longrightarrow>
         snd (v ! i) = (let c = snd (v ! (i - 1)); s = fst (v ! (i - 3)) + fst (v ! (i - 2)) + fst (v ! (i - 1))
                        in if s > 12000000000 then c * 2 else if s < 3000000000 \<and> c > 1 then c div 2 else c)))
    \<and> (err = [] \<longrightarrow> c = next_c_const (snd (last v)) (delta_sum3 v (length v - 3)))"
proof -
  have eq: "delta_sum3 v (i - 3) = fst (v ! (i - 3)) + fst (v ! (i - 2)) + fst (v ! (i - 1))" if "3 \<le> i" for i
    using that by (simp add: delta_sum3_def numeral_eq_Suc Suc_diff_Suc)
  have rule: "next_c_const c s = (if s > 12000000000 then c * 2 else if s < 3000000000 \<and> c > 1 then c div 2 else c)" for c s
    by (simp add: next_c_const_def DELTA_STEP_def DELTA_UP_def DELTA_DOWN_def)
  have follows: "c_const_follows v \<longleftrightarrow> (\<forall>i. 3 \<le> i \<and> i < length v \<longrightarrow>
         snd (v ! i) = next_c_const (snd (v ! (i - 1))) (fst (v ! (i - 3)) + fst (v ! (i - 2)) + fst (v ! (i - 1))))"
    unfolding c_const_follows_def using eq by metis
  show ?thesis unfolding Let_def rule [symmetric]
    by (rule check_delta_vector_spec [OF assms]) (use follows in auto)
qed

theorem check_delta_vector_rule_witness:
  "\<exists>c err. check_delta_vector [(5000000000, 1), (5000000000, 1), (5000000000, 1), (1, 2)] = Inr (c, err) \<and> err = []"
proof -
  let ?v = "[(5000000000, 1), (5000000000, 1), (5000000000, 1), (1, 2)] :: delta_vector"
  have "3 \<le> length ?v" by simp
  from check_delta_vector_rule [OF this] obtain c err where r: "check_delta_vector ?v = Inr (c, err)"
    "err = [] \<longleftrightarrow> (\<forall>i. 3 \<le> i \<and> i < length ?v \<longrightarrow>
         snd (?v ! i) = (let c = snd (?v ! (i - 1)); s = fst (?v ! (i - 3)) + fst (?v ! (i - 2)) + fst (?v ! (i - 1))
                        in if s > 12000000000 then c * 2 else if s < 3000000000 \<and> c > 1 then c div 2 else c))"
    by blast
  have "err = []"
  proof (rule iffD2 [OF r(2)], intro allI impI)
    fix i assume "3 \<le> i \<and> i < length ?v"
    then have "i = 3" by simp
    then show "snd (?v ! i) = (let c = snd (?v ! (i - 1)); s = fst (?v ! (i - 3)) + fst (?v ! (i - 2)) + fst (?v ! (i - 1))
                        in if s > 12000000000 then c * 2 else if s < 3000000000 \<and> c > 1 then c div 2 else c)"
      by simp
  qed
  with r(1) show ?thesis by blast
qed

text \<open>A delta never exceeds DELTA\_MAX, and where no 64-bit product wraps it is the
  quotient it is meant to be, cut off at DELTA\_MAX.\<close>

theorem calc_delta_value:
  assumes "calc_delta E key amount prev cc = Inr d"
  shows "d \<le> DELTA_MAX
    \<and> (unat amount < 2 ^ 32 \<longrightarrow> (unat (x_distance E (x_hash E key) prev) + 1) * unat cc < 2 ^ 64 \<longrightarrow>
        unat d = min 7000000000 (unat amount * 2 ^ 32 div ((unat (x_distance E (x_hash E key) prev) + 1) * unat cc)))"
  using calc_delta_le [OF assms] calc_delta_exact [OF assms] by blast

theorem calc_delta_value_witness:
  "\<exists>d. calc_delta sample_ext ''a'' 3 [] 5 = Inr d \<and> unat d = 3 * 2 ^ 32 div 15"
proof -
  have "x_distance sample_ext (x_hash sample_ext ''a'') [] = 2" by (simp add: sample_ext_def)
  then show ?thesis
    using calc_delta_value [of sample_ext "''a''" 3 "[]" 5] by (simp add: calc_delta_def Let_def)
qed

text \<open>The product of the amount and DIST\_MAX wraps from 2^32 whole coins on: such a miner
  gets the delta 0.\<close>

theorem calc_delta_wraps:
  assumes "(x_distance E (x_hash E key) prev + 1) * cc \<noteq> 0"
  shows "calc_delta E key (2 ^ 32) prev cc = Inr 0"
proof -
  have "(2 ^ 32 :: u64) * DIST_MAX = 0" by (simp add: DIST_MAX_def)
  then show ?thesis using assms by (simp add: calc_delta_def Let_def del: power_numeral)
qed

theorem calc_delta_wraps_witness: "calc_delta sample_ext ''a'' 4294967296 [] 1 = Inr 0"
proof -
  have "x_distance sample_ext (x_hash sample_ext ''a'') [] = 2" by (simp add: sample_ext_def)
  then show ?thesis using calc_delta_wraps [of sample_ext "''a''" "[]" 1] by simp
qed

end
