(* ===== verification/Action_Transfer.thy ===== *)
theory Action_Transfer
  imports Node_State
begin

text \<open>
  libblockchain/transaction\_transfer.cpp and transaction\_role.cpp: the two actions on the
  account state.
\<close>

section \<open>Transfer\<close>

definition transfer_owners :: "transfer \<Rightarrow> string list" where
  "transfer_owners t = [tf_from t]"

definition transfer_participants :: "transfer \<Rightarrow> string list" where
  "transfer_participants t = [tf_from t, tf_to t]"

definition transfer_validate :: "ext \<Rightarrow> signed_transaction \<Rightarrow> transfer \<Rightarrow> unit res" where
  "transfer_validate E st t =
     throw_if (tf_from t = tf_to t \<or> tf_amount t = coin_zero) (Wrong_data ''dummy transfer'')
     (check_one_authorization st
     (check_public_key E (tf_to t)
     (check_public_key E (tf_from t)
     (throw_if (80 < length (tf_message t)) (Too_long_string (tf_message t) 80) (Inr ())))))"

definition transfer_is_complete :: "signed_transaction \<Rightarrow> transfer \<Rightarrow> bool" where
  "transfer_is_complete st t = True"

definition transfer_can_apply :: "ext \<Rightarrow> signed_transaction \<Rightarrow> transfer \<Rightarrow> state_layer \<Rightarrow> node \<Rightarrow> bool res" where
  "transfer_can_apply E st t layer n =
     and_then (signer_ok E st (tf_from t) K_Transfer n) (covers (tf_from t) (tf_amount t) n)"

definition transfer_apply :: "ext \<Rightarrow> signed_transaction \<Rightarrow> transfer \<Rightarrow> state_layer \<Rightarrow> node \<Rightarrow> node res" where
  "transfer_apply E st t layer n =
     check_signer E st (tf_from t) K_Transfer (authority_exception (tf_from t)) n
       (bind_res (credit (tf_to t) (tf_amount t) layer n) (\<lambda>n1.
          debit (tf_from t) (tf_amount t) layer n1))"

definition transfer_revert :: "ext \<Rightarrow> signed_transaction \<Rightarrow> transfer \<Rightarrow> state_layer \<Rightarrow> node \<Rightarrow> node res" where
  "transfer_revert E st t layer n =
     bind_res (credit (tf_from t) (tf_amount t) layer n) (\<lambda>n1.
     bind_res (debit (tf_to t) (tf_amount t) layer n1) (\<lambda>n2.
       check_signer E st (tf_from t) K_Transfer
         (revert_exception ''transfer.from, signed_authority, Transfer::rtt'') n2 (Inr n2)))"

lemma transfer_apply_eq:
  "transfer_apply E st t layer n =
     check_signer E st (tf_from t) K_Transfer (authority_exception (tf_from t)) n
       (move_money (tf_to t) (tf_from t) (tf_amount t) layer n)"
  by (simp add: transfer_apply_def move_money_def)

lemma transfer_can_apply_iff:
  "node_money_ok layer n \<Longrightarrow> transfer_can_apply E st t layer n = Inr True \<longleftrightarrow>
     signer_ok E st (tf_from t) K_Transfer n = Inr True \<and> coin_ok (tf_amount t)
     \<and> coin_val (tf_amount t) \<le> coin_val (get_balance (tf_from t) Layer_pool (m_state n))"
  by (simp add: transfer_can_apply_def result_simps covers_iff)

text \<open>All that a transfer does, on the branch where it succeeds.\<close>

lemma transfer_apply_spec:
  assumes n: "node_money_ok layer n" and can: "transfer_can_apply E st t layer n = Inr True"
  obtains n' where "transfer_apply E st t layer n = Inr n'" "n' = n\<lparr>m_state := m_state n'\<rparr>"
    "node_money_ok layer n'" "total_supply (m_state n') = total_supply (m_state n)"
    "\<And>k. coin_val (get_balance k Layer_pool (m_state n')) + (if k = tf_from t then coin_val (tf_amount t) else 0)
       = coin_val (get_balance k Layer_pool (m_state n)) + (if k = tf_to t then coin_val (tf_amount t) else 0)"
    "transfer_revert E st t layer n' = Inr n"
proof -
  have s: "signer_ok E st (tf_from t) K_Transfer n = Inr True" and a: "coin_ok (tf_amount t)"
    "coin_val (tf_amount t) \<le> coin_val (get_balance (tf_from t) Layer_pool (m_state n))"
    using can transfer_can_apply_iff [OF n] by auto
  obtain n' where m: "move_money (tf_to t) (tf_from t) (tf_amount t) layer n = Inr n'" "n' = n\<lparr>m_state := m_state n'\<rparr>"
    "node_money_ok layer n'" "total_supply (m_state n') = total_supply (m_state n)"
    "\<And>k. coin_val (get_balance k Layer_pool (m_state n')) + (if k = tf_from t then coin_val (tf_amount t) else 0)
       = coin_val (get_balance k Layer_pool (m_state n)) + (if k = tf_to t then coin_val (tf_amount t) else 0)"
    "move_money (tf_from t) (tf_to t) (tf_amount t) layer n' = Inr n"
    using move_money_spec [OF n a] by metis
  have "transfer_revert E st t layer n' = bind_res (move_money (tf_from t) (tf_to t) (tf_amount t) layer n') (\<lambda>n2.
      check_signer E st (tf_from t) K_Transfer
         (revert_exception ''transfer.from, signed_authority, Transfer::rtt'') n2 (Inr n2))"
    by (simp add: transfer_revert_def move_money_def bind_res_assoc)
  then have "transfer_revert E st t layer n' = Inr n" using m(6) s by simp
  then show ?thesis using m s by (intro that [of n']) (simp_all add: transfer_apply_eq)
qed

lemma transfer_apply_can:
  assumes "node_money_ok layer n" "tf_from t \<noteq> tf_to t" "transfer_apply E st t layer n = Inr n'"
  shows "transfer_can_apply E st t layer n = Inr True"
  using assms move_money_covered [OF assms(1), of "tf_to t" "tf_from t" "tf_amount t" n']
  by (auto simp: transfer_can_apply_iff transfer_apply_eq result_simps)

section \<open>Role\<close>

definition role_owners :: "role \<Rightarrow> string list" where
  "role_owners r = [rl_node_address r]"

definition role_participants :: "role \<Rightarrow> string list" where
  "role_participants r = [rl_node_address r]"

definition role_validate :: "ext \<Rightarrow> signed_transaction \<Rightarrow> role \<Rightarrow> unit res" where
  "role_validate E st r =
     check_one_authorization st
     (check_public_key E (rl_node_address r)
     (throw_if (rl_node_type r = NT_blockchain) (Runtime_error ''there is no need to broadcast role::blockchain'') (Inr ())))"

definition role_is_complete :: "signed_transaction \<Rightarrow> role \<Rightarrow> bool" where
  "role_is_complete st r = True"

text \<open>The stake a role needs.\<close>

definition role_threshold :: "node_type \<Rightarrow> coin \<Rightarrow> coin option" where
  "role_threshold nt balance =
     (if nt = NT_channel \<and> balance < CHANNEL_AMOUNT_THRESHOLD then Some CHANNEL_AMOUNT_THRESHOLD
      else if nt = NT_storage \<and> balance < STORAGE_AMOUNT_THRESHOLD then Some STORAGE_AMOUNT_THRESHOLD
      else None)"

definition role_can_apply :: "ext \<Rightarrow> signed_transaction \<Rightarrow> role \<Rightarrow> state_layer \<Rightarrow> node \<Rightarrow> bool res" where
  "role_can_apply E st r layer n =
     and_then (signer_ok E st (rl_node_address r) K_Role n)
       (if get_role (rl_node_address r) (m_state n) \<noteq> None then Inr False
        else if own_address n = rl_node_address r \<and> cf_node_type (pconfig n) \<noteq> rl_node_type r then Inr False
        else bind_res (coin_of (get_balance (rl_node_address r) Layer_pool (m_state n))) (\<lambda>balance.
               Inr (role_threshold (rl_node_type r) balance = None)))"

definition role_apply :: "ext \<Rightarrow> signed_transaction \<Rightarrow> role \<Rightarrow> state_layer \<Rightarrow> node \<Rightarrow> node res" where
  "role_apply E st r layer n =
     check_signer E st (rl_node_address r) K_Role (authority_exception (rl_node_address r)) n
     (throw_if (get_role (rl_node_address r) (m_state n) \<noteq> None)
        (Runtime_error (''role: '' @ x_node_type_string E (rl_node_type r) @ '' is already stored for: '' @ rl_node_address r))
     (throw_if (own_address n = rl_node_address r \<and> cf_node_type (pconfig n) \<noteq> rl_node_type r)
        (Runtime_error (''the node: '' @ rl_node_address r @ '' can have only the following role: ''
                        @ x_node_type_string E (cf_node_type (pconfig n))))
     (bind_res (coin_of (get_balance (rl_node_address r) Layer_pool (m_state n))) (\<lambda>balance.
        case role_threshold (rl_node_type r) balance of
          Some threshold \<Rightarrow> Inl (Not_enough_balance (rl_node_address r) (coin_pair balance) (coin_pair threshold))
        | None \<Rightarrow> bind_res (insert_role r (m_state n)) (\<lambda>s. Inr (n\<lparr>m_state := s\<rparr>))))))"

definition role_revert :: "ext \<Rightarrow> signed_transaction \<Rightarrow> role \<Rightarrow> state_layer \<Rightarrow> node \<Rightarrow> node res" where
  "role_revert E st r layer n =
     (let n1 = n\<lparr>m_state := remove_role (rl_node_address r) (m_state n)\<rparr>
      in check_signer E st (rl_node_address r) K_Role
           (revert_exception ''role.node_address, signed_authority, Role::rtt'') n1 (Inr n1))"

lemma role_can_apply_iff:
  "role_can_apply E st r layer n = Inr True \<longleftrightarrow> (\<exists>n'. role_apply E st r layer n = Inr n')"
  by (auto simp: role_can_apply_def role_apply_def result_simps insert_role_def get_role_def
      split: if_splits option.splits)

lemma role_apply_Inr:
  assumes "role_apply E st r layer n = Inr n'"
  shows "\<exists>s. insert_role r (m_state n) = Inr s \<and> n' = n\<lparr>m_state := s\<rparr>"
    and "signer_ok E st (rl_node_address r) K_Role n = Inr True"
    and "role_threshold (rl_node_type r) (get_balance (rl_node_address r) Layer_pool (m_state n)) = None"
    and "get_role (rl_node_address r) (m_state n) = None"
  using assms by (auto simp: role_apply_def result_simps split: option.splits)

lemma role_revert_apply:
  assumes "role_apply E st r layer n = Inr n'"
  shows "role_revert E st r layer n' = Inr n"
proof -
  obtain s where s: "insert_role r (m_state n) = Inr s" "n' = n\<lparr>m_state := s\<rparr>"
    using role_apply_Inr(1) [OF assms] by blast
  have "n'\<lparr>m_state := remove_role (rl_node_address r) (m_state n')\<rparr> = n"
    using insert_remove_role [OF s(1)] s(2) by simp
  then show ?thesis using role_apply_Inr(2) [OF assms] by (simp add: role_revert_def Let_def)
qed

lemma role_apply_keeps:
  assumes "role_apply E st r layer n = Inr n'"
  shows "m_accounts (m_state n') = m_accounts (m_state n)"
    "m_node_accounts (m_state n') = m_node_accounts (m_state n)" "own_address n' = own_address n"
  using role_apply_Inr(1) [OF assms] by (auto dest: insert_role_frame)

end
