(* ===== verification/Action_Documents.thy ===== *)
theory Action_Documents
  imports Node_State
begin

text \<open>
  libblockchain/transaction\_file.cpp, transaction\_contentunit.cpp, transaction\_content.cpp and
  transaction\_storageupdate.cpp: the actions on the registries of files and content units and
  on the storages.
\<close>

section \<open>Several authors\<close>

text \<open>The number of signatures: one per author in a complete transaction, one otherwise.\<close>

definition check_signature_count ::
  "signed_transaction \<Rightarrow> string list \<Rightarrow> bool \<Rightarrow> 'a res \<Rightarrow> 'a res" where
  "check_signature_count st authors check_complete k =
     (if check_complete
      then if length authors < length (authorizations st)
           then bind_res (back_address st) (\<lambda>address. Inl (Authority_error address []))
           else if length (authorizations st) < length authors
           then Inl (Authority_error [] (last authors))
           else k
      else if length (authorizations st) \<noteq> 1
           then (if length (authorizations st) < 2 then Inl Undefined_behaviour
                 else Inl (Authority_error (at_address (authorizations st ! 1)) []))
           else k)"

fun check_authors :: "ext \<Rightarrow> string list \<Rightarrow> string set \<Rightarrow> 'a res \<Rightarrow> 'a res" where
  "check_authors E [] seen k = k"
| "check_authors E (author # authors) seen k =
     check_public_key E author
       (throw_if (author \<in> seen) (Wrong_data (''duplicate author: '' @ author))
         (check_authors E authors (insert author seen) k))"

text \<open>The loops over the signatures and the authors at the same positions.\<close>

fun signers_ok :: "ext \<Rightarrow> kind \<Rightarrow> node \<Rightarrow> authority list \<Rightarrow> string list \<Rightarrow> bool res" where
  "signers_ok E ki n [] authors = Inr True"
| "signers_ok E ki n (a # as) [] = Inl Undefined_behaviour"
| "signers_ok E ki n (a # as) (author # authors) =
     and_then (check_authority author (at_address a) (x_rtt E ki) (m_authority_manager n))
       (signers_ok E ki n as authors)"

fun check_signers ::
  "ext \<Rightarrow> kind \<Rightarrow> (string \<Rightarrow> string \<Rightarrow> exn) \<Rightarrow> node \<Rightarrow> authority list \<Rightarrow> string list \<Rightarrow> 'a res \<Rightarrow> 'a res" where
  "check_signers E ki bad n [] authors k = k"
| "check_signers E ki bad n (a # as) [] k = Inl Undefined_behaviour"
| "check_signers E ki bad n (a # as) (author # authors) k =
     bind_res (check_authority author (at_address a) (x_rtt E ki) (m_authority_manager n)) (\<lambda>ok.
       throw_if (\<not> ok) (bad author (at_address a)) (check_signers E ki bad n as authors k))"

lemma check_authors_Inr [result_simps]:
  "check_authors E authors seen k = Inr y \<longleftrightarrow>
     (\<forall>a \<in> set authors. x_public_key_ok E a) \<and> distinct authors \<and> set authors \<inter> seen = {} \<and> k = Inr y"
  by (induction authors arbitrary: seen) (auto simp: result_simps)

lemma check_signers_Inr [result_simps]:
  "check_signers E ki bad n as authors k = Inr y \<longleftrightarrow> signers_ok E ki n as authors = Inr True \<and> k = Inr y"
  by (induction E ki bad n as authors k rule: check_signers.induct) (auto simp: result_simps)

lemma check_signers_ok [simp]:
  "signers_ok E ki n as authors = Inr True \<Longrightarrow> check_signers E ki bad n as authors k = k"
  by (induction E ki bad n as authors k rule: check_signers.induct)
    (auto simp: result_simps throw_if_def)

lemma signers_ok_cong:
  "m_authority_manager n = m_authority_manager m \<Longrightarrow> signers_ok E ki n as authors = signers_ok E ki m as authors"
  by (induction E ki n as authors rule: signers_ok.induct) auto

section \<open>File\<close>

definition file_owners :: "file_action \<Rightarrow> string list" where
  "file_owners f = fl_author_addresses f"

definition file_participants :: "file_action \<Rightarrow> string list" where
  "file_participants f = fl_author_addresses f @ [fl_uri f]"

definition file_validate :: "ext \<Rightarrow> signed_transaction \<Rightarrow> file_action \<Rightarrow> bool \<Rightarrow> unit res" where
  "file_validate E st f check_complete =
     throw_if (fl_author_addresses f = []) (Wrong_data ''a file has to have at least one author'')
     (check_signature_count st (fl_author_addresses f) check_complete
     (check_authors E (fl_author_addresses f) {}
     (check_hash_uri E (fl_uri f) (Uri_error (fl_uri f) uri_invalid) (Inr ()))))"

definition file_is_complete :: "signed_transaction \<Rightarrow> file_action \<Rightarrow> bool" where
  "file_is_complete st f \<longleftrightarrow> length (authorizations st) = length (fl_author_addresses f)"

definition file_can_apply :: "ext \<Rightarrow> signed_transaction \<Rightarrow> file_action \<Rightarrow> state_layer \<Rightarrow> node \<Rightarrow> bool res" where
  "file_can_apply E st f layer n =
     and_then (if file_is_complete st f then signers_ok E K_File n (authorizations st) (fl_author_addresses f) else Inr True)
       (Inr (\<not> file_exists (fl_uri f) (m_documents n)))"

definition file_apply :: "ext \<Rightarrow> signed_transaction \<Rightarrow> file_action \<Rightarrow> state_layer \<Rightarrow> node \<Rightarrow> node res" where
  "file_apply E st f layer n =
     (let rest = throw_if (file_exists (fl_uri f) (m_documents n)) (Uri_error (fl_uri f) uri_duplicate)
                   (Inr (n\<lparr>m_documents := snd (insert_file f (m_documents n))\<rparr>))
      in if file_is_complete st f
         then check_signers E K_File authority_exception n (authorizations st) (fl_author_addresses f) rest
         else rest)"

definition file_revert :: "ext \<Rightarrow> signed_transaction \<Rightarrow> file_action \<Rightarrow> state_layer \<Rightarrow> node \<Rightarrow> node res" where
  "file_revert E st f layer n =
     (let n1 = n\<lparr>m_documents := remove_file (fl_uri f) (m_documents n)\<rparr>
      in check_signers E K_File (\<lambda>_. revert_exception ''author, signer, File::rtt'') n1
           (authorizations st) (fl_author_addresses f) (Inr n1))"

lemma file_can_apply_iff:
  "file_can_apply E st f layer n = Inr True \<longleftrightarrow> (\<exists>n'. file_apply E st f layer n = Inr n')"
  by (auto simp: file_can_apply_def file_apply_def Let_def result_simps)

lemma file_apply_Inr:
  assumes "file_apply E st f layer n = Inr n'" "fl_uri f \<noteq> []"
  shows "m_files (m_documents n) (fl_uri f) = None"
    and "n' = n\<lparr>m_documents := snd (insert_file f (m_documents n))\<rparr>"
    and "file_is_complete st f \<Longrightarrow> signers_ok E K_File n (authorizations st) (fl_author_addresses f) = Inr True"
  using assms by (auto simp: file_apply_def Let_def result_simps file_exists_def split: if_splits)

lemma file_revert_apply:
  assumes "file_apply E st f layer n = Inr n'" "fl_uri f \<noteq> []" "file_is_complete st f"
  shows "file_revert E st f layer n' = Inr n"
proof -
  note a = file_apply_Inr [OF assms(1,2)]
  have "n'\<lparr>m_documents := remove_file (fl_uri f) (m_documents n')\<rparr> = n"
    using files.erase_put [of "m_documents n" f] a(1,2) by simp
  then show ?thesis using a(3) [OF assms(3)] by (simp add: file_revert_def Let_def)
qed

section \<open>Content unit\<close>

definition unit_owners :: "content_unit \<Rightarrow> string list" where
  "unit_owners u = cu_author_addresses u"

definition unit_participants :: "content_unit \<Rightarrow> string list" where
  "unit_participants u = cu_author_addresses u @ [cu_uri u] @ cu_file_uris u @ [cu_channel_address u]"

fun check_hash_uris :: "ext \<Rightarrow> string list \<Rightarrow> 'a res \<Rightarrow> 'a res" where
  "check_hash_uris E [] k = k"
| "check_hash_uris E (uri # uris) k =
     check_hash_uri E uri (Uri_error uri uri_invalid) (check_hash_uris E uris k)"

definition unit_validate :: "ext \<Rightarrow> signed_transaction \<Rightarrow> content_unit \<Rightarrow> bool \<Rightarrow> unit res" where
  "unit_validate E st u check_complete =
     throw_if (cu_author_addresses u = []) (Wrong_data ''a content unit has to have at least one author'')
     (check_signature_count st (cu_author_addresses u) check_complete
     (check_authors E (cu_author_addresses u) {}
     (check_public_key E (cu_channel_address u)
     (throw_if (cu_file_uris u = []) (Uri_error [] uri_missing)
     (check_hash_uri E (cu_uri u) (Uri_error (cu_uri u) uri_invalid)
     (check_hash_uris E (cu_file_uris u) (Inr ())))))))"

definition unit_is_complete :: "signed_transaction \<Rightarrow> content_unit \<Rightarrow> bool" where
  "unit_is_complete st u \<longleftrightarrow> length (authorizations st) = length (cu_author_addresses u)"

definition unit_validate_check :: "content_unit \<Rightarrow> node \<Rightarrow> bool \<times> string" where
  "unit_validate_check u n =
     pcontent_unit_validate_check n (cu_file_uris u) (bc_length (m_blockchain n)) (cf_testnet (pconfig n))"

definition unit_can_apply :: "ext \<Rightarrow> signed_transaction \<Rightarrow> content_unit \<Rightarrow> state_layer \<Rightarrow> node \<Rightarrow> bool res" where
  "unit_can_apply E st u layer n =
     and_then (if unit_is_complete st u then signers_ok E K_ContentUnit n (authorizations st) (cu_author_addresses u) else Inr True)
       (if \<not> fst (unit_validate_check u n) then Inr False
        else if unit_exists (cu_uri u) (m_documents n) then Inr False
        else Inr (fst (files_exist (x_set_order E (cu_file_uris u)) (m_documents n))))"

definition unit_apply :: "ext \<Rightarrow> signed_transaction \<Rightarrow> content_unit \<Rightarrow> state_layer \<Rightarrow> node \<Rightarrow> node res" where
  "unit_apply E st u layer n =
     (let (valid, duplicate) = unit_validate_check u n;
          (exist, missing) = files_exist (x_set_order E (cu_file_uris u)) (m_documents n);
          rest = throw_if (\<not> valid) (Uri_error duplicate uri_duplicate)
                 (throw_if (unit_exists (cu_uri u) (m_documents n)) (Uri_error (cu_uri u) uri_duplicate)
                 (throw_if (\<not> exist) (Uri_error missing uri_missing)
                 (Inr (n\<lparr>m_documents := snd (insert_unit u (m_documents n))\<rparr>))))
      in if unit_is_complete st u
         then check_signers E K_ContentUnit authority_exception n (authorizations st) (cu_author_addresses u) rest
         else rest)"

definition unit_revert :: "ext \<Rightarrow> signed_transaction \<Rightarrow> content_unit \<Rightarrow> state_layer \<Rightarrow> node \<Rightarrow> node res" where
  "unit_revert E st u layer n =
     (let n1 = n\<lparr>m_documents := remove_unit (cu_uri u) (m_documents n)\<rparr>
      in check_signers E K_ContentUnit (\<lambda>_. revert_exception ''author, signer, ContentUnit::rtt'') n1
           (authorizations st) (cu_author_addresses u) (Inr n1))"

lemma unit_can_apply_iff:
  "unit_can_apply E st u layer n = Inr True \<longleftrightarrow> (\<exists>n'. unit_apply E st u layer n = Inr n')"
  by (auto simp: unit_can_apply_def unit_apply_def Let_def result_simps split: prod.splits)

lemma unit_apply_Inr:
  assumes "unit_apply E st u layer n = Inr n'" "cu_uri u \<noteq> []"
  shows "m_units (m_documents n) (cu_uri u) = None"
    and "n' = n\<lparr>m_documents := snd (insert_unit u (m_documents n))\<rparr>"
    and "unit_is_complete st u \<Longrightarrow> signers_ok E K_ContentUnit n (authorizations st) (cu_author_addresses u) = Inr True"
    and "set_order_ok E \<Longrightarrow> \<forall>uri \<in> set (cu_file_uris u). file_exists uri (m_documents n)"
  using assms files_exist_iff [of "x_set_order E (cu_file_uris u)" "m_documents n"]
  by (auto simp: unit_apply_def Let_def result_simps unit_exists_def set_order_ok_def split: if_splits prod.splits)

lemma unit_revert_apply:
  assumes "unit_apply E st u layer n = Inr n'" "cu_uri u \<noteq> []" "unit_is_complete st u"
  shows "unit_revert E st u layer n' = Inr n"
proof -
  note a = unit_apply_Inr [OF assms(1,2)]
  have "n'\<lparr>m_documents := remove_unit (cu_uri u) (m_documents n')\<rparr> = n"
    using units.erase_put [of "m_documents n" u] a(1,2) by simp
  then show ?thesis using a(3) [OF assms(3)] by (simp add: unit_revert_def Let_def)
qed

section \<open>Content\<close>

definition content_owners :: "content \<Rightarrow> string list" where
  "content_owners c = [ct_channel_address c]"

definition content_participants :: "content \<Rightarrow> string list" where
  "content_participants c = ct_content_unit_uris c @ [ct_channel_address c]"

definition content_validate :: "ext \<Rightarrow> signed_transaction \<Rightarrow> content \<Rightarrow> unit res" where
  "content_validate E st c =
     check_one_authorization st
     (check_public_key E (ct_channel_address c)
     (throw_if (ct_content_unit_uris c = []) (Wrong_data ''dummy content'')
     (check_hash_uris E (ct_content_unit_uris c) (Inr ()))))"

definition content_is_complete :: "signed_transaction \<Rightarrow> content \<Rightarrow> bool" where
  "content_is_complete st c = True"

text \<open>The loop that compares the units with the content.\<close>

fun units_match :: "content \<Rightarrow> documents \<Rightarrow> string list \<Rightarrow> bool res" where
  "units_match c d [] = Inr True"
| "units_match c d (uri # uris) =
     bind_res (get_unit uri d) (\<lambda>u.
       if cu_channel_address u \<noteq> ct_channel_address c \<or> cu_content_id u \<noteq> ct_content_id c
       then Inr False else units_match c d uris)"

definition content_can_apply :: "ext \<Rightarrow> signed_transaction \<Rightarrow> content \<Rightarrow> state_layer \<Rightarrow> node \<Rightarrow> bool res" where
  "content_can_apply E st c layer n =
     and_then (signer_ok E st (ct_channel_address c) K_Content n)
       (throw_if (get_role (ct_channel_address c) (m_state n) \<noteq> Some NT_channel)
          (Wrong_data ''the content owner is not a channel'')
          (if \<not> fst (units_exist (x_set_order E (ct_content_unit_uris c)) (m_documents n)) then Inr False
           else units_match c (m_documents n) (ct_content_unit_uris c)))"

text \<open>A storage without a manager queues the files of the units for itself.\<close>

fun enqueue_units :: "content \<Rightarrow> documents \<Rightarrow> string list \<Rightarrow> storage_controller \<Rightarrow> storage_controller res" where
  "enqueue_units c d [] sc = Inr sc"
| "enqueue_units c d (uri # uris) sc =
     bind_res (get_unit uri d) (\<lambda>u.
       enqueue_units c d uris (fold (\<lambda>file_uri. enqueue file_uri (ct_channel_address c)) (cu_file_uris u) sc))"

definition content_apply :: "ext \<Rightarrow> signed_transaction \<Rightarrow> content \<Rightarrow> state_layer \<Rightarrow> node \<Rightarrow> node res" where
  "content_apply E st c layer n =
     check_signer E st (ct_channel_address c) K_Content (authority_exception (ct_channel_address c)) n
     (throw_if (get_role (ct_channel_address c) (m_state n) \<noteq> Some NT_channel)
        (Wrong_data ''the content owner is not a channel'')
     (let (exist, missing) = units_exist (x_set_order E (ct_content_unit_uris c)) (m_documents n)
      in throw_if (\<not> exist) (Uri_error missing uri_missing)
         (bind_res (units_match c (m_documents n) (ct_content_unit_uris c)) (\<lambda>match.
            throw_if (\<not> match) (Wrong_data ''the content and the content unit do not correspond to each other'')
            (if cf_manager_address (pconfig n) = [] \<and> cf_node_type (pconfig n) = NT_storage \<and> layer = Layer_chain
             then bind_res (enqueue_units c (m_documents n) (ct_content_unit_uris c) (m_storage_controller n)) (\<lambda>sc.
                    Inr (n\<lparr>m_storage_controller := sc\<rparr>))
             else Inr n)))))"

definition content_revert :: "ext \<Rightarrow> signed_transaction \<Rightarrow> content \<Rightarrow> state_layer \<Rightarrow> node \<Rightarrow> node res" where
  "content_revert E st c layer n =
     check_signer E st (ct_channel_address c) K_Content
       (revert_exception ''content.channel_address, signed_authority, Content::rtt'') n (Inr n)"

lemma units_match_enqueue:
  "units_match c d uris = Inr True \<Longrightarrow> \<exists>sc'. enqueue_units c d uris sc = Inr sc'"
  by (induction uris arbitrary: sc) (auto simp: result_simps split: if_splits)

lemma content_can_apply_iff:
  "content_can_apply E st c layer n = Inr True \<longleftrightarrow> (\<exists>n'. content_apply E st c layer n = Inr n')"
  using units_match_enqueue [of c "m_documents n" "ct_content_unit_uris c" "m_storage_controller n"]
  by (auto simp: content_can_apply_def content_apply_def result_simps split: prod.splits if_splits)

text \<open>A content changes no part of the ledger.\<close>

lemma content_apply_Inr:
  assumes "content_apply E st c layer n = Inr n'"
  shows "n' = n\<lparr>m_storage_controller := m_storage_controller n'\<rparr>"
    and "signer_ok E st (ct_channel_address c) K_Content n = Inr True"
  using assms by (auto simp: content_apply_def result_simps split: prod.splits if_splits)

lemma content_revert_apply:
  assumes "content_apply E st c layer n = Inr n'"
  shows "content_revert E st c layer n' = Inr n'"
proof -
  have "m_authority_manager n' = m_authority_manager n"
    by (subst content_apply_Inr(1) [OF assms]) simp
  then show ?thesis
    using content_apply_Inr(2) [OF assms] signer_ok_cong [of n' n] by (simp add: content_revert_def)
qed

section \<open>Storage update\<close>

definition storage_update_owners :: "storage_update \<Rightarrow> string list" where
  "storage_update_owners s = [su_storage_address s]"

definition storage_update_participants :: "storage_update \<Rightarrow> string list" where
  "storage_update_participants s = [su_storage_address s, su_file_uri s]"

definition storage_update_validate :: "ext \<Rightarrow> signed_transaction \<Rightarrow> storage_update \<Rightarrow> unit res" where
  "storage_update_validate E st s =
     check_one_authorization st (check_public_key E (su_storage_address s) (Inr ()))"

definition storage_update_is_complete :: "signed_transaction \<Rightarrow> storage_update \<Rightarrow> bool" where
  "storage_update_is_complete st s = True"

definition storage_update_can_apply ::
  "ext \<Rightarrow> signed_transaction \<Rightarrow> storage_update \<Rightarrow> state_layer \<Rightarrow> node \<Rightarrow> bool res" where
  "storage_update_can_apply E st s layer n =
     and_then (signer_ok E st (su_storage_address s) K_StorageUpdate n)
       (let has = storage_has_uri (su_file_uri s) (su_storage_address s) (m_documents n)
        in Inr (get_role (su_storage_address s) (m_state n) = Some NT_storage
                \<and> file_exists (su_file_uri s) (m_documents n)
                \<and> \<not> (su_status s = UT_store \<and> has) \<and> \<not> (su_status s = UT_remove \<and> \<not> has)))"

definition storage_update_apply ::
  "ext \<Rightarrow> signed_transaction \<Rightarrow> storage_update \<Rightarrow> state_layer \<Rightarrow> node \<Rightarrow> node res" where
  "storage_update_apply E st s layer n =
     check_signer E st (su_storage_address s) K_StorageUpdate (authority_exception (su_storage_address s)) n
     (throw_if (get_role (su_storage_address s) (m_state n) \<noteq> Some NT_storage)
        (Wrong_data (''action_apply(StorageUpdate) -> wrong authority type : '' @ su_storage_address s @ '', '' @ su_file_uri s))
     (throw_if (\<not> file_exists (su_file_uri s) (m_documents n)) (Uri_error (su_file_uri s) uri_missing)
     (let has = storage_has_uri (su_file_uri s) (su_storage_address s) (m_documents n)
      in throw_if (su_status s = UT_store \<and> has) (Uri_error (su_file_uri s) uri_duplicate)
         (throw_if (su_status s = UT_remove \<and> \<not> has) (Uri_error (su_file_uri s) uri_missing)
         (Inr (n\<lparr>m_documents := storage_update_doc (su_file_uri s) (su_storage_address s) (su_status s) (m_documents n)\<rparr>))))))"

definition storage_update_revert ::
  "ext \<Rightarrow> signed_transaction \<Rightarrow> storage_update \<Rightarrow> state_layer \<Rightarrow> node \<Rightarrow> node res" where
  "storage_update_revert E st s layer n =
     (let n1 = n\<lparr>m_documents := storage_update_doc (su_file_uri s) (su_storage_address s)
                   (if su_status s = UT_remove then UT_store else UT_remove) (m_documents n)\<rparr>
      in check_signer E st (su_storage_address s) K_StorageUpdate
           (revert_exception ''storage_update.storage_address, signed_authority, StorageUpdate::rtt'') n1 (Inr n1))"

lemma storage_update_can_apply_iff:
  "storage_update_can_apply E st s layer n = Inr True \<longleftrightarrow> (\<exists>n'. storage_update_apply E st s layer n = Inr n')"
  by (auto simp: storage_update_can_apply_def storage_update_apply_def Let_def result_simps)

lemma storage_update_revert_apply:
  assumes "storage_update_apply E st s layer n = Inr n'" "storages_wf (m_documents n)"
  shows "storage_update_revert E st s layer n' = Inr n"
proof -
  have n': "n' = n\<lparr>m_documents := storage_update_doc (su_file_uri s) (su_storage_address s) (su_status s) (m_documents n)\<rparr>"
    and ok: "signer_ok E st (su_storage_address s) K_StorageUpdate n = Inr True"
    and has: "storage_has_uri (su_file_uri s) (su_storage_address s) (m_documents n) \<longleftrightarrow> su_status s = UT_remove"
    using assms(1) by (cases "su_status s"; auto simp: storage_update_apply_def Let_def result_simps)+
  have "n'\<lparr>m_documents := storage_update_doc (su_file_uri s) (su_storage_address s)
      (if su_status s = UT_remove then UT_store else UT_remove) (m_documents n')\<rparr> = n"
    using storage_update_undo [OF assms(2) has] by (simp add: n' del: if_distrib)
  then show ?thesis using ok by (simp add: storage_update_revert_def Let_def)
qed

end
