(* ===== verification/Action_Authorization.thy ===== *)
theory Action_Authorization
  imports Node_State
begin

text \<open>
  libblockchain/transaction\_authorization.cpp: awarding and rejecting the right to act for an
  account, in full or for single kinds of messages.
\<close>

section \<open>Operations\<close>

definition authorization_owners :: "authorization_update \<Rightarrow> string list" where
  "authorization_owners a = [au_owner a]"

definition authorization_participants :: "authorization_update \<Rightarrow> string list" where
  "authorization_participants a = [au_owner a, au_actor a]"

definition allowed_ids :: "ext \<Rightarrow> u64 set" where
  "allowed_ids E = x_rtt E ` {K_AddressInfo, K_Letter, K_StorageUpdateCommand, K_Transfer, K_Role, K_File,
     K_ContentUnit, K_Content, K_SponsorContentUnit, K_CancelSponsorContentUnit, K_ServiceStatistics,
     K_StorageUpdate, K_Block}"

fun check_allowed_ids :: "ext \<Rightarrow> u64 list \<Rightarrow> 'a res \<Rightarrow> 'a res" where
  "check_allowed_ids E [] k = k"
| "check_allowed_ids E (i # is) k =
     throw_if (i \<notin> allowed_ids E) (Wrong_data (''unsupported customization for id: '' @ to_string_u64 i))
       (check_allowed_ids E is k)"

definition authorization_validate :: "ext \<Rightarrow> signed_transaction \<Rightarrow> authorization_update \<Rightarrow> unit res" where
  "authorization_validate E st a =
     check_one_authorization st
     (bind_res (front_address st) (\<lambda>signer.
        throw_if (signer = au_actor a) (Wrong_data ''cannot sign authorization update for self as an actor'')
        (check_allowed_ids E (au_action_ids a)
        (check_public_key E (au_owner a)
        (check_public_key E (au_actor a) (Inr ()))))))"

definition authorization_is_complete :: "signed_transaction \<Rightarrow> authorization_update \<Rightarrow> bool" where
  "authorization_is_complete st a = True"

text \<open>The two loops over the action ids, on the set of a record.\<close>

fun add_ids :: "(u64 \<Rightarrow> exn) \<Rightarrow> u64 list \<Rightarrow> u64 set \<Rightarrow> u64 set res" where
  "add_ids bad [] S = Inr S"
| "add_ids bad (i # is) S = throw_if (i \<in> S) (bad i) (add_ids bad is (insert i S))"

fun remove_ids :: "(u64 \<Rightarrow> exn) \<Rightarrow> u64 list \<Rightarrow> u64 set \<Rightarrow> u64 set res" where
  "remove_ids bad [] S = Inr S"
| "remove_ids bad (i # is) S = throw_if (i \<notin> S) (bad i) (remove_ids bad is (S - {i}))"

definition authorization_can_apply ::
  "ext \<Rightarrow> signed_transaction \<Rightarrow> authorization_update \<Rightarrow> state_layer \<Rightarrow> node \<Rightarrow> bool res" where
  "authorization_can_apply E st a layer n =
     and_then (signer_ok E st (au_owner a) K_AuthorizationUpdate n)
     (bind_res (get_record (au_owner a) (au_actor a) (m_authority_manager n)) (\<lambda>r.
       if au_update_type a = UT_store \<and> au_action_ids a = []
       then Inr (\<not> (default_full r \<or> action_ids r \<noteq> {}))
       else if au_update_type a = UT_store
       then if default_full r
            then (case au_action_ids a of
                    [] \<Rightarrow> Inr True
                  | i # _ \<Rightarrow> if i \<notin> action_ids r then Inr False
                      else Inl (Logic_error ''action_can_apply: impossible to reach state that specifies 'default full' with exceptions''))
            else Inr (is_ok (add_ids (\<lambda>_. Undefined_behaviour) (au_action_ids a) (action_ids r)))
       else if au_action_ids a = []
       then Inr (\<not> (\<not> default_full r \<or> action_ids r \<noteq> {}))
       else if default_full r then Inr False
       else Inr (is_ok (remove_ids (\<lambda>_. Undefined_behaviour) (au_action_ids a) (action_ids r)))))"

text \<open>The record after the update, and the one \<open>action_revert\<close> computes.\<close>

definition updated_record :: "authorization_update \<Rightarrow> account_authorization \<Rightarrow> account_authorization res" where
  "updated_record a r =
     (if au_update_type a = UT_store \<and> au_action_ids a = []
      then throw_if (default_full r \<or> action_ids r \<noteq> {})
             (Wrong_data (au_actor a @ '' is not rejected full authorizations before awarding full''))
             (Inr (r\<lparr>default_full := True\<rparr>))
      else if au_update_type a = UT_store
      then if default_full r
           then (case au_action_ids a of
                   [] \<Rightarrow> Inr r
                 | i # _ \<Rightarrow> throw_if (i \<notin> action_ids r)
                     (Wrong_data (au_actor a @ '' is not rejected authorization for action id: '' @ to_string_u64 i))
                     (Inl (Logic_error ''action_apply: impossible to reach state that specifies 'default full' with exceptions'')))
           else bind_res (add_ids (\<lambda>i. Wrong_data (au_actor a @ '' is awarded authorization for action id: '' @ to_string_u64 i))
                            (au_action_ids a) (action_ids r)) (\<lambda>S. Inr (r\<lparr>action_ids := S\<rparr>))
      else if au_action_ids a = []
      then throw_if (\<not> default_full r \<or> action_ids r \<noteq> {})
             (Wrong_data (au_actor a @ '' is not awarded full authorizations before rejecting full''))
             (Inr (r\<lparr>default_full := False\<rparr>))
      else if default_full r then Inl (Wrong_data ''parital authorization rejection is not supported'')
      else bind_res (remove_ids (\<lambda>i. Wrong_data (au_actor a @ '' is not awarded authorization for action id: '' @ to_string_u64 i))
                       (au_action_ids a) (action_ids r)) (\<lambda>S. Inr (r\<lparr>action_ids := S\<rparr>)))"

definition reverted_record :: "authorization_update \<Rightarrow> account_authorization \<Rightarrow> account_authorization res" where
  "reverted_record a r =
     (if au_update_type a = UT_store \<and> au_action_ids a = []
      then throw_if (\<not> default_full r \<or> action_ids r \<noteq> {})
             (Logic_error (''action_revert: '' @ au_actor a @ '' is not awarded full authorizations before rejecting full''))
             (Inr (r\<lparr>default_full := False\<rparr>))
      else if au_update_type a = UT_store
      then if default_full r
           then (case au_action_ids a of
                   [] \<Rightarrow> Inr r
                 | i # _ \<Rightarrow> throw_if (i \<in> action_ids r)
                     (Logic_error (''action_revert: '' @ au_actor a @ '' is rejected authorization for action id: '' @ to_string_u64 i))
                     (Inl (Logic_error ''action_revert: impossible to reach state that specifies 'default full' with exceptions'')))
           else bind_res (remove_ids (\<lambda>i. Logic_error (''action_revert: '' @ au_actor a @ '' is not awarded authorization for action id: '' @ to_string_u64 i))
                            (au_action_ids a) (action_ids r)) (\<lambda>S. Inr (r\<lparr>action_ids := S\<rparr>))
      else if au_action_ids a = []
      then throw_if (default_full r \<or> action_ids r \<noteq> {})
             (Logic_error (''action_revert: '' @ au_actor a @ '' is not rejected full authorizations before awarding full''))
             (Inr (r\<lparr>default_full := True\<rparr>))
      else if default_full r then Inl (Logic_error ''action_revert: parital authorization rejection is not supported'')
      else bind_res (add_ids (\<lambda>i. Logic_error (''action_revert: '' @ au_actor a @ '' is awarded authorization for action id: '' @ to_string_u64 i))
                       (au_action_ids a) (action_ids r)) (\<lambda>S. Inr (r\<lparr>action_ids := S\<rparr>)))"

text \<open>The frame both share: default records, the new record, cleanup.\<close>

definition change_record ::
  "string \<Rightarrow> string \<Rightarrow> (account_authorization \<Rightarrow> account_authorization res) \<Rightarrow> authority_store \<Rightarrow> authority_store res" where
  "change_record owner actor f A =
     (let A1 = smart_create_dummy_record owner actor A
      in bind_res (get_record owner actor A1) (\<lambda>r.
         bind_res (f r) (\<lambda>r'.
         bind_res (set_record owner actor r' A1) (\<lambda>A2.
           smart_cleanup_dummy_record owner actor A2))))"

definition authorization_apply ::
  "ext \<Rightarrow> signed_transaction \<Rightarrow> authorization_update \<Rightarrow> state_layer \<Rightarrow> node \<Rightarrow> node res" where
  "authorization_apply E st a layer n =
     check_signer E st (au_owner a) K_AuthorizationUpdate (authority_exception (au_owner a)) n
       (bind_res (change_record (au_owner a) (au_actor a) (updated_record a) (m_authority_manager n)) (\<lambda>A.
          Inr (n\<lparr>m_authority_manager := A\<rparr>)))"

definition authorization_revert ::
  "ext \<Rightarrow> signed_transaction \<Rightarrow> authorization_update \<Rightarrow> state_layer \<Rightarrow> node \<Rightarrow> node res" where
  "authorization_revert E st a layer n =
     bind_res (change_record (au_owner a) (au_actor a) (reverted_record a) (m_authority_manager n)) (\<lambda>A.
       Inr (n\<lparr>m_authority_manager := A\<rparr>))"

section \<open>Lemmas\<close>

lemma add_ids_Inr: "add_ids bad is S = Inr T \<longleftrightarrow> distinct is \<and> set is \<inter> S = {} \<and> T = set is \<union> S"
  by (induction "is" arbitrary: S) (auto simp: result_simps)

lemma remove_ids_Inr: "remove_ids bad is S = Inr T \<longleftrightarrow> distinct is \<and> set is \<subseteq> S \<and> T = S - set is"
  by (induction "is" arbitrary: S) (auto simp: result_simps)

lemma add_ids_ok: "is_ok (add_ids bad is S) \<longleftrightarrow> distinct is \<and> set is \<inter> S = {}"
  by (auto simp: is_ok_iff add_ids_Inr)

lemma remove_ids_ok: "is_ok (remove_ids bad is S) \<longleftrightarrow> distinct is \<and> set is \<subseteq> S"
  by (auto simp: is_ok_iff remove_ids_Inr)

lemma change_record_eq:
  assumes "authority_wf A"
  shows "change_record owner actor f A =
    bind_res (f (record_of A owner actor)) (\<lambda>r'. put_record owner actor r' A)"
proof -
  obtain m where m: "smart_create_dummy_record owner actor A = A(owner \<mapsto> m)"
    "Mapping.lookup m actor = Some (record_of A owner actor)"
    by (rule create_dummy_record [OF assms, of owner actor]) (rule that)
  then have "get_record owner actor (smart_create_dummy_record owner actor A) = Inr (record_of A owner actor)"
    by (simp add: get_record_def)
  then show ?thesis by (simp add: change_record_def put_record_def Let_def)
qed

lemma reverted_updated_record:
  assumes "updated_record a r = Inr r'"
  shows "reverted_record a r' = Inr r"
  using assms
  by (cases r) (auto simp: updated_record_def reverted_record_def result_simps add_ids_Inr remove_ids_Inr
      split: if_splits list.splits)

lemma authorization_can_apply_iff:
  assumes wf: "authority_wf (m_authority_manager n)"
  shows "authorization_can_apply E st a layer n = Inr True \<longleftrightarrow> (\<exists>n'. authorization_apply E st a layer n = Inr n')"
proof -
  let ?A = "m_authority_manager n" and ?o = "au_owner a" and ?c = "au_actor a"
  have put: "\<exists>B. put_record ?o ?c r ?A = Inr B" for r
    by (rule put_record_spec [OF wf, of ?o ?c r]) blast
  have "(\<exists>B. change_record ?o ?c (updated_record a) ?A = Inr B) \<longleftrightarrow> is_ok (updated_record a (record_of ?A ?o ?c))"
    using put by (auto simp: change_record_eq [OF wf] result_simps is_ok_iff)
  moreover have "(bind_res (get_record ?o ?c ?A) (\<lambda>r.
       if au_update_type a = UT_store \<and> au_action_ids a = []
       then Inr (\<not> (default_full r \<or> action_ids r \<noteq> {}))
       else if au_update_type a = UT_store
       then if default_full r
            then (case au_action_ids a of
                    [] \<Rightarrow> Inr True
                  | i # _ \<Rightarrow> if i \<notin> action_ids r then Inr False
                      else Inl (Logic_error ''action_can_apply: impossible to reach state that specifies 'default full' with exceptions''))
            else Inr (is_ok (add_ids (\<lambda>_. Undefined_behaviour) (au_action_ids a) (action_ids r)))
       else if au_action_ids a = []
       then Inr (\<not> (\<not> default_full r \<or> action_ids r \<noteq> {}))
       else if default_full r then Inr False
       else Inr (is_ok (remove_ids (\<lambda>_. Undefined_behaviour) (au_action_ids a) (action_ids r)))) = Inr True)
     \<longleftrightarrow> is_ok (updated_record a (record_of ?A ?o ?c))"
    by (auto simp: get_record_eq [OF wf] updated_record_def is_ok_bind_iff add_ids_ok remove_ids_ok
        add_ids_Inr remove_ids_Inr throw_if_def split: list.splits)
  ultimately show ?thesis
    by (auto simp: authorization_can_apply_def authorization_apply_def result_simps)
qed

lemma authorization_apply_spec:
  assumes wf: "authority_wf (m_authority_manager n)" and ap: "authorization_apply E st a layer n = Inr n'"
  obtains r where "updated_record a (record_of (m_authority_manager n) (au_owner a) (au_actor a)) = Inr r"
    "n' = n\<lparr>m_authority_manager := m_authority_manager n'\<rparr>" "authority_wf (m_authority_manager n')"
    "\<And>b l. record_of (m_authority_manager n') b l =
      (if b = au_owner a \<and> l = au_actor a then r else record_of (m_authority_manager n) b l)"
proof -
  let ?A = "m_authority_manager n"
  obtain r B where r: "updated_record a (record_of ?A (au_owner a) (au_actor a)) = Inr r"
    and B: "put_record (au_owner a) (au_actor a) r ?A = Inr B" and n': "n' = n\<lparr>m_authority_manager := B\<rparr>"
    using ap by (auto simp: authorization_apply_def result_simps change_record_eq [OF wf])
  show ?thesis
    by (rule put_record_spec [OF wf, of "au_owner a" "au_actor a" r])
      (use r B n' in \<open>auto intro!: that\<close>)
qed

lemma authorization_revert_apply:
  assumes wf: "authority_wf (m_authority_manager n)" and ap: "authorization_apply E st a layer n = Inr n'"
  shows "authorization_revert E st a layer n' = Inr n"
proof (rule authorization_apply_spec [OF wf ap])
  fix r
  assume r: "updated_record a (record_of (m_authority_manager n) (au_owner a) (au_actor a)) = Inr r"
    and n': "n' = n\<lparr>m_authority_manager := m_authority_manager n'\<rparr>" and wf': "authority_wf (m_authority_manager n')"
    and rec: "\<And>b l. record_of (m_authority_manager n') b l =
      (if b = au_owner a \<and> l = au_actor a then r else record_of (m_authority_manager n) b l)"
  let ?r0 = "record_of (m_authority_manager n) (au_owner a) (au_actor a)"
  obtain B where B: "put_record (au_owner a) (au_actor a) ?r0 (m_authority_manager n') = Inr B" "authority_wf B"
    "\<And>b l. record_of B b l = (if b = au_owner a \<and> l = au_actor a then ?r0 else record_of (m_authority_manager n') b l)"
    by (rule put_record_spec [OF wf', of "au_owner a" "au_actor a" ?r0]) (rule that)
  have "B = m_authority_manager n"
    using B(2) wf by (rule authority_store_eqI) (auto simp: B(3) rec)
  then have "change_record (au_owner a) (au_actor a) (reverted_record a) (m_authority_manager n') = Inr (m_authority_manager n)"
    using B(1) reverted_updated_record [OF r] by (simp add: change_record_eq [OF wf'] rec)
  moreover have "n'\<lparr>m_authority_manager := m_authority_manager n\<rparr> = n" by (subst n') simp
  ultimately show ?thesis by (simp add: authorization_revert_def)
qed

text \<open>No record has full rights and exceptions at once, so the \<open>logic_error\<close>s about that
  state are never thrown.\<close>

definition no_exceptions :: "authority_store \<Rightarrow> bool" where
  "no_exceptions A \<longleftrightarrow> (\<forall>a k. default_full (record_of A a k) \<longrightarrow> action_ids (record_of A a k) = {})"

lemma updated_record_plain:
  "updated_record a r = Inr r' \<Longrightarrow> default_full r \<longrightarrow> action_ids r = {} \<Longrightarrow> default_full r' \<longrightarrow> action_ids r' = {}"
  by (auto simp: updated_record_def result_simps split: if_splits list.splits)

lemma authorization_apply_plain:
  assumes wf: "authority_wf (m_authority_manager n)" and plain: "no_exceptions (m_authority_manager n)"
    and ap: "authorization_apply E st a layer n = Inr n'"
  shows "no_exceptions (m_authority_manager n')"
proof (rule authorization_apply_spec [OF wf ap])
  fix r
  assume r: "updated_record a (record_of (m_authority_manager n) (au_owner a) (au_actor a)) = Inr r"
    and rec: "\<And>b l. record_of (m_authority_manager n') b l =
      (if b = au_owner a \<and> l = au_actor a then r else record_of (m_authority_manager n) b l)"
  show ?thesis using updated_record_plain [OF r] plain by (auto simp: no_exceptions_def rec)
qed

lemma authority_wf_empty [simp]: "authority_wf Map.empty" "no_exceptions Map.empty"
  by (auto simp: authority_wf_def no_exceptions_def record_of_def full_record_def dummy_record_def)

end
