(* ===== verification/Action_Statistics.thy ===== *)
theory Action_Statistics
  imports Action_Transfer
begin

text \<open>
  libblockchain/transaction\_statinfo.cpp: the reports of channels and storages on the files they
  served. Applying a report changes nothing: it only decides whether the report may be mined.
\<close>

section \<open>Operations\<close>

definition PUBLIC_ADDRESS_FRESH_THRESHHOLD_SECONDS :: nat where
  "PUBLIC_ADDRESS_FRESH_THRESHHOLD_SECONDS = 600"

definition statistics_owners :: "service_statistics \<Rightarrow> string list" where
  "statistics_owners s = [ss_server_address s]"

definition statistics_participants :: "service_statistics \<Rightarrow> string list" where
  "statistics_participants s =
     concat (map (\<lambda>f. map sc_peer_address (sf_count_items f) @ [sf_file_uri f, sf_unit_uri f]) (ss_file_items s))
     @ [ss_server_address s]"

fun check_count_items :: "ext \<Rightarrow> statistics_count list \<Rightarrow> 'a res \<Rightarrow> 'a res" where
  "check_count_items E [] k = k"
| "check_count_items E (c # cs) k =
     check_public_key E (sc_peer_address c)
       (throw_if (sc_count c = 0) (Wrong_data ''dummy statistics'') (check_count_items E cs k))"

fun check_file_items :: "ext \<Rightarrow> statistics_file list \<Rightarrow> 'a res \<Rightarrow> 'a res" where
  "check_file_items E [] k = k"
| "check_file_items E (f # fs) k =
     throw_if (sf_count_items f = []) (Wrong_data ''dummy statistics'')
       (check_count_items E (sf_count_items f) (check_file_items E fs k))"

definition statistics_validate :: "ext \<Rightarrow> signed_transaction \<Rightarrow> service_statistics \<Rightarrow> unit res" where
  "statistics_validate E st s =
     check_one_authorization st
     (check_public_key E (ss_server_address s)
     (throw_if (ss_file_items s = []) (Wrong_data ''dummy statistics'')
     (check_file_items E (ss_file_items s) (Inr ()))))"

definition statistics_is_complete :: "signed_transaction \<Rightarrow> service_statistics \<Rightarrow> bool" where
  "statistics_is_complete st s = True"

definition statistics_peers :: "node \<Rightarrow> service_statistics \<Rightarrow> string set" where
  "statistics_peers n s =
     set (concat (map (\<lambda>f. map sc_peer_address (sf_count_items f)) (ss_file_items s))) - {own_address n}"

text \<open>The loop over the public addresses, which come in the order of their freshness: the
  address of the server and the addresses of the peers.\<close>

fun verify_addresses ::
  "string \<Rightarrow> string set \<Rightarrow> public_address_info list \<Rightarrow> string \<times> string set \<Rightarrow> string \<times> string set" where
  "verify_addresses server peers [] acc = acc"
| "verify_addresses server peers (i # is) (server_address, addresses) =
     (if PUBLIC_ADDRESS_FRESH_THRESHHOLD_SECONDS < unat (pa_seconds_since_checked i) then (server_address, addresses)
      else if pa_node_address i = server then verify_addresses server peers is (pa_local_address i, addresses)
      else if pa_node_address i \<in> peers
           then verify_addresses server peers is (server_address, insert (pa_local_address i) addresses)
      else verify_addresses server peers is (server_address, addresses))"

definition verified_addresses :: "node \<Rightarrow> service_statistics \<Rightarrow> string \<times> string set" where
  "verified_addresses n s =
     (let (server_address, addresses) =
            verify_addresses (ss_server_address s) (statistics_peers n s) (m_public_addresses n) ([], {})
      in (if server_address = [] \<and> ss_server_address s = own_address n then ss_server_address s else server_address,
          addresses))"

text \<open>The time range a report in a block must have.\<close>

definition statistics_time_ok :: "node \<Rightarrow> service_statistics \<Rightarrow> bool" where
  "statistics_time_ok n s \<longleftrightarrow>
     (let tp_end = time_signed (m_last_header (m_blockchain n)); tp_start = tp_end - int BLOCK_MINE_DELAY
      in ss_start_time_point s = tp_start \<and> ss_end_time_point s = tp_end)"

fun first_unit_uri :: "statistics_file list \<Rightarrow> string option" where
  "first_unit_uri [] = None"
| "first_unit_uri (f # fs) = (if sf_unit_uri f \<noteq> [] then Some (sf_unit_uri f) else first_unit_uri fs)"

definition statistics_file_uris :: "ext \<Rightarrow> service_statistics \<Rightarrow> string list" where
  "statistics_file_uris E s = x_set_order E (map sf_file_uri (ss_file_items s))"

definition statistics_unit_uris :: "ext \<Rightarrow> node_type \<Rightarrow> service_statistics \<Rightarrow> string list" where
  "statistics_unit_uris E nt s = x_set_order E (if nt = NT_channel then map sf_unit_uri (ss_file_items s) else [])"

text \<open>A peer of a channel is a storage and the other way round.\<close>

definition peer_ok :: "node_type \<Rightarrow> string \<Rightarrow> node \<Rightarrow> bool" where
  "peer_ok nt peer n \<longleftrightarrow>
     (case get_role peer (m_state n) of None \<Rightarrow> False | Some item_nt \<Rightarrow> item_nt \<noteq> NT_blockchain \<and> item_nt \<noteq> nt)"

fun statistics_items_ok :: "node_type \<Rightarrow> node \<Rightarrow> statistics_file list \<Rightarrow> bool res" where
  "statistics_items_ok nt n [] = Inr True"
| "statistics_items_ok nt n (f # fs) =
     and_then (if nt = NT_channel
               then bind_res (get_unit (sf_unit_uri f) (m_documents n)) (\<lambda>u. Inr (sf_file_uri f \<in> set (cu_file_uris u)))
               else Inr True)
       (if list_all (\<lambda>c. peer_ok nt (sc_peer_address c) n) (sf_count_items f)
        then statistics_items_ok nt n fs else Inr False)"

fun check_peers :: "node_type \<Rightarrow> node \<Rightarrow> statistics_count list \<Rightarrow> 'a res \<Rightarrow> 'a res" where
  "check_peers nt n [] k = k"
| "check_peers nt n (c # cs) k =
     throw_if (\<not> peer_ok nt (sc_peer_address c) n) (Wrong_data (''wrong node type : '' @ sc_peer_address c))
       (check_peers nt n cs k)"

fun check_statistics_items :: "node_type \<Rightarrow> node \<Rightarrow> statistics_file list \<Rightarrow> 'a res \<Rightarrow> 'a res" where
  "check_statistics_items nt n [] k = k"
| "check_statistics_items nt n (f # fs) k =
     (let rest = check_peers nt n (sf_count_items f) (check_statistics_items nt n fs k)
      in if nt = NT_channel
         then bind_res (get_unit (sf_unit_uri f) (m_documents n)) (\<lambda>u.
                throw_if (sf_file_uri f \<notin> set (cu_file_uris u)) (Uri_error (sf_unit_uri f) uri_invalid) rest)
         else rest)"

definition statistics_can_apply ::
  "ext \<Rightarrow> signed_transaction \<Rightarrow> service_statistics \<Rightarrow> state_layer \<Rightarrow> node \<Rightarrow> bool res" where
  "statistics_can_apply E st s layer n =
     and_then (signer_ok E st (ss_server_address s) K_ServiceStatistics n)
     (case get_role (ss_server_address s) (m_state n) of
        None \<Rightarrow> Inr False
      | Some nt \<Rightarrow>
          if nt = NT_blockchain then Inr False
          else bind_res (coin_of (get_balance (ss_server_address s) Layer_pool (m_state n))) (\<lambda>balance.
            if role_threshold nt balance \<noteq> None then Inr False
            else if layer = Layer_chain \<and> \<not> statistics_time_ok n s then Inr False
            else if layer = Layer_pool \<and>
                 (let (server_address, addresses) = verified_addresses n s
                  in server_address = [] \<or> card (statistics_peers n s) \<noteq> card addresses \<or> server_address \<in> addresses)
                 then Inr False
            else if nt = NT_storage \<and> first_unit_uri (ss_file_items s) \<noteq> None then Inr False
            else if \<not> fst (files_exist (statistics_file_uris E s) (m_documents n)) then Inr False
            else if \<not> fst (units_exist (statistics_unit_uris E nt s) (m_documents n)) then Inr False
            else statistics_items_ok nt n (ss_file_items s)))"

definition check_statistics_addresses :: "node \<Rightarrow> service_statistics \<Rightarrow> 'a res \<Rightarrow> 'a res" where
  "check_statistics_addresses n s k =
     (let (server_address, addresses) = verified_addresses n s
      in throw_if (server_address = []) (Wrong_data ''service statistics creator address is not verified'')
         (throw_if (card (statistics_peers n s) \<noteq> card addresses)
            (Wrong_data ''service statistics some channels and storages are not verified'')
         (throw_if (server_address \<in> addresses)
            (Wrong_data ''service statistics contains channel and storage with same address'') k)))"

definition check_statistics_uris :: "ext \<Rightarrow> node_type \<Rightarrow> node \<Rightarrow> service_statistics \<Rightarrow> 'a res \<Rightarrow> 'a res" where
  "check_statistics_uris E nt n s k =
     (let (files_ok, missing_file) = files_exist (statistics_file_uris E s) (m_documents n);
          (units_ok, missing_unit) = units_exist (statistics_unit_uris E nt s) (m_documents n);
          rest = throw_if (\<not> files_ok) (Uri_error missing_file uri_missing)
                 (throw_if (\<not> units_ok) (Uri_error missing_unit uri_missing) k)
      in if nt = NT_storage
         then (case first_unit_uri (ss_file_items s) of Some uri \<Rightarrow> Inl (Uri_error uri uri_invalid) | None \<Rightarrow> rest)
         else rest)"

definition statistics_apply ::
  "ext \<Rightarrow> signed_transaction \<Rightarrow> service_statistics \<Rightarrow> state_layer \<Rightarrow> node \<Rightarrow> node res" where
  "statistics_apply E st s layer n =
     check_signer E st (ss_server_address s) K_ServiceStatistics (authority_exception (ss_server_address s)) n
     (let wrong_type = Inl (Wrong_data (''process_stat_info -> wrong authority type : '' @ ss_server_address s))
      in case get_role (ss_server_address s) (m_state n) of
        None \<Rightarrow> wrong_type
      | Some nt \<Rightarrow>
          if nt = NT_blockchain then wrong_type
          else bind_res (coin_of (get_balance (ss_server_address s) Layer_pool (m_state n))) (\<lambda>balance.
            case role_threshold nt balance of
              Some threshold \<Rightarrow> Inl (Not_enough_balance (ss_server_address s) (coin_pair balance) (coin_pair threshold))
            | None \<Rightarrow>
                let rest = check_statistics_uris E nt n s (check_statistics_items nt n (ss_file_items s) (Inr n))
                in if layer = Layer_chain
                   then throw_if (\<not> statistics_time_ok n s) (Wrong_data ''service statistics time range is incorrect'') rest
                   else check_statistics_addresses n s rest))"

definition statistics_revert ::
  "ext \<Rightarrow> signed_transaction \<Rightarrow> service_statistics \<Rightarrow> state_layer \<Rightarrow> node \<Rightarrow> node res" where
  "statistics_revert E st s layer n =
     check_signer E st (ss_server_address s) K_ServiceStatistics
       (revert_exception ''service_statistics.server_address, signed_authority, ServiceStatistics::rtt'') n (Inr n)"

section \<open>Lemmas\<close>

lemma check_peers_Inr [result_simps]:
  "check_peers nt n cs k = Inr y \<longleftrightarrow> list_all (\<lambda>c. peer_ok nt (sc_peer_address c) n) cs \<and> k = Inr y"
  by (induction cs) (auto simp: result_simps)

lemma check_statistics_items_Inr [result_simps]:
  "check_statistics_items nt n fs k = Inr y \<longleftrightarrow> statistics_items_ok nt n fs = Inr True \<and> k = Inr y"
proof (induction fs)
  case (Cons f fs)
  then show ?case by (auto simp: Let_def result_simps split: if_splits)
qed simp

lemma check_statistics_addresses_Inr [result_simps]:
  "check_statistics_addresses n s k = Inr y \<longleftrightarrow>
     \<not> (let (server_address, addresses) = verified_addresses n s
        in server_address = [] \<or> card (statistics_peers n s) \<noteq> card addresses \<or> server_address \<in> addresses)
     \<and> k = Inr y"
  by (auto simp: check_statistics_addresses_def result_simps split: prod.splits)

lemma check_statistics_uris_Inr [result_simps]:
  "check_statistics_uris E nt n s k = Inr y \<longleftrightarrow>
     (nt = NT_storage \<longrightarrow> first_unit_uri (ss_file_items s) = None)
     \<and> fst (files_exist (statistics_file_uris E s) (m_documents n))
     \<and> fst (units_exist (statistics_unit_uris E nt s) (m_documents n)) \<and> k = Inr y"
  by (auto simp: check_statistics_uris_def Let_def result_simps split: prod.splits option.splits)

lemma statistics_apply_Inr:
  "statistics_apply E st s layer n = Inr n' \<Longrightarrow> n' = n \<and> signer_ok E st (ss_server_address s) K_ServiceStatistics n = Inr True"
  by (auto simp: statistics_apply_def Let_def result_simps split: option.splits if_splits)

lemma statistics_can_apply_iff:
  "statistics_can_apply E st s layer n = Inr True \<longleftrightarrow> (\<exists>n'. statistics_apply E st s layer n = Inr n')"
proof (cases "get_role (ss_server_address s) (m_state n)")
  case None
  then show ?thesis by (simp add: statistics_can_apply_def statistics_apply_def result_simps)
next
  case (Some nt)
  let ?bal = "get_balance (ss_server_address s) Layer_pool (m_state n)"
  show ?thesis
  proof (cases "nt = NT_blockchain \<or> \<not> coin_ok ?bal \<or> role_threshold nt ?bal \<noteq> None")
    case True
    then show ?thesis using Some
      by (auto simp: statistics_can_apply_def statistics_apply_def result_simps split: option.splits)
  next
    case False
    then show ?thesis using Some
      by (cases layer) (auto simp: statistics_can_apply_def statistics_apply_def Let_def result_simps split: if_splits)
  qed
qed

lemma statistics_revert_apply:
  "statistics_apply E st s layer n = Inr n' \<Longrightarrow> statistics_revert E st s layer n' = Inr n"
  by (auto simp: statistics_revert_def dest: statistics_apply_Inr)

end
