(* ===== verification/Action_Sponsoring.thy ===== *)
theory Action_Sponsoring
  imports Node_State
begin

text \<open>
  libblockchain/transaction\_sponsoring.cpp: paying for the promotion of a content unit, and
  cancelling it before it expires.
\<close>

section \<open>Sponsoring a content unit\<close>

definition sponsor_owners :: "sponsor_content_unit \<Rightarrow> string list" where
  "sponsor_owners s = [sp_sponsor_address s]"

definition sponsor_participants :: "sponsor_content_unit \<Rightarrow> string list" where
  "sponsor_participants s = [sp_uri s, sp_sponsor_address s]"

definition sponsor_validate :: "ext \<Rightarrow> signed_transaction \<Rightarrow> sponsor_content_unit \<Rightarrow> unit res" where
  "sponsor_validate E st s =
     check_one_authorization st
     (throw_if (sp_hours s = 0) (Wrong_data ''sponsor duration'')
     (throw_if (sp_amount s = coin_zero) (Wrong_data ''sponsor amount'')
     (check_public_key E (sp_sponsor_address s)
     (check_hash_uri E (sp_uri s) (Uri_error (sp_uri s) uri_invalid) (Inr ())))))"

definition sponsor_is_complete :: "signed_transaction \<Rightarrow> sponsor_content_unit \<Rightarrow> bool" where
  "sponsor_is_complete st s = True"

definition sponsor_can_apply :: "ext \<Rightarrow> signed_transaction \<Rightarrow> sponsor_content_unit \<Rightarrow> state_layer \<Rightarrow> node \<Rightarrow> bool res" where
  "sponsor_can_apply E st s layer n =
     and_then (signer_ok E st (sp_sponsor_address s) K_SponsorContentUnit n)
       (if \<not> unit_exists (sp_uri s) (m_documents n) then Inr False
        else covers (sp_sponsor_address s) (sp_amount s) n)"

definition sponsor_apply :: "ext \<Rightarrow> signed_transaction \<Rightarrow> sponsor_content_unit \<Rightarrow> state_layer \<Rightarrow> node \<Rightarrow> node res" where
  "sponsor_apply E st s layer n =
     check_signer E st (sp_sponsor_address s) K_SponsorContentUnit (authority_exception (sp_sponsor_address s)) n
     (throw_if (\<not> unit_exists (sp_uri s) (m_documents n)) (Uri_error (sp_uri s) uri_missing)
     (bind_res (debit (sp_sponsor_address s) (sp_amount s) layer n) (\<lambda>n1.
      bind_res (sponsor_content_unit_apply (m_blockchain n1) s (tx_key E st) (m_documents n1)) (\<lambda>d.
        Inr (n1\<lparr>m_documents := d\<rparr>)))))"

definition sponsor_revert :: "ext \<Rightarrow> signed_transaction \<Rightarrow> sponsor_content_unit \<Rightarrow> state_layer \<Rightarrow> node \<Rightarrow> node res" where
  "sponsor_revert E st s layer n =
     bind_res (credit (sp_sponsor_address s) (sp_amount s) layer n) (\<lambda>n1.
     bind_res (sponsor_content_unit_revert (m_blockchain n1) s (tx_key E st) (m_documents n1)) (\<lambda>d.
       let n2 = n1\<lparr>m_documents := d\<rparr>
       in check_signer E st (sp_sponsor_address s) K_SponsorContentUnit
            (revert_exception ''sponsor_content_unit.sponsor_address, signed_authority, SponsorContentUnit::rtt'') n2 (Inr n2)))"

text \<open>The sponsor's money is taken and comes back in full when the action is reverted.\<close>

lemma sponsor_apply_spec:
  assumes n: "node_money_ok layer n" and d: "sponsoring_wf (m_documents n)"
    and fresh: "sponsorship_fresh (tx_key E st) (m_documents n)"
    and ap: "sponsor_apply E st s layer n = Inr n'"
  shows "sponsor_revert E st s layer n' = Inr n"
    and "total_supply (m_state n') + coin_val (sp_amount s) = total_supply (m_state n)"
    and "node_money_ok layer n'" and "sponsoring_wf (m_documents n')"
proof -
  obtain t e where so: "signer_ok E st (sp_sponsor_address s) K_SponsorContentUnit n = Inr True"
    and t: "coin_ok (sp_amount s)" "decrease_balance (own_address n) (sp_sponsor_address s) (sp_amount s) layer (m_state n) = Inr t"
    and e: "sponsor_content_unit_apply (m_blockchain n) s (tx_key E st) (m_documents n) = Inr e"
    and n': "n' = n\<lparr>m_state := t, m_documents := e\<rparr>"
    using ap by (auto simp: sponsor_apply_def result_simps debit_Inr)
  have wf: "layer_wf (own_address n) layer (m_state n)" and lim: "2 * total_supply (m_state n) < val_limit"
    using n by (simp_all add: node_money_ok_def money_ok_def)
  note dec = ledger.dec_spec [OF wf t]
  have own: "own_address n' = own_address n" by (simp add: n' own_address_def)
  have "increase_balance (own_address n) (sp_sponsor_address s) (sp_amount s) layer t = Inr (m_state n)"
    by (rule ledger.dec_inc [OF wf t])
  then have "credit (sp_sponsor_address s) (sp_amount s) layer n' = Inr (n'\<lparr>m_state := m_state n\<rparr>)"
    using t(1) own by (simp add: credit_Inr n')
  moreover have "sponsor_content_unit_revert (m_blockchain n) s (tx_key E st) e = Inr (m_documents n)"
    by (rule sponsor_revert_apply [OF d fresh e])
  moreover have "(n'\<lparr>m_state := m_state n\<rparr>)\<lparr>m_documents := m_documents n\<rparr> = n" by (simp add: n')
  ultimately show "sponsor_revert E st s layer n' = Inr n"
    using so by (simp add: sponsor_revert_def Let_def n')
  show "total_supply (m_state n') + coin_val (sp_amount s) = total_supply (m_state n)"
    using dec(2) by (simp add: n')
  show "node_money_ok layer n'"
    using dec(1,2) lim own by (simp add: node_money_ok_def money_ok_def n')
  show "sponsoring_wf (m_documents n')" using sponsor_apply_wf [OF d e] by (simp add: n')
qed

section \<open>Cancelling\<close>

definition cancel_owners :: "cancel_sponsor_content_unit \<Rightarrow> string list" where
  "cancel_owners c = [cs_sponsor_address c]"

definition cancel_participants :: "cancel_sponsor_content_unit \<Rightarrow> string list" where
  "cancel_participants c = [cs_uri c, cs_sponsor_address c]"

definition cancel_validate :: "ext \<Rightarrow> signed_transaction \<Rightarrow> cancel_sponsor_content_unit \<Rightarrow> unit res" where
  "cancel_validate E st c =
     check_one_authorization st
     (check_public_key E (cs_sponsor_address c)
     (check_hash_uri E (cs_uri c) (Uri_error (cs_uri c) uri_invalid)
     (check_hash_uri E (cs_transaction_hash c) (Wrong_data (''invalid transaction hash: '' @ cs_transaction_hash c)) (Inr ()))))"

definition cancel_is_complete :: "signed_transaction \<Rightarrow> cancel_sponsor_content_unit \<Rightarrow> bool" where
  "cancel_is_complete st c = True"

definition any_zero_part :: "sponsored_parts \<Rightarrow> bool" where
  "any_zero_part parts \<longleftrightarrow> (\<exists>(sponsor, m) \<in> set parts. \<exists>(hash, part) \<in> set m. part = coin_zero)"

definition cancel_set_used ::
  "cancel_sponsor_content_unit \<Rightarrow> set_used_type \<Rightarrow> bool \<Rightarrow> node \<Rightarrow> (sponsored_parts \<times> documents) res" where
  "cancel_set_used c ty pretend n =
     sponsored_content_unit_set_used (m_blockchain n) (cs_uri c) (bc_length (m_blockchain n)) ty
       (cs_transaction_hash c) (cs_sponsor_address c) pretend (m_documents n)"

definition cancel_can_apply ::
  "ext \<Rightarrow> signed_transaction \<Rightarrow> cancel_sponsor_content_unit \<Rightarrow> state_layer \<Rightarrow> node \<Rightarrow> bool res" where
  "cancel_can_apply E st c layer n =
     and_then (signer_ok E st (cs_sponsor_address c) K_CancelSponsorContentUnit n)
       (if \<not> unit_exists (cs_uri c) (m_documents n) then Inr False
        else bind_res (cancel_set_used c Set_used_apply True n) (\<lambda>(parts, _). Inr (\<not> any_zero_part parts)))"

definition cancel_apply ::
  "ext \<Rightarrow> signed_transaction \<Rightarrow> cancel_sponsor_content_unit \<Rightarrow> state_layer \<Rightarrow> node \<Rightarrow> node res" where
  "cancel_apply E st c layer n =
     check_signer E st (cs_sponsor_address c) K_CancelSponsorContentUnit (authority_exception (cs_sponsor_address c)) n
     (throw_if (\<not> unit_exists (cs_uri c) (m_documents n)) (Uri_error (cs_uri c) uri_missing)
     (bind_res (cancel_set_used c Set_used_apply False n) (\<lambda>(parts, d).
        throw_if (any_zero_part parts) (Wrong_data (''invalid transaction hash: '' @ cs_transaction_hash c))
          (Inr (n\<lparr>m_documents := d\<rparr>)))))"

definition cancel_revert ::
  "ext \<Rightarrow> signed_transaction \<Rightarrow> cancel_sponsor_content_unit \<Rightarrow> state_layer \<Rightarrow> node \<Rightarrow> node res" where
  "cancel_revert E st c layer n =
     bind_res (cancel_set_used c Set_used_revert False n) (\<lambda>(parts, d).
       throw_if (any_zero_part parts) (Logic_error (''invalid transaction hash: '' @ cs_transaction_hash c))
         (let n1 = n\<lparr>m_documents := d\<rparr>
          in check_signer E st (cs_sponsor_address c) K_CancelSponsorContentUnit
               (revert_exception ''cancel_sponsor_content_unit.sponsor_address, signed_authority, CancelSponsorContentUnit::rtt'')
               n1 (Inr n1)))"

lemma no_zero_part: "sponsored_content_unit_set_used b uri no ty h m p d = Inr (parts, d') \<Longrightarrow> \<not> any_zero_part parts"
  by (drule set_used_nonzero) (force simp: parts_nonzero_def any_zero_part_def)

end
