(* ===== verification/Transaction_Handler.thy ===== *)
theory Transaction_Handler
  imports Action_Transfer Action_Documents Action_Authorization Action_Statistics Action_Sponsoring
begin

text \<open>
  libblockchain/transaction\_handler.cpp and transaction\_pool.cpp: the dispatch over the kinds of
  actions, the checks of a signed transaction, the fees, and the way of a transaction into the
  pool.
\<close>

section \<open>Dispatch\<close>

definition unknown_action :: exn where
  "unknown_action = Wrong_data ''unknown transaction action type!''"

text \<open>A coin-only node takes transfers and authorisation updates.\<close>

definition coin_only :: "node \<Rightarrow> action \<Rightarrow> bool" where
  "coin_only n a \<longleftrightarrow> cf_transfer_only (pconfig n)
     \<and> \<not> (case a of Transfer _ \<Rightarrow> True | AuthorizationUpdate _ \<Rightarrow> True | _ \<Rightarrow> False)"

definition coin_only_error :: exn where
  "coin_only_error = Runtime_error ''this is coin only blockchain''"

definition action_owners :: "signed_transaction \<Rightarrow> string list res" where
  "action_owners st =
     (case tx_action (transaction_details st) of
        Transfer t \<Rightarrow> Inr (transfer_owners t)
      | AuthorizationUpdate a \<Rightarrow> Inr (authorization_owners a)
      | File f \<Rightarrow> Inr (file_owners f)
      | ContentUnit u \<Rightarrow> Inr (unit_owners u)
      | Content c \<Rightarrow> Inr (content_owners c)
      | Role r \<Rightarrow> Inr (role_owners r)
      | StorageUpdate s \<Rightarrow> Inr (storage_update_owners s)
      | ServiceStatistics s \<Rightarrow> Inr (statistics_owners s)
      | SponsorContentUnit s \<Rightarrow> Inr (sponsor_owners s)
      | CancelSponsorContentUnit c \<Rightarrow> Inr (cancel_owners c)
      | Other_action _ \<Rightarrow> Inl unknown_action)"

definition action_participants :: "signed_transaction \<Rightarrow> string list res" where
  "action_participants st =
     (case tx_action (transaction_details st) of
        Transfer t \<Rightarrow> Inr (transfer_participants t)
      | AuthorizationUpdate a \<Rightarrow> Inr (authorization_participants a)
      | File f \<Rightarrow> Inr (file_participants f)
      | ContentUnit u \<Rightarrow> Inr (unit_participants u)
      | Content c \<Rightarrow> Inr (content_participants c)
      | Role r \<Rightarrow> Inr (role_participants r)
      | StorageUpdate s \<Rightarrow> Inr (storage_update_participants s)
      | ServiceStatistics s \<Rightarrow> Inr (statistics_participants s)
      | SponsorContentUnit s \<Rightarrow> Inr (sponsor_participants s)
      | CancelSponsorContentUnit c \<Rightarrow> Inr (cancel_participants c)
      | Other_action _ \<Rightarrow> Inl unknown_action)"

definition validate_action :: "ext \<Rightarrow> signed_transaction \<Rightarrow> bool \<Rightarrow> unit res" where
  "validate_action E st check_complete =
     (case tx_action (transaction_details st) of
        Transfer t \<Rightarrow> transfer_validate E st t
      | AuthorizationUpdate a \<Rightarrow> authorization_validate E st a
      | File f \<Rightarrow> file_validate E st f check_complete
      | ContentUnit u \<Rightarrow> unit_validate E st u check_complete
      | Content c \<Rightarrow> content_validate E st c
      | Role r \<Rightarrow> role_validate E st r
      | StorageUpdate s \<Rightarrow> storage_update_validate E st s
      | ServiceStatistics s \<Rightarrow> statistics_validate E st s
      | SponsorContentUnit s \<Rightarrow> sponsor_validate E st s
      | CancelSponsorContentUnit c \<Rightarrow> cancel_validate E st c
      | Other_action _ \<Rightarrow> Inl unknown_action)"

definition action_validate :: "ext \<Rightarrow> node \<Rightarrow> signed_transaction \<Rightarrow> bool \<Rightarrow> unit res" where
  "action_validate E n st check_complete =
     throw_if (coin_only n (tx_action (transaction_details st))) coin_only_error (validate_action E st check_complete)"

text \<open>The guard of \<open>action_is_complete\<close> names the transfer only.\<close>

definition action_is_complete :: "node \<Rightarrow> signed_transaction \<Rightarrow> bool res" where
  "action_is_complete n st =
     (let a = tx_action (transaction_details st)
      in throw_if (cf_transfer_only (pconfig n) \<and> \<not> (case a of Transfer _ \<Rightarrow> True | _ \<Rightarrow> False)) coin_only_error
     (case a of
        Transfer t \<Rightarrow> Inr (transfer_is_complete st t)
      | AuthorizationUpdate a \<Rightarrow> Inr (authorization_is_complete st a)
      | File f \<Rightarrow> Inr (file_is_complete st f)
      | ContentUnit u \<Rightarrow> Inr (unit_is_complete st u)
      | Content c \<Rightarrow> Inr (content_is_complete st c)
      | Role r \<Rightarrow> Inr (role_is_complete st r)
      | StorageUpdate s \<Rightarrow> Inr (storage_update_is_complete st s)
      | ServiceStatistics s \<Rightarrow> Inr (statistics_is_complete st s)
      | SponsorContentUnit s \<Rightarrow> Inr (sponsor_is_complete st s)
      | CancelSponsorContentUnit c \<Rightarrow> Inr (cancel_is_complete st c)
      | Other_action _ \<Rightarrow> Inl unknown_action))"

definition can_apply_action :: "ext \<Rightarrow> signed_transaction \<Rightarrow> action \<Rightarrow> state_layer \<Rightarrow> node \<Rightarrow> bool res" where
  "can_apply_action E st a layer n =
     (case a of
        Transfer t \<Rightarrow> transfer_can_apply E st t layer n
      | AuthorizationUpdate a \<Rightarrow> authorization_can_apply E st a layer n
      | File f \<Rightarrow> file_can_apply E st f layer n
      | ContentUnit u \<Rightarrow> unit_can_apply E st u layer n
      | Content c \<Rightarrow> content_can_apply E st c layer n
      | Role r \<Rightarrow> role_can_apply E st r layer n
      | StorageUpdate s \<Rightarrow> storage_update_can_apply E st s layer n
      | ServiceStatistics s \<Rightarrow> statistics_can_apply E st s layer n
      | SponsorContentUnit s \<Rightarrow> sponsor_can_apply E st s layer n
      | CancelSponsorContentUnit c \<Rightarrow> cancel_can_apply E st c layer n
      | Other_action _ \<Rightarrow> Inl unknown_action)"

definition action_can_apply :: "ext \<Rightarrow> signed_transaction \<Rightarrow> action \<Rightarrow> state_layer \<Rightarrow> node \<Rightarrow> bool res" where
  "action_can_apply E st a layer n =
     throw_if (coin_only n a) coin_only_error (can_apply_action E st a layer n)"

definition apply_action :: "ext \<Rightarrow> signed_transaction \<Rightarrow> action \<Rightarrow> state_layer \<Rightarrow> node \<Rightarrow> node res" where
  "apply_action E st a layer n =
     (case a of
        Transfer t \<Rightarrow> transfer_apply E st t layer n
      | AuthorizationUpdate a \<Rightarrow> authorization_apply E st a layer n
      | File f \<Rightarrow> file_apply E st f layer n
      | ContentUnit u \<Rightarrow> unit_apply E st u layer n
      | Content c \<Rightarrow> content_apply E st c layer n
      | Role r \<Rightarrow> role_apply E st r layer n
      | StorageUpdate s \<Rightarrow> storage_update_apply E st s layer n
      | ServiceStatistics s \<Rightarrow> statistics_apply E st s layer n
      | SponsorContentUnit s \<Rightarrow> sponsor_apply E st s layer n
      | CancelSponsorContentUnit c \<Rightarrow> cancel_apply E st c layer n
      | Other_action _ \<Rightarrow> Inl unknown_action)"

definition action_apply :: "ext \<Rightarrow> signed_transaction \<Rightarrow> action \<Rightarrow> state_layer \<Rightarrow> node \<Rightarrow> node res" where
  "action_apply E st a layer n = throw_if (coin_only n a) coin_only_error (apply_action E st a layer n)"

definition revert_action :: "ext \<Rightarrow> signed_transaction \<Rightarrow> action \<Rightarrow> state_layer \<Rightarrow> node \<Rightarrow> node res" where
  "revert_action E st a layer n =
     (case a of
        Transfer t \<Rightarrow> transfer_revert E st t layer n
      | AuthorizationUpdate a \<Rightarrow> authorization_revert E st a layer n
      | File f \<Rightarrow> file_revert E st f layer n
      | ContentUnit u \<Rightarrow> unit_revert E st u layer n
      | Content c \<Rightarrow> content_revert E st c layer n
      | Role r \<Rightarrow> role_revert E st r layer n
      | StorageUpdate s \<Rightarrow> storage_update_revert E st s layer n
      | ServiceStatistics s \<Rightarrow> statistics_revert E st s layer n
      | SponsorContentUnit s \<Rightarrow> sponsor_revert E st s layer n
      | CancelSponsorContentUnit c \<Rightarrow> cancel_revert E st c layer n
      | Other_action _ \<Rightarrow> Inl unknown_action)"

definition action_revert :: "ext \<Rightarrow> signed_transaction \<Rightarrow> action \<Rightarrow> state_layer \<Rightarrow> node \<Rightarrow> node res" where
  "action_revert E st a layer n = throw_if (coin_only n a) coin_only_error (revert_action E st a layer n)"

section \<open>Signed transactions\<close>

text \<open>The loop over the signatures; \<open>seen\<close> holds the pairs of address and signature.\<close>

fun check_signatures :: "ext \<Rightarrow> string \<Rightarrow> authority list \<Rightarrow> (string \<times> string) set \<Rightarrow> 'a res \<Rightarrow> 'a res" where
  "check_signatures E message [] seen k = k"
| "check_signatures E message (a # as) seen k =
     throw_if ((at_address a, at_signature a) \<in> seen) (Wrong_data ''duplicate signature'')
     (check_public_key E (at_address a)
     (throw_if (\<not> x_signature_ok E (at_address a) message (at_signature a)) (Signature_error (at_address a))
     (check_signatures E message as (insert (at_address a, at_signature a) seen) k)))"

definition signed_transaction_validate :: "ext \<Rightarrow> signed_transaction \<Rightarrow> time \<Rightarrow> time \<Rightarrow> unit res" where
  "signed_transaction_validate E st now time_shift =
     throw_if (authorizations st = []) (Wrong_data ''transaction with no authorizations'')
     (check_signatures E (x_transaction_string E (transaction_details st)) (authorizations st) {}
     (let creation = tx_creation (transaction_details st); expiry = tx_expiry (transaction_details st)
      in throw_if (now + time_shift < creation) (Wrong_data ''Transaction from the future!'')
         (throw_if (now - time_shift > expiry) (Wrong_data ''Expired transaction!'')
         (throw_if (expiry - creation > TRANSACTION_MAX_LIFETIME_HOURS * 3600)
            (Wrong_data ''Too long lifetime for transaction'') (Inr ())))))"

section \<open>Fees\<close>

definition fee_owner :: "signed_transaction \<Rightarrow> string res" where
  "fee_owner st = bind_res (action_owners st) (\<lambda>owners. case owners of [] \<Rightarrow> Inl Undefined_behaviour | o1 # _ \<Rightarrow> Inr o1)"

definition fee_of :: "signed_transaction \<Rightarrow> coin" where
  "fee_of st = tx_fee (transaction_details st)"

definition fee_validate :: "node \<Rightarrow> signed_transaction \<Rightarrow> unit res" where
  "fee_validate n st =
     bind_res (fee_owner st) (\<lambda>address.
     bind_res (coin_of (get_balance address Layer_pool (m_state n))) (\<lambda>balance.
     bind_res (coin_of (fee_of st)) (\<lambda>fee.
       throw_if (balance < fee) (Not_enough_balance address (coin_pair balance) (coin_pair fee)) (Inr ()))))"

definition fee_can_apply :: "node \<Rightarrow> signed_transaction \<Rightarrow> bool res" where
  "fee_can_apply n st = bind_res (fee_owner st) (\<lambda>address. covers address (fee_of st) n)"

definition fee_apply :: "signed_transaction \<Rightarrow> string \<Rightarrow> node \<Rightarrow> node res" where
  "fee_apply st fee_receiver n =
     (if fee_receiver = [] then Inr n
      else bind_res (fee_owner st) (\<lambda>address.
           bind_res (credit fee_receiver (fee_of st) Layer_chain n) (\<lambda>n1.
             debit address (fee_of st) Layer_chain n1)))"

definition fee_revert :: "signed_transaction \<Rightarrow> string \<Rightarrow> node \<Rightarrow> node res" where
  "fee_revert st fee_receiver n =
     (if fee_receiver = [] then Inr n
      else bind_res (fee_owner st) (\<lambda>address.
           bind_res (debit fee_receiver (fee_of st) Layer_chain n) (\<lambda>n1.
             credit address (fee_of st) Layer_chain n1)))"

section \<open>Into the pool\<close>

definition BLOCK_TR_LENGTH :: int where "BLOCK_TR_LENGTH = 9"

definition cache_update :: "(transaction_cache \<Rightarrow> transaction_cache) \<Rightarrow> node \<Rightarrow> node" where
  "cache_update f n = n\<lparr>m_transaction_cache := f (m_transaction_cache n)\<rparr>"

text \<open>What happens under the guard of \<open>action_process_on_chain_t\<close>.\<close>

definition add_to_pool :: "ext \<Rightarrow> signed_transaction \<Rightarrow> bool \<Rightarrow> node \<Rightarrow> node res" where
  "add_to_pool E st complete n =
     (let a = tx_action (transaction_details st)
      in bind_res (if complete then Inr True
                   else bind_res (can_apply_action E st a Layer_pool n) (\<lambda>ok. Inr (\<not> ok))) (\<lambda>enter.
         bind_res (if enter
                   then bind_res (apply_action E st a Layer_pool n) (\<lambda>n1.
                        bind_res (fee_validate n1 st) (\<lambda>_.
                          Inr (n1\<lparr>m_action_log := log_transaction E st (m_action_log n1)\<rparr>)))
                   else Inr n) (\<lambda>n2.
           Inr (cache_update (\<lambda>c. snd (add_pool E st complete c))
                  (n2\<lparr>m_transaction_pool := m_transaction_pool n2 @ [st]\<rparr>)))))"

text \<open>The handlers change the stores in place, so an exception leaves them half changed: with a receiver
  credited and the payer not debited, or with default records made for an authorisation that is then
  refused. The results do not show how far a handler came, so the stores and the cache at the moment of the
  exception are an argument: \<open>thrown\<close>. No handler changes the chain of blocks.\<close>

definition half_changed :: "ledger \<times> cache_data \<Rightarrow> node \<Rightarrow> node" where
  "half_changed thrown n =
     (let (l, d) = thrown
      in n\<lparr>m_state := m_state l, m_documents := m_documents l, m_action_log := (m_action_log l)\<lparr>m_enabled := m_enabled (m_action_log n)\<rparr>,
           m_transaction_pool := m_transaction_pool l, m_authority_manager := m_authority_manager l,
           m_transaction_cache := (m_transaction_cache n)\<lparr>cache_data := d\<rparr>\<rparr>)"

text \<open>The guard discards what is not saved and restores the cache.\<close>

definition pool_rollback :: "ext \<Rightarrow> node \<Rightarrow> node" where
  "pool_rollback E n = cache_update cache_restore (node_discard E n)"

definition too_far_behind :: "time \<Rightarrow> node \<Rightarrow> bool" where
  "too_far_behind now n \<longleftrightarrow> time_signed (m_last_header (m_blockchain n)) < now - (BLOCK_TR_LENGTH + 1) * int BLOCK_MINE_DELAY"

definition action_process_on_chain :: "ext \<Rightarrow> time \<Rightarrow> ledger \<times> cache_data \<Rightarrow> signed_transaction \<Rightarrow> node \<Rightarrow> bool res \<times> node" where
  "action_process_on_chain E now thrown st n =
     (case throw_if (coin_only n (tx_action (transaction_details st))) coin_only_error
             (throw_if (is_Other_action (tx_action (transaction_details st))) unknown_action
             (bind_res (action_is_complete n st) (\<lambda>complete.
              bind_res (validate_action E st complete) (\<lambda>_. Inr complete)))) of
        Inl e \<Rightarrow> (Inl e, n)
      | Inr complete \<Rightarrow>
          if too_far_behind now n then (Inr True, n)
          else if cache_contains E st (m_transaction_cache n) then (Inr False, n)
          else let n1 = cache_update cache_backup_now n
               in case add_to_pool E st complete n1 of
                    Inl e \<Rightarrow> (Inl e, pool_rollback E (half_changed thrown n1))
                  | Inr n2 \<Rightarrow> (Inr True, node_save n2))"

section \<open>Into a block and back\<close>

text \<open>communication\_p2p.cpp: \<open>key\<close> is the miner a block pays its fees to, empty in the pool.\<close>

definition layer_of :: "string \<Rightarrow> state_layer" where
  "layer_of key = (if key = [] then Layer_pool else Layer_chain)"

definition apply_transaction :: "ext \<Rightarrow> signed_transaction \<Rightarrow> string \<Rightarrow> node \<Rightarrow> (bool \<times> node) res" where
  "apply_transaction E st key n =
     (let a = tx_action (transaction_details st); layer = layer_of key
      in bind_res (action_can_apply E st a layer n) (\<lambda>can.
         if \<not> can then Inr (False, n)
         else bind_res (action_apply E st a layer n) (\<lambda>n1.
              bind_res (fee_can_apply n1 st) (\<lambda>fee_ok.
                if \<not> fee_ok then bind_res (action_revert E st a layer n1) (\<lambda>n2. Inr (False, n2))
                else bind_res (fee_apply st key n1) (\<lambda>n2. Inr (True, n2))))))"

definition revert_transaction :: "ext \<Rightarrow> signed_transaction \<Rightarrow> string \<Rightarrow> node \<Rightarrow> node res" where
  "revert_transaction E st key n =
     bind_res (fee_revert st key n) (\<lambda>n1.
       action_revert E st (tx_action (transaction_details st)) (layer_of key) n1)"

text \<open>\<open>revert_pool\<close>: the transactions that are still valid, and the pool undone from its end.\<close>

fun revert_pool_loop :: "ext \<Rightarrow> signed_transaction list \<Rightarrow> node \<Rightarrow> node res" where
  "revert_pool_loop E [] n = Inr n"
| "revert_pool_loop E (st # sts) n =
     (let n1 = n\<lparr>m_transaction_pool := butlast (m_transaction_pool n)\<rparr>;
          (complete, c) = erase_pool E st (m_transaction_cache n1);
          n2 = n1\<lparr>m_transaction_cache := c\<rparr>
      in bind_res (if complete
                   then bind_res (al_revert (m_action_log n2)) (\<lambda>l.
                          revert_transaction E st [] (n2\<lparr>m_action_log := l\<rparr>))
                   else Inr n2) (revert_pool_loop E sts))"

definition sync_own_balance :: "node \<Rightarrow> node res" where
  "sync_own_balance n =
     bind_res (coin_of (get_balance (own_address n) Layer_pool (m_state n))) (\<lambda>balance.
       Inr (n\<lparr>m_state := set_balance (own_address n) (own_address n) balance Layer_chain (m_state n)\<rparr>))"

definition revert_pool :: "ext \<Rightarrow> time \<Rightarrow> node \<Rightarrow> (signed_transaction list \<times> node) res" where
  "revert_pool E expiry_time n =
     (let pool_transactions = filter (\<lambda>st. expiry_time \<le> tx_expiry (transaction_details st)) (m_transaction_pool n)
      in bind_res (revert_pool_loop E (rev (m_transaction_pool n)) n) (\<lambda>n1.
         bind_res (sync_own_balance n1) (\<lambda>n2. Inr (pool_transactions, n2))))"

section \<open>Loading the cache\<close>

text \<open>The blocks from the last one backwards, until one is too old.\<close>

fun cache_blocks :: "ext \<Rightarrow> time \<Rightarrow> bool \<Rightarrow> signed_block list \<Rightarrow> transaction_cache \<Rightarrow> transaction_cache res" where
  "cache_blocks E head first [] c = Inr c"
| "cache_blocks E head first (sb # sbs) c =
     (if \<not> first \<and> head - time_signed (header (block_details sb))
                     > TRANSACTION_MAX_LIFETIME_HOURS * 3600 + NODES_TIME_SHIFT
      then Inr c
      else bind_res (fold_res (\<lambda>st c. let (ok, c') = add_chain E st c
                       in throw_if (\<not> ok) (Logic_error ''inconsistent stored blockchain'') (Inr c'))
                     (signed_transactions (block_details sb)) c) (cache_blocks E head False sbs))"

definition load_transaction_cache :: "ext \<Rightarrow> bool \<Rightarrow> node \<Rightarrow> node res" where
  "load_transaction_cache E only_pool n =
     (let blocks = rev (m_blocks (m_blockchain n));
          head = (case blocks of [] \<Rightarrow> 0 | sb # _ \<Rightarrow> time_signed (header (block_details sb)))
      in bind_res (if only_pool then Inr (m_transaction_cache n)
                   else cache_blocks E head True blocks (m_transaction_cache n)) (\<lambda>c.
         bind_res (fold_res (\<lambda>st c. bind_res (action_is_complete n st) (\<lambda>complete.
                     let (ok, c') = add_pool E st complete c
                     in throw_if (\<not> ok) (Logic_error ''inconsistent stored pool'') (Inr c')))
                   (m_transaction_pool n) c) (\<lambda>c'.
           Inr (n\<lparr>m_transaction_cache := c'\<rparr>))))"

section \<open>What the actions promise\<close>

text \<open>The invariant of the parts of a node that actions change.\<close>

definition node_wf :: "state_layer \<Rightarrow> node \<Rightarrow> bool" where
  "node_wf layer n \<longleftrightarrow> node_money_ok layer n \<and> authority_wf (m_authority_manager n)
     \<and> storages_wf (m_documents n) \<and> sponsoring_wf (m_documents n)"

text \<open>The transactions the theorems on undoing are about. A transfer goes to another account, files and units have a
  uri and the signatures of all their authors, and a sponsorship is not known yet; the rest is unrestricted, with
  two exceptions. A storage node without a manager that applies a content of a block queues its files, and reverting
  the content does not take them from the queue. Cancellations are not covered: one of an unknown
  sponsorship is no operation at all (see Action\_Sponsoring).\<close>

definition tx_ok :: "ext \<Rightarrow> signed_transaction \<Rightarrow> state_layer \<Rightarrow> node \<Rightarrow> bool" where
  "tx_ok E st layer n \<longleftrightarrow>
     (case tx_action (transaction_details st) of
        Transfer t \<Rightarrow> tf_from t \<noteq> tf_to t
      | File f \<Rightarrow> fl_uri f \<noteq> [] \<and> file_is_complete st f
      | ContentUnit u \<Rightarrow> cu_uri u \<noteq> [] \<and> unit_is_complete st u
      | Content c \<Rightarrow> \<not> (cf_manager_address (pconfig n) = [] \<and> cf_node_type (pconfig n) = NT_storage \<and> layer = Layer_chain)
      | SponsorContentUnit s \<Rightarrow> sponsorship_fresh (tx_key E st) (m_documents n)
      | CancelSponsorContentUnit c \<Rightarrow> False
      | _ \<Rightarrow> True)"

lemma docs_wf_insert:
  "storages_wf (snd (insert_file f d)) = storages_wf d" "sponsoring_wf (snd (insert_file f d)) = sponsoring_wf d"
  "storages_wf (snd (insert_unit u d)) = storages_wf d" "sponsoring_wf (snd (insert_unit u d)) = sponsoring_wf d"
  by (simp_all add: storages_wf_def sponsoring_wf_def insert_file_def insert_unit_def)

lemma sponsoring_wf_storage [simp]: "sponsoring_wf (storage_update_doc uri a s d) = sponsoring_wf d"
  by (auto simp: sponsoring_wf_def storage_update_doc_def Let_def split: option.splits)

lemma storages_wf_sponsor [simp]: "storages_wf (add_sponsorship s h c e d) = storages_wf d"
  by (simp add: storages_wf_def add_sponsorship_def Let_def)

lemma node_money_ok_cong:
  "m_accounts (m_state n') = m_accounts (m_state n) \<Longrightarrow> m_node_accounts (m_state n') = m_node_accounts (m_state n)
   \<Longrightarrow> own_address n' = own_address n \<Longrightarrow> node_money_ok layer n' = node_money_ok layer n"
  by (simp add: node_money_ok_def money_ok_def layer_wf_def state_wf_def synced_def total_supply_def)

text \<open>Every action that applies keeps the invariant, leaves the configuration alone and is
  undone by its revert.\<close>

lemma apply_action_spec:
  assumes wf: "node_wf layer n" and ok: "tx_ok E st layer n"
    and ap: "apply_action E st (tx_action (transaction_details st)) layer n = Inr n'"
  shows "node_wf layer n' \<and> pconfig n' = pconfig n
    \<and> revert_action E st (tx_action (transaction_details st)) layer n' = Inr n"
proof -
  have money: "node_money_ok layer n" and auth: "authority_wf (m_authority_manager n)"
    and stor: "storages_wf (m_documents n)" and spon: "sponsoring_wf (m_documents n)"
    using wf by (simp_all add: node_wf_def)
  show ?thesis
  proof (cases "tx_action (transaction_details st)")
    case (Transfer t)
    then have t: "transfer_apply E st t layer n = Inr n'" "tf_from t \<noteq> tf_to t"
      using ap ok by (simp_all add: apply_action_def tx_ok_def)
    show ?thesis
    proof (rule transfer_apply_spec [OF money transfer_apply_can [OF money t(2,1)]])
      fix m
      assume m: "transfer_apply E st t layer n = Inr m" "m = n\<lparr>m_state := m_state m\<rparr>"
        "node_money_ok layer m" "transfer_revert E st t layer m = Inr n"
      have eq: "n' = m" using m(1) t(1) by simp
      have "m_authority_manager m = m_authority_manager n" "m_documents m = m_documents n" "pconfig m = pconfig n"
        by (subst m(2), simp)+
      then show ?thesis using m auth stor spon Transfer eq by (simp add: node_wf_def revert_action_def)
    qed
  next
    case (AuthorizationUpdate a)
    then have a: "authorization_apply E st a layer n = Inr n'" using ap by (simp add: apply_action_def)
    show ?thesis
    proof (rule authorization_apply_spec [OF auth a])
      assume n': "n' = n\<lparr>m_authority_manager := m_authority_manager n'\<rparr>" and wf': "authority_wf (m_authority_manager n')"
      have "m_state n' = m_state n" "m_documents n' = m_documents n" "pconfig n' = pconfig n"
        by (subst n', simp)+
      then show ?thesis
        using authorization_revert_apply [OF auth a] wf' money stor spon AuthorizationUpdate
        by (simp add: node_wf_def revert_action_def node_money_ok_def own_address_def)
    qed
  next
    case (File f)
    then have f: "file_apply E st f layer n = Inr n'" "fl_uri f \<noteq> []" "file_is_complete st f"
      using ap ok by (simp_all add: apply_action_def tx_ok_def)
    show ?thesis
      using file_revert_apply [OF f] file_apply_Inr(2) [OF f(1,2)] money auth stor spon File
      by (simp add: node_wf_def revert_action_def node_money_ok_def own_address_def docs_wf_insert)
  next
    case (ContentUnit u)
    then have u: "unit_apply E st u layer n = Inr n'" "cu_uri u \<noteq> []" "unit_is_complete st u"
      using ap ok by (simp_all add: apply_action_def tx_ok_def)
    show ?thesis
      using unit_revert_apply [OF u] unit_apply_Inr(2) [OF u(1,2)] money auth stor spon ContentUnit
      by (simp add: node_wf_def revert_action_def node_money_ok_def own_address_def docs_wf_insert)
  next
    case (Content c)
    then have c: "content_apply E st c layer n = Inr n'" using ap by (simp add: apply_action_def)
    have "n' = n" using c ok Content
      by (auto simp: content_apply_def tx_ok_def result_simps split: prod.splits if_splits)
    then show ?thesis using content_revert_apply [OF c] wf Content by (simp add: revert_action_def)
  next
    case (Role r)
    then have r: "role_apply E st r layer n = Inr n'" using ap by (simp add: apply_action_def)
    obtain s where n': "n' = n\<lparr>m_state := s\<rparr>" using role_apply_Inr(1) [OF r] by blast
    show ?thesis
      using role_revert_apply [OF r] node_money_ok_cong [of n' n layer] role_apply_keeps [OF r] money auth stor spon Role
      by (simp add: node_wf_def revert_action_def n')
  next
    case (StorageUpdate s)
    then have s: "storage_update_apply E st s layer n = Inr n'" using ap by (simp add: apply_action_def)
    then have n': "n' = n\<lparr>m_documents := storage_update_doc (su_file_uri s) (su_storage_address s) (su_status s) (m_documents n)\<rparr>"
      by (auto simp: storage_update_apply_def Let_def result_simps)
    show ?thesis
      using storage_update_revert_apply [OF s stor] money auth stor spon StorageUpdate
      by (simp add: node_wf_def revert_action_def n' node_money_ok_def own_address_def storage_update_wf)
  next
    case (ServiceStatistics s)
    then show ?thesis
      using statistics_revert_apply [of E st s layer n n'] statistics_apply_Inr [of E st s layer n n'] ap wf
      by (simp add: apply_action_def revert_action_def)
  next
    case (SponsorContentUnit s)
    then have s: "sponsor_apply E st s layer n = Inr n'" and fresh: "sponsorship_fresh (tx_key E st) (m_documents n)"
      using ap ok by (simp_all add: apply_action_def tx_ok_def)
    have "m_authority_manager n' = m_authority_manager n" "pconfig n' = pconfig n"
      "storages_wf (m_documents n') = storages_wf (m_documents n)"
      using s by (auto simp: sponsor_apply_def result_simps debit_Inr sponsor_apply_Inr)
    then show ?thesis
      using sponsor_apply_spec [OF money spon fresh s] auth stor SponsorContentUnit
      by (simp add: node_wf_def revert_action_def)
  next
    case (CancelSponsorContentUnit c)
    then show ?thesis using ok by (simp add: tx_ok_def)
  next
    case (Other_action p)
    then show ?thesis using ap by (simp add: apply_action_def)
  qed
qed

text \<open>The test before applying agrees with what applying does.\<close>

lemma can_apply_action_iff:
  assumes wf: "node_wf layer n"
    and a: "case a of Transfer t \<Rightarrow> tf_from t \<noteq> tf_to t | SponsorContentUnit _ \<Rightarrow> False
      | CancelSponsorContentUnit _ \<Rightarrow> False | _ \<Rightarrow> True"
  shows "can_apply_action E st a layer n = Inr True \<longleftrightarrow> (\<exists>n'. apply_action E st a layer n = Inr n')"
proof -
  have money: "node_money_ok layer n" and auth: "authority_wf (m_authority_manager n)"
    using wf by (simp_all add: node_wf_def)
  show ?thesis
  proof (cases a)
    case (Transfer t)
    then have t: "tf_from t \<noteq> tf_to t" using a by simp
    have "transfer_can_apply E st t layer n = Inr True \<longleftrightarrow> (\<exists>n'. transfer_apply E st t layer n = Inr n')"
      using transfer_apply_can [OF money t] transfer_apply_spec [OF money] by metis
    then show ?thesis using Transfer by (simp add: can_apply_action_def apply_action_def)
  qed (use a in \<open>simp_all add: can_apply_action_def apply_action_def authorization_can_apply_iff [OF auth]
      file_can_apply_iff unit_can_apply_iff content_can_apply_iff role_can_apply_iff
      storage_update_can_apply_iff statistics_can_apply_iff\<close>)
qed

text \<open>What an action may change; only the content of a storage node, in a block, reaches the queue
  of files.\<close>

lemma apply_action_frame_all:
  assumes "apply_action E st a layer n = Inr n'"
  shows "n' = n\<lparr>m_state := m_state n', m_documents := m_documents n', m_authority_manager := m_authority_manager n',
      m_storage_controller := m_storage_controller n'\<rparr>
    \<and> (layer = Layer_pool \<longrightarrow> m_storage_controller n' = m_storage_controller n)"
proof (cases a)
  case (Transfer t)
  then show ?thesis using assms by (auto simp: apply_action_def transfer_apply_def result_simps credit_Inr debit_Inr)
next
  case (AuthorizationUpdate u)
  then show ?thesis using assms by (auto simp: apply_action_def authorization_apply_def result_simps)
next
  case (File f)
  then show ?thesis using assms by (auto simp: apply_action_def file_apply_def result_simps Let_def split: prod.splits if_splits)
next
  case (ContentUnit u)
  then show ?thesis using assms by (auto simp: apply_action_def unit_apply_def result_simps Let_def split: prod.splits if_splits)
next
  case (Content c)
  then show ?thesis using assms by (auto simp: apply_action_def content_apply_def result_simps split: prod.splits if_splits)
next
  case (Role r)
  then show ?thesis using assms by (auto simp: apply_action_def role_apply_def result_simps split: option.splits)
next
  case (StorageUpdate s)
  then show ?thesis using assms by (auto simp: apply_action_def storage_update_apply_def result_simps Let_def)
next
  case (ServiceStatistics s)
  then show ?thesis using assms statistics_apply_Inr [of E st s layer n n'] by (simp add: apply_action_def)
next
  case (SponsorContentUnit s)
  then show ?thesis using assms by (auto simp: apply_action_def sponsor_apply_def result_simps debit_Inr)
next
  case (CancelSponsorContentUnit c)
  then show ?thesis using assms by (auto simp: apply_action_def cancel_apply_def result_simps)
next
  case (Other_action p)
  then show ?thesis using assms by (simp add: apply_action_def)
qed

text \<open>An action leaves the sponsorships of other transactions as fresh as they were.\<close>

lemma sponsorship_fresh_add:
  "sponsorship_fresh k d \<Longrightarrow> k \<noteq> hash \<Longrightarrow> sponsorship_fresh k (add_sponsorship s hash c e d)"
  by (auto simp: sponsorship_fresh_def add_sponsorship_def Let_def omap_alter_none_iff split: option.splits if_splits)

lemma sponsorship_fresh_cong:
  "m_sponsored_informations_hash_to_block d' = m_sponsored_informations_hash_to_block d \<Longrightarrow>
   m_sponsored_informations_expiring d' = m_sponsored_informations_expiring d \<Longrightarrow>
   sponsorship_fresh k d' = sponsorship_fresh k d"
  by (simp add: sponsorship_fresh_def)

lemma apply_action_fresh:
  assumes "apply_action E st a layer n = Inr n'" "\<not> (\<exists>c. a = CancelSponsorContentUnit c)"
    and fresh: "sponsorship_fresh k (m_documents n)" "k \<noteq> tx_key E st"
  shows "sponsorship_fresh k (m_documents n')"
proof (cases "\<exists>s. a = SponsorContentUnit s")
  case True
  then obtain s where s: "sponsor_apply E st s layer n = Inr n'" using assms(1) by (auto simp: apply_action_def)
  then obtain c e where "m_documents n' = add_sponsorship s (tx_key E st) c e (m_documents n)"
    by (auto simp: sponsor_apply_def result_simps debit_Inr sponsor_apply_Inr)
  then show ?thesis using sponsorship_fresh_add [OF fresh] by simp
next
  case False
  have "m_sponsored_informations_hash_to_block (m_documents n') = m_sponsored_informations_hash_to_block (m_documents n)
    \<and> m_sponsored_informations_expiring (m_documents n') = m_sponsored_informations_expiring (m_documents n)"
    using assms(1,2) False statistics_apply_Inr [of E st _ layer n n']
    by (cases a) (auto simp: apply_action_def transfer_apply_def authorization_apply_def file_apply_def unit_apply_def
        content_apply_def role_apply_def storage_update_apply_def storage_update_doc_def insert_file_def insert_unit_def
        credit_Inr debit_Inr result_simps Let_def split: prod.splits if_splits option.splits)
  then show ?thesis using sponsorship_fresh_cong fresh(1) by metis
qed

section \<open>Fees and whole transactions\<close>

lemma fee_apply_spec:
  assumes n: "node_money_ok (layer_of key) n" and can: "fee_can_apply n st = Inr True"
  obtains n' where "fee_apply st key n = Inr n'" "n' = n\<lparr>m_state := m_state n'\<rparr>"
    "node_money_ok (layer_of key) n'" "total_supply (m_state n') = total_supply (m_state n)"
    "fee_revert st key n' = Inr n"
proof (cases "key = []")
  case True
  then show ?thesis using n by (intro that [of n]) (simp_all add: fee_apply_def fee_revert_def)
next
  case False
  obtain address where ad: "fee_owner st = Inr address" and cov: "covers address (fee_of st) n = Inr True"
    using can by (auto simp: fee_can_apply_def result_simps)
  have money: "node_money_ok Layer_chain n" using n False by (simp add: layer_of_def)
  have a: "coin_ok (fee_of st)" "coin_val (fee_of st) \<le> coin_val (get_balance address Layer_pool (m_state n))"
    using cov covers_iff [OF money] by auto
  obtain n' where m: "move_money key address (fee_of st) Layer_chain n = Inr n'" "n' = n\<lparr>m_state := m_state n'\<rparr>"
    "node_money_ok Layer_chain n'" "total_supply (m_state n') = total_supply (m_state n)"
    "bind_res (debit key (fee_of st) Layer_chain n') (credit address (fee_of st) Layer_chain) = Inr n"
    using move_money_spec [OF money a] by metis
  show ?thesis
    by (rule that [of n']) (use m ad False in \<open>simp_all add: fee_apply_def fee_revert_def move_money_def layer_of_def\<close>)
qed

lemma apply_transaction_Inr:
  "apply_transaction E st key n = Inr (True, n') \<longleftrightarrow>
     (\<exists>n1. action_can_apply E st (tx_action (transaction_details st)) (layer_of key) n = Inr True
        \<and> action_apply E st (tx_action (transaction_details st)) (layer_of key) n = Inr n1
        \<and> fee_can_apply n1 st = Inr True \<and> fee_apply st key n1 = Inr n')"
  by (auto simp: apply_transaction_def Let_def result_simps split: if_splits)

lemma revert_apply_transaction:
  assumes wf: "node_wf (layer_of key) n" and ok: "tx_ok E st (layer_of key) n"
    and ap: "apply_transaction E st key n = Inr (True, n')"
  shows "revert_transaction E st key n' = Inr n \<and> node_wf (layer_of key) n' \<and> pconfig n' = pconfig n"
proof -
  let ?a = "tx_action (transaction_details st)"
  obtain n1 where n1: "\<not> coin_only n ?a" "apply_action E st ?a (layer_of key) n = Inr n1"
    "fee_can_apply n1 st = Inr True" "fee_apply st key n1 = Inr n'"
    using ap by (auto simp: apply_transaction_Inr action_apply_def result_simps)
  note s = apply_action_spec [OF wf ok n1(2)]
  have money: "node_money_ok (layer_of key) n1" using s by (simp add: node_wf_def)
  show ?thesis
  proof (rule fee_apply_spec [OF money n1(3)])
    fix m
    assume m: "fee_apply st key n1 = Inr m" "m = n1\<lparr>m_state := m_state m\<rparr>" "node_money_ok (layer_of key) m"
      "fee_revert st key m = Inr n1"
    have eq: "n' = m" using m(1) n1(4) by simp
    have keep: "m_authority_manager m = m_authority_manager n1" "m_documents m = m_documents n1" "pconfig m = pconfig n1"
      by (subst m(2), simp)+
    have "\<not> coin_only n1 ?a" using n1(1) s by (simp add: coin_only_def)
    then have "revert_transaction E st key m = Inr n"
      using m(4) s by (simp add: revert_transaction_def action_revert_def)
    then show ?thesis using eq keep s m(3) by (simp add: node_wf_def)
  qed
qed

lemma apply_transaction_refused:
  assumes wf: "node_wf (layer_of key) n" and ok: "tx_ok E st (layer_of key) n"
    and ap: "apply_transaction E st key n = Inr (False, n')"
  shows "n' = n"
proof -
  let ?a = "tx_action (transaction_details st)"
  show ?thesis
  proof (cases "action_can_apply E st ?a (layer_of key) n = Inr True")
    case True
    then obtain n1 where n1: "apply_action E st ?a (layer_of key) n = Inr n1"
      "revert_action E st ?a (layer_of key) n1 = Inr n'"
      using ap by (auto simp: apply_transaction_def Let_def result_simps action_apply_def action_revert_def split: if_splits)
    then show ?thesis using apply_action_spec [OF wf ok n1(1)] by simp
  next
    case False
    then show ?thesis using ap by (auto simp: apply_transaction_def Let_def result_simps split: if_splits)
  qed
qed

end
