(* ===== verification/Rewards.thy ===== *)
theory Rewards
  imports Transaction_Handler Consensus
begin

text \<open>
  communication\_p2p.cpp: what a block pays. Service statistics of channels and storages are
  cross checked and turned into shares; the emission of the year and the sponsors' money are
  distributed by these shares; what nobody earned goes to the miner and what was not used goes
  back to the sponsors.
\<close>

section \<open>Cross checking the statistics\<close>

text \<open>\<open>m[k]\<close> of a \<open>std::map\<close>, with the default value for a missing key.\<close>

definition omap_at :: "'v \<Rightarrow> 'k::linorder \<Rightarrow> ('v \<Rightarrow> 'v) \<Rightarrow> ('k, 'v) omap \<Rightarrow> ('k, 'v) omap" where
  "omap_at d k f m = omap_alter k (\<lambda>o'. f (case o' of None \<Rightarrow> d | Some v \<Rightarrow> v)) m"

text \<open>\<open>std::multimap::insert\<close>: behind the entries with the same key.\<close>

fun multimap_insert :: "'k::linorder \<Rightarrow> 'v \<Rightarrow> ('k \<times> 'v) list \<Rightarrow> ('k \<times> 'v) list" where
  "multimap_insert k v [] = [(k, v)]"
| "multimap_insert k v ((k', v') # m) =
     (if k < k' then (k, v) # (k', v') # m else (k', v') # multimap_insert k v m)"

type_synonym statistics_map = "(string, service_statistics) omap"

text \<open>Shares: a numerator and a denominator per receiver.\<close>

type_synonym shares = "(string \<times> u64 \<times> u64) list"

type_synonym view_counts = "(string, (string, u64) omap) omap"

definition statistics_entries :: "statistics_map \<Rightarrow> (string \<times> statistics_file \<times> statistics_count) list" where
  "statistics_entries m =
     concat (map (\<lambda>(server, s). concat (map (\<lambda>f. map (\<lambda>c. (server, f, c)) (sf_count_items f)) (ss_file_items s))) m)"

definition check_counts :: "string \<Rightarrow> (string \<times> statistics_file \<times> statistics_count) list \<Rightarrow> 'a res \<Rightarrow> 'a res" where
  "check_counts text entries k = throw_if (\<exists>(_, _, c) \<in> set entries. sc_count c = 0) (Logic_error text) k"

text \<open>The views a channel reports for a file and a storage, summed over its entries.\<close>

definition channel_statistics ::
  "(string \<times> statistics_file \<times> statistics_count) list \<Rightarrow> string \<Rightarrow> string \<Rightarrow> string \<Rightarrow> u64" where
  "channel_statistics entries channel file_uri storage =
     sum_list (map (\<lambda>(_, _, c). sc_count c)
       (filter (\<lambda>(ch, f, c). ch = channel \<and> sf_file_uri f = file_uri \<and> sc_peer_address c = storage) entries))"

text \<open>Some entry of the storage agrees with the channel's sum.\<close>

definition cross_verified ::
  "(string \<times> statistics_file \<times> statistics_count) list \<Rightarrow> (string \<times> statistics_file \<times> statistics_count) list
     \<Rightarrow> string \<Rightarrow> string \<Rightarrow> string \<Rightarrow> bool" where
  "cross_verified channel_entries storage_entries channel file_uri storage \<longleftrightarrow>
     (\<exists>(st, f, c) \<in> set storage_entries. st = storage \<and> sc_peer_address c = channel \<and> sf_file_uri f = file_uri
        \<and> 0 < channel_statistics channel_entries channel file_uri storage
        \<and> \<not> stat_mismatch (channel_statistics channel_entries channel file_uri storage) (sc_count c))"

type_synonym content_views = "(u64, (string, (string, u64) omap) omap) omap"

type_synonym view_groups =
  "(string, u64) omap \<times> (string, (string, u64) omap) omap \<times> (string, (string, content_views) omap) omap"

text \<open>One step of the loop that groups the verified views by storage, by unit and file, and by
  serving channel, owner, content, unit and file.\<close>

definition group_entry ::
  "documents \<Rightarrow> (string \<Rightarrow> string \<Rightarrow> string \<Rightarrow> bool) \<Rightarrow> string \<times> statistics_file \<times> statistics_count
     \<Rightarrow> view_groups \<Rightarrow> view_groups res" where
  "group_entry d verified entry groups =
     (case entry of (channel, f, c) \<Rightarrow> case groups of (storage_group, author_group, content_group) \<Rightarrow>
        throw_if (sc_count c = 0) (Logic_error ''0 == view_count'')
        (if verified channel (sf_file_uri f) (sc_peer_address c)
         then bind_res (get_unit (sf_unit_uri f) d) (\<lambda>u.
                Inr (omap_at 0 (sc_peer_address c) (\<lambda>v. v + sc_count c) storage_group,
                     omap_at [] (sf_unit_uri f) (omap_at 0 (sf_file_uri f) (\<lambda>v. v + sc_count c)) author_group,
                     omap_at [] channel (omap_at [] (cu_channel_address u) (omap_at [] (cu_content_id u)
                       (omap_at [] (sf_unit_uri f) (omap_at 0 (sf_file_uri f) (\<lambda>v. v + sc_count c))))) content_group))
         else Inr (storage_group, author_group, content_group)))"

definition scale_shares :: "u64 \<Rightarrow> shares \<Rightarrow> shares" where
  "scale_shares tot m = map (\<lambda>(k, a, b). (k, a, b * tot)) m"

definition storage_shares :: "(string, u64) omap \<Rightarrow> shares" where
  "storage_shares storage_group =
     scale_shares (sum_list (map snd storage_group))
       (fold (\<lambda>(k, v). multimap_insert k (v, 1)) storage_group [])"

text \<open>A unit counts with the average over its files, which is shared between the authors.\<close>

definition author_step ::
  "documents \<Rightarrow> string \<times> (string, u64) omap \<Rightarrow> u64 \<times> shares \<Rightarrow> (u64 \<times> shares) res" where
  "author_step d unit_views acc =
     (case acc of (total_units, m) \<Rightarrow>
        let per_file = snd unit_views; file_count = (of_nat (length per_file) :: u64)
        in throw_if (file_count = 0) (Logic_error ''0 == file_count'')
           (let tot = sum_list (map snd per_file) div file_count
            in throw_if (tot = 0) (Logic_error ''0 == total'')
               (bind_res (fold_res (\<lambda>(file_uri, _) m. bind_res (get_file file_uri d) (\<lambda>f.
                            Inr (fold (\<lambda>author. multimap_insert author
                                   (tot, file_count * of_nat (length (fl_author_addresses f)))) (fl_author_addresses f) m)))
                          per_file m) (\<lambda>m'. Inr (total_units + tot, m')))))"

definition author_shares :: "documents \<Rightarrow> (string, (string, u64) omap) omap \<Rightarrow> shares res" where
  "author_shares d author_group =
     bind_res (fold_res (author_step d) author_group (0, [])) (\<lambda>(tot, m). Inr (scale_shares tot m))"

definition count_views :: "content_views \<Rightarrow> string \<Rightarrow> view_counts \<Rightarrow> view_counts" where
  "count_views items serving m =
     fold (\<lambda>(_, units) m. fold (\<lambda>(unit_uri, per_file) m.
        omap_at [] unit_uri (omap_at 0 serving (\<lambda>v. fold (\<lambda>(_, n) v. max v n) per_file v)) m) units m) items m"

definition channel_step ::
  "(content_views \<Rightarrow> u64) \<Rightarrow> string \<Rightarrow> string \<times> content_views \<Rightarrow> u64 \<times> shares \<times> view_counts \<Rightarrow> u64 \<times> shares \<times> view_counts" where
  "channel_step count_of serving owner_views acc =
     (case acc of (tot, m, views) \<Rightarrow>
        let owner = fst owner_views; count = count_of (snd owner_views);
            m' = (if serving = owner then multimap_insert serving (2 * count, 2) m
                  else multimap_insert serving (count, 2) (multimap_insert owner (count, 2) m))
        in (tot + count, m', count_views (snd owner_views) serving views))"

definition channel_shares ::
  "(content_views \<Rightarrow> u64) \<Rightarrow> (string, (string, content_views) omap) omap \<Rightarrow> shares \<times> view_counts" where
  "channel_shares count_of content_group =
     (let (tot, m, views) = fold (\<lambda>(serving, owners) acc. fold (channel_step count_of serving) owners acc)
                                content_group (0, [], [])
      in (scale_shares tot m, views))"

text \<open>\<open>validate\_statistics\<close>: shares of authors, channels and storages, and the view counts.\<close>

definition validate_statistics ::
  "ext \<Rightarrow> statistics_map \<Rightarrow> statistics_map \<Rightarrow> u64 \<Rightarrow> node \<Rightarrow> (shares \<times> shares \<times> shares \<times> view_counts) res" where
  "validate_statistics E channel_provided storage_provided block_no n =
     (let ce = statistics_entries channel_provided; se = statistics_entries storage_provided;
          file_uris = x_set_order E (map (\<lambda>(_, f, _). sf_file_uri f) ce);
          unit_uris = x_set_order E (map (\<lambda>(_, f, _). sf_unit_uri f) ce)
      in check_counts ''count_item.count == 0'' ce
         (check_counts ''count_item.count == 0'' se
         (throw_if (\<not> fst (files_exist file_uris (m_documents n))) (Logic_error ''false == check_file_uris.first'')
         (throw_if (\<not> fst (units_exist unit_uris (m_documents n))) (Logic_error ''false == check_unit_uris.first'')
         (bind_res (fold_res (group_entry (m_documents n) (cross_verified ce se)) ce ([], [], [])) (\<lambda>(sg, ag, cg).
          bind_res (author_shares (m_documents n) ag) (\<lambda>authors.
            let (channels, views) = channel_shares
                  (\<lambda>items. pcounts_per_channel_views n items block_no (cf_testnet (pconfig n))) cg
            in Inr (authors, channels, storage_shares sg, views))))))))"

section \<open>Distributing an amount\<close>

text \<open>One share: the amount is taken from the rest and added to the receiver.\<close>

definition distribute_step ::
  "coin \<Rightarrow> string \<times> u64 \<times> u64 \<Rightarrow> coin \<times> (string, coin) omap \<Rightarrow> (coin \<times> (string, coin) omap) res" where
  "distribute_step total_amount item acc =
     (case item of (receiver, num, den) \<Rightarrow> case acc of (rest, m) \<Rightarrow>
        bind_res (coin_div (coin_times total_amount num) den) (\<lambda>amount.
        bind_res (coin_minus rest amount) (\<lambda>rest'.
          Inr (rest', omap_at coin_zero receiver (\<lambda>c. coin_plus c amount) m))))"

definition add_to_last :: "coin \<Rightarrow> reward list \<Rightarrow> reward list" where
  "add_to_last c rs = butlast rs @ [(last rs)\<lparr>rw_amount := coin_plus c (rw_amount (last rs))\<rparr>]"

definition distribute_rewards ::
  "reward list \<Rightarrow> shares \<Rightarrow> coin \<Rightarrow> reward_type \<Rightarrow> (reward list \<times> coin) res" where
  "distribute_rewards rs stat_distribution total_amount ty =
     (if stat_distribution = [] \<or> coin_empty total_amount then Inr (rs, total_amount)
      else bind_res (fold_res (distribute_step total_amount) stat_distribution (total_amount, [])) (\<lambda>(rest, m).
             let rs' = rs @ map (\<lambda>(receiver, amount). \<lparr> rw_to = receiver, rw_amount = amount, rw_type = ty \<rparr>) m
             in Inr (if coin_zero < rest then add_to_last rest rs' else rs', coin_zero)))"

section \<open>The rewards of a block\<close>

definition percent_of :: "coin \<Rightarrow> u64 \<Rightarrow> coin res" where
  "percent_of c p = coin_div (coin_times c p) 100"

text \<open>The split of the emission and of the sponsored amount: three percentages and the rest.\<close>

definition split_emission :: "coin \<Rightarrow> (coin \<times> coin \<times> coin \<times> coin) res" where
  "split_emission e =
     bind_res (percent_of e 10) (\<lambda>miner.
     bind_res (percent_of e 40) (\<lambda>author.
     bind_res (percent_of e 30) (\<lambda>channel.
     bind_res (coin_minus e miner) (\<lambda>r1.
     bind_res (coin_minus r1 author) (\<lambda>r2.
     bind_res (coin_minus r2 channel) (\<lambda>storage. Inr (miner, author, channel, storage)))))))"

definition split_sponsored :: "coin \<Rightarrow> (coin \<times> coin \<times> coin) res" where
  "split_sponsored s =
     bind_res (percent_of s 50) (\<lambda>author.
     bind_res (percent_of s 30) (\<lambda>channel.
     bind_res (coin_minus s author) (\<lambda>r1.
     bind_res (coin_minus r1 channel) (\<lambda>storage. Inr (author, channel, storage)))))"

text \<open>The second half of \<open>grant\_rewards\<close>: everything after the amounts are known.\<close>

definition pay_rewards ::
  "coin \<Rightarrow> coin \<Rightarrow> shares \<times> shares \<times> shares \<Rightarrow> (string, coin) omap \<Rightarrow> string \<Rightarrow> reward list res" where
  "pay_rewards emission sponsored share_lists returns miner_address =
     (case share_lists of (authors, channels, storages) \<Rightarrow>
        bind_res (split_emission emission) (\<lambda>(miner, author_e, channel_e, storage_e).
        bind_res (split_sponsored sponsored) (\<lambda>(author_s, channel_s, storage_s).
        bind_res (distribute_rewards [] authors (coin_plus author_e author_s) RT_author) (\<lambda>(rs1, back1).
        bind_res (distribute_rewards rs1 channels (coin_plus channel_e channel_s) RT_channel) (\<lambda>(rs2, back2).
        bind_res (distribute_rewards rs2 storages (coin_plus storage_e storage_s) RT_storage) (\<lambda>(rs3, back3).
          let miner' = coin_plus (coin_plus (coin_plus miner back1) back2) back3;
              rs4 = rs3 @ map (\<lambda>(sponsor, amount). \<lparr> rw_to = sponsor, rw_amount = amount, rw_type = RT_sponsored_return \<rparr>) returns
          in Inr (if coin_empty miner' then rs4
                  else rs4 @ [\<lparr> rw_to = miner_address, rw_amount = miner', rw_type = RT_miner \<rparr>])))))))"

text \<open>The first loop: the last statistics of each channel and storage, and the money of the
  sponsorships cancelled in this block.\<close>

definition collect_transaction ::
  "node \<Rightarrow> signed_transaction \<Rightarrow> statistics_map \<times> statistics_map \<times> (string, coin) omap
     \<Rightarrow> (statistics_map \<times> statistics_map \<times> (string, coin) omap) res" where
  "collect_transaction n st acc =
     (case acc of (channels, storages, returns) \<Rightarrow>
        case tx_action (transaction_details st) of
          ServiceStatistics s \<Rightarrow>
            (case get_role (ss_server_address s) (m_state n) of
               None \<Rightarrow> Inr acc
             | Some nt \<Rightarrow>
                 throw_if (nt \<noteq> NT_channel \<and> nt \<noteq> NT_storage)
                   (Logic_error ''node_type != NodeType::channel && node_type != NodeType::storage'')
                   (Inr (if nt = NT_channel then (omap_alter (ss_server_address s) (\<lambda>_. s) channels, storages, returns)
                         else (channels, omap_alter (ss_server_address s) (\<lambda>_. s) storages, returns))))
        | CancelSponsorContentUnit c \<Rightarrow>
            bind_res (expiration_entry_ref_by_hash (cs_transaction_hash c) (m_documents n)) (\<lambda>entry.
              throw_if (ih_manually_cancelled entry = coin_zero)
                (Logic_error ''expiry_entry.manually_cancelled == StorageTypes::Coin()'')
                (bind_res (coin_of (ih_manually_cancelled entry)) (\<lambda>a.
                  Inr (channels, storages, omap_at coin_zero (cs_sponsor_address c) (\<lambda>r. coin_plus r a) returns))))
        | _ \<Rightarrow> Inr acc)"

text \<open>The views of a unit use up its sponsorships.\<close>

definition use_sponsorships ::
  "blockchain \<Rightarrow> u64 \<Rightarrow> set_used_type \<Rightarrow> string \<Rightarrow> coin \<times> (string, coin) omap \<times> documents
     \<Rightarrow> (coin \<times> (string, coin) omap \<times> documents) res" where
  "use_sponsorships b block_no ty unit_uri acc =
     (case acc of (sponsored, applied, d) \<Rightarrow>
        bind_res (sponsored_content_unit_set_used b unit_uri block_no ty [] [] False d) (\<lambda>(parts, d').
        bind_res (fold_res (\<lambda>(hash, amount) (sponsored, applied).
             throw_if (map_of applied hash \<noteq> None) (Logic_error ''applied_sponsor_items.insert'')
               (Inr (coin_plus sponsored amount, omap_alter hash (\<lambda>_. amount) applied)))
           (concat (map snd parts)) (sponsored, applied)) (\<lambda>(sponsored', applied').
          Inr (sponsored', applied', d'))))"

text \<open>What expires in this block without having been viewed goes back to the sponsors.\<close>

definition return_expired ::
  "blockchain \<Rightarrow> u64 \<Rightarrow> set_used_type \<Rightarrow> view_counts \<Rightarrow> string \<times> string \<Rightarrow> (string, coin) omap \<times> documents
     \<Rightarrow> ((string, coin) omap \<times> documents) res" where
  "return_expired b block_no ty views expiring acc =
     (case expiring of (uri, hash) \<Rightarrow> case acc of (returns, d) \<Rightarrow>
        if map_of views uri \<noteq> None then Inr acc
        else bind_res (sponsored_content_unit_set_used b uri block_no ty hash [] False d) (\<lambda>(parts, d').
             bind_res (fold_res (\<lambda>(sponsor, m) returns.
                  bind_res (fold_res (\<lambda>(_, amount) r.
                      throw_if (amount = coin_zero) (Logic_error ''sponsored_reward_by_sponsor_by_txid.second == coin()'')
                        (Inr (coin_plus r amount))) m
                     (case map_of returns sponsor of None \<Rightarrow> coin_zero | Some r \<Rightarrow> r)) (\<lambda>r.
                    Inr (omap_alter sponsor (\<lambda>_. r) returns))) parts returns) (\<lambda>returns'.
               Inr (returns', d'))))"

text \<open>The array of yearly rewards is read before its bound is checked: past the end there is
  no defined result.\<close>

definition emission_of :: "node \<Rightarrow> u64 \<Rightarrow> coin res" where
  "emission_of n block_no =
     (let year = unat (block_no div 50000)
      in if year < length (m_block_reward_array n) then Inr (m_block_reward_array n ! year) else Inl Undefined_behaviour)"

record granted =
  gr_rewards :: "reward list"
  gr_views :: view_counts
  gr_applied :: "(string, coin) omap"

definition grant_rewards ::
  "ext \<Rightarrow> signed_transaction list \<Rightarrow> string \<Rightarrow> block_header \<Rightarrow> set_used_type \<Rightarrow> node \<Rightarrow> (granted \<times> node) res" where
  "grant_rewards E sts miner_address h ty n =
     bind_res (fold_res (collect_transaction n) sts ([], [], [])) (\<lambda>(channel_stats, storage_stats, returns).
     bind_res (validate_statistics E channel_stats storage_stats (block_number h) n) (\<lambda>(authors, channels, storages, views).
       throw_if (views \<noteq> [] \<and> (authors = [] \<or> channels = [] \<or> storages = []))
         (Logic_error ''wrong result from validate_statistics(...)'')
       (bind_res (fold_res (use_sponsorships (m_blockchain n) (block_number h) ty) (map fst views)
                    (coin_zero, [], m_documents n)) (\<lambda>(sponsored, applied, d1).
        bind_res (fold_res (return_expired (m_blockchain n) (block_number h) ty views)
                    (content_unit_uri_sponsor_expiring E (block_number h) d1) (returns, d1)) (\<lambda>(returns', d2).
        bind_res (emission_of n (block_number h)) (\<lambda>emission.
        bind_res (pay_rewards emission sponsored (authors, channels, storages) returns' miner_address) (\<lambda>rs.
          Inr (\<lparr> gr_rewards = rs, gr_views = views, gr_applied = applied \<rparr>, n\<lparr>m_documents := d2\<rparr>))))))))"

text \<open>True means the rewards of the block are wrong.\<close>

definition check_rewards ::
  "ext \<Rightarrow> block \<Rightarrow> string \<Rightarrow> set_used_type \<Rightarrow> node \<Rightarrow> (bool \<times> granted \<times> node) res" where
  "check_rewards E bl miner_address ty n =
     bind_res (grant_rewards E (signed_transactions bl) miner_address (header bl) ty n) (\<lambda>(g, n').
       Inr (gr_rewards g \<noteq> rewards bl, g, n'))"

section \<open>Counting the statistics of a block\<close>

definition count_statistics :: "time \<Rightarrow> time \<Rightarrow> node \<Rightarrow> signed_transaction list \<Rightarrow> nat \<times> nat" where
  "count_statistics tp_start tp_end n sts =
     fold (\<lambda>st (channels, storages).
        case tx_action (transaction_details st) of
          ServiceStatistics s \<Rightarrow>
            if ss_start_time_point s = tp_start \<and> ss_end_time_point s = tp_end
            then (case get_role (ss_server_address s) (m_state n) of
                    None \<Rightarrow> (channels, storages)
                  | Some nt \<Rightarrow> if nt = NT_channel then (Suc channels, storages) else (channels, Suc storages))
            else (channels, storages)
        | _ \<Rightarrow> (channels, storages)) sts (0, 0)"

definition check_service_statistics ::
  "block \<Rightarrow> signed_transaction list \<Rightarrow> signed_transaction list \<Rightarrow> node \<Rightarrow> bool" where
  "check_service_statistics bl pool_transactions reverted_transactions n =
     (let tp_end = time_signed (header bl) - int BLOCK_MINE_DELAY;
          tp_start = time_signed (header bl) - int (2 * BLOCK_MINE_DELAY);
          (block_channels, block_storages) = count_statistics tp_start tp_end n (signed_transactions bl);
          (known_channels, known_storages) = count_statistics tp_start tp_end n (pool_transactions @ reverted_transactions)
      in 2 * block_channels < known_channels \<or> 2 * block_storages < known_storages)"

section \<open>No coin is lost\<close>

definition reward_sum :: "reward list \<Rightarrow> nat" where
  "reward_sum rs = sum_list (map (\<lambda>r. coin_val (rw_amount r)) rs)"

definition omap_sum :: "('k, coin) omap \<Rightarrow> nat" where
  "omap_sum m = sum_list (map (coin_val \<circ> snd) m)"

lemma reward_sum_simps [simp]:
  "reward_sum [] = 0" "reward_sum (r # rs) = coin_val (rw_amount r) + reward_sum rs"
  "reward_sum (rs @ ts) = reward_sum rs + reward_sum ts"
  by (simp_all add: reward_sum_def)

lemma omap_sum_member: "map_of m k = Some c \<Longrightarrow> coin_val c \<le> omap_sum m"
  by (drule map_of_SomeD) (force simp: omap_sum_def intro!: member_le_sum_list)

definition coins_ok :: "('k, coin) omap \<Rightarrow> bool" where
  "coins_ok m \<longleftrightarrow> (\<forall>(k, c) \<in> set m. coin_ok c)"

lemma coins_ok_lookup: "coins_ok m \<Longrightarrow> map_of m k = Some c \<Longrightarrow> coin_ok c"
  by (drule map_of_SomeD) (auto simp: coins_ok_def)

text \<open>Adding to an entry adds to the sum.\<close>

lemma omap_add:
  fixes k :: "'k :: linorder" and m :: "('k, coin) omap"
  assumes m: "omap_ok m" "coins_ok m" and a: "coin_ok a" "omap_sum m + coin_val a < val_limit"
  defines "m' \<equiv> omap_at coin_zero k (\<lambda>c. coin_plus c a) m"
  shows "omap_ok m'" "coins_ok m'" "omap_sum m' = omap_sum m + coin_val a"
proof -
  let ?old = "case map_of m k of None \<Rightarrow> coin_zero | Some v \<Rightarrow> v"
  have old: "coin_ok ?old" "coin_val ?old \<le> omap_sum m"
    using coins_ok_lookup [OF m(2)] omap_sum_member [of m k] by (auto split: option.splits)
  have v: "coin_val (coin_plus ?old a) = coin_val ?old + coin_val a"
    using old a by (intro coin_plus_val) simp_all
  show "omap_ok m'" unfolding m'_def omap_at_def by (rule omap_ok_alter [OF m(1)])
  have "set m' \<subseteq> set m \<union> {(k, coin_plus ?old a)}"
  proof -
    have "omap_alter k (\<lambda>o'. coin_plus (case o' of None \<Rightarrow> coin_zero | Some v \<Rightarrow> v) a) n
        = omap_alter k (\<lambda>_. coin_plus (case map_of n k of None \<Rightarrow> coin_zero | Some v \<Rightarrow> v) a) n"
      if "omap_ok n" for n :: "('k, coin) omap"
      using that
    proof (induction n)
      case (Cons x n)
      obtain l w where x: "x = (l, w)" by force
      have "map_of n k = None" if "k < l"
        using Cons.prems that by (force simp: x omap_ok_def map_of_eq_None_iff)
      then show ?case using Cons by (auto simp: x omap_ok_def)
    qed simp
    then show ?thesis using m(1) omap_alter_set unfolding m'_def omap_at_def by metis
  qed
  then show "coins_ok m'" using m(2) coin_plus_ok [OF old(1) a(1)] unfolding coins_ok_def by blast
  have "omap_sum m' + coin_val ?old = omap_sum m + coin_val (coin_plus ?old a)"
    using sum_omap_alter [OF m(1), of coin_val k "\<lambda>o'. coin_plus (case o' of None \<Rightarrow> coin_zero | Some v \<Rightarrow> v) a"]
    by (auto simp: m'_def omap_at_def omap_sum_def split: option.splits)
  then show "omap_sum m' = omap_sum m + coin_val a" using v by simp
qed

lemma distribute_loop:
  assumes "fold_res (distribute_step amount) dist (amount, []) = Inr (rest, m)" "coin_ok amount"
  shows "coin_ok rest" "omap_ok m" "coins_ok m" "coin_val rest + omap_sum m = coin_val amount"
proof -
  let ?I = "\<lambda>(rest, m). coin_ok rest \<and> omap_ok m \<and> coins_ok m \<and> coin_val rest + omap_sum m = coin_val amount"
  have "?I (rest, m)"
  proof (rule fold_res_invariant [OF assms(1)])
    show "?I (amount, [])" using assms(2) by (simp add: coins_ok_def omap_sum_def)
  next
    fix item u v
    assume I: "?I u" and step: "distribute_step amount item u = Inr v"
    obtain receiver num den where item: "item = (receiver, num, den)" by (cases item) auto
    obtain r1 m1 where u: "u = (r1, m1)" by force
    obtain part r2 where part: "coin_div (coin_times amount num) den = Inr part" "coin_minus r1 part = Inr r2"
      and v: "v = (r2, omap_at coin_zero receiver (\<lambda>c. coin_plus c part) m1)"
      using step by (auto simp: distribute_step_def item u result_simps)
    have ok: "coin_ok part" by (rule coin_div_ok [OF coin_times_ok part(1)])
    have r2: "coin_ok r2" "coin_val r2 + coin_val part = coin_val r1"
      using I part(2) coin_minus_eq [of r1 part r2] ok by (auto simp: u)
    have "omap_sum m1 + coin_val part < val_limit"
      using I r2 coin_val_limit [OF assms(2)] by (simp add: u)
    then show "?I v" using I r2 omap_add [of m1 part receiver] ok by (simp add: u v)
  qed
  then show "coin_ok rest" "omap_ok m" "coins_ok m" "coin_val rest + omap_sum m = coin_val amount" by auto
qed

lemma distribute_nonempty:
  "fold_res (distribute_step amount) (x # xs) (r, m) = Inr (rest, m') \<Longrightarrow> m' \<noteq> []"
proof -
  have ne: "distribute_step amount y v = Inr w \<Longrightarrow> snd w \<noteq> []" for y v w
    by (auto simp: distribute_step_def omap_at_def result_simps split: prod.splits)
  assume "fold_res (distribute_step amount) (x # xs) (r, m) = Inr (rest, m')"
  then obtain u where u: "distribute_step amount x (r, m) = Inr u" "fold_res (distribute_step amount) xs u = Inr (rest, m')"
    by (auto simp: result_simps)
  have "snd (rest, m') \<noteq> []"
    by (rule fold_res_invariant [OF u(2), where I = "\<lambda>w. snd w \<noteq> []"]) (use ne u(1) in blast)+
  then show ?thesis by simp
qed

text \<open>Every amount is paid in full or handed back, whatever the shares are and wherever an
  intermediate product wraps.\<close>

lemma distribute_conserves:
  assumes "distribute_rewards rs dist amount ty = Inr (rs', handed_back)" "coin_ok amount"
  obtains new where "rs' = rs @ new" "reward_sum new + coin_val handed_back = coin_val amount" "coin_ok handed_back"
    "\<forall>r \<in> set new. rw_type r = ty"
proof (cases "dist = [] \<or> coin_empty amount")
  case True
  then show ?thesis using assms by (intro that [of "[]"]) (auto simp: distribute_rewards_def)
next
  case False
  let ?new = "\<lambda>m. map (\<lambda>(receiver, c). \<lparr> rw_to = receiver, rw_amount = c, rw_type = ty \<rparr>) m"
  obtain rest m where loop: "fold_res (distribute_step amount) dist (amount, []) = Inr (rest, m)"
    and rs': "rs' = (if coin_zero < rest then add_to_last rest (rs @ ?new m) else rs @ ?new m)"
    and back0: "handed_back = coin_zero"
    using assms(1) False by (auto simp: distribute_rewards_def Let_def result_simps)
  note l = distribute_loop [OF loop assms(2)]
  have sum: "reward_sum (?new n) = omap_sum n" for n
    by (simp add: reward_sum_def omap_sum_def comp_def case_prod_unfold)
  show ?thesis
  proof (cases "coin_zero < rest")
    case False
    then have "coin_val rest = 0" using l(1) coin_less_val [of coin_zero rest] by simp
    then show ?thesis using False rs' back0 l(4) sum
      by (intro that [of "?new m"]) auto
  next
    case True
    obtain x xs where "dist = x # xs" using False by (cases dist) auto
    then have "m \<noteq> []" using distribute_nonempty loop by blast
    then obtain n receiver c where m: "m = n @ [(receiver, c)]" by (metis append_butlast_last_id prod.collapse)
    have c: "coin_ok c" "omap_sum m = omap_sum n + coin_val c"
      using l(3) by (simp_all add: m coins_ok_def omap_sum_def)
    have "coin_val rest + coin_val c < val_limit"
      using l(4) c(2) coin_val_limit [OF assms(2)] by linarith
    then have v: "coin_val (coin_plus rest c) = coin_val rest + coin_val c"
      using coin_plus_val l(1) c(1) by blast
    have "rs' = rs @ (?new n @ [\<lparr> rw_to = receiver, rw_amount = coin_plus rest c, rw_type = ty \<rparr>])"
      using rs' True by (simp add: m add_to_last_def butlast_append)
    then show ?thesis using l(4) c(2) v back0 sum [of n]
      by (intro that [of "?new n @ [\<lparr> rw_to = receiver, rw_amount = coin_plus rest c, rw_type = ty \<rparr>]"]) auto
  qed
qed

lemma percent_of_ok: "percent_of c p = Inr d \<Longrightarrow> coin_ok d"
  unfolding percent_of_def by (rule coin_div_ok [OF coin_times_ok])

lemma coin_minus_ok:
  "coin_minus a b = Inr d \<Longrightarrow> coin_ok a \<Longrightarrow> coin_ok b \<Longrightarrow> coin_ok d \<and> coin_val d + coin_val b = coin_val a"
  using coin_minus_eq [of a b d] by auto

lemma split_emission_sum:
  assumes "split_emission e = Inr (m, a, c, s)" "coin_ok e"
  shows "coin_ok m \<and> coin_ok a \<and> coin_ok c \<and> coin_ok s
    \<and> coin_val m + coin_val a + coin_val c + coin_val s = coin_val e"
proof -
  obtain r1 r2 where p: "percent_of e 10 = Inr m" "percent_of e 40 = Inr a" "percent_of e 30 = Inr c"
    "coin_minus e m = Inr r1" "coin_minus r1 a = Inr r2" "coin_minus r2 c = Inr s"
    using assms(1) by (auto simp: split_emission_def result_simps)
  then show ?thesis
    using coin_minus_ok [OF p(4) assms(2) percent_of_ok [OF p(1)]]
      coin_minus_ok [OF p(5) _ percent_of_ok [OF p(2)]] coin_minus_ok [OF p(6) _ percent_of_ok [OF p(3)]]
      percent_of_ok [OF p(1)] percent_of_ok [OF p(2)] percent_of_ok [OF p(3)] by simp
qed

lemma split_sponsored_sum:
  assumes "split_sponsored e = Inr (a, c, s)" "coin_ok e"
  shows "coin_ok a \<and> coin_ok c \<and> coin_ok s \<and> coin_val a + coin_val c + coin_val s = coin_val e"
proof -
  obtain r1 where p: "percent_of e 50 = Inr a" "percent_of e 30 = Inr c"
    "coin_minus e a = Inr r1" "coin_minus r1 c = Inr s"
    using assms(1) by (auto simp: split_sponsored_def result_simps)
  then show ?thesis
    using coin_minus_ok [OF p(3) assms(2) percent_of_ok [OF p(1)]]
      coin_minus_ok [OF p(4) _ percent_of_ok [OF p(2)]] percent_of_ok [OF p(1)] percent_of_ok [OF p(2)] by simp
qed

lemma pay_rewards_conserves:
  assumes pay: "pay_rewards emission sponsored sh returns miner = Inr rs"
    and ok: "coin_ok emission" "coin_ok sponsored" "coin_val emission + coin_val sponsored < val_limit"
  shows "reward_sum rs = coin_val emission + coin_val sponsored + omap_sum returns"
proof -
  obtain authors channels storages where sh: "sh = (authors, channels, storages)" by (cases sh) auto
  obtain m ae ce se as' cs ss rs1 b1 rs2 b2 rs3 b3 where
    e: "split_emission emission = Inr (m, ae, ce, se)" and s: "split_sponsored sponsored = Inr (as', cs, ss)" and
    d1: "distribute_rewards [] authors (coin_plus ae as') RT_author = Inr (rs1, b1)" and
    d2: "distribute_rewards rs1 channels (coin_plus ce cs) RT_channel = Inr (rs2, b2)" and
    d3: "distribute_rewards rs2 storages (coin_plus se ss) RT_storage = Inr (rs3, b3)" and
    rs: "rs = (let miner' = coin_plus (coin_plus (coin_plus m b1) b2) b3;
              rs4 = rs3 @ map (\<lambda>(sponsor, amount). \<lparr> rw_to = sponsor, rw_amount = amount, rw_type = RT_sponsored_return \<rparr>) returns
          in if coin_empty miner' then rs4
             else rs4 @ [\<lparr> rw_to = miner, rw_amount = miner', rw_type = RT_miner \<rparr>])"
    using pay by (auto simp: pay_rewards_def sh Let_def result_simps)
  note es = split_emission_sum [OF e ok(1)] and sp = split_sponsored_sum [OF s ok(2)]
  have p: "coin_ok (coin_plus ae as')" "coin_val (coin_plus ae as') = coin_val ae + coin_val as'"
    "coin_ok (coin_plus ce cs)" "coin_val (coin_plus ce cs) = coin_val ce + coin_val cs"
    "coin_ok (coin_plus se ss)" "coin_val (coin_plus se ss) = coin_val se + coin_val ss"
    using es sp ok(3) by (auto intro!: coin_plus_ok coin_plus_val)
  obtain n1 where n1: "rs1 = n1" "reward_sum n1 + coin_val b1 = coin_val ae + coin_val as'" "coin_ok b1"
    using distribute_conserves [OF d1 p(1)] p(2) by (metis append_Nil)
  obtain n2 where n2: "rs2 = rs1 @ n2" "reward_sum n2 + coin_val b2 = coin_val ce + coin_val cs" "coin_ok b2"
    using distribute_conserves [OF d2 p(3)] p(4) by metis
  obtain n3 where n3: "rs3 = rs2 @ n3" "reward_sum n3 + coin_val b3 = coin_val se + coin_val ss" "coin_ok b3"
    using distribute_conserves [OF d3 p(5)] p(6) by metis
  have q1: "coin_ok (coin_plus m b1)" "coin_val (coin_plus m b1) = coin_val m + coin_val b1"
    using es sp ok(3) n1 by (auto intro!: coin_plus_ok coin_plus_val)
  have q2: "coin_ok (coin_plus (coin_plus m b1) b2)" "coin_val (coin_plus (coin_plus m b1) b2) = coin_val m + coin_val b1 + coin_val b2"
    using es sp ok(3) n1 n2 q1 by (auto intro!: coin_plus_ok simp: coin_plus_val)
  have q3: "coin_val (coin_plus (coin_plus (coin_plus m b1) b2) b3) = coin_val m + coin_val b1 + coin_val b2 + coin_val b3"
    using es sp ok(3) n1 n2 n3 q2 by (subst coin_plus_val) auto
  have ret: "reward_sum (map (\<lambda>(sponsor, amount). \<lparr> rw_to = sponsor, rw_amount = amount, rw_type = RT_sponsored_return \<rparr>) returns)
      = omap_sum returns"
    by (simp add: reward_sum_def omap_sum_def comp_def case_prod_unfold)
  show ?thesis
    using q3 ret n1(1,2) n2(1,2) n3(1,2) es sp by (auto simp: rs Let_def coin_empty_val)
qed

end
