(* ===== verification/Node_Properties.thy ===== *)
theory Node_Properties
  imports Store_Properties Rewards
begin

text \<open>
  What the actions, the transactions and the rewards of a node promise, each with its instance
  at the sample node.
\<close>

section \<open>Transactions\<close>

lemma sample_node_wf [simp]: "node_wf layer sample_node"
  by (simp add: node_wf_def)

lemma sample_transfer_ok [simp]: "tx_ok sample_ext (sample_tx (Transfer sample_transfer)) layer sample_node"
  by (simp add: tx_ok_def sample_tx_def sample_transfer_def)

text \<open>Evaluation of the sample node's transfer.\<close>

lemma sample_covers:
  "covers ''alice'' a sample_node = Inr True \<longleftrightarrow> coin_ok a \<and> coin_val a \<le> 10000000000"
  using covers_iff [OF sample_node_money]
  by (simp add: sample_state_def get_balance_pool coin_val_def)

lemma sample_can_transfer [simp]:
  "transfer_can_apply sample_ext (sample_tx a) sample_transfer layer sample_node = Inr True"
  using sample_covers by (simp add: transfer_can_apply_def and_then_def sample_transfer_def coin_ok_def
      fractions_in_whole_def coin_val_def)

text \<open>C5: a transfer that \<open>action_can_apply\<close> admits is executed exactly: the amount leaves
  the payer, arrives at the receiver, no other balance and no other part of the node changes,
  the supply stays the same, and reverting gives back the node as it was.\<close>

theorem transfer_exact:
  assumes "node_money_ok layer n" "transfer_can_apply E st t layer n = Inr True"
  shows "\<exists>n'. transfer_apply E st t layer n = Inr n' \<and> n' = n\<lparr>m_state := m_state n'\<rparr>
    \<and> (\<forall>k. coin_val (get_balance k Layer_pool (m_state n')) + (if k = tf_from t then coin_val (tf_amount t) else 0)
         = coin_val (get_balance k Layer_pool (m_state n)) + (if k = tf_to t then coin_val (tf_amount t) else 0))
    \<and> total_supply (m_state n') = total_supply (m_state n) \<and> node_money_ok layer n'
    \<and> transfer_revert E st t layer n' = Inr n"
  using transfer_apply_spec [OF assms] by metis

theorem transfer_exact_witness:
  "\<exists>n'. transfer_apply sample_ext (sample_tx (Transfer sample_transfer)) sample_transfer Layer_chain sample_node = Inr n'
    \<and> coin_val (get_balance ''bob'' Layer_pool (m_state n')) = 4610000000
    \<and> transfer_revert sample_ext (sample_tx (Transfer sample_transfer)) sample_transfer Layer_chain n' = Inr sample_node"
proof -
  obtain n' where n': "transfer_apply sample_ext (sample_tx (Transfer sample_transfer)) sample_transfer Layer_chain sample_node = Inr n'"
    "transfer_revert sample_ext (sample_tx (Transfer sample_transfer)) sample_transfer Layer_chain n' = Inr sample_node"
    "\<And>k. coin_val (get_balance k Layer_pool (m_state n')) + (if k = tf_from sample_transfer then coin_val (tf_amount sample_transfer) else 0)
         = coin_val (get_balance k Layer_pool (m_state sample_node)) + (if k = tf_to sample_transfer then coin_val (tf_amount sample_transfer) else 0)"
    using transfer_exact [of Layer_chain sample_node sample_ext "sample_tx (Transfer sample_transfer)" sample_transfer] by auto
  have "coin_val (get_balance ''bob'' Layer_pool (m_state n')) = 4610000000"
    using n'(3) [of "''bob''"] by (simp add: sample_transfer_def sample_state_def get_balance_pool coin_val_def)
  then show ?thesis using n' by blast
qed

text \<open>C4: applying a transaction to the ledger, fee included, and reverting it gives back the node exactly as
  it was, in the pool and in a block, and the invariant of the ledger holds in between. It holds for every
  transaction with \<open>tx_ok\<close>: transfers between different accounts, files and units with a uri and the signatures of
  their authors, new sponsorships, and all contents, roles, storage updates, statistics and authorisation updates;
  not for cancellations, nor in a block for the content of a storage node without a manager, whose
  files stay queued.\<close>

theorem transaction_undone:
  assumes "node_wf (layer_of key) n" "tx_ok E st (layer_of key) n"
    and "apply_transaction E st key n = Inr (True, n')"
  shows "revert_transaction E st key n' = Inr n \<and> node_wf (layer_of key) n' \<and> pconfig n' = pconfig n"
  using assms by (rule revert_apply_transaction)

text \<open>A transfer that is signed and covered, its fee included, always applies.\<close>

lemma covered_transfer_applies_aux:
  assumes n: "node_money_ok (layer_of key) n" and act: "tx_action (transaction_details st) = Transfer t"
    and sig: "signer_ok E st (tf_from t) K_Transfer n = Inr True" and t: "tf_from t \<noteq> tf_to t"
    and ok: "coin_ok (tf_amount t)" "coin_ok (fee_of st)"
    and cov: "coin_val (tf_amount t) + coin_val (fee_of st) \<le> coin_val (get_balance (tf_from t) Layer_pool (m_state n))"
  shows "\<exists>n'. apply_transaction E st key n = Inr (True, n') \<and> n' = n\<lparr>m_state := m_state n'\<rparr>
    \<and> node_money_ok (layer_of key) n' \<and> total_supply (m_state n') = total_supply (m_state n)"
proof -
  have can: "transfer_can_apply E st t (layer_of key) n = Inr True"
    using sig ok cov by (simp add: transfer_can_apply_def and_then_def covers_iff [OF n])
  obtain m where m: "transfer_apply E st t (layer_of key) n = Inr m" "m = n\<lparr>m_state := m_state m\<rparr>"
    "node_money_ok (layer_of key) m" "coin_val (fee_of st) \<le> coin_val (get_balance (tf_from t) Layer_pool (m_state m))"
    "total_supply (m_state m) = total_supply (m_state n)"
  proof (rule transfer_apply_spec [OF n can])
    fix m
    assume a: "transfer_apply E st t (layer_of key) n = Inr m" "m = n\<lparr>m_state := m_state m\<rparr>" "node_money_ok (layer_of key) m"
      "\<And>k. coin_val (get_balance k Layer_pool (m_state m)) + (if k = tf_from t then coin_val (tf_amount t) else 0)
         = coin_val (get_balance k Layer_pool (m_state n)) + (if k = tf_to t then coin_val (tf_amount t) else 0)"
      "total_supply (m_state m) = total_supply (m_state n)"
    have "coin_val (fee_of st) \<le> coin_val (get_balance (tf_from t) Layer_pool (m_state m))"
      using a(4) [of "tf_from t"] t cov by simp
    then show ?thesis using that a by blast
  qed
  have fee: "fee_can_apply m st = Inr True"
    using m(4) ok covers_iff [OF m(3)]
    by (simp add: fee_can_apply_def fee_owner_def action_owners_def act transfer_owners_def)
  have "action_can_apply E st (Transfer t) (layer_of key) n = Inr True"
    "action_apply E st (Transfer t) (layer_of key) n = Inr m"
    using can m(1) by (simp_all add: action_can_apply_def action_apply_def coin_only_def can_apply_action_def apply_action_def)
  note do = this
  show ?thesis
  proof (rule fee_apply_spec [OF m(3) fee])
    fix n'
    assume f: "fee_apply st key m = Inr n'" "n' = m\<lparr>m_state := m_state n'\<rparr>" "node_money_ok (layer_of key) n'"
      "total_supply (m_state n') = total_supply (m_state m)"
    have "n' = n\<lparr>m_state := m_state n'\<rparr>" by (subst f(2), subst m(2)) simp
    then show ?thesis using do fee f m(5) unfolding apply_transaction_Inr act by metis
  qed
qed

lemma sample_transfer_applies:
  assumes "node_money_ok (layer_of key) n" "signer_ok sample_ext (sample_tx (Transfer sample_transfer)) ''alice'' K_Transfer n = Inr True"
    and "get_balance ''alice'' Layer_pool (m_state n) = Coin 100 0"
  shows "\<exists>n'. apply_transaction sample_ext (sample_tx (Transfer sample_transfer)) key n = Inr (True, n') \<and> n' = n\<lparr>m_state := m_state n'\<rparr>
    \<and> node_money_ok (layer_of key) n' \<and> total_supply (m_state n') = total_supply (m_state n)"
  by (rule covered_transfer_applies_aux [where t = sample_transfer])
     (use assms in \<open>simp_all add: sample_transfer_def sample_tx_def coin_ok_def fractions_in_whole_def fee_of_def coin_val_def\<close>)

lemma sample_alice [simp]: "get_balance ''alice'' Layer_pool sample_state = Coin 100 0"
  by (simp add: sample_state_def get_balance_pool)

lemma sample_apply_transaction:
  "\<exists>n'. apply_transaction sample_ext (sample_tx (Transfer sample_transfer)) ''bob'' sample_node = Inr (True, n')"
  using sample_transfer_applies [of "''bob''" sample_node] by auto

theorem transaction_undone_witness:
  "\<exists>n'. apply_transaction sample_ext (sample_tx (Transfer sample_transfer)) ''bob'' sample_node = Inr (True, n')
    \<and> revert_transaction sample_ext (sample_tx (Transfer sample_transfer)) ''bob'' n' = Inr sample_node"
  using sample_apply_transaction transaction_undone [OF sample_node_wf sample_transfer_ok] by blast

text \<open>C20: a transfer between two accounts that is signed by an authority of the payer and covered
  together with its fee is always applied, in the pool and in a block; it changes balances only and keeps the supply.\<close>

theorem covered_transfer_applies:
  assumes "node_money_ok (layer_of key) n" "tx_action (transaction_details st) = Transfer t"
    and "signer_ok E st (tf_from t) K_Transfer n = Inr True" "tf_from t \<noteq> tf_to t"
    and "coin_ok (tf_amount t)" "coin_ok (fee_of st)"
    and "coin_val (tf_amount t) + coin_val (fee_of st) \<le> coin_val (get_balance (tf_from t) Layer_pool (m_state n))"
  shows "\<exists>n'. apply_transaction E st key n = Inr (True, n') \<and> n' = n\<lparr>m_state := m_state n'\<rparr>
    \<and> node_money_ok (layer_of key) n' \<and> total_supply (m_state n') = total_supply (m_state n)"
  using assms by (rule covered_transfer_applies_aux)

theorem covered_transfer_applies_witness:
  "\<exists>n'. apply_transaction sample_ext (sample_tx (Transfer sample_transfer)) ''bob'' sample_node = Inr (True, n')
    \<and> total_supply (m_state n') = 10550000000"
proof -
  have "\<exists>n'. apply_transaction sample_ext (sample_tx (Transfer sample_transfer)) ''bob'' sample_node = Inr (True, n')
    \<and> n' = sample_node\<lparr>m_state := m_state n'\<rparr>
    \<and> node_money_ok (layer_of ''bob'') n' \<and> total_supply (m_state n') = total_supply (m_state sample_node)"
    by (rule covered_transfer_applies [where t = sample_transfer])
       (use sample_signer [of "Transfer sample_transfer"] in \<open>simp_all add: sample_transfer_def sample_tx_def coin_ok_def
         fractions_in_whole_def fee_of_def coin_val_def\<close>)
  then show ?thesis using sample_supply by auto
qed

text \<open>C7: a transaction with \<open>tx_ok\<close>, so neither a cancellation nor, in a block, the content of a storage node
  without a manager, that is refused, because its action cannot be applied or because its fee is not covered once
  the action has been applied, leaves the node exactly as it was.\<close>

theorem refused_transaction_unchanged:
  assumes "node_wf (layer_of key) n" "tx_ok E st (layer_of key) n"
    and "apply_transaction E st key n = Inr (False, n')"
  shows "n' = n"
  using assms by (rule apply_transaction_refused)

text \<open>A transfer of all of alice's money, whose fee is then not covered.\<close>

definition broke_transfer :: transfer where
  "broke_transfer = sample_transfer\<lparr>tf_amount := Coin 100 0\<rparr>"

lemma broke_tx_ok: "tx_ok sample_ext (sample_tx (Transfer broke_transfer)) layer sample_node"
  by (simp add: tx_ok_def sample_tx_def broke_transfer_def sample_transfer_def)

lemma broke_refused:
  "apply_transaction sample_ext (sample_tx (Transfer broke_transfer)) ''bob'' sample_node = Inr (False, sample_node)"
proof -
  let ?st = "sample_tx (Transfer broke_transfer)"
  have can: "transfer_can_apply sample_ext ?st broke_transfer Layer_chain sample_node = Inr True"
    using sample_covers by (simp add: transfer_can_apply_def and_then_def broke_transfer_def sample_transfer_def
        coin_ok_def fractions_in_whole_def coin_val_def)
  show ?thesis
  proof (rule transfer_apply_spec [OF sample_node_money can])
    fix m
    assume m: "transfer_apply sample_ext ?st broke_transfer Layer_chain sample_node = Inr m"
      "m = sample_node\<lparr>m_state := m_state m\<rparr>" "node_money_ok Layer_chain m"
      "\<And>k. coin_val (get_balance k Layer_pool (m_state m)) + (if k = tf_from broke_transfer then coin_val (tf_amount broke_transfer) else 0)
         = coin_val (get_balance k Layer_pool (m_state sample_node)) + (if k = tf_to broke_transfer then coin_val (tf_amount broke_transfer) else 0)"
      "transfer_revert sample_ext ?st broke_transfer Layer_chain m = Inr sample_node"
    have "coin_val (get_balance ''alice'' Layer_pool (m_state m)) = 0"
      using m(4) [of "''alice''"]
      by (simp add: broke_transfer_def sample_transfer_def sample_state_def get_balance_pool coin_val_def)
    then have "covers ''alice'' (Coin 0 10000000) m \<noteq> Inr True"
      using covers_iff [OF m(3)] by (simp add: coin_val_def)
    moreover have "\<exists>b. covers ''alice'' (Coin 0 10000000) m = Inr b"
      using m(3) by (auto simp: covers_def node_money_ok_def money_ok_def layer_wf_def coin_ok_def
          fractions_in_whole_def coin_of_def coin_new_def balance_ok [unfolded coin_ok_def fractions_in_whole_def] not_le throw_if_def)
    ultimately have "covers ''alice'' (Coin 0 10000000) m = Inr False" by auto
    moreover have "cf_transfer_only (pconfig m) = False" by (subst m(2)) simp
    ultimately show ?thesis
      using m(1,5) can
      by (simp add: apply_transaction_def action_can_apply_def action_apply_def action_revert_def coin_only_def
          can_apply_action_def apply_action_def revert_action_def layer_of_def fee_can_apply_def fee_owner_def
          action_owners_def transfer_owners_def fee_of_def sample_tx_def broke_transfer_def sample_transfer_def)
  qed
qed

theorem refused_transaction_unchanged_witness:
  "\<exists>n'. apply_transaction sample_ext (sample_tx (Transfer broke_transfer)) ''bob'' sample_node = Inr (False, n')
    \<and> n' = sample_node"
  using broke_refused refused_transaction_unchanged [OF sample_node_wf broke_tx_ok broke_refused] by simp

text \<open>A fee that is covered moves from the first owner of the transaction to the miner
  without changing the supply, and comes back when it is reverted; in the pool, where there is
  no miner yet, nothing moves.\<close>

theorem fee_exact:
  assumes "node_money_ok (layer_of key) n" "fee_can_apply n st = Inr True"
  shows "\<exists>n'. fee_apply st key n = Inr n' \<and> fee_revert st key n' = Inr n
    \<and> total_supply (m_state n') = total_supply (m_state n) \<and> node_money_ok (layer_of key) n'
    \<and> (key = [] \<longrightarrow> n' = n)"
  using fee_apply_spec [OF assms] by (metis fee_apply_def sum.inject(2))

lemma sample_fee: "fee_can_apply sample_node (sample_tx (Transfer sample_transfer)) = Inr True"
  using sample_covers by (simp add: fee_can_apply_def fee_owner_def action_owners_def transfer_owners_def sample_tx_def
      sample_transfer_def fee_of_def coin_ok_def fractions_in_whole_def coin_val_def)

theorem fee_exact_witness:
  "\<exists>n'. fee_apply (sample_tx (Transfer sample_transfer)) ''bob'' sample_node = Inr n'
    \<and> fee_revert (sample_tx (Transfer sample_transfer)) ''bob'' n' = Inr sample_node"
  using fee_exact [OF sample_node_money sample_fee, of "''bob''"] by blast

text \<open>C15: the test before applying and applying agree: \<open>action_can_apply\<close> returns true exactly when
  \<open>action_apply\<close> succeeds on the same node, for every action but sponsorships and cancellations, which may throw
  after a good test, and for transfers between different accounts, on a node that is not restricted to
  coins or for an action it allows.\<close>

theorem can_apply_iff_applies:
  assumes "node_wf layer n" "\<not> coin_only n a"
    and "case a of Transfer t \<Rightarrow> tf_from t \<noteq> tf_to t | SponsorContentUnit _ \<Rightarrow> False
      | CancelSponsorContentUnit _ \<Rightarrow> False | _ \<Rightarrow> True"
  shows "action_can_apply E st a layer n = Inr True \<longleftrightarrow> (\<exists>n'. action_apply E st a layer n = Inr n')"
  using can_apply_action_iff [OF assms(1,3)] assms(2) by (simp add: action_can_apply_def action_apply_def)

theorem can_apply_iff_applies_witness:
  "\<exists>n'. action_apply sample_ext (sample_tx (Transfer sample_transfer)) (Transfer sample_transfer) Layer_pool sample_node = Inr n'"
  using can_apply_iff_applies [OF sample_node_wf, of "Transfer sample_transfer" sample_ext
      "sample_tx (Transfer sample_transfer)" Layer_pool]
  by (simp add: coin_only_def action_can_apply_def can_apply_action_def) (simp add: sample_transfer_def)

section \<open>Single actions\<close>

text \<open>C28: an authorisation update that applies changes the rights of one actor for one owner and
  of nobody else, to exactly what the update asks for; rights stay free of exceptions to full
  rights, the store stays in its normal form, and reverting restores the node.\<close>

theorem authorization_update_exact:
  assumes wf: "authority_wf (m_authority_manager n)" "no_exceptions (m_authority_manager n)"
    and ap: "authorization_apply E st a layer n = Inr n'"
  shows "(\<forall>owner actor i. check_authority owner actor i (m_authority_manager n') = Inr
        (if owner = au_owner a \<and> actor = au_actor a \<and> (au_action_ids a = [] \<or> i \<in> set (au_action_ids a))
         then au_update_type a = UT_store
         else default_full (record_of (m_authority_manager n) owner actor)
              \<noteq> (i \<in> action_ids (record_of (m_authority_manager n) owner actor))))
    \<and> authority_wf (m_authority_manager n') \<and> no_exceptions (m_authority_manager n')
    \<and> authorization_revert E st a layer n' = Inr n"
proof (rule authorization_apply_spec [OF wf(1) ap])
  fix r
  assume r: "updated_record a (record_of (m_authority_manager n) (au_owner a) (au_actor a)) = Inr r"
    and wf': "authority_wf (m_authority_manager n')"
    and rec: "\<And>b l. record_of (m_authority_manager n') b l =
      (if b = au_owner a \<and> l = au_actor a then r else record_of (m_authority_manager n) b l)"
  let ?r0 = "record_of (m_authority_manager n) (au_owner a) (au_actor a)"
  have "default_full r \<noteq> (i \<in> action_ids r) \<longleftrightarrow>
      (if au_action_ids a = [] \<or> i \<in> set (au_action_ids a) then au_update_type a = UT_store
       else default_full ?r0 \<noteq> (i \<in> action_ids ?r0))" for i
    using r by (cases "au_update_type a")
      (auto simp: updated_record_def result_simps add_ids_Inr remove_ids_Inr split: if_splits list.splits)
  note changed = this
  have "check_authority owner actor i (m_authority_manager n') = Inr
        (if owner = au_owner a \<and> actor = au_actor a \<and> (au_action_ids a = [] \<or> i \<in> set (au_action_ids a))
         then au_update_type a = UT_store
         else default_full (record_of (m_authority_manager n) owner actor)
              \<noteq> (i \<in> action_ids (record_of (m_authority_manager n) owner actor)))" for owner actor i
    using changed [of i] unfolding check_authority_eq [OF wf'] rec by (auto split: if_splits)
  then show ?thesis
    using authorization_revert_apply [OF wf(1) ap] authorization_apply_plain [OF wf ap] wf' by blast
qed

definition sample_update :: authorization_update where
  "sample_update = \<lparr> au_update_type = UT_store, au_owner = ''alice'', au_actor = ''bob'', au_action_ids = [8] \<rparr>"

theorem authorization_update_exact_witness:
  "\<exists>n'. authorization_apply sample_ext (sample_tx (AuthorizationUpdate sample_update)) sample_update Layer_pool sample_node = Inr n'
    \<and> check_authority ''alice'' ''bob'' 8 (m_authority_manager n') = Inr True
    \<and> authorization_revert sample_ext (sample_tx (AuthorizationUpdate sample_update)) sample_update Layer_pool n' = Inr sample_node"
proof -
  let ?st = "sample_tx (AuthorizationUpdate sample_update)"
  have "authorization_can_apply sample_ext ?st sample_update Layer_pool sample_node = Inr True"
    by (simp add: authorization_can_apply_def sample_update_def and_then_def get_record_def dummy_record_def)
  then obtain n' where n': "authorization_apply sample_ext ?st sample_update Layer_pool sample_node = Inr n'"
    using authorization_can_apply_iff [of sample_node] by auto
  show ?thesis
    using n' authorization_update_exact [OF _ _ n'] by (simp add: sample_update_def)
qed

text \<open>C36: a role is granted once and only against its stake: a second role for the same address
  is refused, a channel needs 100000 coins and a storage 10000; reverting removes it.\<close>

theorem role_granted_once:
  assumes "role_apply E st r layer n = Inr n'" "node_money_ok layer n"
  shows "get_role (rl_node_address r) (m_state n) = None
    \<and> get_role (rl_node_address r) (m_state n') = Some (rl_node_type r)
    \<and> role_revert E st r layer n' = Inr n
    \<and> (rl_node_type r = NT_channel \<longrightarrow> 10000000000000 \<le> coin_val (get_balance (rl_node_address r) Layer_pool (m_state n)))
    \<and> (rl_node_type r = NT_storage \<longrightarrow> 1000000000000 \<le> coin_val (get_balance (rl_node_address r) Layer_pool (m_state n)))
    \<and> (\<forall>r2 st2. rl_node_address r2 = rl_node_address r \<longrightarrow> \<not> is_ok (role_apply E st2 r2 layer n'))"
proof -
  obtain s where s: "insert_role r (m_state n) = Inr s" "n' = n\<lparr>m_state := s\<rparr>"
    using role_apply_Inr(1) [OF assms(1)] by blast
  have role: "get_role (rl_node_address r) (m_state n') = Some (rl_node_type r)"
    using get_role_insert [OF s(1)] s(2) by simp
  have ok: "coin_ok (get_balance k Layer_pool (m_state n))" for k
    using assms(2) by (auto simp: node_money_ok_def money_ok_def layer_wf_def)
  have stake: "\<not> get_balance (rl_node_address r) Layer_pool (m_state n) < c \<Longrightarrow> coin_ok c \<Longrightarrow>
      coin_val c \<le> coin_val (get_balance (rl_node_address r) Layer_pool (m_state n))" for c
    using coin_less_val [OF ok, of c "rl_node_address r"] by simp
  have "\<not> is_ok (role_apply E st2 r2 layer n')" if "rl_node_address r2 = rl_node_address r" for r2 st2
    using role that role_apply_Inr(4) [of E st2 r2 layer n'] by (auto simp: is_ok_iff)
  then show ?thesis
    using role role_apply_Inr(3,4) [OF assms(1)] role_revert_apply [OF assms(1)]
      stake [of CHANNEL_AMOUNT_THRESHOLD] stake [of STORAGE_AMOUNT_THRESHOLD]
    by (auto simp: role_threshold_def CHANNEL_AMOUNT_THRESHOLD_def STORAGE_AMOUNT_THRESHOLD_def coin_val_def
        coin_ok_def fractions_in_whole_def split: if_splits)
qed

definition rich_node :: node where
  "rich_node = sample_node\<lparr>m_state := sample_state\<lparr>m_accounts := [''alice'' \<mapsto> Coin 20000 0]\<rparr>\<rparr>"

lemma rich_node_money: "node_money_ok layer rich_node"
proof -
  have "dom [''alice'' \<mapsto> Coin 20000 0] = {''alice''}" by auto
  then have "total_supply (m_state rich_node) = 2000000000000"
    by (simp add: total_supply_def map_total_def rich_node_def coin_val_def)
  then show ?thesis
    by (auto simp: node_money_ok_def money_ok_def layer_wf_def state_wf_def synced_def coin_ok_def coin_empty_def
        fractions_in_whole_def sample_state_def rich_node_def split: if_splits)
qed

theorem role_granted_once_witness:
  "\<exists>n'. role_apply sample_ext (sample_tx (Other_action Unknown_package)) \<lparr> rl_node_address = ''alice'', rl_node_type = NT_storage \<rparr> Layer_pool rich_node = Inr n'
    \<and> get_role ''alice'' (m_state n') = Some NT_storage"
proof -
  let ?r = "\<lparr> rl_node_address = ''alice'', rl_node_type = NT_storage \<rparr>"
  have signer: "signer_ok sample_ext (sample_tx (Other_action Unknown_package)) ''alice'' K_Role rich_node = Inr True"
    by (simp add: signer_ok_def front_address_def sample_tx_def check_authority_def get_record_def full_record_def rich_node_def)
  have "get_balance ''alice'' Layer_pool (m_state rich_node) = Coin 20000 0"
    by (simp add: rich_node_def get_balance_pool)
  moreover have "\<not> Coin 20000 0 < STORAGE_AMOUNT_THRESHOLD"
    using coin_less_val [of "Coin 20000 0" STORAGE_AMOUNT_THRESHOLD]
    by (simp add: STORAGE_AMOUNT_THRESHOLD_def coin_ok_def fractions_in_whole_def coin_val_def)
  ultimately have "role_can_apply sample_ext (sample_tx (Other_action Unknown_package)) ?r Layer_pool rich_node = Inr True"
    using signer rich_node_money [of Layer_pool]
    by (simp add: role_can_apply_def and_then_def role_threshold_def rich_node_def get_role_def sample_state_def coin_ok_def fractions_in_whole_def)
  then obtain n' where "role_apply sample_ext (sample_tx (Other_action Unknown_package)) ?r Layer_pool rich_node = Inr n'"
    using role_can_apply_iff by blast
  then show ?thesis using role_granted_once [OF _ rich_node_money] by fastforce
qed

text \<open>C25: a sponsorship takes exactly its amount out of the supply, and reverting it gives back
  the money, the content unit's record and the expiration entries.\<close>

theorem sponsorship_exact:
  assumes "node_money_ok layer n" "sponsoring_wf (m_documents n)" "sponsorship_fresh (tx_key E st) (m_documents n)"
    and "sponsor_apply E st s layer n = Inr n'"
  shows "total_supply (m_state n') + coin_val (sp_amount s) = total_supply (m_state n)
    \<and> node_money_ok layer n' \<and> sponsoring_wf (m_documents n')
    \<and> m_sponsored_informations_hash_to_block (m_documents n') (tx_key E st) \<noteq> None
    \<and> sponsor_revert E st s layer n' = Inr n"
proof -
  have "m_sponsored_informations_hash_to_block (m_documents n') (tx_key E st) \<noteq> None"
    using assms(4)
    by (auto simp: sponsor_apply_def result_simps sponsor_content_unit_apply_def add_sponsorship_def Let_def
        simp del: not_None_eq)
  then show ?thesis using sponsor_apply_spec [OF assms] by blast
qed

lemma sample_sponsor_applies:
  "\<exists>n'. sponsor_apply sample_ext (sample_tx (SponsorContentUnit sample_sponsorship)) sample_sponsorship Layer_chain sample_node = Inr n'"
proof -
  obtain s where s: "decrease_balance ''node'' ''alice'' (Coin 10 0) Layer_chain sample_state = Inr s"
    using coin_less_val [of "Coin 100 0" "Coin 10 0"]
    by (auto simp: decrease_balance_def get_balance_pool sample_state_def coin_of_def coin_new_def coin_minus_def
        coin_empty_def fractions_in_whole_def throw_if_def coin_ok_def coin_val_def)
  have "debit ''alice'' (Coin 10 0) Layer_chain sample_node = Inr (sample_node\<lparr>m_state := s\<rparr>)"
    using s by (simp add: debit_Inr coin_ok_def fractions_in_whole_def)
  moreover have "unit_exists ''u'' sample_documents" by (simp add: unit_exists_def sample_documents_def)
  moreover have "\<exists>d. sponsor_content_unit_apply sample_chain sample_sponsorship h sample_documents = Inr d" for h
    by (simp add: sponsor_content_unit_apply_def sample_sponsorship_def push_sponsored_information_def
        sample_documents_def refresh_index_def item_live_def sponsored_information_of_def get_expiring_block_number_def
        header_at_def sample_chain_def throw_if_def Let_def)
  moreover obtain d where "sponsor_content_unit_apply sample_chain sample_sponsorship
      (tx_key sample_ext (sample_tx (SponsorContentUnit sample_sponsorship))) sample_documents = Inr d"
    using calculation(3) by blast
  moreover have "sp_sponsor_address sample_sponsorship = ''alice''" "sp_uri sample_sponsorship = ''u''"
    "sp_amount sample_sponsorship = Coin 10 0"
    by (simp_all add: sample_sponsorship_def)
  ultimately show ?thesis by (simp add: sponsor_apply_def)
qed

theorem sponsorship_exact_witness:
  "\<exists>n'. sponsor_apply sample_ext (sample_tx (SponsorContentUnit sample_sponsorship)) sample_sponsorship Layer_chain sample_node = Inr n'
    \<and> sponsor_revert sample_ext (sample_tx (SponsorContentUnit sample_sponsorship)) sample_sponsorship Layer_chain n' = Inr sample_node
    \<and> total_supply (m_state n') = 9550000000"
proof -
  obtain n' where n': "sponsor_apply sample_ext (sample_tx (SponsorContentUnit sample_sponsorship)) sample_sponsorship Layer_chain sample_node = Inr n'"
    using sample_sponsor_applies by blast
  have fresh: "sponsorship_fresh h (m_documents sample_node)" for h
    by (simp add: sponsorship_fresh_def sample_documents_def)
  have "coin_val (sp_amount sample_sponsorship) = 1000000000" by (simp add: sample_sponsorship_def coin_val_def)
  then show ?thesis using sponsorship_exact [OF sample_node_money _ fresh n'] n' sample_supply by simp
qed

text \<open>C38: a signed transaction is valid exactly when it has signatures, no two of them alike,
  every one of them good for its text, and it is neither from the future nor expired nor meant
  to live for more than a day.\<close>

theorem signed_transaction_valid_iff:
  "signed_transaction_validate E st now shift = Inr () \<longleftrightarrow>
     authorizations st \<noteq> []
     \<and> distinct (map (\<lambda>a. (at_address a, at_signature a)) (authorizations st))
     \<and> list_all (\<lambda>a. x_public_key_ok E (at_address a)
          \<and> x_signature_ok E (at_address a) (x_transaction_string E (transaction_details st)) (at_signature a)) (authorizations st)
     \<and> tx_creation (transaction_details st) \<le> now + shift
     \<and> now - shift \<le> tx_expiry (transaction_details st)
     \<and> tx_expiry (transaction_details st) - tx_creation (transaction_details st) \<le> 24 * 3600"
proof -
  let ?p = "\<lambda>a. (at_address a, at_signature a)"
  have sig: "check_signatures E m as seen k = Inr (y :: unit) \<longleftrightarrow>
      distinct (map ?p as) \<and> ?p ` set as \<inter> seen = {}
      \<and> list_all (\<lambda>a. x_public_key_ok E (at_address a) \<and> x_signature_ok E (at_address a) m (at_signature a)) as \<and> k = Inr y"
    for m as seen k y
    by (induction as arbitrary: seen) (auto simp: result_simps)
  show ?thesis
    by (auto simp: signed_transaction_validate_def result_simps sig Let_def TRANSACTION_MAX_LIFETIME_HOURS_def)
qed

section \<open>Two branches that refuse or accept too much\<close>



lemma set_used_items_skip:
  assumes "uc_cancel u \<noteq> []" "\<forall>i \<in> set idx. i < length infos \<and> si_transaction_hash (infos ! i) \<noteq> uc_cancel u"
  shows "set_used_items u idx (r, infos, d) = Inr (False, r, infos, d)"
  using assms(2)
proof (induction idx)
  case (Cons i idx)
  then have "set_used_item u i (r, infos, d) = Inr Break \<or> set_used_item u i (r, infos, d) = Inr (Next (r, infos, d))"
    using assms(1) by (auto simp: set_used_item_def Let_def)
  then show ?case using Cons by auto
qed simp

definition unknown_sponsorship :: "cancel_sponsor_content_unit \<Rightarrow> documents \<Rightarrow> bool" where
  "unknown_sponsorship c d \<longleftrightarrow> cs_transaction_hash c \<noteq> []
     \<and> m_sponsored_informations_hash_to_block d (cs_transaction_hash c) = None
     \<and> (\<forall>info. m_content_unit_sponsored_information d (cs_uri c) = Some info \<longrightarrow>
          (\<forall>si \<in> set (ci_sponsored_informations info). si_transaction_hash si \<noteq> cs_transaction_hash c))"

lemma cancel_unknown_set_used:
  assumes wf: "sponsoring_wf (m_documents n)" and un: "unknown_sponsorship c (m_documents n)"
    and next_block: "bc_length (m_blockchain n) = block_number (m_last_header (m_blockchain n)) + 1"
  shows "cancel_set_used c Set_used_apply pretend n = Inr ([], m_documents n)"
proof (cases "m_content_unit_sponsored_information (m_documents n) (cs_uri c)")
  case None
  then show ?thesis using next_block by (simp add: cancel_set_used_def sponsored_content_unit_set_used_def)
next
  case (Some info)
  then have info: "cusi_wf info" using wf by (simp add: sponsoring_wf_def)
  then have "ci_sponsored_informations info \<noteq> []" "ci_time_points_used info \<noteq> []"
    using cusi_wf_time_points by (simp_all add: cusi_wf_def)
  moreover have "\<forall>i \<in> set (ci_index_si info). i < length (ci_sponsored_informations info)
      \<and> si_transaction_hash (ci_sponsored_informations info ! i) \<noteq> cs_transaction_hash c"
    using cusi_wf_index(1) [OF info] un Some by (auto simp: filter_id_conv kept_index_def unknown_sponsorship_def)
  moreover have "(m_documents n)\<lparr>m_content_unit_sponsored_information :=
      (m_content_unit_sponsored_information (m_documents n))(cs_uri c \<mapsto> info)\<rparr> = m_documents n"
    using Some by (simp add: fun_upd_idem)
  moreover have "cs_transaction_hash c \<noteq> []" using un by (simp add: unknown_sponsorship_def)
  ultimately show ?thesis
    using next_block Some
    by (simp add: cancel_set_used_def sponsored_content_unit_set_used_def Let_def set_used_items_skip)
qed

lemma fold_res_fails: "x \<in> set xs \<Longrightarrow> (\<And>s. \<not> is_ok (f x s)) \<Longrightarrow> \<not> is_ok (fold_res f xs s)"
proof (induction xs arbitrary: s)
  case (Cons y xs)
  then show ?case by (auto simp: is_ok_bind_iff is_ok_iff [of "f x _"])
qed simp

text \<open>C39: cancelling a sponsorship that does not exist passes validation, the test before applying
  and applying, and changes nothing; the check for an invalid transaction hash after it never
  fires, since no part is zero. Granting the rewards of any block with such a cancellation then
  fails, so the block cannot be mined.\<close>

theorem cancel_unknown_blocks_rewards:
  assumes "sponsoring_wf (m_documents n)" "unknown_sponsorship c (m_documents n)"
    and "bc_length (m_blockchain n) = block_number (m_last_header (m_blockchain n)) + 1"
    and "signer_ok E st (cs_sponsor_address c) K_CancelSponsorContentUnit n = Inr True"
    and "unit_exists (cs_uri c) (m_documents n)"
    and "tx_action (transaction_details st) = CancelSponsorContentUnit c" "st \<in> set sts"
  shows "cancel_can_apply E st c layer n = Inr True \<and> cancel_apply E st c layer n = Inr n
    \<and> \<not> is_ok (grant_rewards E sts miner_address h ty n)"
proof -
  have can: "cancel_can_apply E st c layer n = Inr True"
    using assms(4,5) cancel_unknown_set_used [OF assms(1,2,3)] by (simp add: cancel_can_apply_def and_then_def any_zero_part_def)
  have ap: "cancel_apply E st c layer n = Inr n"
    using assms(4,5) cancel_unknown_set_used [OF assms(1,2,3)] by (simp add: cancel_apply_def any_zero_part_def)
  have "\<not> is_ok (collect_transaction n st acc)" for acc
    using assms(2,6) by (cases acc) (simp add: collect_transaction_def unknown_sponsorship_def expiration_entry_ref_by_hash_def)
  then have "\<not> is_ok (fold_res (collect_transaction n) sts ([], [], []))"
    by (rule fold_res_fails [OF assms(7)])
  then have "\<not> is_ok (grant_rewards E sts miner_address h ty n)"
    by (cases "fold_res (collect_transaction n) sts ([], [], [])") (simp_all add: grant_rewards_def)
  then show ?thesis using can ap by simp
qed

definition sample_cancel :: cancel_sponsor_content_unit where
  "sample_cancel = \<lparr> cs_sponsor_address = ''alice'', cs_uri = ''u'', cs_transaction_hash = ''nothing'' \<rparr>"

theorem cancel_unknown_blocks_rewards_witness:
  "cancel_apply sample_ext (sample_tx (CancelSponsorContentUnit sample_cancel)) sample_cancel Layer_pool sample_node = Inr sample_node
    \<and> \<not> is_ok (grant_rewards sample_ext [sample_tx (CancelSponsorContentUnit sample_cancel)] ''node'' (sample_header 1)
        Set_used_apply sample_node)"
  by (rule cancel_unknown_blocks_rewards [THEN conjunct2])
    (simp_all add: unknown_sponsorship_def sample_cancel_def sample_documents_def sample_chain_def sample_header_def
      bc_length_def sample_tx_def unit_exists_def sponsoring_wf_def sample_signer [unfolded sample_tx_def])

section \<open>Rewards\<close>

text \<open>C26: distributing an amount pays it in full: the new rewards and what is handed back add up
  to the amount, whatever the shares are and even where the products of the shares wrap around.
  Older rewards stay, new ones have the given type, and without shares everything is handed
  back.\<close>

theorem distribute_rewards_exact:
  assumes "distribute_rewards rs shares amount ty = Inr (rs', handed_back)" "coin_ok amount"
  shows "\<exists>new. rs' = rs @ new \<and> reward_sum new + coin_val handed_back = coin_val amount \<and> coin_ok handed_back
    \<and> (\<forall>r \<in> set new. rw_type r = ty) \<and> (shares = [] \<longrightarrow> new = [])"
  by (rule distribute_conserves [OF assms]) (use assms in \<open>auto simp: distribute_rewards_def\<close>)

theorem distribute_rewards_exact_witness:
  "\<exists>rs rest. distribute_rewards [] [(''a'', 1, 3), (''b'', 2, 3)] (Coin 10 0) RT_author = Inr (rs, rest)
    \<and> reward_sum rs + coin_val rest = 1000000000"
proof -
  have "is_ok (distribute_rewards [] [(''a'', 1, 3), (''b'', 2, 3)] (Coin 10 0) RT_author)"
    by code_simp
  then obtain rs' rest where d: "distribute_rewards [] [(''a'', 1, 3), (''b'', 2, 3)] (Coin 10 0) RT_author = Inr (rs', rest)"
    by (auto simp: is_ok_iff)
  have "coin_ok (Coin 10 0)" "coin_val (Coin 10 0) = 1000000000"
    by (simp_all add: coin_ok_def fractions_in_whole_def coin_val_def)
  then show ?thesis using distribute_rewards_exact [OF d] d by auto
qed

text \<open>C6: the rewards of a block add up to exactly the emission of its year, the sponsored money
  used in it and the money returned to the sponsors: no fraction is lost or created by the
  percentages, the shares or the roundings.\<close>

theorem block_rewards_exact:
  assumes "pay_rewards emission sponsored share_lists returns miner = Inr rs"
    and "coin_ok emission" "coin_ok sponsored" "coin_val emission + coin_val sponsored < val_limit"
  shows "reward_sum rs = coin_val emission + coin_val sponsored + omap_sum returns"
  using assms by (rule pay_rewards_conserves)

theorem block_rewards_exact_witness:
  "\<exists>rs. pay_rewards (Coin 1000 0) (Coin 3 50000001) ([(''a'', 1, 3), (''b'', 1, 3)], [(''c'', 1, 1)], [])
      [(''s'', Coin 2 0)] ''m'' = Inr rs
    \<and> reward_sum rs = 100550000001"
proof -
  have "is_ok (pay_rewards (Coin 1000 0) (Coin 3 50000001) ([(''a'', 1, 3), (''b'', 1, 3)], [(''c'', 1, 1)], [])
      [(''s'', Coin 2 0)] ''m'')"
    by code_simp
  then obtain rs where r: "pay_rewards (Coin 1000 0) (Coin 3 50000001) ([(''a'', 1, 3), (''b'', 1, 3)], [(''c'', 1, 1)], [])
      [(''s'', Coin 2 0)] ''m'' = Inr rs"
    by (auto simp: is_ok_iff)
  have "coin_ok (Coin 1000 0)" "coin_ok (Coin 3 50000001)"
    by (simp_all add: coin_ok_def fractions_in_whole_def)
  then show ?thesis
    using block_rewards_exact [OF r] r by (simp add: coin_val_def omap_sum_def)
qed

section \<open>Into the pool\<close>

lemma apply_action_frame:
  assumes "apply_action E st a Layer_pool n = Inr n'"
  shows "n' = n\<lparr>m_state := m_state n', m_documents := m_documents n', m_authority_manager := m_authority_manager n'\<rparr>"
proof -
  note f = apply_action_frame_all [OF assms]
  have "m_storage_controller n' = m_storage_controller n" using f by simp
  then show ?thesis using f by (cases n, cases n') simp
qed

text \<open>Nothing is changed that has not been saved; the cached fields of the chain follow from its
  blocks and the cursor of the action log is not stored.\<close>

definition committed :: "ext \<Rightarrow> node \<Rightarrow> bool" where
  "committed E n \<longleftrightarrow> m_state (saved n) = m_state n \<and> m_documents (saved n) = m_documents n
     \<and> m_header (m_blockchain (saved n)) = m_header (m_blockchain n) \<and> m_blocks (m_blockchain (saved n)) = m_blocks (m_blockchain n)
     \<and> m_actions (m_action_log (saved n)) = m_actions (m_action_log n)
     \<and> m_transaction_pool (saved n) = m_transaction_pool n \<and> m_authority_manager (saved n) = m_authority_manager n
     \<and> update_state E (m_blockchain n) = m_blockchain n"

definition same_ledger :: "node \<Rightarrow> node \<Rightarrow> bool" where
  "same_ledger n n' \<longleftrightarrow> m_state n' = m_state n \<and> m_documents n' = m_documents n \<and> m_blockchain n' = m_blockchain n
     \<and> m_actions (m_action_log n') = m_actions (m_action_log n) \<and> m_transaction_pool n' = m_transaction_pool n
     \<and> m_authority_manager n' = m_authority_manager n
     \<and> cache_data (m_transaction_cache n') = cache_data (m_transaction_cache n)"

lemma node_save_fields [simp]:
  "m_state (node_save n) = m_state n" "m_documents (node_save n) = m_documents n"
  "m_blockchain (node_save n) = m_blockchain n" "m_transaction_pool (node_save n) = m_transaction_pool n"
  "m_transaction_cache (node_save n) = m_transaction_cache n" "m_action_log (node_save n) = m_action_log n"
  "m_authority_manager (node_save n) = m_authority_manager n"
  by (cases n; simp add: node_save_def)+

text \<open>Whatever the handlers left behind at the moment of the exception, the guard takes a node with nothing
  unsaved back to what it was.\<close>

lemma pool_rollback_same_ledger:
  assumes "committed E n"
  shows "same_ledger n (pool_rollback E (half_changed thrown (cache_update cache_backup_now n)))
    \<and> committed E (pool_rollback E (half_changed thrown (cache_update cache_backup_now n)))"
proof -
  have undone: "same_ledger n (pool_rollback E m) \<and> committed E (pool_rollback E m)"
    if m: "saved m = saved n" "m_blockchain m = m_blockchain n" "cache_backup (m_transaction_cache m) = cache_data (m_transaction_cache n)"
    for m
  proof -
    have "(m_blockchain n)\<lparr>m_header := m_header (m_blockchain n), m_blocks := m_blocks (m_blockchain n)\<rparr> = m_blockchain n"
      by simp
    then show ?thesis
      using assms m by (cases m) (simp add: committed_def same_ledger_def pool_rollback_def cache_update_def node_discard_def
          Let_def al_discard_def cache_restore_def)
  qed
  show ?thesis
    by (rule undone) (cases n; simp add: half_changed_def cache_update_def cache_backup_now_def Let_def split_beta)+
qed

lemma add_to_pool_spec:
  assumes "add_to_pool E st complete n = Inr n'"
  shows "m_transaction_pool n' = m_transaction_pool n @ [st] \<and> m_blockchain n' = m_blockchain n
    \<and> cache_contains E st (m_transaction_cache n') \<and> pconfig n' = pconfig n"
proof -
  obtain n1 where n1: "m_transaction_pool n1 = m_transaction_pool n" "m_blockchain n1 = m_blockchain n" "pconfig n1 = pconfig n"
    and n': "n' = cache_update (\<lambda>c. snd (add_pool E st complete c)) (n1\<lparr>m_transaction_pool := m_transaction_pool n1 @ [st]\<rparr>)"
  proof -
    consider (stay) "n' = cache_update (\<lambda>c. snd (add_pool E st complete c)) (n\<lparr>m_transaction_pool := m_transaction_pool n @ [st]\<rparr>)"
      | (enter) m where "apply_action E st (tx_action (transaction_details st)) Layer_pool n = Inr m"
        "n' = cache_update (\<lambda>c. snd (add_pool E st complete c))
          ((m\<lparr>m_action_log := log_transaction E st (m_action_log m)\<rparr>)\<lparr>m_transaction_pool := m_transaction_pool m @ [st]\<rparr>)"
      using assms by (auto simp: add_to_pool_def Let_def result_simps split: if_splits)
    then show ?thesis
    proof cases
      case enter
      have "m_transaction_pool m = m_transaction_pool n" "m_blockchain m = m_blockchain n" "pconfig m = pconfig n"
        by (subst apply_action_frame [OF enter(1)], simp)+
      then show ?thesis using that [of "m\<lparr>m_action_log := log_transaction E st (m_action_log m)\<rparr>"] enter(2) by simp
    qed (rule that [of n], simp_all)
  qed
  then show ?thesis by (simp add: cache_update_def)
qed

lemma pool_entry:
  assumes "committed E n" "action_process_on_chain E now thrown st n = (r, n')"
  shows "committed E n' \<and> (r \<noteq> Inr True \<longrightarrow> same_ledger n n')
    \<and> (cache_contains E st (m_transaction_cache n) \<longrightarrow> same_ledger n n')
    \<and> (r = Inr True \<longrightarrow>
        (if too_far_behind now n then n' = n
         else m_transaction_pool n' = m_transaction_pool n @ [st] \<and> m_blockchain n' = m_blockchain n
           \<and> \<not> cache_contains E st (m_transaction_cache n) \<and> cache_contains E st (m_transaction_cache n')))"
proof -
  let ?m = "cache_update cache_backup_now n"
  have refl: "same_ledger n n" by (simp add: same_ledger_def)
  have saved: "committed E (node_save k) \<longleftrightarrow> update_state E (m_blockchain k) = m_blockchain k" for k
    by (cases k) (simp add: committed_def node_save_def ledger.defs)
  obtain v where v: "throw_if (coin_only n (tx_action (transaction_details st))) coin_only_error
      (throw_if (is_Other_action (tx_action (transaction_details st))) unknown_action
      (bind_res (action_is_complete n st) (\<lambda>complete. bind_res (validate_action E st complete) (\<lambda>_. Inr complete)))) = v"
    by blast
  consider (unchanged) "n' = n" "r = Inr True \<longrightarrow> too_far_behind now n"
    | (error) e where "r = Inl e" "n' = pool_rollback E (half_changed thrown ?m)"
    | (entered) c m where "r = Inr True" "add_to_pool E st c ?m = Inr m" "n' = node_save m"
        "\<not> cache_contains E st (m_transaction_cache n)" "\<not> too_far_behind now n"
    using assms(2) by (cases v) (auto simp: action_process_on_chain_def Let_def v split: sum.splits if_splits)
  then show ?thesis
  proof cases
    case unchanged
    then show ?thesis using assms(1) refl by auto
  next
    case error
    then show ?thesis using pool_rollback_same_ledger [OF assms(1)] by simp
  next
    case entered
    have "m_transaction_pool m = m_transaction_pool n @ [st]" "m_blockchain m = m_blockchain n"
      "cache_contains E st (m_transaction_cache m)"
      using add_to_pool_spec [OF entered(2)] by (simp_all add: cache_update_def)
    then show ?thesis using entered assms(1) saved [of m] by (simp add: committed_def)
  qed
qed

text \<open>C8: what the pool promises for a node with nothing unsaved, whatever stores and cache the handlers
  left half changed when they threw (\<open>thrown\<close>). A transaction that is not accepted, and any exception on
  the way, leaves the ledger and the cache as they were and nothing unsaved. An accepted one was not in the
  cache, is appended to the pool, can be found in the cache, and everything is saved; only a node that is too
  far behind answers true and changes nothing. A transaction the cache knows changes nothing.\<close>

theorem pool_entry_atomic:
  assumes "committed E n" "action_process_on_chain E now thrown st n = (r, n')"
  shows "committed E n' \<and> (r \<noteq> Inr True \<longrightarrow> same_ledger n n')
    \<and> (cache_contains E st (m_transaction_cache n) \<longrightarrow> same_ledger n n')
    \<and> (r = Inr True \<longrightarrow>
        (if too_far_behind now n then n' = n
         else m_transaction_pool n' = m_transaction_pool n @ [st] \<and> m_blockchain n' = m_blockchain n
           \<and> \<not> cache_contains E st (m_transaction_cache n) \<and> cache_contains E st (m_transaction_cache n')))"
  using assms by (rule pool_entry)

lemma sample_enters_pool:
  "\<exists>n'. action_process_on_chain sample_ext 0 (sample_ledger, Map.empty) (sample_tx (Transfer sample_transfer)) sample_node = (Inr True, n')
    \<and> \<not> same_ledger sample_node n'"
proof -
  let ?st = "sample_tx (Transfer sample_transfer)" and ?n = "cache_update cache_backup_now sample_node"
  have n: "m_state ?n = sample_state" "m_authority_manager ?n = Map.empty" "own_address ?n = ''node''"
    "m_transaction_pool ?n = []"
    by (simp_all add: cache_update_def own_address_def sample_node_def sample_node_with_def sample_config_def
        sample_ledger_def ledger.defs)
  have money: "node_money_ok Layer_pool ?n" using sample_money n by (simp add: node_money_ok_def)
  have "signer_ok sample_ext ?st ''alice'' K_Transfer ?n = Inr True"
    using sample_signer [of _ K_Transfer] signer_ok_cong [of ?n sample_node] n by simp
  moreover have "covers ''alice'' (Coin 40 60000000) ?n = Inr True"
    using covers_iff [OF money] by (simp add: n sample_state_def get_balance_pool coin_val_def coin_ok_def fractions_in_whole_def)
  ultimately have can: "transfer_can_apply sample_ext ?st sample_transfer Layer_pool ?n = Inr True"
    by (simp add: transfer_can_apply_def and_then_def sample_transfer_def)
  have start: "fst (action_process_on_chain sample_ext 0 (sample_ledger, Map.empty) ?st sample_node) = Inr True
      \<and> \<not> same_ledger sample_node (snd (action_process_on_chain sample_ext 0 (sample_ledger, Map.empty) ?st sample_node))"
    if "add_to_pool sample_ext ?st True ?n = Inr m" for m
  proof -
    have "\<not> cache_contains sample_ext ?st (m_transaction_cache sample_node)"
      by (simp add: cache_contains_def sample_node_def sample_node_with_def ledger.defs)
    moreover have "m_transaction_pool m = [?st]" using add_to_pool_spec [OF that] n by simp
    moreover have "m_transaction_pool sample_node = []"
      by (simp add: sample_node_def sample_node_with_def sample_ledger_def ledger.defs)
    moreover have "action_is_complete sample_node ?st = Inr True"
      by (simp add: action_is_complete_def transfer_is_complete_def sample_tx_def)
    moreover have "validate_action sample_ext ?st True = Inr ()"
      by (simp add: validate_action_def transfer_validate_def check_one_authorization_def check_public_key_def
          sample_tx_def sample_transfer_def sample_ext_def coin_zero_def)
    moreover have "\<not> coin_only sample_node (tx_action (transaction_details ?st))"
      "\<not> is_Other_action (tx_action (transaction_details ?st))"
      by (simp_all add: coin_only_def sample_tx_def)
    moreover have "\<not> too_far_behind 0 sample_node"
      by (simp add: too_far_behind_def sample_chain_def sample_header_def BLOCK_TR_LENGTH_def)
    ultimately show ?thesis using that
      by (simp add: action_process_on_chain_def same_ledger_def del: sample_node_fields)
  qed
  show ?thesis
  proof (rule transfer_apply_spec [OF money can])
    fix m
    assume m: "transfer_apply sample_ext ?st sample_transfer Layer_pool ?n = Inr m"
      "m = ?n\<lparr>m_state := m_state m\<rparr>" "node_money_ok Layer_pool m"
      "\<And>k. coin_val (get_balance k Layer_pool (m_state m)) + (if k = tf_from sample_transfer then coin_val (tf_amount sample_transfer) else 0)
         = coin_val (get_balance k Layer_pool (m_state ?n)) + (if k = tf_to sample_transfer then coin_val (tf_amount sample_transfer) else 0)"
    let ?b = "get_balance ''alice'' Layer_pool (m_state m)"
    have b: "coin_val ?b = 5940000000" "coin_ok ?b"
      using m(4) [of "''alice''"] m(3)
      by (auto simp: n sample_transfer_def sample_state_def get_balance_pool [of _ sample_state] coin_val_def
          node_money_ok_def money_ok_def layer_wf_def) (simp add: get_balance_pool coin_val_def)
    have "\<not> ?b < Coin 0 10000000"
      using b coin_less_val [OF b(2), of "Coin 0 10000000"] by (simp add: coin_ok_def fractions_in_whole_def coin_val_def)
    then have "fee_validate m ?st = Inr ()"
      using b(2) by (simp add: fee_validate_def fee_owner_def action_owners_def transfer_owners_def fee_of_def
          sample_tx_def sample_transfer_def coin_ok_def fractions_in_whole_def coin_of_def coin_new_def throw_if_def)
    then have "\<exists>m. add_to_pool sample_ext ?st True ?n = Inr m"
      using m(1) by (simp add: add_to_pool_def apply_action_def Let_def) (simp add: sample_tx_def apply_action_def)
    then show ?thesis using start by (metis prod.collapse)
  qed
qed

lemma sample_node_committed: "committed sample_ext sample_node"
  using sample_chain_wf
  by (simp add: committed_def sample_node_def sample_node_with_def sample_ledger_def ledger.defs blockchain_wf_def)

theorem pool_entry_atomic_witness:
  "\<exists>n'. action_process_on_chain sample_ext 0 (sample_ledger, Map.empty) (sample_tx (Transfer sample_transfer)) sample_node = (Inr True, n')
    \<and> m_transaction_pool n' = [sample_tx (Transfer sample_transfer)] \<and> committed sample_ext n'"
proof -
  have "\<not> too_far_behind 0 sample_node"
    by (simp add: too_far_behind_def sample_chain_def sample_header_def BLOCK_TR_LENGTH_def)
  moreover have "m_transaction_pool sample_node = []"
    by (simp add: sample_node_def sample_node_with_def sample_ledger_def ledger.defs)
  ultimately show ?thesis
    using sample_enters_pool pool_entry_atomic [OF sample_node_committed] by fastforce
qed

end
