(* ===== verification/Block_Sync.thy ===== *)
theory Block_Sync
  imports Rewards
begin

text \<open>
  The two sessions of libblockchain/sessions.cpp through which a node takes over a better chain.
  \<open>session_action_header\<close> asks a peer for headers until it finds the last common block
  and checks them; \<open>session_action_block\<close> asks for the blocks, reverts its own chain to
  the last common block, applies the received blocks and puts the remaining transactions back
  into the pool. Sending a packet is the value of a step, here and in the answers to requests.
\<close>

section \<open>Answering requests\<close>

definition HEADER_TR_LENGTH :: u64 where "HEADER_TR_LENGTH = 49"
definition BLOCK_MAX_TRANSACTIONS :: nat where "BLOCK_MAX_TRANSACTIONS = 1000"
definition BLOCK_INSERT_LENGTH :: nat where "BLOCK_INSERT_LENGTH = 50"

text \<open>Headers are requested in reverse order: the indexes from \<open>from\<close> down to \<open>to\<close>.\<close>

definition header_range :: "u64 \<Rightarrow> u64 \<Rightarrow> u64 \<Rightarrow> u64 list" where
  "header_range len blocks_from blocks_to =
     (let from1 = (if len - 1 < blocks_from then len - 1 else blocks_from);
          to1 = (if blocks_to > from1 then from1 else blocks_to);
          to2 = (if from1 > HEADER_TR_LENGTH \<and> to1 < from1 - HEADER_TR_LENGTH then from1 - HEADER_TR_LENGTH else to1)
      in map of_nat (rev [unat to2..<unat (from1 + 1)]))"

definition collect_res :: "('a \<Rightarrow> 'b res) \<Rightarrow> 'a list \<Rightarrow> 'b list res" where
  "collect_res f xs = fold_res (\<lambda>x ys. bind_res (f x) (\<lambda>y. Inr (ys @ [y]))) xs []"

lemma collect_res_Inr: "collect_res f xs = Inr ys \<longleftrightarrow> list_all2 (\<lambda>x y. f x = Inr y) xs ys"
proof -
  have "fold_res (\<lambda>x ys. bind_res (f x) (\<lambda>y. Inr (ys @ [y]))) xs zs = Inr ys \<longleftrightarrow>
      (\<exists>us. ys = zs @ us \<and> list_all2 (\<lambda>x y. f x = Inr y) xs us)" for zs
    by (induction xs arbitrary: zs) (auto simp: result_simps list_all2_Cons1)
  then show ?thesis by (simp add: collect_res_def)
qed

definition header_process_request :: "u64 \<Rightarrow> u64 \<Rightarrow> blockchain \<Rightarrow> block_header_extended list res" where
  "header_process_request blocks_from blocks_to b =
     collect_res (\<lambda>i. header_ex_at i b) (header_range (bc_length b) blocks_from blocks_to)"

text \<open>Blocks are requested in regular order.\<close>

definition block_range :: "u64 \<Rightarrow> u64 \<Rightarrow> u64 \<Rightarrow> u64 list" where
  "block_range len blocks_from blocks_to =
     (let number = len - 1;
          from1 = (if number < blocks_from then number else blocks_from);
          to1 = (if blocks_to < from1 then from1 else blocks_to);
          to2 = (if to1 > from1 + word_of_int BLOCK_TR_LENGTH then from1 + word_of_int BLOCK_TR_LENGTH else to1);
          to3 = (if to2 > number then number else to2)
      in map of_nat [unat from1..<Suc (unat to3)])"

definition block_process_request :: "u64 \<Rightarrow> u64 \<Rightarrow> blockchain \<Rightarrow> signed_block list res" where
  "block_process_request blocks_from blocks_to b =
     collect_res (\<lambda>i. bc_at i b) (block_range (bc_length b) blocks_from blocks_to)"

section \<open>Taking over headers\<close>

text \<open>Headers are kept with the highest number first. True means an error.\<close>

fun check_headers_vector :: "block_header_extended list \<Rightarrow> bool" where
  "check_headers_vector (h # h' # hs) = (check_headers h h' \<or> check_headers_vector (h' # hs))"
| "check_headers_vector _ = False"

definition prev_hash_at :: "blockchain \<Rightarrow> u64 \<Rightarrow> string res" where
  "prev_hash_at b number =
     (if number = bc_length b then Inr (m_last_hash b)
      else if number < bc_length b then bind_res (header_at number b) (\<lambda>h. Inr (prev_hash h))
      else Inr [])"

text \<open>The loop that looks for the last common block: its number, and how many of the headers lie
  above it.\<close>

fun find_common :: "blockchain \<Rightarrow> block_header_extended list \<Rightarrow> nat \<Rightarrow> (u64 \<times> nat) option res" where
  "find_common b [] k = Inr None"
| "find_common b (h # hs) k =
     bind_res (prev_hash_at b (block_number h)) (\<lambda>p.
       if p \<noteq> [] \<and> p = prev_hash h then Inr (Some (block_number h - 1, Suc k))
       else find_common b hs (Suc k))"

text \<open>What follows from a response: the headers to take over, a request for more, or a peer to be
  dropped without an exception.\<close>

datatype header_step =
    Headers_done "block_header_extended list"
  | Headers_more u64 u64
  | Headers_errored

definition delta_vector_of :: "blockchain \<Rightarrow> u64 \<Rightarrow> block_header_extended list \<Rightarrow> delta_vector res" where
  "delta_vector_of b lcb_index headers =
     (let start = (if lcb_index + 1 \<ge> of_nat DELTA_STEP then lcb_index + 1 - of_nat DELTA_STEP else 0)
      in bind_res (collect_res (\<lambda>i. header_at i b) (map of_nat [unat start..<Suc (unat lcb_index)])) (\<lambda>own.
           Inr (map (\<lambda>h. (delta h, c_const h)) own @ map (\<lambda>h. (delta h, c_const h)) (rev headers))))"

definition join_headers :: "blockchain \<Rightarrow> block_header_extended list \<Rightarrow> header_step res" where
  "join_headers b headers =
     bind_res (find_common b headers 0) (\<lambda>found.
       case found of
         None \<Rightarrow>
           let block_index_from = block_number (last headers) - 1;
               block_index_to = (if block_index_from > HEADER_TR_LENGTH then block_index_from - HEADER_TR_LENGTH else 0)
           in Inr (Headers_more block_index_from block_index_to)
       | Some (lcb_index, k) \<Rightarrow>
           throw_if (lcb_index = -1) (Wrong_data ''this guy is from a different blockchain network'')
             (let kept = take k headers
              in bind_res (header_ex_at lcb_index b) (\<lambda>lcb.
                 throw_if (check_headers (last kept) lcb) (Wrong_data ''blockheader response. header check failed!'')
                   (bind_res (delta_vector_of b lcb_index kept) (\<lambda>v.
                    bind_res (check_delta_vector v) (\<lambda>(_, err).
                      throw_if (err \<noteq> []) (Wrong_data err) (Inr (Headers_done kept))))))))"

definition header_process_response ::
  "time \<Rightarrow> blockchain \<Rightarrow> block_header_extended \<Rightarrow> block_header_extended list \<Rightarrow> block_header_extended list
     \<Rightarrow> (header_step \<times> block_header_extended list) res" where
  "header_process_response now b promised_header sync_headers response =
     throw_if (response = []) (Wrong_data ''blockheader response. empty response received!'')
       (let headers = sync_headers @ response
        in if hd headers \<noteq> promised_header then Inr (Headers_errored, headers)
           else throw_if (block_number (hd headers) \<noteq> block_number (last headers) + of_nat (length headers) - 1
                          \<or> block_number (hd headers) < block_number (last headers))
                  (Wrong_data ''blockheader response. wrong data received!'')
                (throw_if (time_signed (hd headers) > now + NODES_TIME_SHIFT)
                  (Wrong_data ''blockheader response. block from future received!'')
                (throw_if (check_headers_vector headers) (Wrong_data ''blockheader response. wrong data in response!'')
                (bind_res (join_headers b headers) (\<lambda>step. Inr (step, headers))))))"

end
