(* ===== verification/Block_Import.thy ===== *)
theory Block_Import
  imports Block_Sync
begin

text \<open>
  \<open>session_action_block::process_response\<close> of libblockchain/sessions.cpp: received blocks are
  checked against the headers that were agreed on, then the node reverts its pool and its own
  blocks above the last common one, applies the received blocks and puts the transactions that
  fell out back into the pool. Everything after the first change runs under a guard that discards
  what is not saved.
\<close>

section \<open>Checking received blocks\<close>

definition check_received_block ::
  "ext \<Rightarrow> node \<Rightarrow> block_header_extended \<times> signed_block \<Rightarrow> unit res" where
  "check_received_block E n hb =
     (case hb of (header_ex, sb) \<Rightarrow>
        let bl = block_details sb; signer = at_address (authorization sb)
        in throw_if (BLOCK_MAX_TRANSACTIONS < length (signed_transactions bl))
             (Wrong_data ''blockchain response. block max transactions count!'')
           (check_public_key E signer
           (throw_if (\<not> x_signature_ok E signer (x_block_string E bl) (at_signature (authorization sb)))
             (Wrong_data ''blockchain response. block signature!'')
           (throw_if (block_header.truncate header_ex \<noteq> header bl \<or> block_hash header_ex \<noteq> block_hash_of E bl)
             (Wrong_data ''blockchain response. block header!'')
           (fold_res (\<lambda>st _. bind_res (signed_transaction_validate E st (time_signed (header bl)) 0)
                               (\<lambda>_. action_validate E n st True)) (signed_transactions bl) ())))))"

text \<open>The state of the session: the headers that were agreed on, the highest first, and the
  blocks received so far, the lowest first.\<close>

record block_session =
  sync_headers :: "block_header_extended list"
  sync_blocks :: "signed_block list"

definition expected_prev_hash :: "ext \<Rightarrow> blockchain \<Rightarrow> block_session \<Rightarrow> string res" where
  "expected_prev_hash E b s =
     (let bn = block_number (last (sync_headers s))
      in if sync_blocks s = []
         then if bn = bc_length b then Inr (m_last_hash b)
              else bind_res (header_at bn b) (\<lambda>h. Inr (prev_hash h))
         else Inr (block_hash_of E (block_details (last (sync_blocks s)))))"

text \<open>The headers that belong to the blocks still to come.\<close>

definition next_headers :: "block_session \<Rightarrow> block_header_extended list" where
  "next_headers s = drop (length (sync_blocks s)) (rev (sync_headers s))"

definition receive_blocks :: "ext \<Rightarrow> node \<Rightarrow> signed_block list \<Rightarrow> block_session \<Rightarrow> block_session res" where
  "receive_blocks E n response s =
     throw_if (response = []) (Wrong_data ''blockchain response. empty response received!'')
     (throw_if (length (sync_headers s) < length response + length (sync_blocks s))
        (Wrong_data ''blockchain response. more than expected blocks received'')
     (let bn = block_number (last (sync_headers s)) in
      throw_if (bn = 0)
        (Logic_error ''block_number == 0 - sync headers action must take care of this, the program will stop because of this'')
     (throw_if (bn > bc_length (m_blockchain n))
        (Logic_error ''block_number > pimpl->m_blockchain.length() - sync headers action must take care of this, the program will stop because of this'')
     (bind_res (expected_prev_hash E (m_blockchain n) s) (\<lambda>p.
      throw_if (prev_hash (hd (next_headers s)) \<noteq> p) (Wrong_data ''blockchain response. previous hash!'')
     (bind_res (fold_res (\<lambda>hb _. check_received_block E n hb) (zip (next_headers s) response) ()) (\<lambda>_.
        Inr (s\<lparr>sync_blocks := sync_blocks s @ response\<rparr>))))))))"

text \<open>A single block against the own last one: the own block stays if its miner has at least the
  balance of the other and both sums of deltas are the same.\<close>

definition keep_own_block :: "block_session \<Rightarrow> node \<Rightarrow> bool res" where
  "keep_own_block s n =
     (let len = bc_length (m_blockchain n); lcb_number = block_number (last (sync_headers s)) - 1
      in if length (sync_blocks s) = 1 \<and> lcb_number = len - 2
         then bind_res (bc_at (len - 1) (m_blockchain n)) (\<lambda>inserted_block.
              bind_res (get_miner inserted_block) (\<lambda>inserted_miner.
              bind_res (get_miner (last (sync_blocks s))) (\<lambda>received_miner.
              bind_res (coin_of (get_balance inserted_miner Layer_pool (m_state n))) (\<lambda>inserted_balance.
              bind_res (coin_of (get_balance received_miner Layer_pool (m_state n))) (\<lambda>received_balance.
                Inr (coin_ge inserted_balance received_balance
                     \<and> c_sum (header (block_details inserted_block))
                       = c_sum (header (block_details (last (sync_blocks s))))))))))
         else Inr False)"

section \<open>Money and transactions of a block\<close>

definition credit_reward :: "reward \<Rightarrow> node \<Rightarrow> node res" where
  "credit_reward r n = credit (rw_to r) (rw_amount r) Layer_chain n"

definition debit_reward :: "reward \<Rightarrow> node \<Rightarrow> node res" where
  "debit_reward r n = debit (rw_to r) (rw_amount r) Layer_chain n"

text \<open>A transaction of a block enters the cache and the ledger; transactions come in the order of
  their creation.\<close>

definition apply_block_transaction ::
  "ext \<Rightarrow> block \<Rightarrow> string \<Rightarrow> signed_transaction \<Rightarrow> time \<times> node \<Rightarrow> (time \<times> node) res" where
  "apply_block_transaction E bl miner st acc =
     (case acc of (prev_transaction_time, n) \<Rightarrow>
        let (added, c) = add_chain E st (m_transaction_cache n)
        in throw_if (\<not> added) (Wrong_data ''blockchain response. transaction double use!'')
          (bind_res (apply_transaction E st miner (n\<lparr>m_transaction_cache := c\<rparr>)) (\<lambda>(applied, n').
             throw_if (\<not> applied) (Wrong_data (''blockchain response. apply_transaction(). '' @ x_block_string E bl))
             (throw_if (prev_transaction_time > tx_creation (transaction_details st))
                (Wrong_data ''blockchain response. transaction time sorting!'')
                (Inr (tx_creation (transaction_details st), n'))))))"

definition revert_block_transaction :: "ext \<Rightarrow> string \<Rightarrow> signed_transaction \<Rightarrow> node \<Rightarrow> node res" where
  "revert_block_transaction E miner st n =
     bind_res (revert_transaction E st miner n) (\<lambda>n'. Inr (cache_update (erase_chain E st) n'))"

section \<open>Reverting and applying a block\<close>

definition block_count_per_transaction_lifetime :: nat where
  "block_count_per_transaction_lifetime = 144"

text \<open>Blocks of a day ago come back into the cache when younger ones leave it.\<close>

definition cache_old_block :: "ext \<Rightarrow> nat \<Rightarrow> node \<Rightarrow> node res" where
  "cache_old_block E index n =
     (if block_count_per_transaction_lifetime \<le> index
      then bind_res (bc_at (of_nat (index - block_count_per_transaction_lifetime)) (m_blockchain n)) (\<lambda>sb.
             Inr (cache_update (\<lambda>c. fold (\<lambda>st c. snd (add_chain E st c))
                                      (signed_transactions (block_details sb)) c) n))
      else Inr n)"

definition revert_block :: "ext \<Rightarrow> nat \<Rightarrow> node \<Rightarrow> node res" where
  "revert_block E index n =
     bind_res (bc_at (of_nat index) (m_blockchain n)) (\<lambda>sb.
     bind_res (remove_last_block E (m_blockchain n)) (\<lambda>b.
     bind_res (al_revert (m_action_log n)) (\<lambda>l.
     bind_res (get_miner sb) (\<lambda>miner.
     bind_res (check_rewards E (block_details sb) miner Set_used_revert (n\<lparr>m_blockchain := b, m_action_log := l\<rparr>)) (\<lambda>(wrong, _, n1).
       throw_if wrong (Wrong_data (''block response - '' @ to_string_u64 (block_number (header (block_details sb)))
                                   @ ''. block rewards reverting error!''))
       (bind_res (fold_res debit_reward (rev (rewards (block_details sb))) n1) (\<lambda>n2.
        bind_res (fold_res (revert_block_transaction E miner) (rev (signed_transactions (block_details sb))) n2) (\<lambda>n3.
        bind_res (check_authority miner (at_address (authorization sb)) (x_rtt E K_Block) (m_authority_manager n3)) (\<lambda>ok.
          throw_if (\<not> ok) (Logic_error ''session_action_block::process_response: false == pimpl->m_authority_manager.check_miner_authority(signed_block_miner_address, signed_block_miner_authority)'')
            (cache_old_block E index n3))))))))))"

text \<open>Whether a block may be mined by its miner on top of the chain.\<close>

definition check_block_miner :: "ext \<Rightarrow> signed_block \<Rightarrow> u64 \<Rightarrow> string \<Rightarrow> node \<Rightarrow> unit res" where
  "check_block_miner E sb cc miner n =
     (let bl = block_details sb; auth = at_address (authorization sb); amount = get_balance miner Layer_pool (m_state n)
      in bind_res (calc_delta E miner (whole amount) (prev_hash (header bl)) cc) (\<lambda>d.
         throw_if (d \<noteq> delta (header bl)) (Wrong_data ''blockchain response. consensus delta!'')
        (bind_res (coin_of amount) (\<lambda>balance.
         throw_if (balance < m_mine_amount_threshhold n) (Wrong_data ''blockchain response. miner balance!'')
        (bind_res (check_authority miner auth (x_rtt E K_Block) (m_authority_manager n)) (\<lambda>ok.
         throw_if (\<not> ok) (Wrong_data (''blockchain response. miner:'' @ miner @ '', authority: '' @ auth))
        (throw_if (case get_role miner (m_state n) of None \<Rightarrow> False | Some nt \<Rightarrow> nt \<noteq> NT_blockchain)
           (Wrong_data ''blockchain response. node type!'') (Inr ()))))))))"

definition apply_block :: "ext \<Rightarrow> signed_block \<Rightarrow> u64 \<times> node \<Rightarrow> (u64 \<times> node) res" where
  "apply_block E sb acc =
     (case acc of (cc, n) \<Rightarrow>
        let bl = block_details sb
        in bind_res (get_miner sb) (\<lambda>miner.
           bind_res (check_block_miner E sb cc miner n) (\<lambda>_.
           bind_res (fold_res (apply_block_transaction E bl miner) (signed_transactions bl) (0, n)) (\<lambda>(_, n1).
           bind_res (check_rewards E bl miner Set_used_apply n1) (\<lambda>(wrong, g, n2).
             throw_if wrong (Wrong_data (''block response - '' @ to_string_u64 (block_number (header bl)) @ ''. block rewards!''))
             (bind_res (fold_res credit_reward (rewards bl) n2) (\<lambda>n3.
              bind_res (insert_block E sb (m_blockchain n3)) (\<lambda>b.
              bind_res (log_block E sb (gr_views g) (gr_applied g) (m_action_log n3)) (\<lambda>l.
                Inr (c_const (header bl), n3\<lparr>m_blockchain := b, m_action_log := l\<rparr>))))))))))"

section \<open>Back into the pool\<close>

text \<open>A transaction that fell out of the chain counts as complete; one from the pool is asked.\<close>

definition readd_transaction ::
  "ext \<Rightarrow> time \<Rightarrow> bool \<times> signed_transaction \<Rightarrow> node \<Rightarrow> node res" where
  "readd_transaction E now cst n =
     (case cst of (from_chain, st) \<Rightarrow>
        let a = tx_action (transaction_details st)
        in bind_res (if from_chain then Inr True else action_is_complete n st) (\<lambda>complete.
           if now - NODES_TIME_SHIFT \<le> tx_expiry (transaction_details st) \<and> \<not> cache_contains E st (m_transaction_cache n)
           then bind_res (if complete then Inr True
                          else bind_res (action_can_apply E st a Layer_pool n) (\<lambda>ok. Inr (\<not> ok))) (\<lambda>enter.
                bind_res (if enter
                          then bind_res (apply_transaction E st [] n) (\<lambda>(ok_logic, n1).
                                 Inr (ok_logic, if ok_logic then n1\<lparr>m_action_log := log_transaction E st (m_action_log n1)\<rparr> else n1))
                          else Inr (True, n)) (\<lambda>(ok_logic, n1).
                  Inr (if ok_logic
                       then cache_update (\<lambda>c. snd (add_pool E st complete c))
                              (n1\<lparr>m_transaction_pool := m_transaction_pool n1 @ [st]\<rparr>)
                       else n1)))
           else Inr n))"

section \<open>Importing the blocks of a session\<close>

definition blocks_above :: "u64 \<Rightarrow> u64 \<Rightarrow> nat list" where
  "blocks_above lcb_number len = [Suc (unat lcb_number)..<unat len]"

text \<open>What runs under the guard, up to the saving.\<close>

definition import_blocks :: "ext \<Rightarrow> time \<Rightarrow> block_session \<Rightarrow> node \<Rightarrow> node res" where
  "import_blocks E now s n =
     (let len = bc_length (m_blockchain n);
          lcb_number = block_number (last (sync_headers s)) - 1;
          clear_pool = (length (sync_blocks s) < length (sync_headers s))
      in bind_res (collect_res (\<lambda>i. bc_at (of_nat i) (m_blockchain n)) (blocks_above lcb_number len)) (\<lambda>own_blocks.
         let reverted = concat (map (signed_transactions \<circ> block_details) own_blocks)
         in bind_res (revert_pool E now n) (\<lambda>(pool_transactions, n1).
            bind_res (fold_res (revert_block E) (rev (blocks_above lcb_number len)) n1) (\<lambda>n2.
            bind_res (header_at lcb_number (m_blockchain n2)) (\<lambda>prev_header.
              throw_if (length (sync_blocks s) = 1
                        \<and> check_service_statistics (block_details (hd (sync_blocks s))) pool_transactions reverted n2)
                (Wrong_data ''blockchain response. block service statistics!'')
              (bind_res (fold_res (apply_block E) (sync_blocks s) (c_const prev_header, n2)) (\<lambda>(_, n3).
                 if bc_length (m_blockchain n3) < m_freeze_before_block n3
                 then fold_res (readd_transaction E now)
                        (map (Pair True) reverted @ (if clear_pool then [] else map (Pair False) pool_transactions)) n3
                 else Inr n3)))))))"

text \<open>What follows: a request for more blocks, or the end of the session; a rejected block also
  ends it.\<close>

datatype block_step = Blocks_more u64 u64 | Blocks_done

definition announce_statistics :: "node \<Rightarrow> node" where
  "announce_statistics n =
     (if cf_node_type (pconfig n) = NT_channel \<or> cf_node_type (pconfig n) = NT_storage
      then n\<lparr>m_service_statistics_broadcast_triggered := True\<rparr> else n)"

definition finish_import :: "block_session \<Rightarrow> node \<Rightarrow> (block_step \<times> block_session) res \<times> node" where
  "finish_import s n =
     (if length (sync_blocks s) < length (sync_headers s)
      then let s' = \<lparr> sync_headers = take (length (sync_headers s) - length (sync_blocks s)) (sync_headers s), sync_blocks = [] \<rparr>
           in (Inr (Blocks_more (block_number (last (sync_headers s'))) (block_number (hd (sync_headers s'))), s'), n)
      else (Inr (Blocks_done, s), announce_statistics n))"

text \<open>Blocks are taken off and put on in place: the stores, the cache and the orders of the storage
  controller at the moment of an exception are an argument (see \<open>half_changed\<close>), the chain included; a controller that is not enabled does
  nothing. The guard discards what is not saved.\<close>

definition chain_half_changed :: "ledger \<times> cache_data \<times> (string \<rightharpoonup> string) \<Rightarrow> node \<Rightarrow> node" where
  "chain_half_changed thrown n =
     (let (l, d, requests) = thrown; m = half_changed (l, d) n
      in m\<lparr>m_blockchain := m_blockchain l, m_storage_controller := (m_storage_controller n)\<lparr>sc_requests :=
             if sc_enabled (m_storage_controller n) then requests else sc_requests (m_storage_controller n)\<rparr>\<rparr>)"

definition chain_rollback :: "ext \<Rightarrow> node \<Rightarrow> node" where
  "chain_rollback E n = cache_update cache_restore (node_discard E (controller_discard n))"

definition block_process_response ::
  "ext \<Rightarrow> time \<Rightarrow> ledger \<times> cache_data \<times> (string \<rightharpoonup> string) \<Rightarrow> signed_block list \<Rightarrow> block_session \<Rightarrow> node \<Rightarrow> (block_step \<times> block_session) res \<times> node" where
  "block_process_response E now thrown response s n =
     (case bind_res (receive_blocks E n response s) (\<lambda>s'.
             if length (sync_blocks s') < BLOCK_INSERT_LENGTH \<and> length (sync_blocks s') < length (sync_headers s')
             then Inr (s', Some (Blocks_more (block_number (hd (next_headers s'))) (block_number (hd (sync_headers s')))))
             else bind_res (keep_own_block s' n) (\<lambda>keep. Inr (s', if keep then Some Blocks_done else None))) of
        Inl e \<Rightarrow> (Inl e, n)
      | Inr (s', Some step) \<Rightarrow> (Inr (step, s'), n)
      | Inr (s', None) \<Rightarrow>
          let n1 = cache_update cache_backup_now n
          in case import_blocks E now s' n1 of
               Inl e \<Rightarrow> (Inl e, chain_rollback E (chain_half_changed thrown n1))
             | Inr n2 \<Rightarrow> finish_import s' (node_save (controller_save n2)))"

end
