(* ===== verification/Block_Properties.thy ===== *)
theory Block_Properties
  imports Node_Properties Block_Import
begin

text \<open>
  What the loops over a block promise: transactions and rewards are applied in the order of the
  block and reverted in the opposite order, and that restores the node.
\<close>

section \<open>Loops that are undone backwards\<close>

text \<open>The contract of a loop whose steps are undone one by one: \<open>ok xs s\<close> says that the steps \<open>xs\<close>
  may be run from the state \<open>s\<close>; \<open>view\<close> is the part of the state that is restored.\<close>

locale undoable =
  fixes step :: "'x \<Rightarrow> 's \<Rightarrow> 's res"
    and undo :: "'x \<Rightarrow> 'n \<Rightarrow> 'n res"
    and view :: "'s \<Rightarrow> 'n"
    and ok :: "'x list \<Rightarrow> 's \<Rightarrow> bool"
  assumes undo_step: "ok (x # xs) s \<Longrightarrow> step x s = Inr t \<Longrightarrow> undo x (view t) = Inr (view s)"
    and ok_step: "ok (x # xs) s \<Longrightarrow> step x s = Inr t \<Longrightarrow> ok xs t"
begin

lemma run_undone:
  assumes "ok xs s" "fold_res step xs s = Inr t"
  shows "fold_res undo (rev xs) (view t) = Inr (view s)" "ok [] t"
  using assms
proof (induction xs arbitrary: s)
  case (Cons x xs)
  case 1
  then obtain u where u: "step x s = Inr u" "fold_res step xs u = Inr t" by (auto simp: result_simps)
  have "fold_res undo (rev xs) (view t) = Inr (view u)" "undo x (view u) = Inr (view s)"
    using u 1 Cons.IH(1) ok_step undo_step by blast+
  then show ?case by (simp add: fold_res_append)
next
  case (Cons x xs)
  case 2
  then obtain u where "step x s = Inr u" "fold_res step xs u = Inr t" by (auto simp: result_simps)
  then show ?case using 2 Cons.IH(2) ok_step by blast
qed simp_all

end

section \<open>Rewards\<close>

definition rewards_fit :: "reward list \<Rightarrow> node \<Rightarrow> bool" where
  "rewards_fit rs n \<longleftrightarrow> node_money_ok Layer_chain n
     \<and> 2 * (total_supply (m_state n) + reward_sum rs) < val_limit"

lemma half_less: "2 * (a + b + c) < (L :: nat) \<Longrightarrow> a + b < L"
  by (rule le_less_trans [of _ "2 * (a + b + c)"]) simp_all

lemma credit_reward_spec:
  assumes fit: "rewards_fit (r # rs) n" and cr: "credit_reward r n = Inr n'"
  shows "n' = n\<lparr>m_state := m_state n'\<rparr>" "rewards_fit rs n'" "debit_reward r n' = Inr n"
    "total_supply (m_state n') = total_supply (m_state n) + coin_val (rw_amount r)"
    "\<And>k. coin_val (get_balance k Layer_pool (m_state n')) =
        coin_val (get_balance k Layer_pool (m_state n)) + (if k = rw_to r then coin_val (rw_amount r) else 0)"
proof -
  let ?own = "own_address n"
  obtain s where s: "coin_ok (rw_amount r)" "increase_balance ?own (rw_to r) (rw_amount r) Layer_chain (m_state n) = Inr s"
    "n' = n\<lparr>m_state := s\<rparr>"
    using cr by (auto simp: credit_reward_def credit_Inr)
  have wf: "layer_wf ?own Layer_chain (m_state n)" "2 * (total_supply (m_state n) + coin_val (rw_amount r) + reward_sum rs) < val_limit"
    using fit by (simp_all add: rewards_fit_def node_money_ok_def money_ok_def add.assoc)
  have lim: "coin_val (get_balance (rw_to r) Layer_pool (m_state n)) + coin_val (rw_amount r) < val_limit"
    by (rule le_less_trans [OF _ half_less]) (use ledger.bal_le_total [OF wf(1), of "rw_to r"] wf(2) in simp_all)
  note i = ledger.inc_spec [OF wf(1) s(1) lim s(2)]
  show "n' = n\<lparr>m_state := m_state n'\<rparr>" using s(3) by simp
  show "total_supply (m_state n') = total_supply (m_state n) + coin_val (rw_amount r)" using s(3) i(2) by simp
  show "coin_val (get_balance k Layer_pool (m_state n')) =
        coin_val (get_balance k Layer_pool (m_state n)) + (if k = rw_to r then coin_val (rw_amount r) else 0)" for k
    using s(3) i(3) by simp
  show "rewards_fit rs n'"
    using s(3) i(1,2) wf(2) by (simp add: rewards_fit_def node_money_ok_def money_ok_def own_address_def)
  have "decrease_balance ?own (rw_to r) (rw_amount r) Layer_chain s = Inr (m_state n)"
    by (rule ledger.inc_dec [OF wf(1) s(1) lim s(2)])
  then show "debit_reward r n' = Inr n" using s(1,3) by (simp add: debit_reward_def debit_Inr own_address_def)
qed

interpretation rewards: undoable credit_reward debit_reward "\<lambda>n. n" rewards_fit
  by unfold_locales (use credit_reward_spec in blast)+

definition rewards_to :: "string \<Rightarrow> reward list \<Rightarrow> nat" where
  "rewards_to k rs = reward_sum (filter (\<lambda>r. rw_to r = k) rs)"

lemma credit_rewards_spec:
  assumes "rewards_fit rs n" "fold_res credit_reward rs n = Inr n'"
  shows "n' = n\<lparr>m_state := m_state n'\<rparr> \<and> total_supply (m_state n') = total_supply (m_state n) + reward_sum rs
    \<and> (\<forall>k. coin_val (get_balance k Layer_pool (m_state n')) = coin_val (get_balance k Layer_pool (m_state n)) + rewards_to k rs)"
  using assms
proof (induction rs arbitrary: n)
  case (Cons r rs)
  then obtain m where m: "credit_reward r n = Inr m" "fold_res credit_reward rs m = Inr n'" by (auto simp: result_simps)
  note s = credit_reward_spec [OF Cons.prems(1) m(1)]
  have IH: "n' = m\<lparr>m_state := m_state n'\<rparr>" "total_supply (m_state n') = total_supply (m_state m) + reward_sum rs"
    "\<forall>k. coin_val (get_balance k Layer_pool (m_state n')) = coin_val (get_balance k Layer_pool (m_state m)) + rewards_to k rs"
    using Cons.IH [OF s(2) m(2)] by blast+
  have "n' = n\<lparr>m_state := m_state n'\<rparr>" by (subst IH(1), subst s(1)) simp
  then show ?case using IH(2,3) s(4,5) by (simp add: rewards_to_def)
qed (simp add: rewards_to_def)

lemma credit_rewards_succeed:
  assumes "rewards_fit rs n" "\<forall>r \<in> set rs. coin_ok (rw_amount r)"
  shows "\<exists>n'. fold_res credit_reward rs n = Inr n'"
  using assms
proof (induction rs arbitrary: n)
  case (Cons r rs)
  have "layer_wf (own_address n) Layer_chain (m_state n)"
    using Cons.prems(1) by (simp add: rewards_fit_def node_money_ok_def money_ok_def)
  then obtain m where m: "credit_reward r n = Inr m"
    using Cons.prems(2) by (auto simp: credit_reward_def credit_Inr increase_balance_eq)
  then show ?case using Cons.IH [of m] Cons.prems credit_reward_spec(2) [OF Cons.prems(1) m] by auto
qed simp

section \<open>Transactions\<close>

lemma fee_apply_frame: "fee_apply st key n = Inr n' \<Longrightarrow> n' = n\<lparr>m_state := m_state n'\<rparr>"
  by (auto simp: fee_apply_def result_simps credit_Inr debit_Inr split: if_splits)

lemma apply_transaction_frame:
  assumes "apply_transaction E st key n = Inr (True, n')"
  shows "m_transaction_cache n' = m_transaction_cache n" "m_action_log n' = m_action_log n"
    "m_blockchain n' = m_blockchain n" "m_transaction_pool n' = m_transaction_pool n" "pconfig n' = pconfig n"
proof -
  let ?a = "tx_action (transaction_details st)"
  obtain n1 where n1: "apply_action E st ?a (layer_of key) n = Inr n1" "fee_apply st key n1 = Inr n'"
    using assms by (auto simp: apply_transaction_Inr action_apply_def result_simps)
  have f: "n1 = n\<lparr>m_state := m_state n1, m_documents := m_documents n1, m_authority_manager := m_authority_manager n1,
      m_storage_controller := m_storage_controller n1\<rparr>"
    using apply_action_frame_all [OF n1(1)] by blast
  note g = fee_apply_frame [OF n1(2)]
  show "m_transaction_cache n' = m_transaction_cache n" by (subst g, subst f) simp
  show "m_action_log n' = m_action_log n" by (subst g, subst f) simp
  show "m_blockchain n' = m_blockchain n" by (subst g, subst f) simp
  show "m_transaction_pool n' = m_transaction_pool n" by (subst g, subst f) simp
  show "pconfig n' = pconfig n" by (subst g, subst f) simp
qed

text \<open>A transaction that the cache would still take is one the undo theorem is about; this
  survives other transactions, since equal keys are caught by the cache.\<close>

definition block_txs_ok :: "ext \<Rightarrow> signed_transaction list \<Rightarrow> node \<Rightarrow> bool" where
  "block_txs_ok E sts n \<longleftrightarrow> node_wf Layer_chain n
     \<and> (\<forall>st \<in> set sts. fst (add_chain E st (m_transaction_cache n)) \<longrightarrow> tx_ok E st Layer_chain n)"

lemma node_cache_irrelevant [simp]:
  "node_wf layer (n\<lparr>m_transaction_cache := c\<rparr>) = node_wf layer n"
  "tx_ok E st layer (n\<lparr>m_transaction_cache := c\<rparr>) = tx_ok E st layer n"
  by (simp_all add: node_wf_def node_money_ok_def own_address_def tx_ok_def cong: action.case_cong)

lemma tx_ok_later:
  assumes st: "tx_ok E st Layer_chain n" "tx_ok E st2 Layer_chain n" "tx_key E st2 \<noteq> tx_key E st"
    and ap: "apply_transaction E st key n = Inr (True, n')" "key \<noteq> []"
  shows "tx_ok E st2 Layer_chain n'"
proof -
  let ?a = "tx_action (transaction_details st)"
  obtain n1 where n1: "apply_action E st ?a Layer_chain n = Inr n1" "fee_apply st key n1 = Inr n'"
    using ap by (auto simp: apply_transaction_Inr action_apply_def result_simps layer_of_def)
  have doc: "m_documents n' = m_documents n1" by (subst fee_apply_frame [OF n1(2)]) simp
  have "\<not> (\<exists>c. ?a = CancelSponsorContentUnit c)" using st(1) by (auto simp: tx_ok_def)
  then have "sponsorship_fresh (tx_key E st2) (m_documents n')"
    if "sponsorship_fresh (tx_key E st2) (m_documents n)"
    using apply_action_fresh [OF n1(1) _ that] st(3) doc by simp
  then show ?thesis
    using st(2) apply_transaction_frame(5) [OF ap(1)] by (auto simp: tx_ok_def split: action.splits)
qed

lemma apply_block_transaction_Inr:
  "apply_block_transaction E bl miner st (t, n) = Inr (t', n') \<longleftrightarrow>
     fst (add_chain E st (m_transaction_cache n))
     \<and> apply_transaction E st miner (n\<lparr>m_transaction_cache := snd (add_chain E st (m_transaction_cache n))\<rparr>) = Inr (True, n')
     \<and> t \<le> tx_creation (transaction_details st) \<and> t' = tx_creation (transaction_details st)"
  by (auto simp: apply_block_transaction_def Let_def result_simps not_less split: prod.splits)

lemma block_transaction_step:
  assumes ok: "block_txs_ok E (st # sts) n" and miner: "miner \<noteq> []"
    and ap: "apply_block_transaction E bl miner st (t, n) = Inr (t', n')"
  shows "revert_block_transaction E miner st n' = Inr n" "block_txs_ok E sts n'"
proof -
  let ?c = "snd (add_chain E st (m_transaction_cache n))"
  let ?m = "n\<lparr>m_transaction_cache := ?c\<rparr>"
  have l: "layer_of miner = Layer_chain" using miner by (simp add: layer_of_def)
  have added: "fst (add_chain E st (m_transaction_cache n))" and a: "apply_transaction E st miner ?m = Inr (True, n')"
    using ap by (simp_all add: apply_block_transaction_Inr)
  have txn: "node_wf Layer_chain n" "tx_ok E st Layer_chain n" using ok added by (simp_all add: block_txs_ok_def)
  then have m: "node_wf (layer_of miner) ?m" "tx_ok E st (layer_of miner) ?m" by (simp_all add: l)
  note r = revert_apply_transaction [OF m a]
  have undo: "cache_update (erase_chain E st) ?m = n" using erase_add_chain [OF added] by (simp add: cache_update_def)
  show "revert_block_transaction E miner st n' = Inr n"
    using r by (simp add: revert_block_transaction_def undo)
  have cache: "m_transaction_cache n' = ?c" using apply_transaction_frame(1) [OF a] by simp
  have "tx_ok E st2 Layer_chain n'"
    if st2: "st2 \<in> set sts" "fst (add_chain E st2 (m_transaction_cache n'))" for st2
  proof -
    have free: "fst (add_chain E st2 (m_transaction_cache n))" and other: "tx_key E st2 \<noteq> tx_key E st"
      using st2(2) add_chain_later [OF added] by (simp_all add: cache)
    have "tx_ok E st2 Layer_chain n" using ok st2(1) free by (simp add: block_txs_ok_def)
    then show ?thesis using tx_ok_later [OF _ _ other a miner] m(2) l by simp
  qed
  then show "block_txs_ok E sts n'" using r l by (simp add: block_txs_ok_def)
qed

interpretation block_txs: undoable
    "apply_block_transaction E bl miner" "revert_block_transaction E miner" snd
    "\<lambda>sts s. miner \<noteq> [] \<and> block_txs_ok E sts (snd s)"
    for E bl miner
proof (unfold_locales, goal_cases)
  case (1 st sts s t)
  then show ?case using block_transaction_step(1) by (cases s, cases t) auto
next
  case (2 st sts s t)
  then show ?case using block_transaction_step(2) by (cases s, cases t) auto
qed

section \<open>The properties\<close>

text \<open>C3: the transactions of a block that are applied, with their fees, and reverted from the last to the
  first give back the node and the cache as they were, when every one satisfies \<open>tx_ok\<close>: there is no
  cancellation among them, no sponsorship whose hash is already known, and on a storage node without a manager no
  content, whose files would stay queued. This is asked at the start only: that no two of them are the same
  follows from the cache.\<close>

theorem block_transactions_undone:
  assumes "node_wf Layer_chain n" "\<forall>st \<in> set sts. tx_ok E st Layer_chain n" "miner \<noteq> []"
    and "fold_res (apply_block_transaction E bl miner) sts (t, n) = Inr (t', n')"
  shows "fold_res (revert_block_transaction E miner) (rev sts) n' = Inr n \<and> node_wf Layer_chain n'"
proof -
  have "miner \<noteq> [] \<and> block_txs_ok E sts (snd (t, n))" using assms(1-3) by (simp add: block_txs_ok_def)
  note u = block_txs.run_undone [OF this assms(4)]
  then show ?thesis by (simp add: block_txs_ok_def)
qed

theorem block_transactions_undone_witness:
  "\<exists>t' n'. fold_res (apply_block_transaction sample_ext (block_details (sample_block 1)) ''node'')
       [sample_tx (Transfer sample_transfer)] (0, sample_node) = Inr (t', n')
     \<and> fold_res (revert_block_transaction sample_ext ''node'') (rev [sample_tx (Transfer sample_transfer)]) n' = Inr sample_node"
proof -
  let ?st = "sample_tx (Transfer sample_transfer)" and ?bl = "block_details (sample_block 1)"
  let ?m = "sample_node\<lparr>m_transaction_cache := snd (add_chain sample_ext ?st (m_transaction_cache sample_node))\<rparr>"
  have "signer_ok sample_ext ?st ''alice'' K_Transfer ?m = Inr True"
    using signer_ok_cong [of ?m sample_node] by simp
  moreover have "node_money_ok (layer_of ''node'') ?m"
    using sample_node_money by (simp add: node_money_ok_def own_address_def)
  ultimately obtain n' where "apply_transaction sample_ext ?st ''node'' ?m = Inr (True, n')"
    using sample_transfer_applies [of "''node''" ?m] by auto
  then have "apply_block_transaction sample_ext ?bl ''node'' ?st (0, sample_node) = Inr (1000, n')"
    by (simp add: apply_block_transaction_Inr sample_empty_cache sample_tx_def)
  then have run: "fold_res (apply_block_transaction sample_ext ?bl ''node'') [?st] (0, sample_node) = Inr (1000, n')" by simp
  have "fold_res (revert_block_transaction sample_ext ''node'') (rev [?st]) n' = Inr sample_node"
    using block_transactions_undone [OF _ _ _ run] by simp
  then show ?thesis using run by blast
qed

text \<open>C21: crediting the rewards of a block raises the supply by exactly their sum and each balance
  by exactly the rewards to it, changes nothing else, and debiting them in the opposite order
  gives back the node.\<close>

theorem block_rewards_credited:
  assumes "node_money_ok Layer_chain n" "2 * (total_supply (m_state n) + reward_sum rs) < val_limit"
    and "fold_res credit_reward rs n = Inr n'"
  shows "n' = n\<lparr>m_state := m_state n'\<rparr>
    \<and> total_supply (m_state n') = total_supply (m_state n) + reward_sum rs
    \<and> (\<forall>k. coin_val (get_balance k Layer_pool (m_state n')) = coin_val (get_balance k Layer_pool (m_state n)) + rewards_to k rs)
    \<and> node_money_ok Layer_chain n' \<and> fold_res debit_reward (rev rs) n' = Inr n"
proof -
  have fit: "rewards_fit rs n" using assms(1,2) by (simp add: rewards_fit_def)
  have "rewards_fit [] n'" by (rule rewards.run_undone(2) [OF fit assms(3)])
  then show ?thesis
    using credit_rewards_spec [OF fit assms(3)] rewards.run_undone(1) [OF fit assms(3)]
    by (simp add: rewards_fit_def)
qed

definition sample_rewards :: "reward list" where
  "sample_rewards = [\<lparr> rw_to = ''alice'', rw_amount = Coin 3 0, rw_type = RT_author \<rparr>,
     \<lparr> rw_to = ''node'', rw_amount = Coin 7 99999999, rw_type = RT_miner \<rparr>]"

theorem block_rewards_credited_witness:
  "\<exists>n'. fold_res credit_reward sample_rewards sample_node = Inr n'
     \<and> total_supply (m_state n') = total_supply sample_state + 1099999999
     \<and> fold_res debit_reward (rev sample_rewards) n' = Inr sample_node"
proof -
  have ok: "node_money_ok Layer_chain sample_node"
    "2 * (total_supply (m_state sample_node) + reward_sum sample_rewards) < val_limit"
    by (simp_all add: sample_supply sample_rewards_def coin_val_def)
  then have "rewards_fit sample_rewards sample_node" by (simp add: rewards_fit_def)
  moreover have "\<forall>r \<in> set sample_rewards. coin_ok (rw_amount r)"
    by (simp add: sample_rewards_def coin_ok_def fractions_in_whole_def)
  ultimately obtain n' where n': "fold_res credit_reward sample_rewards sample_node = Inr n'"
    using credit_rewards_succeed by blast
  then show ?thesis
    using block_rewards_credited [OF ok n'] by (simp add: sample_supply sample_rewards_def coin_val_def)
qed

section \<open>Exceptions\<close>

text \<open>Whatever was changed when the exception came, the guard of \<open>process_response\<close> and of \<open>mine_block\<close> takes
  a node with nothing unsaved back to what it was.\<close>

lemma chain_rollback_same_ledger:
  assumes "committed E n" "saved_requests n = sc_requests (m_storage_controller n)" "m_blocks (m_blockchain n) \<noteq> []"
    and n': "n' = chain_rollback E (chain_half_changed thrown (cache_update cache_backup_now n))"
  shows "same_ledger n n' \<and> committed E n' \<and> m_storage_controller n' = m_storage_controller n"
proof -
  have undone: "same_ledger n (chain_rollback E m) \<and> committed E (chain_rollback E m)
      \<and> m_storage_controller (chain_rollback E m) = m_storage_controller n"
    if m: "saved m = saved n" "saved_requests m = saved_requests n"
      "(m_storage_controller m)\<lparr>sc_requests := sc_requests (m_storage_controller n)\<rparr> = m_storage_controller n"
      "\<not> sc_enabled (m_storage_controller n) \<Longrightarrow> m_storage_controller m = m_storage_controller n"
      "cache_backup (m_transaction_cache m) = cache_data (m_transaction_cache n)" for m
  proof -
    have "sc_enabled (m_storage_controller m) = sc_enabled (m_storage_controller n)"
      using arg_cong [OF m(3), of sc_enabled] by simp
    moreover have "update_state E ((m_blockchain m)\<lparr>m_header := m_header (m_blockchain n), m_blocks := m_blocks (m_blockchain n)\<rparr>)
        = m_blockchain n"
      using assms(1,3) by (cases "m_blockchain n", cases "m_blockchain m") (simp add: committed_def update_state_def Let_def)
    ultimately show ?thesis
      using assms(1,2) m by (cases m) (auto simp: committed_def same_ledger_def chain_rollback_def controller_discard_def cache_update_def
          node_discard_def Let_def al_discard_def cache_restore_def)
  qed
  show ?thesis unfolding n'
    by (rule undone) (cases n; simp add: chain_half_changed_def half_changed_def cache_update_def cache_backup_now_def Let_def split_beta)+
qed

lemma failed_import_unchanged:
  assumes "block_process_response E now thrown response s n = (Inl e, n')"
    "committed E n" "saved_requests n = sc_requests (m_storage_controller n)" "m_blocks (m_blockchain n) \<noteq> []"
  shows "same_ledger n n' \<and> committed E n' \<and> m_storage_controller n' = m_storage_controller n"
proof -
  have "same_ledger n n" by (simp add: same_ledger_def)
  then show ?thesis
    using assms(1,2) chain_rollback_same_ledger [OF assms(2-4) refl, of thrown]
    by (auto simp: block_process_response_def finish_import_def Let_def split: sum.splits if_splits option.splits prod.splits)
qed

end
