(* ===== verification/Sync_Properties.thy ===== *)
theory Sync_Properties
  imports Store_Properties Block_Sync
begin

text \<open>
  What the exchange of headers and blocks promises: answers are sections of the own chain of
  bounded length, and headers that are taken over continue the own chain.
\<close>

section \<open>Answers\<close>

lemma collect_res_map:
  assumes "\<And>x. x \<in> set xs \<Longrightarrow> f x = Inr (g x)"
  shows "collect_res f xs = Inr (map g xs)"
proof -
  have "fold_res (\<lambda>x ys. bind_res (f x) (\<lambda>y. Inr (ys @ [y]))) xs zs = Inr (zs @ map g xs)" for zs
    using assms by (induction xs arbitrary: zs) simp_all
  then show ?thesis by (simp add: collect_res_def)
qed

lemma collect_res_of_nat: "collect_res f (map of_nat ks) = collect_res (\<lambda>k. f (of_nat k)) ks"
proof -
  have "fold_res F (map h ks) s = fold_res (\<lambda>k. F (h k)) ks s" for F h s
    by (induction ks arbitrary: s) (auto intro: bind_res_cong)
  then show ?thesis by (simp add: collect_res_def)
qed

lemma header_range_bound:
  assumes "unat len = n" "0 < n"
  obtains i j where "i \<le> j" "j < n" "j - i < 50" "header_range len blocks_from blocks_to = map of_nat (rev [i..<Suc j])"
proof -
  have len: "unat (len - 1) = n - 1" using assms by (simp add: unat_sub word_le_nat_alt)
  define j where "j = (if len - 1 < blocks_from then len - 1 else blocks_from)"
  define t where "t = (if blocks_to > j then j else blocks_to)"
  define i where "i = (if j > HEADER_TR_LENGTH \<and> t < j - HEADER_TR_LENGTH then j - HEADER_TR_LENGTH else t)"
  have j: "unat j < n" using assms len by (auto simp: j_def word_less_nat_alt)
  have t: "unat t \<le> unat j" by (auto simp: t_def word_less_nat_alt)
  have sub: "unat (j - HEADER_TR_LENGTH) = unat j - 49" if "j > HEADER_TR_LENGTH"
    using that by (simp add: HEADER_TR_LENGTH_def word_less_nat_alt unat_sub word_le_nat_alt)
  have gt: "j > HEADER_TR_LENGTH \<longleftrightarrow> 49 < unat j" by (simp add: HEADER_TR_LENGTH_def word_less_nat_alt)
  have i: "unat i \<le> unat j" "unat j - unat i < 50"
    using t sub gt by (auto simp: i_def word_less_nat_alt split: if_splits)
  have "unat (j + 1) = Suc (unat j)"
    using j assms unat_u64_less [of len] by (simp add: unat_word_ariths)
  then have "header_range len blocks_from blocks_to = map of_nat (rev [unat i..<Suc (unat j)])"
    by (simp add: header_range_def Let_def j_def t_def i_def)
  then show ?thesis using that i j by blast
qed

lemma block_range_bound:
  assumes "unat len = n" "0 < n" "n + 10 < 2 ^ 64"
  obtains i j where "i \<le> j" "j < n" "j - i < 10" "block_range len blocks_from blocks_to = map of_nat [i..<Suc j]"
proof -
  define number where "number = len - 1"
  have len: "unat number = n - 1" using assms by (simp add: number_def unat_sub word_le_nat_alt)
  define f where "f = (if number < blocks_from then number else blocks_from)"
  define t1 where "t1 = (if blocks_to < f then f else blocks_to)"
  define t2 where "t2 = (if t1 > f + word_of_int BLOCK_TR_LENGTH then f + word_of_int BLOCK_TR_LENGTH else t1)"
  define t3 where "t3 = (if t2 > number then number else t2)"
  have f: "unat f \<le> n - 1" using len by (auto simp: f_def word_less_nat_alt)
  have sum: "unat (f + word_of_int BLOCK_TR_LENGTH) = unat f + 9"
    using f assms by (simp add: BLOCK_TR_LENGTH_def unat_word_ariths)
  have t1: "unat f \<le> unat t1" by (auto simp: t1_def word_less_nat_alt)
  have t2: "unat f \<le> unat t2 \<and> unat t2 \<le> unat f + 9" using t1 sum by (auto simp: t2_def word_less_nat_alt)
  have t3: "unat f \<le> unat t3 \<and> unat t3 \<le> unat f + 9 \<and> unat t3 \<le> n - 1"
    using t2 f len by (auto simp: t3_def word_less_nat_alt)
  have "block_range len blocks_from blocks_to = map of_nat [unat f..<Suc (unat t3)]"
    by (simp only: block_range_def Let_def number_def f_def t1_def t2_def t3_def)
  then show ?thesis using that [of "unat f" "unat t3"] t3 assms(2) by auto
qed

text \<open>C23: the answer to a request for headers is never an error and is a section of the own chain
  in descending order, of at most 50 headers with their true hashes; the answer to a request for
  blocks is a section in ascending order, of at most 10 blocks.\<close>

theorem answers_are_sections:
  assumes "blockchain_wf E b" "linked E b" "m_blocks b \<noteq> []" "length (m_blocks b) + 10 < 2 ^ 64"
  shows "(\<exists>i j. i \<le> j \<and> j < length (m_blocks b) \<and> j - i < 50 \<and> header_process_request blocks_from blocks_to b =
        Inr (map (\<lambda>k. extend_header (header (block_details (m_blocks b ! k))) (block_hash_of E (block_details (m_blocks b ! k))))
          (rev [i..<Suc j])))
    \<and> (\<exists>i j. i \<le> j \<and> j < length (m_blocks b) \<and> j - i < 10
        \<and> block_process_request blocks_from blocks_to b = Inr (map (\<lambda>k. m_blocks b ! k) [i..<Suc j]))"
proof
  let ?n = "length (m_blocks b)"
  have small: "?n < 2 ^ 64" and n: "0 < ?n" using assms(3,4) by simp_all
  have len: "unat (bc_length b) = ?n" using small by (simp add: bc_length_def unat_of_nat_u64)
  show "\<exists>i j. i \<le> j \<and> j < ?n \<and> j - i < 50 \<and> header_process_request blocks_from blocks_to b =
        Inr (map (\<lambda>k. extend_header (header (block_details (m_blocks b ! k))) (block_hash_of E (block_details (m_blocks b ! k))))
          (rev [i..<Suc j]))"
  proof (rule header_range_bound [OF len n])
    fix i j assume r: "i \<le> j" "j < ?n" "j - i < 50"
      "header_range (bc_length b) blocks_from blocks_to = map of_nat (rev [i..<Suc j])"
    have "header_process_request blocks_from blocks_to b = collect_res (\<lambda>k. header_ex_at (of_nat k) b) (rev [i..<Suc j])"
      by (simp add: header_process_request_def r(4) collect_res_of_nat)
    also have "\<dots> = Inr (map (\<lambda>k. extend_header (header (block_details (m_blocks b ! k))) (block_hash_of E (block_details (m_blocks b ! k))))
          (rev [i..<Suc j]))"
      by (rule collect_res_map) (use r(2) in \<open>auto intro: header_ex_at_wf [OF assms(1,2)]\<close>)
    finally show ?thesis using r(1-3) by blast
  qed
  show "\<exists>i j. i \<le> j \<and> j < ?n \<and> j - i < 10
        \<and> block_process_request blocks_from blocks_to b = Inr (map (\<lambda>k. m_blocks b ! k) [i..<Suc j])"
  proof (rule block_range_bound [OF len n assms(4)])
    fix i j assume r: "i \<le> j" "j < ?n" "j - i < 10"
      "block_range (bc_length b) blocks_from blocks_to = map of_nat [i..<Suc j]"
    have "block_process_request blocks_from blocks_to b = collect_res (\<lambda>k. bc_at (of_nat k) b) [i..<Suc j]"
      by (simp add: block_process_request_def r(4) collect_res_of_nat)
    also have "\<dots> = Inr (map (\<lambda>k. m_blocks b ! k) [i..<Suc j])"
      by (rule collect_res_map) (use r(2) small in \<open>auto simp: bc_at_def unat_of_nat_u64\<close>)
    finally show ?thesis using r(1-3) by blast
  qed
qed

theorem answers_are_sections_witness:
  "\<exists>hs sbs. header_process_request 7 0 sample_chain = Inr hs \<and> block_process_request 7 0 sample_chain = Inr sbs"
proof -
  have "blockchain_wf sample_ext sample_chain" "linked sample_ext sample_chain" "m_blocks sample_chain \<noteq> []"
    "length (m_blocks sample_chain) + 10 < 2 ^ 64"
    by (simp_all, simp_all add: sample_chain_def)
  from answers_are_sections [OF this] show ?thesis by blast
qed

section \<open>Headers that are taken over\<close>

text \<open>The relation \<open>check_headers\<close> asks for between a header and the one below it.\<close>

definition follows :: "block_header_extended \<Rightarrow> block_header_extended \<Rightarrow> bool" where
  "follows h p \<longleftrightarrow> block_number h = block_number p + 1 \<and> prev_hash h = block_hash p
     \<and> c_sum h = delta h + c_sum p \<and> c_sum p < c_sum h \<and> time_signed h = time_signed p + 600
     \<and> (c_const h = c_const p \<or> c_const h = c_const p * 2 \<or> c_const h = c_const p div 2)"

lemma check_headers_follows: "\<not> check_headers h p \<Longrightarrow> follows h p"
  by (auto simp: check_headers_def follows_def not_le)

lemma check_headers_vector_follows:
  "\<not> check_headers_vector hs \<Longrightarrow> Suc i < length hs \<Longrightarrow> follows (hs ! i) (hs ! Suc i)"
proof (induction hs arbitrary: i rule: check_headers_vector.induct)
  case (1 h h' hs)
  then show ?case using check_headers_follows [of h h'] by (cases i) auto
qed simp_all

lemma find_common_Some:
  assumes "find_common b hs k = Inr (Some (lcb, k'))"
  shows "\<exists>j < length hs. k' = Suc (k + j) \<and> lcb = block_number (hs ! j) - 1
    \<and> prev_hash_at b (block_number (hs ! j)) = Inr (prev_hash (hs ! j))"
  using assms
proof (induction hs arbitrary: k)
  case (Cons h hs)
  obtain p where p: "prev_hash_at b (block_number h) = Inr p"
    using Cons.prems by (auto simp: result_simps)
  show ?case
  proof (cases "p \<noteq> [] \<and> p = prev_hash h")
    case True
    then show ?thesis using Cons.prems p by (intro exI [of _ 0]) auto
  next
    case False
    then have "find_common b hs (Suc k) = Inr (Some (lcb, k'))" using Cons.prems p by (auto split: if_splits)
    from Cons.IH [OF this] obtain j where "j < length hs" "k' = Suc (Suc k + j)" "lcb = block_number (hs ! j) - 1"
      "prev_hash_at b (block_number (hs ! j)) = Inr (prev_hash (hs ! j))" by blast
    then show ?thesis by (intro exI [of _ "Suc j"]) simp
  qed
qed simp

text \<open>C19: headers that are taken over start with the header the peer has promised, which is not
  from the future, and each follows the next one; the last of them follows a header of the own
  chain: its number, its previous hash, the sum of the deltas and the time continue it. So they
  promise a larger sum than the own chain has at that block.\<close>

theorem accepted_headers_extend_chain:
  assumes "header_process_response now b promised sync response = Inr (Headers_done kept, headers)"
  shows "\<exists>lcb own. header_ex_at lcb b = Inr own \<and> kept \<noteq> [] \<and> hd kept = promised
    \<and> time_signed promised \<le> now + NODES_TIME_SHIFT
    \<and> (\<forall>i. Suc i < length (kept @ [own]) \<longrightarrow> follows ((kept @ [own]) ! i) ((kept @ [own]) ! Suc i))"
proof -
  let ?hs = "sync @ response"
  have r: "response \<noteq> []" "hd ?hs = promised" "\<not> time_signed (hd ?hs) > now + NODES_TIME_SHIFT"
    "\<not> check_headers_vector ?hs" "join_headers b ?hs = Inr (Headers_done kept)"
    using assms by (auto simp: header_process_response_def Let_def result_simps split: if_splits)
  obtain lcb k own where f: "find_common b ?hs 0 = Inr (Some (lcb, k))" "kept = take k ?hs"
    "header_ex_at lcb b = Inr own" "\<not> check_headers (last kept) own"
    using r(5) by (auto simp: join_headers_def Let_def result_simps split: option.splits prod.splits)
  obtain j where j: "j < length ?hs" "k = Suc j" using find_common_Some [OF f(1)] by auto
  have kept: "kept \<noteq> []" "length kept = Suc j" "hd kept = promised"
    using f(2) j r(1,2) by (auto simp: hd_take min_def simp del: take_append)
  have nth: "kept ! i = ?hs ! i" if "i \<le> j" for i
    using f(2) j that by (simp del: take_append)
  have "follows ((kept @ [own]) ! i) ((kept @ [own]) ! Suc i)" if "Suc i < length (kept @ [own])" for i
  proof (cases "i = j")
    case True
    have "last kept = kept ! j" using kept(1,2) by (simp add: last_conv_nth)
    then show ?thesis using True kept(2) check_headers_follows [OF f(4)] by (simp add: nth_append)
  next
    case False
    then have "Suc i < Suc j" using that kept(2) by simp
    then show ?thesis
      using kept(2) nth [of i] nth [of "Suc i"] check_headers_vector_follows [OF r(4), of i] j(1)
      by (simp add: nth_append del: append_assoc)
  qed
  then show ?thesis using f(3) kept(1,3) r(2,3) by (intro exI [of _ lcb] exI [of _ own]) auto
qed

definition sample_next_header :: block_header_extended where
  "sample_next_header = \<lparr> block_number = 1, delta = 5, c_sum = 6, c_const = 1,
     prev_hash = block_hash_of sample_ext (block_details (sample_block 0)), time_signed = 600, block_hash = ''h'' \<rparr>"

theorem accepted_headers_extend_chain_witness:
  "\<exists>own. follows sample_next_header own"
proof -
  have "header_process_response 600 sample_chain sample_next_header [] [sample_next_header]
    = Inr (Headers_done [sample_next_header], [sample_next_header])"
    by code_simp
  from accepted_headers_extend_chain [OF this] show ?thesis by fastforce
qed

end
