(* ===== verification/Mining.thy ===== *)
theory Mining
  imports Block_Import
begin

text \<open>
  \<open>mine_block\<close> of libblockchain/communication\_p2p.cpp: the header of the next block, the choice of
  its transactions from the reverted pool, its rewards, and the pool after it. The signing key is
  a function \<open>sign\<close> from the text of a block to an authority.
\<close>

section \<open>The header\<close>

definition mine_header :: "ext \<Rightarrow> node \<Rightarrow> block_header res" where
  "mine_header E n =
     (let b = m_blockchain n; number = bc_length b - 1;
          block_index = (if number + 1 \<ge> of_nat DELTA_STEP then number + 1 - of_nat DELTA_STEP else 0)
      in bind_res (collect_res (\<lambda>i. header_at i b) (map of_nat [unat block_index..<Suc (unat number)])) (\<lambda>own.
         bind_res (check_delta_vector (map (\<lambda>h. (delta h, c_const h)) own)) (\<lambda>(calculate_c_const, err).
           throw_if (err \<noteq> []) (Logic_error ''own blockchain is somehow wrong'')
           (bind_res (bc_at number b) (\<lambda>prev_signed_block.
              let prev_header = m_last_header b; hash = block_hash_of E (block_details prev_signed_block)
              in bind_res (calc_delta E (own_address n) (whole (node_get_balance n)) hash (c_const prev_header)) (\<lambda>d.
                   Inr \<lparr> block_number = number + 1, delta = d, c_sum = c_sum prev_header + d, c_const = calculate_c_const,
                         prev_hash = hash, time_signed = time_signed prev_header + int BLOCK_MINE_DELAY \<rparr>))))))"

section \<open>Choosing the transactions\<close>

text \<open>\<open>std::sort\<close> with a comparison by \<open>>\<close>.\<close>

definition sort_desc :: "('a \<Rightarrow> 'k::linorder) \<Rightarrow> 'a list \<Rightarrow> 'a list" where
  "sort_desc key xs = rev (sort_key key (rev xs))"

definition sort_by_creation :: "signed_transaction list \<Rightarrow> signed_transaction list" where
  "sort_by_creation sts = sort_key (\<lambda>st. tx_creation (transaction_details st)) sts"

text \<open>The role of the server whose statistics of the period from \<open>tp_start\<close> to \<open>tp_end\<close> a
  transaction carries.\<close>

definition period_statistics :: "time \<Rightarrow> time \<Rightarrow> node \<Rightarrow> signed_transaction \<Rightarrow> node_type option" where
  "period_statistics tp_start tp_end n st =
     (case tx_action (transaction_details st) of
        ServiceStatistics s \<Rightarrow>
          if ss_start_time_point s = tp_start \<and> ss_end_time_point s = tp_end
          then get_role (ss_server_address s) (m_state n) else None
      | _ \<Rightarrow> None)"

text \<open>At least half of the statistics are taken, the ones with the highest fees; the rest goes back
  to the other transactions.\<close>

fun take_statistics ::
  "nat \<Rightarrow> nat \<Rightarrow> signed_transaction list \<Rightarrow> signed_transaction list \<times> signed_transaction list
     \<Rightarrow> signed_transaction list \<times> signed_transaction list" where
  "take_statistics count index [] acc = acc"
| "take_statistics count index (st # sts) (block_txs, others) =
     (if 2 * index < count + 1 \<and> length block_txs < BLOCK_MAX_TRANSACTIONS
      then take_statistics count (Suc index) sts (block_txs @ [st], others)
      else take_statistics count index sts (block_txs, others @ [st]))"

definition reserve_statistics ::
  "signed_transaction list \<Rightarrow> signed_transaction list \<times> signed_transaction list
     \<Rightarrow> (signed_transaction list \<times> signed_transaction list) res" where
  "reserve_statistics statistics acc =
     bind_res (collect_res (\<lambda>st. bind_res (coin_of (fee_of st)) (\<lambda>fee. Inr (fee, st))) statistics) (\<lambda>with_fee.
       Inr (take_statistics (length statistics) 0 (map snd (sort_desc fst with_fee)) acc))"

text \<open>Incomplete transactions with the same details are joined if their signatures together make
  the transaction complete. The groups are those of an \<open>unordered_map\<close>.\<close>

definition kind_of :: "action \<Rightarrow> kind res" where
  "kind_of a =
     (case a of Transfer _ \<Rightarrow> Inr K_Transfer | AuthorizationUpdate _ \<Rightarrow> Inr K_AuthorizationUpdate | File _ \<Rightarrow> Inr K_File
      | ContentUnit _ \<Rightarrow> Inr K_ContentUnit | Content _ \<Rightarrow> Inr K_Content | Role _ \<Rightarrow> Inr K_Role
      | StorageUpdate _ \<Rightarrow> Inr K_StorageUpdate | ServiceStatistics _ \<Rightarrow> Inr K_ServiceStatistics
      | SponsorContentUnit _ \<Rightarrow> Inr K_SponsorContentUnit | CancelSponsorContentUnit _ \<Rightarrow> Inr K_CancelSponsorContentUnit
      | Other_action _ \<Rightarrow> Inl unknown_action)"

definition split_incomplete ::
  "node \<Rightarrow> signed_transaction list \<Rightarrow> (signed_transaction list \<times> signed_transaction list) res" where
  "split_incomplete n sts =
     fold_res (\<lambda>st (complete, incomplete).
       bind_res (action_is_complete n st) (\<lambda>c.
         Inr (if c then (complete @ [st], incomplete) else (complete, incomplete @ [st])))) sts ([], [])"

text \<open>One signature per owner, none used twice; \<open>None\<close> if an owner has none.\<close>

fun collect_signatures ::
  "ext \<Rightarrow> node \<Rightarrow> u64 \<Rightarrow> (string \<rightharpoonup> string) \<Rightarrow> string list \<Rightarrow> string list \<Rightarrow> string set \<Rightarrow> authority list
     \<Rightarrow> authority list option res" where
  "collect_signatures E n rtt signatures authorities [] used acc = Inr (Some acc)"
| "collect_signatures E n rtt signatures authorities (owner # owners) used acc =
     bind_res (find_authority authorities owner rtt (m_authority_manager n)) (\<lambda>auth.
       case (if auth = [] then None else signatures auth) of
         None \<Rightarrow> Inr None
       | Some sig \<Rightarrow>
           if sig \<in> used then Inr None
           else collect_signatures E n rtt signatures authorities owners (insert sig used)
                  (acc @ [\<lparr> at_address = auth, at_signature = sig \<rparr>]))"

definition join_group ::
  "ext \<Rightarrow> node \<Rightarrow> signed_transaction list \<Rightarrow> signed_transaction list \<times> signed_transaction list
     \<Rightarrow> (signed_transaction list \<times> signed_transaction list) res" where
  "join_group E n stxs acc =
     (case acc of (candidates, pool) \<Rightarrow>
        bind_res (collect_res (\<lambda>st. case authorizations st of [] \<Rightarrow> Inl Undefined_behaviour | a # _ \<Rightarrow> Inr a) stxs) (\<lambda>firsts.
        case stxs of
          [] \<Rightarrow> Inl Undefined_behaviour
        | st # _ \<Rightarrow>
            let signatures = fold (\<lambda>a m. m(at_address a \<mapsto> at_signature a)) firsts Map.empty;
                authorities = x_set_order E (map at_address firsts)
            in bind_res (action_owners st) (\<lambda>owners.
               bind_res (kind_of (tx_action (transaction_details st))) (\<lambda>k.
               bind_res (collect_signatures E n (x_rtt E k) signatures authorities owners {} []) (\<lambda>found.
                 Inr (case found of
                        Some auths \<Rightarrow> (candidates @ [st\<lparr>authorizations := auths\<rparr>], pool)
                      | None \<Rightarrow> (candidates, pool @ stxs)))))))"

definition join_incomplete ::
  "ext \<Rightarrow> node \<Rightarrow> signed_transaction list \<Rightarrow> signed_transaction list \<times> signed_transaction list
     \<Rightarrow> (signed_transaction list \<times> signed_transaction list) res" where
  "join_incomplete E n incomplete acc =
     (let key = (\<lambda>st. x_transaction_string E (transaction_details st))
      in fold_res (\<lambda>k. join_group E n (filter (\<lambda>st. key st = k) incomplete))
           (x_set_order E (map key incomplete)) acc)"

text \<open>Transactions that share a participant, directly or through others, are rated together: the
  breadth-first search for the group of a transaction. The \<open>unordered_set\<close>s of indexes are read in
  ascending order; sizes and sums do not depend on it.\<close>

definition next_indices :: "string list list \<Rightarrow> nat list \<Rightarrow> nat list \<Rightarrow> nat list" where
  "next_indices participants used indices =
     (let names = concat (map ((!) participants) indices)
      in filter (\<lambda>i. i \<notin> set used \<and> (\<exists>p \<in> set (participants ! i). p \<noteq> [] \<and> p \<in> set names)) [0..<length participants])"

function group_of :: "string list list \<Rightarrow> nat list \<Rightarrow> nat list \<Rightarrow> nat list" where
  "group_of participants used indices =
     (if indices = [] then used
      else group_of participants (used @ indices) (next_indices participants (used @ indices) indices))"
  by pat_completeness auto

text \<open>Every round uses up at least one index: the indexes that are still free decrease.\<close>

lemma next_indices_free:
  "set (next_indices ps used is) \<subseteq> {0..<length ps} - set used"
  by (auto simp: next_indices_def Let_def)

lemma diff_psubset: "B \<subseteq> A \<Longrightarrow> B \<noteq> {} \<Longrightarrow> A - B \<subset> A"
  by auto

termination group_of
proof (relation "measure (\<lambda>(ps, used, is). 2 * card ({0..<length ps} - set used - set is) + (if is = [] then 0 else 1))", goal_cases)
  case (2 ps used "is")
  let ?used = "used @ is" and ?next = "next_indices ps (used @ is) is"
  let ?R = "{0..<length ps} - set ?used"
  have R: "{0..<length ps} - set used - set is = ?R" by auto
  have "card (?R - set ?next) < card ?R" if "?next \<noteq> []"
  proof -
    have "set ?next \<subseteq> ?R" by (rule next_indices_free)
    moreover have "set ?next \<noteq> {}" using that by simp
    ultimately have "?R - set ?next \<subset> ?R" by (rule diff_psubset)
    then show ?thesis by (intro psubset_card_mono) simp_all
  qed
  then show ?case using 2 R by simp
qed simp

declare group_of.simps [simp del]

definition share_group ::
  "string list list \<Rightarrow> coin list \<Rightarrow> nat \<Rightarrow> (nat \<times> coin) list \<Rightarrow> (nat \<times> coin) list" where
  "share_group participants fees index infos =
     (if 0 < fst (infos ! index) then infos
      else let g = group_of participants [] [index];
               info = (length g, fold (\<lambda>i v. coin_plus v (fees ! i)) g coin_zero)
           in fold (\<lambda>i infos. infos[i := info]) g infos)"

definition rate_transactions :: "signed_transaction list \<Rightarrow> (coin \<times> signed_transaction) list res" where
  "rate_transactions sts =
     bind_res (collect_res action_participants sts) (\<lambda>participants.
     bind_res (collect_res (\<lambda>st. coin_of (fee_of st)) sts) (\<lambda>fees.
       let infos = fold (share_group participants fees) [0..<length sts] (replicate (length sts) (0, coin_zero))
       in bind_res (collect_res (\<lambda>(size, value). coin_div value (of_nat size)) infos) (\<lambda>rates. Inr (zip rates sts))))"

definition fill_block ::
  "time \<Rightarrow> time \<Rightarrow> signed_transaction \<Rightarrow> signed_transaction list \<times> signed_transaction list
     \<Rightarrow> signed_transaction list \<times> signed_transaction list" where
  "fill_block tp_start tp_end st acc =
     (case acc of (block_txs, pool) \<Rightarrow>
        let can_put_in_block =
              (case tx_action (transaction_details st) of
                 ServiceStatistics s \<Rightarrow> ss_start_time_point s = tp_start \<and> ss_end_time_point s = tp_end
               | _ \<Rightarrow> True)
        in if length block_txs < BLOCK_MAX_TRANSACTIONS \<and> can_put_in_block
           then (block_txs @ [st], pool) else (block_txs, pool @ [st]))"

text \<open>The whole choice: the candidates for the block in the order of their creation, and what stays
  in the pool.\<close>

definition choose_transactions ::
  "ext \<Rightarrow> block_header \<Rightarrow> time \<Rightarrow> signed_transaction list \<Rightarrow> node
     \<Rightarrow> (signed_transaction list \<times> signed_transaction list) res" where
  "choose_transactions E h prev_time reverted n =
     (let tp_end = prev_time; tp_start = tp_end - int BLOCK_MINE_DELAY;
          too_new = (\<lambda>st. tx_creation (transaction_details st) \<ge> time_signed h);
          early = filter (\<lambda>st. \<not> too_new st) reverted;
          statistics = (\<lambda>P. filter (\<lambda>st. case period_statistics tp_start tp_end n st of None \<Rightarrow> False | Some nt \<Rightarrow> P nt) early);
          others = filter (\<lambda>st. period_statistics tp_start tp_end n st = None) early
      in bind_res (reserve_statistics (statistics (\<lambda>nt. nt = NT_channel)) ([], others)) (\<lambda>acc1.
         bind_res (reserve_statistics (statistics (\<lambda>nt. nt \<noteq> NT_channel)) acc1) (\<lambda>(block_txs, candidates).
         bind_res (split_incomplete n candidates) (\<lambda>(complete, incomplete).
         bind_res (join_incomplete E n incomplete (complete, filter too_new reverted)) (\<lambda>(candidates', pool).
         bind_res (rate_transactions candidates') (\<lambda>rated.
           let (chosen, pool') = fold (fill_block tp_start tp_end) (map snd (sort_desc fst rated)) (block_txs, pool)
           in Inr (sort_by_creation chosen, pool')))))))"

section \<open>The block\<close>

definition put_in_block ::
  "ext \<Rightarrow> string \<Rightarrow> signed_transaction \<Rightarrow> signed_transaction list \<times> signed_transaction list \<times> node
     \<Rightarrow> (signed_transaction list \<times> signed_transaction list \<times> node) res" where
  "put_in_block E miner st acc =
     (case acc of (block_txs, pool, n) \<Rightarrow>
        let (chain_added, c) = add_chain E st (m_transaction_cache n)
        in if \<not> chain_added then Inr (block_txs, pool @ [st], n)
           else bind_res (apply_transaction E st miner (n\<lparr>m_transaction_cache := c\<rparr>)) (\<lambda>(applied, n').
                  Inr (if applied then (block_txs @ [st], pool, n')
                       else (block_txs, pool @ [st], cache_update (erase_chain E st) n'))))"

definition back_to_pool :: "ext \<Rightarrow> signed_transaction \<Rightarrow> node \<Rightarrow> node res" where
  "back_to_pool E st n =
     bind_res (action_is_complete n st) (\<lambda>complete.
     bind_res (if complete then Inr True
               else bind_res (action_can_apply E st (tx_action (transaction_details st)) Layer_pool n) (\<lambda>ok. Inr (\<not> ok))) (\<lambda>enter.
     bind_res (if enter
               then bind_res (apply_transaction E st [] n) (\<lambda>(ok_logic, n1).
                      Inr (ok_logic, if ok_logic then n1\<lparr>m_action_log := log_transaction E st (m_action_log n1)\<rparr> else n1))
               else Inr (True, n)) (\<lambda>(ok_logic, n1).
       Inr (if ok_logic
            then cache_update (\<lambda>c. snd (add_pool E st complete c)) (n1\<lparr>m_transaction_pool := m_transaction_pool n1 @ [st]\<rparr>)
            else n1))))"

text \<open>The block on top of a node whose pool has been reverted, and the node with it.\<close>

definition build_block ::
  "ext \<Rightarrow> (string \<Rightarrow> authority) \<Rightarrow> block_header \<Rightarrow> signed_transaction list \<Rightarrow> node
     \<Rightarrow> (signed_block \<times> signed_transaction list \<times> node) res" where
  "build_block E sign h block_transactions n =
     (let miner = own_address n
      in bind_res (fold_res (put_in_block E miner) block_transactions ([], [], n)) (\<lambda>(sts, refused, n1).
         bind_res (grant_rewards E sts miner h Set_used_apply n1) (\<lambda>(g, n2).
           let bl = \<lparr> header = h, rewards = gr_rewards g, signed_transactions = sts \<rparr>;
               sb = \<lparr> block_details = bl, authorization = sign (x_block_string E bl) \<rparr>
           in bind_res (fold_res credit_reward (gr_rewards g) n2) (\<lambda>n3.
              bind_res (insert_block E sb (m_blockchain n3)) (\<lambda>b.
              bind_res (log_block E sb (gr_views g) (gr_applied g) (m_action_log n3)) (\<lambda>l.
                Inr (sb, refused, n3\<lparr>m_blockchain := b, m_action_log := l\<rparr>)))))))"

definition mine_unguarded :: "ext \<Rightarrow> (string \<Rightarrow> authority) \<Rightarrow> node \<Rightarrow> (signed_block \<times> node) res" where
  "mine_unguarded E sign n =
     bind_res (mine_header E n) (\<lambda>h.
     bind_res (revert_pool E (time_signed h) n) (\<lambda>(reverted, n1).
     bind_res (choose_transactions E h (time_signed (m_last_header (m_blockchain n))) reverted n1) (\<lambda>(block_transactions, pool).
     bind_res (build_block E sign h block_transactions n1) (\<lambda>(sb, refused, n2).
     bind_res (fold_res (back_to_pool E) (sort_by_creation (pool @ refused)) n2) (\<lambda>n3. Inr (sb, n3))))))"

definition mine_block ::
  "ext \<Rightarrow> (string \<Rightarrow> authority) \<Rightarrow> ledger \<times> cache_data \<times> (string \<rightharpoonup> string) \<Rightarrow> node \<Rightarrow> signed_block res \<times> node" where
  "mine_block E sign thrown n =
     (let n1 = cache_update cache_backup_now n
      in case mine_unguarded E sign n1 of
           Inl e \<Rightarrow> (Inl e, chain_rollback E (chain_half_changed thrown n1))
         | Inr (sb, n2) \<Rightarrow> (Inr sb, node_save (controller_save n2)))"

end
