(* ===== verification/Mining_Properties.thy ===== *)
theory Mining_Properties
  imports Block_Properties Sync_Properties Mining
begin

text \<open>
  What mining promises: the block a node builds is one that any node in the same state accepts,
  its header continues the chain, and transactions are rated by the groups they form.
\<close>

section \<open>A mined block is accepted\<close>

lemma put_in_block_cases:
  assumes ok: "block_txs_ok E (st # sts) n" and miner: "miner \<noteq> []"
    and put: "put_in_block E miner st (block_txs, pool, n) = Inr (block_txs', pool', n')"
  shows "(block_txs' = block_txs \<and> n' = n)
    \<or> (block_txs' = block_txs @ [st] \<and> (\<forall>bl t. t \<le> tx_creation (transaction_details st) \<longrightarrow>
         apply_block_transaction E bl miner st (t, n) = Inr (tx_creation (transaction_details st), n')))"
proof (cases "fst (add_chain E st (m_transaction_cache n))")
  case False
  then show ?thesis using put by (auto simp: put_in_block_def split: prod.splits)
next
  case True
  let ?m = "n\<lparr>m_transaction_cache := snd (add_chain E st (m_transaction_cache n))\<rparr>"
  have m: "node_wf (layer_of miner) ?m" "tx_ok E st (layer_of miner) ?m"
    using ok True miner by (simp_all add: block_txs_ok_def layer_of_def)
  obtain applied n1 where ap: "apply_transaction E st miner ?m = Inr (applied, n1)"
    "(block_txs', pool', n') = (if applied then (block_txs @ [st], pool, n1)
       else (block_txs, pool @ [st], cache_update (erase_chain E st) n1))"
    using put True by (auto simp: put_in_block_def result_simps split: prod.splits)
  show ?thesis
  proof (cases applied)
    case True
    then show ?thesis using ap \<open>fst _\<close> by (simp add: apply_block_transaction_Inr)
  next
    case False
    then have "n1 = ?m" using apply_transaction_refused [OF m] ap(1) by simp
    then have "n' = n" using ap(2) False erase_add_chain [OF True] by (simp add: cache_update_def)
    then show ?thesis using ap(2) False by simp
  qed
qed

lemma put_in_block_run:
  assumes "block_txs_ok E sts n" "miner \<noteq> []"
    and "sorted (map (\<lambda>st. tx_creation (transaction_details st)) sts)"
    and "\<forall>st \<in> set sts. t \<le> tx_creation (transaction_details st)"
    and "fold_res (put_in_block E miner) sts (block_txs, pool, n) = Inr (block_txs', pool', n')"
  shows "\<exists>new t'. block_txs' = block_txs @ new \<and> fold_res (apply_block_transaction E bl miner) new (t, n) = Inr (t', n')"
  using assms
proof (induction sts arbitrary: block_txs pool n t)
  case (Cons st sts)
  obtain b1 p1 n1 where one: "put_in_block E miner st (block_txs, pool, n) = Inr (b1, p1, n1)"
    and rest: "fold_res (put_in_block E miner) sts (b1, p1, n1) = Inr (block_txs', pool', n')"
    using Cons.prems(5) by (auto simp: result_simps)
  have sorted: "sorted (map (\<lambda>st. tx_creation (transaction_details st)) sts)"
    and later: "\<forall>st2 \<in> set sts. tx_creation (transaction_details st) \<le> tx_creation (transaction_details st2)"
    using Cons.prems(3) by simp_all
  from put_in_block_cases [OF Cons.prems(1,2) one] show ?case
  proof (elim disjE conjE)
    assume same: "b1 = block_txs" "n1 = n"
    have "block_txs_ok E sts n" using Cons.prems(1) by (simp add: block_txs_ok_def)
    then show ?thesis using Cons.IH [OF _ Cons.prems(2) sorted _ rest [unfolded same]] Cons.prems(4) by simp
  next
    assume b1: "b1 = block_txs @ [st]" and step: "\<forall>bl t. t \<le> tx_creation (transaction_details st) \<longrightarrow>
         apply_block_transaction E bl miner st (t, n) = Inr (tx_creation (transaction_details st), n1)"
    have step1: "apply_block_transaction E bl miner st (t, n) = Inr (tx_creation (transaction_details st), n1)"
      using step Cons.prems(4) by simp
    have "block_txs_ok E sts n1" by (rule block_transaction_step(2) [OF Cons.prems(1,2) step1])
    from Cons.IH [OF this Cons.prems(2) sorted later rest] obtain new t' where
      "block_txs' = b1 @ new" "fold_res (apply_block_transaction E bl miner) new (tx_creation (transaction_details st), n1) = Inr (t', n')"
      by blast
    then show ?thesis using b1 step1 by (intro exI [of _ "st # new"]) simp
  qed
qed simp

text \<open>The rewards a node grants to itself name it as the miner.\<close>

lemma add_to_last_types:
  "rs \<noteq> [] \<Longrightarrow> rw_type ` set (add_to_last c rs) = rw_type ` set rs"
  by (cases rs rule: rev_cases) (auto simp: add_to_last_def)

lemma distribute_types:
  assumes "distribute_rewards rs dist amount ty = Inr (rs', handed_back)"
  shows "rw_type ` set rs' \<subseteq> insert ty (rw_type ` set rs)"
proof (cases "dist = [] \<or> coin_empty amount")
  case True
  then show ?thesis using assms by (auto simp: distribute_rewards_def)
next
  case False
  let ?new = "\<lambda>m. map (\<lambda>(receiver, c). \<lparr> rw_to = receiver, rw_amount = c, rw_type = ty \<rparr>) m"
  obtain rest m where loop: "fold_res (distribute_step amount) dist (amount, []) = Inr (rest, m)"
    and rs': "rs' = (if coin_zero < rest then add_to_last rest (rs @ ?new m) else rs @ ?new m)"
    using assms(1) False by (auto simp: distribute_rewards_def Let_def result_simps)
  obtain x xs where "dist = x # xs" using False by (cases dist) auto
  then have "m \<noteq> []" using distribute_nonempty loop by blast
  then have "rs @ ?new m \<noteq> []" by simp
  then have "rw_type ` set rs' = rw_type ` set (rs @ ?new m)" using rs' add_to_last_types by metis
  then show ?thesis by auto
qed

lemma pay_rewards_miner:
  assumes "pay_rewards emission sponsored sh returns miner = Inr rs"
  shows "\<forall>r \<in> set rs. rw_type r = RT_miner \<longrightarrow> rw_to r = miner"
    "length (filter (\<lambda>r. rw_type r = RT_miner) rs) \<le> 1"
proof -
  obtain authors channels storages where sh: "sh = (authors, channels, storages)" by (cases sh) auto
  obtain ae rs1 b1 ce rs2 b2 se rs3 b3 miner' where
    d: "distribute_rewards [] authors ae RT_author = Inr (rs1, b1)"
       "distribute_rewards rs1 channels ce RT_channel = Inr (rs2, b2)"
       "distribute_rewards rs2 storages se RT_storage = Inr (rs3, b3)" and
    rs: "rs = (let rs4 = rs3 @ map (\<lambda>(sponsor, amount). \<lparr> rw_to = sponsor, rw_amount = amount, rw_type = RT_sponsored_return \<rparr>) returns
          in if coin_empty miner' then rs4
             else rs4 @ [\<lparr> rw_to = miner, rw_amount = miner', rw_type = RT_miner \<rparr>])"
    using assms by (auto simp: pay_rewards_def sh Let_def result_simps)
  have "rw_type ` set rs1 \<subseteq> {RT_author}" using distribute_types [OF d(1)] by simp
  then have "rw_type ` set rs2 \<subseteq> insert RT_channel {RT_author}"
    using subset_trans [OF distribute_types [OF d(2)] insert_mono] by blast
  then have "rw_type ` set rs3 \<subseteq> insert RT_storage (insert RT_channel {RT_author})"
    using subset_trans [OF distribute_types [OF d(3)] insert_mono] by blast
  then have none: "filter (\<lambda>r. rw_type r = RT_miner)
      (rs3 @ map (\<lambda>(sponsor, amount). \<lparr> rw_to = sponsor, rw_amount = amount, rw_type = RT_sponsored_return \<rparr>) returns) = []"
    by (auto simp: filter_empty_conv)
  have split: "filter P rs = (if coin_empty miner' then [] else filter P [\<lparr> rw_to = miner, rw_amount = miner', rw_type = RT_miner \<rparr>])"
    if "filter P (rs3 @ map (\<lambda>(sponsor, amount). \<lparr> rw_to = sponsor, rw_amount = amount, rw_type = RT_sponsored_return \<rparr>) returns) = []" for P
    using that by (simp add: rs Let_def)
  show "length (filter (\<lambda>r. rw_type r = RT_miner) rs) \<le> 1"
    by (subst split [OF none]) simp
  show "\<forall>r \<in> set rs. rw_type r = RT_miner \<longrightarrow> rw_to r = miner"
  proof (intro ballI impI)
    fix r assume "r \<in> set rs" "rw_type r = RT_miner"
    then have "r \<in> set (filter (\<lambda>r. rw_type r = RT_miner) rs)" by simp
    then show "rw_to r = miner" by (subst (asm) split [OF none]) (auto split: if_splits)
  qed
qed

lemma get_miner_own:
  assumes "\<forall>r \<in> set (rewards (block_details sb)). rw_type r = RT_miner \<longrightarrow> rw_to r = miner"
    and "length (filter (\<lambda>r. rw_type r = RT_miner) (rewards (block_details sb))) \<le> 1" "miner \<noteq> []"
    and "at_address (authorization sb) = miner \<or> (\<exists>r \<in> set (rewards (block_details sb)). rw_type r = RT_miner)"
  shows "get_miner sb = Inr miner"
proof -
  have "miner_of rs [] = Inr (if \<exists>r \<in> set rs. rw_type r = RT_miner then miner else [])"
    if "\<forall>r \<in> set rs. rw_type r = RT_miner \<longrightarrow> rw_to r = miner" "length (filter (\<lambda>r. rw_type r = RT_miner) rs) \<le> 1" for rs
    using that
  proof (induction rs)
    case (Cons r rs)
    then show ?case using assms(3) miner_of_found [of miner rs] by (auto simp: filter_empty_conv)
  qed simp
  from this [OF assms(1,2)] show ?thesis using assms(3,4) by (auto simp: get_miner_def)
qed

lemma grant_rewards_Inr:
  assumes "grant_rewards E sts miner h ty n = Inr (g, n')"
  shows "\<exists>emission sponsored sh returns. pay_rewards emission sponsored sh returns miner = Inr (gr_rewards g)"
  using assms by (auto simp: grant_rewards_def result_simps split: prod.splits) blast+

text \<open>C1: a block that a node builds from its candidates on top of a state without pool is accepted
  by \<open>apply_block\<close> in the same state, which then ends in the same node as the miner's: the choice of
  transactions, the fees, the rewards and the documents agree. The candidates are sorted by their creation and
  satisfy \<open>tx_ok\<close>: no cancellation among them, and on a storage node without a manager no content. Of the miner
  it is asked what its peers test: the delta is the one of its balance, the balance reaches the threshold, the
  signing key is an authority of the miner, who gets the rewards, and the miner has no other role.\<close>

theorem mined_block_accepted:
  assumes n: "node_wf Layer_chain n" "\<forall>st \<in> set txs. tx_ok E st Layer_chain n" "own_address n \<noteq> []"
    and txs: "sorted (map (\<lambda>st. tx_creation (transaction_details st)) txs)"
      "\<forall>st \<in> set txs. 0 \<le> tx_creation (transaction_details st)"
    and build: "build_block E sign h txs n = Inr (sb, refused, n')"
    and miner: "calc_delta E (own_address n) (whole (get_balance (own_address n) Layer_pool (m_state n))) (prev_hash h) cc = Inr (delta h)"
      "m_mine_amount_threshhold n \<le> get_balance (own_address n) Layer_pool (m_state n)"
      "check_authority (own_address n) (at_address (authorization sb)) (x_rtt E K_Block) (m_authority_manager n) = Inr True"
      "get_role (own_address n) (m_state n) \<in> {None, Some NT_blockchain}"
      "at_address (authorization sb) = own_address n \<or> (\<exists>r \<in> set (rewards (block_details sb)). rw_type r = RT_miner)"
  shows "apply_block E sb (cc, n) = Inr (c_const h, n') \<and> header (block_details sb) = h"
proof -
  let ?miner = "own_address n"
  obtain sts n1 g n2 n3 b l where
    put: "fold_res (put_in_block E ?miner) txs ([], [], n) = Inr (sts, refused, n1)" and
    gr: "grant_rewards E sts ?miner h Set_used_apply n1 = Inr (g, n2)" and
    sb: "block_details sb = \<lparr> header = h, rewards = gr_rewards g, signed_transactions = sts \<rparr>" and
    cr: "fold_res credit_reward (gr_rewards g) n2 = Inr n3" and
    ins: "insert_block E sb (m_blockchain n3) = Inr b" and
    log: "log_block E sb (gr_views g) (gr_applied g) (m_action_log n3) = Inr l" and
    n': "n' = n3\<lparr>m_blockchain := b, m_action_log := l\<rparr>"
    using build by (auto simp: build_block_def Let_def result_simps)
  have "block_txs_ok E txs n" using n(1,2) by (simp add: block_txs_ok_def)
  from put_in_block_run [OF this n(3) txs put, of "block_details sb"] obtain t' where
    run: "fold_res (apply_block_transaction E (block_details sb) ?miner) sts (0, n) = Inr (t', n1)" by auto
  obtain emission sponsored sh returns where "pay_rewards emission sponsored sh returns ?miner = Inr (gr_rewards g)"
    using grant_rewards_Inr [OF gr] by blast
  then have who: "get_miner sb = Inr ?miner"
    using pay_rewards_miner n(3) miner(5) by (intro get_miner_own) (simp_all add: sb)
  have "coin_ok (get_balance ?miner Layer_pool (m_state n))"
    using n(1) ledger.bal_ok by (auto simp: node_wf_def node_money_ok_def money_ok_def)
  then have can: "check_block_miner E sb cc ?miner n = Inr ()"
    using miner by (auto simp: check_block_miner_def Let_def sb result_simps not_less split: option.splits)
  have rew: "check_rewards E (block_details sb) ?miner Set_used_apply n1 = Inr (False, g, n2)"
    using gr by (simp add: check_rewards_def sb)
  have "apply_block E sb (cc, n) = Inr (c_const h, n')"
    unfolding apply_block_def Let_def prod.case who bind_res_simps can rew run
    using run rew cr ins log by (simp add: sb n')
  then show ?thesis by (simp add: sb)
qed

text \<open>A node with fifty coins that mines a block with alice's transfer.\<close>

definition sample_miner :: node where
  "sample_miner = sample_node\<lparr>m_state := \<lparr> m_accounts = [''alice'' \<mapsto> Coin 100 0, ''node'' \<mapsto> Coin 50 0],
     m_node_accounts = [''node'' \<mapsto> Coin 50 0], m_roles = Map.empty \<rparr>\<rparr>"

definition sample_mined_header :: block_header where
  "sample_mined_header = \<lparr> block_number = 1, delta = 7000000000, c_sum = 7000000001, c_const = 1,
     prev_hash = ''#0'', time_signed = 600 \<rparr>"

definition sample_sign :: "string \<Rightarrow> authority" where
  "sample_sign message = \<lparr> at_address = ''node'', at_signature = ''s'' \<rparr>"

lemma sample_miner_fields [simp]:
  "own_address sample_miner = ''node''" "m_authority_manager sample_miner = Map.empty"
  "m_documents sample_miner = sample_documents" "get_role k (m_state sample_miner) = None"
  "get_balance ''node'' Layer_pool (m_state sample_miner) = Coin 50 0"
  "get_balance ''alice'' Layer_pool (m_state sample_miner) = Coin 100 0"
  "m_transaction_cache sample_miner = m_transaction_cache sample_node"
  "m_block_reward_array sample_miner = [Coin 1000 0]" "m_mine_amount_threshhold sample_miner = Coin 1 0"
  "m_blockchain sample_miner = sample_chain" "m_action_log sample_miner = al_init [] True"
  "pcounts_per_channel_views sample_miner = counts_per_channel_views" "cf_testnet (pconfig sample_miner) = False"
  by (simp_all add: sample_miner_def get_balance_pool get_role_def)
     (simp_all add: sample_node_def sample_node_with_def sample_config_def ledger.defs)

lemma sample_miner_wf: "total_supply (m_state sample_miner) = 15000000000" "node_wf layer sample_miner"
proof -
  have "dom [''alice'' \<mapsto> Coin 100 0, ''node'' \<mapsto> Coin 50 0] = {''alice'', ''node''}" by auto
  then show s: "total_supply (m_state sample_miner) = 15000000000"
    by (simp add: total_supply_def map_total_def sample_miner_def coin_val_def)
  have "node_money_ok layer sample_miner"
    using s by (auto simp: node_money_ok_def money_ok_def layer_wf_def state_wf_def synced_def coin_ok_def coin_empty_def
        fractions_in_whole_def sample_miner_def split: if_splits)
  then show "node_wf layer sample_miner" by (simp add: node_wf_def)
qed

lemma sample_build:
  "\<exists>sb refused n'. build_block sample_ext sample_sign sample_mined_header [sample_tx (Transfer sample_transfer)] sample_miner
     = Inr (sb, refused, n') \<and> at_address (authorization sb) = ''node''"
proof -
  let ?st = "sample_tx (Transfer sample_transfer)"
  let ?m = "sample_miner\<lparr>m_transaction_cache := snd (add_chain sample_ext ?st (m_transaction_cache sample_node))\<rparr>"
  have "signer_ok sample_ext ?st ''alice'' K_Transfer ?m = Inr True"
    using signer_ok_cong [of ?m sample_node] by simp
  moreover have "node_money_ok (layer_of ''node'') ?m"
    using sample_miner_wf by (simp add: node_wf_def node_money_ok_def own_address_def)
  ultimately obtain n1 where n1: "apply_transaction sample_ext ?st ''node'' ?m = Inr (True, n1)" "n1 = ?m\<lparr>m_state := m_state n1\<rparr>"
    "node_money_ok Layer_chain n1" "total_supply (m_state n1) = 15000000000"
    using sample_transfer_applies [of "''node''" ?m] sample_miner_wf by (auto simp: layer_of_def)
  have put: "fold_res (put_in_block sample_ext ''node'') [?st] ([], [], sample_miner) = Inr ([?st], [], n1)"
    using n1(1) sample_empty_cache [of ?st] by (auto simp: put_in_block_def split: prod.splits)
  have n1f: "m_documents n1 = sample_documents" "m_block_reward_array n1 = [Coin 1000 0]" "m_blockchain n1 = sample_chain"
    "m_action_log n1 = al_init [] True" "own_address n1 = ''node''"
    by (subst n1(2), simp)+
  have "case pay_rewards (Coin 1000 0) coin_zero ([], [], []) [] ''node'' of
      Inl e \<Rightarrow> False | Inr rs \<Rightarrow> list_all (\<lambda>r. coin_ok (rw_amount r)) rs"
    by code_simp
  then obtain rs where rs: "pay_rewards (Coin 1000 0) coin_zero ([], [], []) [] ''node'' = Inr rs"
    and amounts: "\<forall>r \<in> set rs. coin_ok (rw_amount r)"
    by (auto simp: list_all_iff split: sum.splits)
  have sum: "reward_sum rs = 100000000000"
    using pay_rewards_conserves [OF rs] by (simp add: coin_zero_def coin_ok_def fractions_in_whole_def coin_val_def omap_sum_def)
  have "content_unit_uri_sponsor_expiring sample_ext 1 sample_documents = []"
    by (simp add: content_unit_uri_sponsor_expiring_def sample_documents_def)
  moreover have "emission_of n1 1 = Inr (Coin 1000 0)" by (simp add: emission_of_def n1f)
  moreover have "collect_transaction n1 ?st ([], [], []) = Inr ([], [], [])"
    by (simp add: collect_transaction_def sample_tx_def)
  moreover have "validate_statistics sample_ext [] [] 1 n1 = Inr ([], [], [], [])"
    by (simp add: validate_statistics_def statistics_entries_def check_counts_def author_shares_def channel_shares_def
        storage_shares_def scale_shares_def sample_ext_def Let_def)
  ultimately have gr: "grant_rewards sample_ext [?st] ''node'' sample_mined_header Set_used_apply n1
      = Inr (\<lparr> gr_rewards = rs, gr_views = [], gr_applied = [] \<rparr>, n1)"
    using rs n1f(1) by (cases n1) (simp add: grant_rewards_def sample_mined_header_def n1f)
  have fit: "rewards_fit rs n1" using n1(3,4) sum by (simp add: rewards_fit_def)
  then obtain n3 where n3: "fold_res credit_reward rs n1 = Inr n3" using credit_rewards_succeed amounts by blast
  have "n3 = n1\<lparr>m_state := m_state n3\<rparr>" using credit_rewards_spec [OF fit n3] by blast
  then have n3f: "m_blockchain n3 = sample_chain" "m_action_log n3 = al_init [] True"
    by (metis n1f(3) ledger.select_convs(3) ledger.surjective ledger.update_convs(1), metis n1f(4) ledger.select_convs(4) ledger.surjective ledger.update_convs(1))
  let ?bl = "\<lparr> header = sample_mined_header, rewards = rs, signed_transactions = [?st] \<rparr>"
  let ?sb = "\<lparr> block_details = ?bl, authorization = sample_sign (x_block_string sample_ext ?bl) \<rparr>"
  have "get_miner ?sb = Inr ''node''"
    using pay_rewards_miner [OF rs] by (intro get_miner_own) (simp_all add: sample_sign_def)
  then obtain l where l: "log_block sample_ext ?sb [] [] (al_init [] True) = Inr l" by (simp add: log_block_def Let_def)
  obtain b where b: "insert_block sample_ext ?sb sample_chain = Inr b"
    by (simp add: insert_block_def sample_mined_header_def bc_length_def sample_chain_def Let_def)
  have "build_block sample_ext sample_sign sample_mined_header [?st] sample_miner
      = Inr (?sb, [], n3\<lparr>m_blockchain := b, m_action_log := l\<rparr>)"
    using put gr n3 b l by (simp add: build_block_def Let_def n3f)
  then show ?thesis by (simp add: sample_sign_def)
qed

theorem mined_block_accepted_witness:
  "\<exists>sb refused n'. build_block sample_ext sample_sign sample_mined_header [sample_tx (Transfer sample_transfer)] sample_miner
       = Inr (sb, refused, n')
     \<and> apply_block sample_ext sb (1, sample_miner) = Inr (1, n')"
proof -
  obtain sb refused n' where b: "build_block sample_ext sample_sign sample_mined_header [sample_tx (Transfer sample_transfer)] sample_miner
     = Inr (sb, refused, n')" "at_address (authorization sb) = ''node''"
    using sample_build by blast
  have "calc_delta sample_ext ''node'' 50 ''#0'' 1 = Inr 7000000000" by code_simp
  moreover have "Coin 1 0 \<le> Coin 50 0" by code_simp
  moreover have "tx_ok sample_ext (sample_tx (Transfer sample_transfer)) Layer_chain sample_miner"
    by (simp add: tx_ok_def sample_tx_def sample_transfer_def)
  ultimately have "apply_block sample_ext sb (1, sample_miner) = Inr (c_const sample_mined_header, n')"
    using mined_block_accepted [OF _ _ _ _ _ b(1), of 1] b(2) sample_miner_wf
    by (simp add: sample_mined_header_def check_authority_def get_record_def full_record_def sample_tx_def)
  then show ?thesis using b(1) by (auto simp: sample_mined_header_def)
qed

section \<open>The header of a mined block\<close>

text \<open>The three latest headers of the own chain, as the miner and its peers look at them.\<close>

definition latest_deltas :: "blockchain \<Rightarrow> delta_vector" where
  "latest_deltas b = map (\<lambda>h. (delta h, c_const h)) (drop (length (m_header b) - 3) (m_header b))"

lemma latest_headers:
  assumes wf: "blockchain_wf E b" and len: "3 \<le> length (m_blocks b)"
  shows "collect_res (\<lambda>i. header_at i b) (map of_nat [unat (of_nat (length (m_blocks b)) - 3 :: u64)
      ..<Suc (unat (of_nat (length (m_blocks b)) - 1 :: u64))]) = Inr (drop (length (m_header b) - 3) (m_header b))"
proof -
  let ?L = "length (m_blocks b)"
  have small: "?L < 2 ^ 64" and hd: "m_header b = map (header \<circ> block_details) (m_blocks b)" "length (m_header b) = ?L"
    using wf by (simp_all add: blockchain_wf_def)
  have u: "unat (of_nat ?L - 3 :: u64) = ?L - 3" "unat (of_nat ?L - 1 :: u64) = ?L - 1"
    using len small by (simp_all add: unat_sub word_le_nat_alt unat_of_nat_u64)
  have "collect_res (\<lambda>k. header_at (of_nat k) b) [?L - 3..<?L] = Inr (map (\<lambda>k. m_header b ! k) [?L - 3..<?L])"
    by (rule collect_res_map) (use header_at_wf [OF wf] hd in auto)
  moreover have "map (\<lambda>k. m_header b ! k) [?L - 3..<?L] = drop (?L - 3) (m_header b)"
    using hd(2) by (intro nth_equalityI) auto
  moreover have "Suc (?L - 1) = ?L" using len by simp
  ultimately show ?thesis using hd(2) u by (simp add: collect_res_of_nat)
qed

lemma mine_header_value:
  assumes wf: "blockchain_wf E (m_blockchain n)" "3 \<le> length (m_blocks (m_blockchain n))"
    and d: "calc_delta E (own_address n) (whole (node_get_balance n)) (m_last_hash (m_blockchain n))
      (c_const (m_last_header (m_blockchain n))) = Inr d"
  shows "mine_header E n = Inr \<lparr> block_number = block_number (m_last_header (m_blockchain n)) + 1, delta = d,
      c_sum = c_sum (m_last_header (m_blockchain n)) + d,
      c_const = next_c_const (c_const (m_last_header (m_blockchain n))) (delta_sum3 (latest_deltas (m_blockchain n)) 0),
      prev_hash = m_last_hash (m_blockchain n), time_signed = time_signed (m_last_header (m_blockchain n)) + 600 \<rparr>"
    "length (latest_deltas (m_blockchain n)) = 3" "snd (last (latest_deltas (m_blockchain n))) = c_const (m_last_header (m_blockchain n))"
proof -
  let ?b = "m_blockchain n" and ?v = "latest_deltas (m_blockchain n)" and ?L = "length (m_blocks (m_blockchain n))"
  have small: "?L < 2 ^ 64" and hd: "m_header ?b = map (header \<circ> block_details) (m_blocks ?b)" "length (m_header ?b) = ?L"
    using wf(1) by (simp_all add: blockchain_wf_def)
  have num: "\<forall>i < ?L. block_number (m_header ?b ! i) = of_nat i" using wf(1) unfolding blockchain_wf_def by blast
  have ne: "m_blocks ?b \<noteq> []" using wf(2) by auto
  note last = last_header_wf [OF wf(1) ne]
  have blast: "last (m_blocks ?b) = m_blocks ?b ! (?L - 1)" using ne by (simp add: last_conv_nth)
  show v3: "length ?v = 3" using wf(2) hd(2) by (simp add: latest_deltas_def)
  have "last (drop (?L - 3) (m_header ?b)) = last (m_header ?b)" using hd(2) wf(2) by (simp add: last_drop)
  moreover have "drop (?L - 3) (m_header ?b) \<noteq> []" using hd(2) wf(2) by simp
  moreover have "last (m_header ?b) = m_last_header ?b" using hd(1) ne last by (simp add: last_map)
  ultimately show vlast: "snd (last ?v) = c_const (m_last_header ?b)"
    using hd(2) by (simp add: latest_deltas_def last_map)
  have enough: "of_nat DELTA_STEP \<le> (of_nat ?L :: u64)"
    using wf(2) small by (simp add: DELTA_STEP_def word_le_nat_alt unat_of_nat_u64)
  obtain c err where c: "check_delta_vector ?v = Inr (c, err)" "err = [] \<longleftrightarrow> c_const_follows ?v"
    "err = [] \<longrightarrow> c = next_c_const (snd (last ?v)) (delta_sum3 ?v (length ?v - 3))"
    using check_delta_vector_spec [of ?v] v3 by auto
  have "err = []" using c(2) v3 by (auto simp: c_const_follows_def)
  then have cc: "check_delta_vector ?v = Inr (next_c_const (c_const (m_last_header ?b)) (delta_sum3 ?v 0), [])"
    using c v3 vlast by simp
  have own: "collect_res (\<lambda>i. header_at i ?b) (map of_nat [unat (of_nat ?L - of_nat DELTA_STEP :: u64)..<Suc (unat (of_nat ?L - 1 :: u64))])
      = Inr (drop (?L - 3) (m_header ?b))"
    using latest_headers [OF wf] hd(2) by (simp add: DELTA_STEP_def)
  have block: "bc_at (of_nat ?L - 1) ?b = Inr (last (m_blocks ?b))"
    using wf(2) small blast by (simp add: bc_at_def unat_sub word_le_nat_alt unat_of_nat_u64)
  have number: "block_number (m_last_header ?b) = of_nat ?L - 1"
    using num wf(2) hd(1) last blast by (simp add: of_nat_diff)
  show "mine_header E n = Inr \<lparr> block_number = block_number (m_last_header ?b) + 1, delta = d,
      c_sum = c_sum (m_last_header ?b) + d, c_const = next_c_const (c_const (m_last_header ?b)) (delta_sum3 ?v 0),
      prev_hash = m_last_hash ?b, time_signed = time_signed (m_last_header ?b) + 600 \<rparr>"
    using d cc own block enough last number
    by (simp add: mine_header_def bc_length_def Let_def latest_deltas_def hd(2) BLOCK_MINE_DELAY_def throw_if_def
        del: upt_Suc)
qed

text \<open>C16: on a chain of at least three blocks, a node that can compute its delta mines the header that
  continues its chain: the next number, the hash of the last block, ten minutes later, the sum of the deltas
  with its own delta. \<open>check_delta_vector\<close> accepts its constant, and \<open>check_headers\<close> of its peers accepts
  it if the delta is not zero and the sum of the deltas does not wrap around. A header whose delta is zero is
  mined too, and is refused by every peer.\<close>

theorem mined_header_accepted:
  assumes "blockchain_wf E (m_blockchain n)" "3 \<le> length (m_blocks (m_blockchain n))"
    and "calc_delta E (own_address n) (whole (node_get_balance n)) (m_last_hash (m_blockchain n))
      (c_const (m_last_header (m_blockchain n))) = Inr d"
  shows "\<exists>h. mine_header E n = Inr h \<and> delta h = d \<and> c_sum h = c_sum (m_last_header (m_blockchain n)) + d
    \<and> block_number h = block_number (m_last_header (m_blockchain n)) + 1 \<and> prev_hash h = m_last_hash (m_blockchain n)
    \<and> time_signed h = time_signed (m_last_header (m_blockchain n)) + 600
    \<and> (\<exists>c. check_delta_vector (latest_deltas (m_blockchain n) @ [(d, c_const h)]) = Inr (c, []))
    \<and> (d \<noteq> 0 \<and> unat (c_sum (m_last_header (m_blockchain n))) + unat d < 2 ^ 64 \<longrightarrow>
        \<not> check_headers (extend_header h hash) (last_header_ex (m_blockchain n)))
    \<and> (d = 0 \<longrightarrow> check_headers (extend_header h hash) (last_header_ex (m_blockchain n)))"
proof -
  let ?b = "m_blockchain n" and ?c = "next_c_const (c_const (m_last_header (m_blockchain n)))
    (delta_sum3 (latest_deltas (m_blockchain n)) 0)"
  note v = mine_header_value [OF assms]
  have ex: "last_header_ex ?b = extend_header (m_last_header ?b) (m_last_hash ?b)" by (simp add: last_header_ex_def)
  have wraps: "c_sum (m_last_header ?b) < c_sum (m_last_header ?b) + d"
    if "d \<noteq> 0" "unat (c_sum (m_last_header ?b)) + unat d < 2 ^ 64"
    using that by (simp add: word_less_nat_alt unat_word_ariths unat_gt_0)
  let ?v = "latest_deltas ?b @ [(d, ?c)]"
  have "i = 3" if "3 \<le> i" "i < length ?v" for i using that v(2) by simp
  moreover have "snd (?v ! 3) = next_c_const (snd (?v ! 2)) (delta_sum3 ?v 0)"
  proof -
    have "latest_deltas ?b \<noteq> []" using v(2) by auto
    then have "snd (?v ! 2) = c_const (m_last_header ?b)" using v(2,3) by (simp add: nth_append last_conv_nth)
    moreover have "delta_sum3 ?v 0 = delta_sum3 (latest_deltas ?b) 0" using v(2) by (simp add: delta_sum3_def nth_append)
    ultimately show ?thesis using v(2) by (simp add: nth_append)
  qed
  ultimately have "c_const_follows ?v" by (fastforce simp: c_const_follows_def)
  moreover have "3 \<le> length ?v" using v(2) by simp
  ultimately have "\<exists>c. check_delta_vector ?v = Inr (c, [])" using check_delta_vector_spec [of ?v] by metis
  then show ?thesis
    using v(1) wraps next_c_const_cases [of "c_const (m_last_header ?b)" "delta_sum3 (latest_deltas ?b) 0"]
    by (simp add: check_headers_def ex extend_header_def not_le add.commute)
qed

text \<open>A chain of three blocks, ten minutes apart.\<close>

definition sample_chain3 :: blockchain where
  "sample_chain3 = \<lparr> m_last_hash = block_hash_of sample_ext (block_details (sample_block 2)), m_last_header = sample_header 2,
     m_header = map sample_header [0, 1, 2], m_blocks = map sample_block [0, 1, 2] \<rparr>"

lemma sample_chain3_wf: "blockchain_wf sample_ext sample_chain3" "length (m_blocks sample_chain3) = 3"
proof -
  let ?b = sample_chain3
  show len: "length (m_blocks ?b) = 3" by (simp add: sample_chain3_def)
  have "block_number (m_header ?b ! i) = of_nat i" if "i < 3" for i
  proof -
    have "i = 0 \<or> i = 1 \<or> i = 2" using that by arith
    then show ?thesis by (elim disjE) (simp_all add: sample_chain3_def sample_header_def)
  qed
  moreover have "m_header ?b = map (header \<circ> block_details) (m_blocks ?b)"
    by (simp add: sample_chain3_def sample_block_def)
  moreover have "update_state sample_ext ?b = ?b"
    by (simp add: update_state_def sample_chain3_def sample_block_def)
  ultimately show "blockchain_wf sample_ext ?b" unfolding blockchain_wf_def len by simp
qed

definition sample_mined :: block_header where
  "sample_mined = \<lparr> block_number = 3, delta = 7000000000, c_sum = 7000000003, c_const = 1, prev_hash = ''#2'', time_signed = 1800 \<rparr>"

theorem mined_header_accepted_witness:
  "mine_header sample_ext (sample_miner\<lparr>m_blockchain := sample_chain3\<rparr>) = Inr sample_mined
     \<and> \<not> check_headers (extend_header sample_mined []) (last_header_ex sample_chain3)"
proof -
  let ?n = "sample_miner\<lparr>m_blockchain := sample_chain3\<rparr>"
  have d: "calc_delta sample_ext (own_address ?n) (whole (node_get_balance ?n)) (m_last_hash (m_blockchain ?n))
      (c_const (m_last_header (m_blockchain ?n))) = Inr 7000000000" by code_simp
  have m: "mine_header sample_ext ?n = Inr sample_mined" by code_simp
  have "blockchain_wf sample_ext (m_blockchain ?n)" "3 \<le> length (m_blocks (m_blockchain ?n))"
    using sample_chain3_wf by simp_all
  from mined_header_accepted [OF this d, of "[]"] m show ?thesis
    by (auto simp: sample_chain3_def sample_header_def)
qed

section \<open>Groups of transactions\<close>

text \<open>Two transactions of a list are related if they share a participant.\<close>

definition related :: "string list list \<Rightarrow> nat \<Rightarrow> nat \<Rightarrow> bool" where
  "related ps i j \<longleftrightarrow> i < length ps \<and> j < length ps \<and> (\<exists>p \<in> set (ps ! i). p \<noteq> [] \<and> p \<in> set (ps ! j))"

lemma next_indices_related:
  "set (next_indices ps used is) = {j. j \<notin> set used \<and> (\<exists>i \<in> set is. j < length ps \<and> (\<exists>p \<in> set (ps ! i). p \<noteq> [] \<and> p \<in> set (ps ! j)))}"
  by (auto simp: next_indices_def Let_def)

lemma group_of_spec:
  assumes "distinct (used @ is)" "set (used @ is) \<subseteq> {0..<length ps}"
    and "\<forall>j \<in> set used. \<forall>k. related ps j k \<longrightarrow> k \<in> set (used @ is)"
    and "\<forall>j \<in> set (used @ is). (related ps)\<^sup>*\<^sup>* i j" "i \<in> set (used @ is)"
  shows "distinct (group_of ps used is) \<and> set (group_of ps used is) = {j. (related ps)\<^sup>*\<^sup>* i j}"
  using assms
proof (induction ps used "is" rule: group_of.induct)
  case (1 ps used "is")
  show ?case
  proof (cases "is = []")
    case True
    have "j \<in> set used" if "(related ps)\<^sup>*\<^sup>* i j" for j
      using that by (induction rule: rtranclp_induct) (use "1.prems"(3,5) True in auto)
    then show ?thesis using True "1.prems"(1,4) by (auto simp: group_of.simps)
  next
    case False
    let ?next = "next_indices ps (used @ is) is"
    have lt: "\<forall>j \<in> set is. j < length ps" using "1.prems"(2) by auto
    have nx: "set ?next = {j. j \<notin> set (used @ is) \<and> (\<exists>k \<in> set is. related ps k j)}"
      using lt by (auto simp: next_indices_related related_def)
    have "distinct ((used @ is) @ ?next)"
      using "1.prems"(1) nx by (auto simp: next_indices_def Let_def)
    moreover have "set ((used @ is) @ ?next) \<subseteq> {0..<length ps}"
      using "1.prems"(2) next_indices_free [of ps "used @ is" "is"] by auto
    moreover have "\<forall>j \<in> set (used @ is). \<forall>k. related ps j k \<longrightarrow> k \<in> set ((used @ is) @ ?next)"
      using "1.prems"(3) nx by auto
    moreover have "\<forall>j \<in> set ((used @ is) @ ?next). (related ps)\<^sup>*\<^sup>* i j"
      using "1.prems"(4) nx by (auto intro: rtranclp.rtrancl_into_rtrancl)
    moreover have "i \<in> set ((used @ is) @ ?next)" using "1.prems"(5) by auto
    ultimately show ?thesis using "1.IH" [OF False] False by (subst (1 2) group_of.simps) simp
  qed
qed

text \<open>C22: the search for the transactions that are rated together ends and finds, without
  repetition, exactly the transactions that are connected to the given one by chains of shared
  participants; so it finds the same group from each of them.\<close>

theorem group_is_component:
  assumes "i < length ps"
  shows "distinct (group_of ps [] [i]) \<and> set (group_of ps [] [i]) = {j. (related ps)\<^sup>*\<^sup>* i j}
    \<and> (\<forall>j \<in> set (group_of ps [] [i]). set (group_of ps [] [j]) = set (group_of ps [] [i]))"
proof -
  have g: "distinct (group_of ps [] [k]) \<and> set (group_of ps [] [k]) = {j. (related ps)\<^sup>*\<^sup>* k j}" if "k < length ps" for k
    by (rule group_of_spec) (use that in auto)
  have sym: "symp (related ps)" by (rule sympI) (auto simp: related_def)
  have lt: "j < length ps" if "(related ps)\<^sup>*\<^sup>* i j" for j
    using that by (induction rule: rtranclp_induct) (use assms in \<open>auto simp: related_def\<close>)
  have same: "{k. (related ps)\<^sup>*\<^sup>* j k} = {k. (related ps)\<^sup>*\<^sup>* i k}" if j: "(related ps)\<^sup>*\<^sup>* i j" for j
  proof -
    have "(related ps)\<^sup>*\<^sup>* j i" using j sym symp_rtranclp [of "related ps"] by (auto dest: sympD)
    then show ?thesis using j by (auto intro: rtranclp_trans)
  qed
  have "set (group_of ps [] [j]) = set (group_of ps [] [i])" if "j \<in> set (group_of ps [] [i])" for j
  proof -
    have j: "(related ps)\<^sup>*\<^sup>* i j" using that g [OF assms] by blast
    show ?thesis using g [OF lt [OF j]] g [OF assms] same [OF j] by simp
  qed
  then show ?thesis using g [OF assms] by blast
qed

theorem group_is_component_witness:
  "{j. (related [[''a''], [''b'', ''c''], [''a'', ''d''], [''d'', [] ], [[], ''e'']])\<^sup>*\<^sup>* 0 j} = {0, 2, 3}"
proof -
  have "group_of [[''a''], [''b'', ''c''], [''a'', ''d''], [''d'', [] ], [[], ''e'']] [] [0] = [0, 2, 3]"
    by code_simp
  then show ?thesis
    using group_is_component [of 0 "[[''a''], [''b'', ''c''], [''a'', ''d''], [''d'', [] ], [[], ''e'']]"] by simp
qed

section \<open>Exceptions\<close>

lemma failed_mining_unchanged:
  assumes "mine_block E sign thrown n = (Inl e, n')"
    "committed E n" "saved_requests n = sc_requests (m_storage_controller n)" "m_blocks (m_blockchain n) \<noteq> []"
  shows "same_ledger n n' \<and> committed E n' \<and> m_storage_controller n' = m_storage_controller n"
  using assms(1) chain_rollback_same_ledger [OF assms(2-4) refl, of thrown]
  by (auto simp: mine_block_def Let_def split: sum.splits)

end
