(* ===== verification/Voting.thy ===== *)
theory Voting
  imports Block_Import Samples Complex_Main
begin

text \<open>
  \<open>block_worker\<close> of libblockchain/node.cpp: the poll a node takes among its peers before it gives
  up own blocks, and the choice of the peer whose chain it takes over. Unordered maps are lists
  in the order in which they are iterated; the results of the poll are iterated in the order
  that \<open>x_set_order\<close> gives their keys. The revert coefficient is a double in the code and
  a rational number here.
\<close>

section \<open>State\<close>

definition BLOCK_WAIT_DELAY :: nat where "BLOCK_WAIT_DELAY = 120"
definition BLOCK_SAFE_DELAY :: nat where "BLOCK_SAFE_DELAY = 240"
definition SYNC_TIMER :: nat where "SYNC_TIMER = 30"

record sync_response =
  own_header :: block_header_extended
  promised_header :: block_header_extended

record headers_action_data =
  reverts_required :: rat
  act_headers :: "block_header_extended list"

record vote_info =
  vt_stake :: coin
  vt_block_hash :: string
  vt_tp :: time

text \<open>The parts of \<open>node_internals\<close> that only the synchronisation uses. \<open>peer_address\<close> is
  the address of a connection, which the socket knows.\<close>

record sync_state =
  blockchain_sync_in_progress :: bool
  sync_responses :: "(string \<times> sync_response) list"
  headers_actions_data :: "(string \<times> headers_action_data) list"
  m_votes :: "(string, vote_info) omap"
  m_p2p_peers :: "string list"
  peer_address :: "string \<Rightarrow> string"

datatype reason_v = Safe_better | Safe_revert | Unsafe_better | Unsafe_best

record reason =
  rs_v :: reason_v
  poll_participants :: nat
  poll_participants_with_stake :: nat
  revert_coefficient :: rat

section \<open>Votes\<close>

definition clean_votes :: "time \<Rightarrow> (string, vote_info) omap \<Rightarrow> (string, vote_info) omap" where
  "clean_votes now votes = filter (\<lambda>(_, v). \<not> now - vt_tp v \<ge> int (SYNC_TIMER * 2)) votes"

definition fresh_addresses :: "nat \<Rightarrow> public_address_info list \<Rightarrow> public_address_info list" where
  "fresh_addresses limit infos = takeWhile (\<lambda>i. \<not> limit < unat (pa_seconds_since_checked i)) infos"

definition nodeid_ip_addresses :: "sync_state \<Rightarrow> public_address_info list \<Rightarrow> string \<rightharpoonup> string" where
  "nodeid_ip_addresses s infos =
     fold (\<lambda>i m. if pa_node_address i \<in> set (m_p2p_peers s) then m else m(pa_node_address i \<mapsto> pa_local_address i))
       (fresh_addresses PUBLIC_ADDRESS_FRESH_THRESHHOLD_SECONDS infos)
       (fold (\<lambda>p m. m(p \<mapsto> peer_address s p)) (m_p2p_peers s) Map.empty)"

text \<open>The entry \<open>m_votes[ip]\<close> makes when there is none.\<close>

definition no_vote :: vote_info where
  "no_vote = \<lparr> vt_stake = coin_zero, vt_block_hash = [], vt_tp = 0 \<rparr>"

text \<open>One vote per address: the one with the largest stake.\<close>

definition cast_vote ::
  "time \<Rightarrow> state \<Rightarrow> (string \<rightharpoonup> string) \<Rightarrow> string \<times> sync_response \<Rightarrow> (string, vote_info) omap \<Rightarrow> (string, vote_info) omap" where
  "cast_vote now st ips = (\<lambda>(peer, response) votes.
     case ips peer of
       None \<Rightarrow> votes
     | Some ip \<Rightarrow>
         let voting = \<lparr> vt_stake = get_balance peer Layer_pool st,
                        vt_block_hash = block_hash (own_header response), vt_tp = now \<rparr>
         in omap_at no_vote ip (\<lambda>replacing. if vt_stake voting \<le> vt_stake replacing then replacing else voting) votes)"

definition vote_weight :: "vote_info \<Rightarrow> coin" where
  "vote_weight v = coin_plus (vt_stake v) (Coin 1 0)"

definition sum_stake :: "vote_info list \<Rightarrow> coin" where
  "sum_stake vs = fold (\<lambda>v s. coin_plus s (vote_weight v)) vs coin_zero"

definition approvals :: "vote_info list \<Rightarrow> (string, coin) omap" where
  "approvals vs = fold (\<lambda>v r. omap_at coin_zero (vt_block_hash v) (\<lambda>a. coin_plus a (vote_weight v)) r) vs []"

text \<open>The results: per head block what approves and what rejects it.\<close>

definition vote_results :: "ext \<Rightarrow> vote_info list \<Rightarrow> (string \<times> coin \<times> coin) list res" where
  "vote_results E vs =
     (let app = approvals vs
      in collect_res (\<lambda>h. let a = the (map_of app h) in bind_res (coin_minus (sum_stake vs) a) (\<lambda>r. Inr (h, a, r)))
           (x_set_order E (map fst app)))"

record poll =
  pl_results :: "(string \<times> coin \<times> coin) list"
  pl_own :: vote_info
  pl_participants :: nat
  pl_with_stake :: nat

definition take_poll :: "ext \<Rightarrow> time \<Rightarrow> node \<Rightarrow> (string, vote_info) omap \<Rightarrow> poll res" where
  "take_poll E now n votes =
     (let own = \<lparr> vt_stake = get_balance (own_address n) Layer_pool (m_state n),
                  vt_block_hash = block_hash (last_header_ex (m_blockchain n)), vt_tp = now \<rparr>
      in bind_res (vote_results E (map snd votes @ [own])) (\<lambda>results.
           Inr \<lparr> pl_results = results, pl_own = own, pl_participants = length votes,
                 pl_with_stake = length (filter (\<lambda>(_, v). vt_stake v \<noteq> coin_zero) votes) \<rparr>))"

definition stake_threshold :: "node \<Rightarrow> nat \<Rightarrow> nat" where
  "stake_threshold n peers = (if \<not> cf_testnet (pconfig n) then max 2 (peers div 4) else 1)"

definition approved_winners :: "node \<Rightarrow> nat \<Rightarrow> poll \<Rightarrow> string list" where
  "approved_winners n peers p =
     map fst (filter (\<lambda>(_, approve, reject). approve > reject \<and> pl_participants p > max 2 (peers div 3)
                \<and> pl_with_stake p > stake_threshold n peers) (pl_results p))"

text \<open>The hash with the largest approval that beats the own stake; empty when there is none.\<close>

definition most_approved :: "node \<Rightarrow> nat \<Rightarrow> poll \<Rightarrow> string \<times> coin" where
  "most_approved n peers p =
     fold (\<lambda>(h, approve, _) (candidate, best).
             if approve > best \<and> approve > vt_stake (pl_own p) \<and> pl_participants p > max 10 (peers div 3)
                \<and> pl_with_stake p > stake_threshold n peers
             then (h, approve) else (candidate, best)) (pl_results p) ([], coin_zero)"

section \<open>Choosing a chain\<close>

definition last_block_age_blocks :: "time \<Rightarrow> node \<Rightarrow> rat" where
  "last_block_age_blocks now n =
     of_int (now - time_signed (m_last_header (m_blockchain n))) / of_nat BLOCK_MINE_DELAY"

text \<open>How many blocks go when the chain is replaced from \<open>start_number\<close> on, the last block
  counting by its age.\<close>

definition revert_coefficient_of :: "time \<Rightarrow> node \<Rightarrow> u64 \<Rightarrow> rat" where
  "revert_coefficient_of now n start_number =
     (let revert_count = unat (bc_length (m_blockchain n) - start_number)
      in if 1 \<le> revert_count then of_nat revert_count - 1 + min 1 (last_block_age_blocks now n) else 0)"

definition unsafe_time_to_revert :: "rat \<Rightarrow> bool" where
  "unsafe_time_to_revert coefficient \<longleftrightarrow> of_nat BLOCK_SAFE_DELAY < coefficient * of_nat BLOCK_MINE_DELAY"

text \<open>Whether the headers of a peer continue the own chain.\<close>

definition headers_attach :: "blockchain \<Rightarrow> block_header_extended list \<Rightarrow> bool res" where
  "headers_attach b headers =
     (if headers = [] then Inr False
      else let start_number = block_number (last headers)
           in if start_number > bc_length b then Inr False
              else if start_number > 0
              then bind_res (header_ex_at (start_number - 1) b) (\<lambda>h. Inr (block_hash h = prev_hash (last headers)))
              else Inr True)"

type_synonym candidate = "(string \<times> headers_action_data \<times> reason) option"

text \<open>\<open>it == end() || it->second.reverts_required > revert_coefficient\<close>.\<close>

definition better_than :: "candidate \<Rightarrow> rat \<Rightarrow> bool" where
  "better_than c coefficient = (case c of None \<Rightarrow> True | Some (_, d, _) \<Rightarrow> reverts_required d > coefficient)"

record scan =
  sc_data :: "(string \<times> headers_action_data) list"
  sc_approved :: candidate
  sc_least :: candidate
  sc_most :: candidate

definition polled :: "reason_v \<Rightarrow> poll \<Rightarrow> rat \<Rightarrow> reason" where
  "polled v p coefficient = \<lparr> rs_v = v, poll_participants = pl_participants p,
     poll_participants_with_stake = pl_with_stake p, revert_coefficient = coefficient \<rparr>"

definition unpolled :: "rat \<Rightarrow> reason" where
  "unpolled coefficient = \<lparr> rs_v = (if coefficient > 0 then Safe_revert else Safe_better),
     poll_participants = 0, poll_participants_with_stake = 0, revert_coefficient = coefficient \<rparr>"

definition consider_chain ::
  "poll \<Rightarrow> string list \<Rightarrow> string \<Rightarrow> string \<Rightarrow> headers_action_data \<Rightarrow> rat \<Rightarrow> scan \<Rightarrow> scan" where
  "consider_chain p winners most_candidate peer d coefficient s =
     (let front_hash = block_hash (hd (act_headers d))
      in if unsafe_time_to_revert coefficient
         then s\<lparr>sc_approved := (if front_hash \<in> set winners \<and> better_than (sc_approved s) coefficient
                               then Some (peer, d, polled Unsafe_best p coefficient) else sc_approved s),
                sc_most := (if most_candidate = front_hash \<and> better_than (sc_most s) coefficient
                           then Some (peer, d, polled Unsafe_better p coefficient) else sc_most s)\<rparr>
         else if better_than (sc_least s) coefficient
         then s\<lparr>sc_least := Some (peer, d, unpolled coefficient)\<rparr>
         else s)"

definition scan_step ::
  "time \<Rightarrow> node \<Rightarrow> poll \<Rightarrow> string list \<Rightarrow> string \<Rightarrow> string \<times> headers_action_data \<Rightarrow> scan \<Rightarrow> scan res" where
  "scan_step now n p winners most_candidate = (\<lambda>(peer, d) s.
     bind_res (headers_attach (m_blockchain n) (act_headers d)) (\<lambda>attach.
       if \<not> attach then Inr (s\<lparr>sc_data := sc_data s @ [(peer, d)]\<rparr>)
       else let coefficient = revert_coefficient_of now n (block_number (last (act_headers d)));
                d' = d\<lparr>reverts_required := coefficient\<rparr>
            in Inr (consider_chain p winners most_candidate peer d' coefficient
                      (s\<lparr>sc_data := sc_data s @ [(peer, d')]\<rparr>))))"

definition choose_chain :: "time \<Rightarrow> node \<Rightarrow> poll \<Rightarrow> sync_state \<Rightarrow> (candidate \<times> sync_state) res" where
  "choose_chain now n p s =
     bind_res (fold_res (scan_step now n p (approved_winners n (length (m_p2p_peers s)) p)
                           (fst (most_approved n (length (m_p2p_peers s)) p)))
                 (headers_actions_data s) \<lparr> sc_data = [], sc_approved = None, sc_least = None, sc_most = None \<rparr>) (\<lambda>r.
       Inr (case sc_approved r of
              Some c \<Rightarrow> Some c
            | None \<Rightarrow> (case sc_least r of Some c \<Rightarrow> Some c | None \<Rightarrow> sc_most r),
            s\<lparr>headers_actions_data := sc_data r\<rparr>))"

text \<open>The whole worker. Its value is the block session that is started: with which peer, and why.
  The constructor of \<open>session_action_block\<close> marks the synchronisation as under way.\<close>

definition block_worker ::
  "ext \<Rightarrow> time \<Rightarrow> time \<Rightarrow> node \<Rightarrow> sync_state \<Rightarrow> ((string \<times> reason) option \<times> sync_state) res" where
  "block_worker E steady_now now n s =
     (if blockchain_sync_in_progress s then Inr (None, s)
      else let votes = fold (cast_vote steady_now (m_state n) (nodeid_ip_addresses s (m_public_addresses n)))
                         (sync_responses s) (clean_votes steady_now (m_votes s))
           in bind_res (take_poll E steady_now n votes) (\<lambda>p.
              bind_res (choose_chain now n p (s\<lparr>m_votes := votes\<rparr>)) (\<lambda>(chosen, s').
                Inr (map_option (\<lambda>(peer, _, why). (peer, why)) chosen,
                     if chosen = None then s' else s'\<lparr>blockchain_sync_in_progress := True\<rparr>))))"

section \<open>The sums of a poll\<close>

abbreviation fractions_val :: nat where
  "fractions_val \<equiv> 100000000"

definition votes_val :: "vote_info list \<Rightarrow> nat" where
  "votes_val vs = sum_list (map (\<lambda>v. coin_val (vt_stake v) + fractions_val) vs)"

text \<open>Every stake is an amount and all together, one coin added to each, stay below 2^64 coins.\<close>

definition stakes_ok :: "vote_info list \<Rightarrow> bool" where
  "stakes_ok vs \<longleftrightarrow> (\<forall>v \<in> set vs. coin_ok (vt_stake v)) \<and> votes_val vs < val_limit"

lemma vote_weight_val:
  assumes "coin_ok (vt_stake v)" "coin_val (vt_stake v) + fractions_val < val_limit"
  shows "coin_ok (vote_weight v)" "coin_val (vote_weight v) = coin_val (vt_stake v) + fractions_val"
proof -
  have one: "coin_ok (Coin 1 0)" "coin_val (Coin 1 0) = fractions_val" by (simp_all add: coin_ok_iff coin_val_def)
  show "coin_ok (vote_weight v)" using assms(1) one by (simp add: vote_weight_def coin_plus_ok)
  show "coin_val (vote_weight v) = coin_val (vt_stake v) + fractions_val"
    using coin_plus_val [OF assms(1) one(1)] assms(2) one(2) by (simp add: vote_weight_def)
qed

lemma votes_val_snoc [simp]:
  "votes_val [] = 0" "votes_val (vs @ [v]) = votes_val vs + (coin_val (vt_stake v) + fractions_val)"
  by (simp_all add: votes_val_def)

lemma stakes_ok_snoc:
  assumes "stakes_ok (vs @ [v])"
  shows "stakes_ok vs" "coin_ok (vote_weight v)" "coin_val (vote_weight v) = coin_val (vt_stake v) + fractions_val"
    "votes_val vs + coin_val (vote_weight v) < val_limit"
  using assms vote_weight_val [of v] by (auto simp: stakes_ok_def)

lemma votes_val_filter: "votes_val (filter P vs) + votes_val (filter (\<lambda>v. \<not> P v) vs) = votes_val vs"
  by (induction vs) (auto simp: votes_val_def)

lemma sum_stake_val: "stakes_ok vs \<Longrightarrow> coin_ok (sum_stake vs) \<and> coin_val (sum_stake vs) = votes_val vs"
proof (induction vs rule: rev_induct)
  case (snoc v vs)
  note v = stakes_ok_snoc [OF snoc.prems]
  have "sum_stake (vs @ [v]) = coin_plus (sum_stake vs) (vote_weight v)" by (simp add: sum_stake_def)
  then show ?case using snoc.IH [OF v(1)] v(2-4) coin_plus_ok coin_plus_val by simp
qed (simp add: sum_stake_def)

text \<open>The entry of a head block is the exact sum of the votes for it.\<close>

lemma approvals_val:
  assumes "stakes_ok vs"
  shows "omap_ok (approvals vs) \<and> (\<forall>h. case map_of (approvals vs) h of
           None \<Rightarrow> filter (\<lambda>v. vt_block_hash v = h) vs = []
         | Some a \<Rightarrow> coin_ok a \<and> coin_val a = votes_val (filter (\<lambda>v. vt_block_hash v = h) vs))"
  using assms
proof (induction vs rule: rev_induct)
  case (snoc v vs)
  note v = stakes_ok_snoc [OF snoc.prems]
  note IH = snoc.IH [OF v(1)]
  let ?app = "approvals vs" and ?hash = "vt_block_hash v"
  define old where "old = (case map_of ?app ?hash of None \<Rightarrow> coin_zero | Some a \<Rightarrow> a)"
  have step: "approvals (vs @ [v]) = omap_at coin_zero ?hash (\<lambda>a. coin_plus a (vote_weight v)) ?app"
    by (simp add: approvals_def)
  have old: "coin_ok old" "coin_val old = votes_val (filter (\<lambda>v. vt_block_hash v = ?hash) vs)"
    using IH by (auto simp: old_def split: option.splits dest!: spec [of _ ?hash])
  have "coin_val old \<le> votes_val vs"
    unfolding old(2) using votes_val_filter [of "\<lambda>v. vt_block_hash v = ?hash" vs] by simp
  then have new: "coin_ok (coin_plus old (vote_weight v))"
    "coin_val (coin_plus old (vote_weight v)) = coin_val old + coin_val (vote_weight v)"
    using old(1) v(2,4) coin_plus_ok coin_plus_val by auto
  have "map_of (approvals (vs @ [v])) = (map_of ?app)(?hash \<mapsto> coin_plus old (vote_weight v))"
    using IH by (simp add: step omap_at_def map_of_omap_alter old_def)
  moreover have "omap_ok (approvals (vs @ [v]))" using IH by (simp add: step omap_at_def omap_ok_alter)
  moreover have "filter (\<lambda>v. vt_block_hash v = h) (vs @ [v]) = filter (\<lambda>v. vt_block_hash v = h) vs"
    if "h \<noteq> ?hash" for h using that by simp
  moreover have "votes_val (filter (\<lambda>u. vt_block_hash u = ?hash) (vs @ [v]))
    = votes_val (filter (\<lambda>u. vt_block_hash u = ?hash) vs) + (coin_val (vt_stake v) + fractions_val)" by simp
  ultimately show ?case using IH new old(2) v(3) by (simp del: filter_append cong: option.case_cong)
qed (simp add: approvals_def)

text \<open>The rows of the results, as numbers: what approves a head block and what rejects it.\<close>

lemma vote_results_val:
  assumes "vote_results E vs = Inr results" "stakes_ok vs" "set_order_ok E" "(h, a, r) \<in> set results"
  shows "coin_ok a" "coin_ok r" "coin_val a = votes_val (filter (\<lambda>v. vt_block_hash v = h) vs)"
    "coin_val a + coin_val r = votes_val vs"
proof -
  let ?app = "approvals vs"
  obtain k where "k \<in> set (x_set_order E (map fst ?app))"
    and "bind_res (coin_minus (sum_stake vs) (the (map_of ?app k))) (\<lambda>r. Inr (k, the (map_of ?app k), r)) = Inr (h, a, r)"
    using assms(1,4) by (force simp: vote_results_def Let_def collect_res_Inr list_all2_conv_all_nth in_set_conv_nth)
  then have k: "h \<in> fst ` set ?app" "a = the (map_of ?app h)" "coin_minus (sum_stake vs) a = Inr r"
    using assms(3) by (auto simp: set_order_ok_def result_simps)
  then obtain b where "map_of ?app h = Some b" by (metis map_of_eq_None_iff not_Some_eq)
  then show a: "coin_ok a" "coin_val a = votes_val (filter (\<lambda>v. vt_block_hash v = h) vs)"
    using approvals_val [OF assms(2)] k(2) by (auto dest!: conjunct2 spec [of _ h])
  show "coin_ok r" "coin_val a + coin_val r = votes_val vs"
    using coin_minus_eq [of "sum_stake vs" a r] k(3) a(1) sum_stake_val [OF assms(2)] by auto
qed

text \<open>An approved head block has an absolute majority of the weights, so there is at most one.\<close>

lemma approved_winner_majority:
  assumes "vote_results E vs = Inr (pl_results p)" "stakes_ok vs" "set_order_ok E" "h \<in> set (approved_winners n peers p)"
  shows "votes_val vs < 2 * votes_val (filter (\<lambda>v. vt_block_hash v = h) vs)"
proof -
  obtain a r where row: "(h, a, r) \<in> set (pl_results p)" "r < a"
    using assms(4) by (auto simp: approved_winners_def)
  note val = vote_results_val [OF assms(1-3) row(1)]
  have "coin_val r < coin_val a" using row(2) val(1,2) by (simp add: coin_less_val)
  then show ?thesis using val(3,4) by linarith
qed

text \<open>The fold behind \<open>most_approved\<close> keeps the largest value above the bound, if the guard holds.\<close>

lemma best_row:
  assumes "fold (\<lambda>(h, a, _) (c, b). if b < a \<and> own < a \<and> G then (h, a) else (c, b)) rows (c0, b0) = (c, b)"
  shows "(c = c0 \<and> b = b0 \<or> G \<and> own < b \<and> (\<exists>r. (c, b, r) \<in> set rows))
    \<and> b0 \<le> b \<and> (G \<longrightarrow> (\<forall>(k, a, r) \<in> set rows. own < a \<longrightarrow> a \<le> (b :: 'a :: linorder)))"
  using assms
proof (induction rows arbitrary: c0 b0)
  case (Cons row rows)
  obtain h a r where row: "row = (h, a, r)" by (cases row)
  show ?case
  proof (cases "b0 < a \<and> own < a \<and> G")
    case True
    then show ?thesis using Cons.IH [of h a] Cons.prems by (auto simp: row)
  next
    case False
    then have "fold (\<lambda>(h, a, _) (c, b). if b < a \<and> own < a \<and> G then (h, a) else (c, b)) rows (c0, b0) = (c, b)"
      using Cons.prems False by (simp only: row fold_simps prod.case if_False)
    from Cons.IH [OF this] False show ?thesis by (auto simp: row)
  qed
qed simp

lemma most_approved_row:
  assumes "most_approved n peers p = (h, a)" "h \<noteq> []"
  shows "vt_stake (pl_own p) < a \<and> (\<exists>r. (h, a, r) \<in> set (pl_results p)) \<and> max 10 (peers div 3) < pl_participants p
    \<and> stake_threshold n peers < pl_with_stake p \<and> (\<forall>(k, b, r) \<in> set (pl_results p). b \<le> a)"
proof -
  let ?G = "max 10 (peers div 3) < pl_participants p \<and> stake_threshold n peers < pl_with_stake p"
  have "fold (\<lambda>(h, a, _) (c, b). if b < a \<and> vt_stake (pl_own p) < a \<and> ?G then (h, a) else (c, b)) (pl_results p)
      ([], coin_zero) = (h, a)"
    using assms(1) by (simp add: most_approved_def)
  from best_row [OF this] assms(2) have *: "?G" "vt_stake (pl_own p) < a" "\<exists>r. (h, a, r) \<in> set (pl_results p)"
    "\<forall>(k, b, r) \<in> set (pl_results p). vt_stake (pl_own p) < b \<longrightarrow> b \<le> a"
    by auto
  moreover have "b \<le> a" if "vt_stake (pl_own p) < b \<longrightarrow> b \<le> a" for b
    using that *(2) by (meson less_le_trans not_less order.trans linear less_imp_le)
  ultimately show ?thesis by fast
qed

text \<open>The rows of the results are all the hashes that got a vote.\<close>

lemma vote_results_rows:
  assumes "vote_results E vs = Inr results" "set_order_ok E" "v \<in> set vs" "stakes_ok vs"
  shows "\<exists>a r. (vt_block_hash v, a, r) \<in> set results"
proof -
  let ?app = "approvals vs"
  have "map_of ?app (vt_block_hash v) \<noteq> None"
  proof
    assume "map_of ?app (vt_block_hash v) = None"
    then have "filter (\<lambda>u. vt_block_hash u = vt_block_hash v) vs = []"
      using conjunct2 [OF approvals_val [OF assms(4)], THEN spec, of "vt_block_hash v"] by simp
    then show False using assms(3) by (auto simp: filter_empty_conv)
  qed
  then have "vt_block_hash v \<in> set (x_set_order E (map fst ?app))"
    using assms(2) by (auto simp: set_order_ok_def map_of_eq_None_iff)
  then obtain i where i: "i < length (x_set_order E (map fst ?app))" "x_set_order E (map fst ?app) ! i = vt_block_hash v"
    by (auto simp: in_set_conv_nth)
  have "list_all2 (\<lambda>h y. bind_res (coin_minus (sum_stake vs) (the (map_of ?app h))) (\<lambda>r. Inr (h, the (map_of ?app h), r)) = Inr y)
      (x_set_order E (map fst ?app)) results"
    using assms(1) by (simp add: vote_results_def Let_def collect_res_Inr)
  from list_all2_nthD [OF this i(1)] list_all2_lengthD [OF this] i
  have "\<exists>r. (vt_block_hash v, the (map_of ?app (vt_block_hash v)), r) = results ! i" "i < length results"
    by (auto simp: result_simps)
  then show ?thesis by (metis nth_mem)
qed

text \<open>The head a poll prefers without a majority has more weight behind it than the own stake, and no other
  head has more.\<close>

lemma most_approved_votes:
  assumes "vote_results E vs = Inr (pl_results p)" "stakes_ok vs" "set_order_ok E"
    "fst (most_approved n peers p) = h" "h \<noteq> []" "coin_ok (vt_stake (pl_own p))"
  shows "max 10 (peers div 3) < pl_participants p \<and> stake_threshold n peers < pl_with_stake p
    \<and> coin_val (vt_stake (pl_own p)) < votes_val (filter (\<lambda>v. vt_block_hash v = h) vs)
    \<and> (\<forall>k. votes_val (filter (\<lambda>v. vt_block_hash v = k) vs) \<le> votes_val (filter (\<lambda>v. vt_block_hash v = h) vs))"
proof -
  obtain a where "most_approved n peers p = (h, a)" using assms(4) by (metis prod.collapse)
  note m = most_approved_row [OF this assms(5)]
  obtain r where row: "(h, a, r) \<in> set (pl_results p)" using m by blast
  note a = vote_results_val [OF assms(1-3) row]
  have "votes_val (filter (\<lambda>v. vt_block_hash v = k) vs) \<le> coin_val a" for k
  proof (cases "\<exists>v \<in> set vs. vt_block_hash v = k")
    case True
    then obtain b q where b: "(k, b, q) \<in> set (pl_results p)" using vote_results_rows [OF assms(1,3) _ assms(2)] by blast
    then have "b \<le> a" using m by blast
    then show ?thesis
      using vote_results_val [OF assms(1-3) b] a(1) coin_less_val [of a b] by (simp flip: not_less)
  next
    case False
    then have "filter (\<lambda>v. vt_block_hash v = k) vs = []" by (simp add: filter_empty_conv)
    then show ?thesis by simp
  qed
  moreover have "coin_val (vt_stake (pl_own p)) < coin_val a" using m a(1) assms(6) coin_less_val by blast
  ultimately show ?thesis using m a(3) by simp
qed

lemma votes_val_disjoint:
  assumes "h \<noteq> k"
  shows "votes_val (filter (\<lambda>v. vt_block_hash v = h) vs) + votes_val (filter (\<lambda>v. vt_block_hash v = k) vs) \<le> votes_val vs"
  using assms by (induction vs) (auto simp: votes_val_def)

section \<open>What is chosen\<close>

text \<open>What is known of a candidate: its headers continue the own chain, its coefficient is the one
  of the place where they attach, and an old block is only given up for a reason the poll gave.\<close>

definition candidate_ok ::
  "time \<Rightarrow> node \<Rightarrow> string list \<Rightarrow> string \<Rightarrow> (string \<times> headers_action_data) list
     \<Rightarrow> string \<times> headers_action_data \<times> reason \<Rightarrow> bool" where
  "candidate_ok now n winners most data = (\<lambda>(peer, d, why).
     (peer, d) \<in> set data \<and> headers_attach (m_blockchain n) (act_headers d) = Inr True
     \<and> revert_coefficient why = revert_coefficient_of now n (block_number (last (act_headers d)))
     \<and> reverts_required d = revert_coefficient why
     \<and> (if unsafe_time_to_revert (revert_coefficient why)
         then rs_v why = Unsafe_best \<and> block_hash (hd (act_headers d)) \<in> set winners
           \<or> rs_v why = Unsafe_better \<and> block_hash (hd (act_headers d)) = most
         else rs_v why = (if revert_coefficient why > 0 then Safe_revert else Safe_better)))"

definition scan_ok :: "time \<Rightarrow> node \<Rightarrow> string list \<Rightarrow> string \<Rightarrow> scan \<Rightarrow> bool" where
  "scan_ok now n winners most s \<longleftrightarrow>
     pred_option (candidate_ok now n winners most (sc_data s)) (sc_approved s)
     \<and> pred_option (candidate_ok now n winners most (sc_data s)) (sc_least s)
     \<and> pred_option (candidate_ok now n winners most (sc_data s)) (sc_most s)"

lemma candidate_ok_more:
  "pred_option (candidate_ok now n w m data) c \<Longrightarrow> pred_option (candidate_ok now n w m (data @ rest)) c"
  by (cases c) (auto simp: candidate_ok_def)

lemma consider_chain_ok:
  assumes "scan_ok now n winners most s" "(peer, d) \<in> set (sc_data s)"
    "headers_attach (m_blockchain n) (act_headers d) = Inr True"
    "reverts_required d = c" "c = revert_coefficient_of now n (block_number (last (act_headers d)))"
  shows "scan_ok now n winners most (consider_chain p winners most peer d c s)"
    "sc_data (consider_chain p winners most peer d c s) = sc_data s"
proof -
  let ?front = "block_hash (hd (act_headers d))"
  have best: "candidate_ok now n winners most (sc_data s) (peer, d, polled Unsafe_best p c)"
    if "unsafe_time_to_revert c" "?front \<in> set winners"
    using assms(2-5) that by (simp add: candidate_ok_def polled_def)
  have better: "candidate_ok now n winners most (sc_data s) (peer, d, polled Unsafe_better p c)"
    if "unsafe_time_to_revert c" "most = ?front"
    using assms(2-5) that by (simp add: candidate_ok_def polled_def)
  have safe: "candidate_ok now n winners most (sc_data s) (peer, d, unpolled c)"
    if "\<not> unsafe_time_to_revert c"
    using assms(2-5) that by (simp add: candidate_ok_def unpolled_def)
  show "scan_ok now n winners most (consider_chain p winners most peer d c s)"
    using assms(1) best better safe by (auto simp: scan_ok_def consider_chain_def Let_def)
  show "sc_data (consider_chain p winners most peer d c s) = sc_data s"
    by (simp add: consider_chain_def Let_def)
qed

lemma scan_step_ok:
  assumes "scan_step now n p winners most x s = Inr t" "scan_ok now n winners most s"
  shows "scan_ok now n winners most t"
proof -
  obtain peer d where x: "x = (peer, d)" by force
  have old: "scan_ok now n winners most (s\<lparr>sc_data := sc_data s @ [y]\<rparr>)" for y
    using assms(2) candidate_ok_more by (auto simp: scan_ok_def)
  obtain a where a: "headers_attach (m_blockchain n) (act_headers d) = Inr a"
    using assms(1) by (auto simp: x scan_step_def result_simps)
  show ?thesis
  proof (cases a)
    case False
    then show ?thesis using assms(1) a old by (auto simp: x scan_step_def)
  next
    case True
    let ?c = "revert_coefficient_of now n (block_number (last (act_headers d)))"
    have "t = consider_chain p winners most peer (d\<lparr>reverts_required := ?c\<rparr>) ?c
        (s\<lparr>sc_data := sc_data s @ [(peer, d\<lparr>reverts_required := ?c\<rparr>)]\<rparr>)"
      using assms(1) a True by (simp add: x scan_step_def Let_def)
    then show ?thesis
      by (simp only:) (rule consider_chain_ok(1) [OF old]; use a True in simp)
  qed
qed

lemma choose_chain_ok:
  assumes "choose_chain now n p s = Inr (Some c, s')"
  shows "candidate_ok now n (approved_winners n (length (m_p2p_peers s)) p)
    (fst (most_approved n (length (m_p2p_peers s)) p)) (headers_actions_data s') c"
proof -
  let ?w = "approved_winners n (length (m_p2p_peers s)) p" and ?m = "fst (most_approved n (length (m_p2p_peers s)) p)"
  obtain r where r: "fold_res (scan_step now n p ?w ?m) (headers_actions_data s)
      \<lparr> sc_data = [], sc_approved = None, sc_least = None, sc_most = None \<rparr> = Inr r"
    and c: "(case sc_approved r of Some c \<Rightarrow> Some c
       | None \<Rightarrow> (case sc_least r of Some c \<Rightarrow> Some c | None \<Rightarrow> sc_most r)) = Some c" "s' = s\<lparr>headers_actions_data := sc_data r\<rparr>"
    using assms by (auto simp: choose_chain_def result_simps)
  have "scan_ok now n ?w ?m r"
    by (rule fold_res_invariant [OF r]) (auto simp: scan_ok_def [of _ _ _ _ "\<lparr>sc_data = _, sc_approved = _, sc_least = _, sc_most = _\<rparr>"] intro: scan_step_ok)
  then show ?thesis using c by (auto simp: scan_ok_def split: option.splits)
qed

section \<open>The theorems\<close>

text \<open>The votes a poll counts: one per address, and the own.\<close>

definition votes_of :: "time \<Rightarrow> node \<Rightarrow> sync_state \<Rightarrow> (string, vote_info) omap" where
  "votes_of steady_now n s =
     fold (cast_vote steady_now (m_state n) (nodeid_ip_addresses s (m_public_addresses n)))
       (sync_responses s) (clean_votes steady_now (m_votes s))"

definition counted_votes :: "time \<Rightarrow> node \<Rightarrow> sync_state \<Rightarrow> vote_info list" where
  "counted_votes steady_now n s =
     map snd (votes_of steady_now n s) @
     [\<lparr> vt_stake = get_balance (own_address n) Layer_pool (m_state n),
        vt_block_hash = block_hash (last_header_ex (m_blockchain n)), vt_tp = steady_now \<rparr>]"

text \<open>The voters that hold anything, and the weight of the votes for a head block.\<close>

definition voters_with_stake :: "(string, vote_info) omap \<Rightarrow> nat" where
  "voters_with_stake votes = length (filter (\<lambda>(_, v). vt_stake v \<noteq> coin_zero) votes)"

definition weight_for :: "string \<Rightarrow> vote_info list \<Rightarrow> nat" where
  "weight_for hash vs = votes_val (filter (\<lambda>v. vt_block_hash v = hash) vs)"

lemma block_worker_Some:
  assumes "block_worker E steady_now now n s = Inr (Some (peer, why), s')"
  obtains p d where "vote_results E (counted_votes steady_now n s) = Inr (pl_results p)"
    "pl_participants p = length (votes_of steady_now n s)"
    "pl_with_stake p = voters_with_stake (votes_of steady_now n s)"
    "vt_stake (pl_own p) = get_balance (own_address n) Layer_pool (m_state n)"
    "candidate_ok now n (approved_winners n (length (m_p2p_peers s)) p)
       (fst (most_approved n (length (m_p2p_peers s)) p)) (headers_actions_data s') (peer, d, why)"
    "blockchain_sync_in_progress s'"
proof -
  obtain p t d where p: "take_poll E steady_now n (votes_of steady_now n s) = Inr p"
    and t: "choose_chain now n p (s\<lparr>m_votes := votes_of steady_now n s\<rparr>) = Inr (Some (peer, d, why), t)"
    and s': "s' = t\<lparr>blockchain_sync_in_progress := True\<rparr>"
    using assms by (auto simp: block_worker_def votes_of_def [symmetric] Let_def result_simps split: if_splits)
  have "vote_results E (counted_votes steady_now n s) = Inr (pl_results p)"
    "pl_participants p = length (votes_of steady_now n s)"
    "pl_with_stake p = voters_with_stake (votes_of steady_now n s)"
    "vt_stake (pl_own p) = get_balance (own_address n) Layer_pool (m_state n)"
    using p by (auto simp: take_poll_def counted_votes_def voters_with_stake_def Let_def result_simps)
  moreover have "candidate_ok now n (approved_winners n (length (m_p2p_peers s)) p)
       (fst (most_approved n (length (m_p2p_peers s)) p)) (headers_actions_data s') (peer, d, why)"
    using choose_chain_ok [OF t] by (simp add: s')
  ultimately show ?thesis using that by (simp add: s')
qed

text \<open>C17: A node gives up blocks older than BLOCK\_SAFE\_DELAY only when its peers were polled. For the reason
  \<open>unsafe_best\<close> more than two addresses and more than a third of the number of peers voted, more of them with a
  stake than the threshold (a quarter of the peers and at least two, one on a testnet), and the votes for the head
  of the chosen chain are an absolute majority of all the weight that was counted, each voter weighing one coin
  more than its balance. For the reason \<open>unsafe_better\<close> more than ten addresses voted, the same bounds hold, and
  the votes for the head weigh more than the own balance and at least as much as those for any other head; only
  an empty hash needs no votes, since it stands for no candidate. The chosen chain always continues the own chain
  at a block it has, and a chain chosen without a poll gives up at most a block that is not old yet.\<close>

theorem reverting_needs_majority:
  assumes "block_worker E steady_now now n s = Inr (Some (peer, why), s')"
    and "stakes_ok (counted_votes steady_now n s)" "set_order_ok E"
  shows "\<exists>d. (peer, d) \<in> set (headers_actions_data s')
    \<and> headers_attach (m_blockchain n) (act_headers d) = Inr True
    \<and> revert_coefficient why = revert_coefficient_of now n (block_number (last (act_headers d)))
    \<and> (unsafe_time_to_revert (revert_coefficient why) \<longleftrightarrow> rs_v why \<in> {Unsafe_best, Unsafe_better})
    \<and> (rs_v why = Unsafe_best \<longrightarrow>
         max 2 (length (m_p2p_peers s) div 3) < length (votes_of steady_now n s)
       \<and> stake_threshold n (length (m_p2p_peers s)) < voters_with_stake (votes_of steady_now n s)
       \<and> votes_val (counted_votes steady_now n s)
         < 2 * weight_for (block_hash (hd (act_headers d))) (counted_votes steady_now n s))
    \<and> (rs_v why = Unsafe_better \<longrightarrow> block_hash (hd (act_headers d)) = []
       \<or> max 10 (length (m_p2p_peers s) div 3) < length (votes_of steady_now n s)
       \<and> stake_threshold n (length (m_p2p_peers s)) < voters_with_stake (votes_of steady_now n s)
       \<and> coin_val (get_balance (own_address n) Layer_pool (m_state n))
         < weight_for (block_hash (hd (act_headers d))) (counted_votes steady_now n s)
       \<and> (\<forall>hash. weight_for hash (counted_votes steady_now n s)
         \<le> weight_for (block_hash (hd (act_headers d))) (counted_votes steady_now n s)))"
proof -
  let ?peers = "length (m_p2p_peers s)"
  obtain p d where p: "vote_results E (counted_votes steady_now n s) = Inr (pl_results p)"
    "pl_participants p = length (votes_of steady_now n s)"
    "pl_with_stake p = voters_with_stake (votes_of steady_now n s)"
    "vt_stake (pl_own p) = get_balance (own_address n) Layer_pool (m_state n)"
    and c: "candidate_ok now n (approved_winners n ?peers p) (fst (most_approved n ?peers p)) (headers_actions_data s') (peer, d, why)"
    using block_worker_Some [OF assms(1)] by blast
  let ?front = "block_hash (hd (act_headers d))"
  have own: "coin_ok (vt_stake (pl_own p))" using assms(2) p(4) by (simp add: stakes_ok_def counted_votes_def)
  have "max 2 (?peers div 3) < pl_participants p \<and> stake_threshold n ?peers < pl_with_stake p" if "h \<in> set (approved_winners n ?peers p)" for h
    using that by (auto simp: approved_winners_def)
  then have best: "max 2 (?peers div 3) < length (votes_of steady_now n s)
      \<and> stake_threshold n ?peers < voters_with_stake (votes_of steady_now n s)
      \<and> votes_val (counted_votes steady_now n s) < 2 * weight_for ?front (counted_votes steady_now n s)"
    if "?front \<in> set (approved_winners n ?peers p)"
    using that approved_winner_majority [OF p(1) assms(2,3)] by (simp add: p weight_for_def)
  note better = most_approved_votes [OF p(1) assms(2,3) sym _ own, of ?front n ?peers, unfolded p weight_for_def [symmetric]]
  have d: "(peer, d) \<in> set (headers_actions_data s') \<and> headers_attach (m_blockchain n) (act_headers d) = Inr True
      \<and> revert_coefficient why = revert_coefficient_of now n (block_number (last (act_headers d)))"
    using c by (simp add: candidate_ok_def)
  show ?thesis
  proof (cases "unsafe_time_to_revert (revert_coefficient why)")
    case True
    then have "rs_v why = Unsafe_best \<and> ?front \<in> set (approved_winners n ?peers p)
        \<or> rs_v why = Unsafe_better \<and> ?front = fst (most_approved n ?peers p)"
      using c by (simp add: candidate_ok_def)
    then show ?thesis using d True best better by (intro exI [of _ d]) (elim disjE; simp; blast)
  next
    case False
    then have "rs_v why \<notin> {Unsafe_best, Unsafe_better}" using c by (auto simp: candidate_ok_def)
    then show ?thesis using d False by (intro exI [of _ d]) simp
  qed
qed

text \<open>A poll of three peers, two of which have a stake, against the genesis block of the sample node.\<close>

definition sample_peer_header :: block_header_extended where
  "sample_peer_header = extend_header (sample_header 0) ''b''"

definition sample_sync :: sync_state where
  "sample_sync = \<lparr> blockchain_sync_in_progress = False,
     sync_responses = map (\<lambda>p. (p, \<lparr> own_header = sample_peer_header, promised_header = sample_peer_header \<rparr>))
       [''alice'', ''bob'', ''carol''],
     headers_actions_data = [(''carol'', \<lparr> reverts_required = 0, act_headers = [sample_peer_header] \<rparr>)],
     m_votes = [], m_p2p_peers = [''alice'', ''bob'', ''carol''], peer_address = (\<lambda>p. p) \<rparr>"

definition sample_testnet_node :: node where
  "sample_testnet_node = sample_node\<lparr>pconfig := (pconfig sample_node)\<lparr>cf_testnet := True\<rparr>\<rparr>"

lemma sample_poll:
  "case block_worker sample_ext 100 600 sample_testnet_node sample_sync of
     Inr (Some (peer, why), _) \<Rightarrow> peer = ''carol'' \<and> rs_v why = Unsafe_best \<and> revert_coefficient why = 1 | _ \<Rightarrow> False"
  by code_simp

lemma sample_votes:
  "counted_votes 100 sample_testnet_node sample_sync =
     [\<lparr>vt_stake = Coin 100 0, vt_block_hash = ''b'', vt_tp = 100\<rparr>,
      \<lparr>vt_stake = Coin 5 50000000, vt_block_hash = ''b'', vt_tp = 100\<rparr>, no_vote,
      \<lparr>vt_stake = Coin 0 0, vt_block_hash = ''#0'', vt_tp = 100\<rparr>]"
  by code_simp

theorem reverting_needs_majority_witness:
  "\<exists>peer why s'. block_worker sample_ext 100 600 sample_testnet_node sample_sync = Inr (Some (peer, why), s')
    \<and> rs_v why = Unsafe_best
    \<and> (\<exists>d. (peer, d) \<in> set (headers_actions_data s')
      \<and> votes_val (counted_votes 100 sample_testnet_node sample_sync)
        < 2 * weight_for (block_hash (hd (act_headers d))) (counted_votes 100 sample_testnet_node sample_sync))"
proof -
  obtain peer why s' where run: "block_worker sample_ext 100 600 sample_testnet_node sample_sync = Inr (Some (peer, why), s')"
    and why: "rs_v why = Unsafe_best"
    using sample_poll by (auto split: sum.splits option.splits prod.splits)
  have ok: "stakes_ok (counted_votes 100 sample_testnet_node sample_sync)"
    by (simp add: sample_votes stakes_ok_def votes_val_def no_vote_def coin_ok_iff coin_val_def coin_zero_def)
  have order: "set_order_ok sample_ext" by (simp add: set_order_ok_def sample_ext_def)
  show ?thesis using reverting_needs_majority [OF run ok order] run why by blast
qed

text \<open>A peer without a stake does not vote, although its vote would weigh one coin: the entry its
  address gets is a vote for no block at all, which still weighs one coin in the sum.\<close>

theorem stakeless_vote_lost:
  assumes "ips peer = Some ip" "get_balance peer Layer_pool st = coin_zero" "omap_ok votes" "map_of votes ip = None"
  shows "map_of (cast_vote now st ips (peer, response) votes) = (map_of votes)(ip \<mapsto> no_vote)
    \<and> coin_val (vote_weight no_vote) = coin_val (Coin 1 0)"
  using assms
  by (simp add: cast_vote_def omap_at_def map_of_omap_alter no_vote_def Let_def vote_weight_def coin_plus_def
      coin_zero_def coin_val_def fractions_in_whole_def)

theorem stakeless_vote_lost_witness:
  "map_of (cast_vote 0 sample_state [''carol'' \<mapsto> ''ip''] (''carol'', snd (hd (sync_responses sample_sync))) [])
     = [''ip'' \<mapsto> no_vote]"
  using stakeless_vote_lost [of "[''carol'' \<mapsto> ''ip'']" "''carol''" "''ip''" sample_state "[]" 0]
  by (simp add: sample_state_def get_balance_pool coin_zero_def)

end
