(* ===== verification/Sync_Worker.thy ===== *)
theory Sync_Worker
  imports Voting
begin

text \<open>
  The rest of the synchronisation in libblockchain/node.cpp: what a node promises to its peers
  (node\_synchronization.cpp), the decision of \<open>header_worker\<close> to take over headers, to mine or to
  wait, the requests \<open>sync_worker\<close> sends out, and what the sessions of sessions.cpp do to the
  shared state when they start, get their answer and end.
\<close>

section \<open>Promises\<close>

definition empty_header :: block_header_extended where
  "empty_header = \<lparr> block_number = 0, delta = 0, c_sum = 0, c_const = 0, prev_hash = [], time_signed = 0,
     block_hash = [] \<rparr>"

text \<open>The best header a peer promised for the next block.\<close>

definition net_sync_info :: "node \<Rightarrow> sync_state \<Rightarrow> block_header_extended" where
  "net_sync_info n s =
     fold (\<lambda>(_, r) result.
        let promised = promised_header r
        in if block_number promised = block_number (m_last_header (m_blockchain n)) + 1 \<and> c_sum promised > c_sum result
           then promised else result) (sync_responses s) empty_header"

text \<open>The own head, or the header of the block this node would mine on it.\<close>

definition own_sync_info :: "ext \<Rightarrow> node \<Rightarrow> block_header_extended res" where
  "own_sync_info E n =
     (let result = last_header_ex (m_blockchain n)
      in bind_res (is_miner n) (\<lambda>miner.
         if miner
         then bind_res (calc_delta E (own_address n) (whole (node_get_balance n)) (block_hash result) (c_const result)) (\<lambda>d.
                Inr (result\<lparr>prev_hash := block_hash result, block_hash := [], delta := d, c_sum := c_sum result + d,
                            time_signed := time_signed result + int BLOCK_MINE_DELAY,
                            block_number := block_number result + 1\<rparr>))
         else Inr result))"

text \<open>The answer to a \<open>SyncRequest\<close>.\<close>

definition sync_request_answer :: "ext \<Rightarrow> node \<Rightarrow> sync_state \<Rightarrow> sync_response res" where
  "sync_request_answer E n s =
     bind_res (own_sync_info E n) (\<lambda>own.
       Inr \<lparr> own_header = last_header_ex (m_blockchain n),
             promised_header = (if c_sum (net_sync_info n s) > c_sum own then net_sync_info n s else own) \<rparr>)"

section \<open>The header worker\<close>

record header_scan =
  hs_header :: block_header_extended
  hs_peer :: string
  hs_coefficient :: rat
  hs_requested :: "string list"

definition header_scan_step ::
  "sync_state \<Rightarrow> block_header_extended \<Rightarrow> string \<times> sync_response \<Rightarrow> header_scan \<Rightarrow> header_scan" where
  "header_scan_step s head = (\<lambda>(peer, r) c.
     if peer \<notin> set (m_p2p_peers s) then c
     else let own = own_header r;
              active = (case map_of (headers_actions_data s) peer of None \<Rightarrow> 0 | Some d \<Rightarrow> reverts_required d)
          in if active > 0
             then c\<lparr>hs_coefficient := active, hs_requested := block_hash own # hs_requested c\<rparr>
             else if block_hash head \<noteq> block_hash own \<and> c_sum (hs_header c) < c_sum own
                     \<and> block_number (hs_header c) \<le> block_number own \<and> block_hash own \<notin> set (hs_requested c)
             then c\<lparr>hs_header := own, hs_peer := peer\<rparr>
             else c)"

definition scan_headers :: "node \<Rightarrow> sync_state \<Rightarrow> header_scan" where
  "scan_headers n s =
     (let head = last_header_ex (m_blockchain n)
      in fold (header_scan_step s head) (sync_responses s)
           \<lparr> hs_header = head\<lparr>c_sum := 0\<rparr>, hs_peer = [], hs_coefficient = 0, hs_requested = [] \<rparr>)"

datatype sync_decision = Sync_now | Mine_now | Just_wait

text \<open>The chain of conditions, in their order; \<open>since\<close> is the age of the head block.\<close>

definition decide ::
  "time \<Rightarrow> block_header_extended \<Rightarrow> block_header_extended \<Rightarrow> bool \<Rightarrow> u64 \<Rightarrow> u64 \<Rightarrow> sync_decision" where
  "decide since head found found_peer own_sum net_sum =
     (if block_number head + 1 < block_number found \<and> int (BLOCK_MINE_DELAY + BLOCK_WAIT_DELAY) \<le> since then Sync_now
      else if c_sum head < c_sum found \<and> block_number head = block_number found then Sync_now
      else if since < int BLOCK_SAFE_DELAY \<and> c_sum head = c_sum found \<and> block_number head = block_number found
              \<and> block_hash head \<noteq> block_hash found then Sync_now
      else if own_sum < c_sum found \<and> net_sum < c_sum found then Sync_now
      else if own_sum < c_sum found \<and> net_sum = c_sum found then Sync_now
      else if own_sum < c_sum found
      then (if int (BLOCK_MINE_DELAY + BLOCK_WAIT_DELAY) < since then Sync_now else Just_wait)
      else if int (BLOCK_MINE_DELAY - BLOCK_WAIT_DELAY) \<le> since \<and> since < int BLOCK_MINE_DELAY
      then (if found_peer then Sync_now else Just_wait)
      else if int (BLOCK_MINE_DELAY + BLOCK_WAIT_DELAY) \<le> since \<or> int BLOCK_MINE_DELAY \<le> since \<and> own_sum \<ge> net_sum
      then Mine_now else Just_wait)"

text \<open>What the worker starts: a header session with a peer, or the mining of a block.\<close>

datatype header_outcome = Start_headers string block_header_extended | Start_mining | Start_nothing

definition header_worker ::
  "ext \<Rightarrow> time \<Rightarrow> time \<Rightarrow> node \<Rightarrow> sync_state \<Rightarrow> (rat \<times> (string \<times> reason) option \<times> header_outcome \<times> sync_state) res" where
  "header_worker E steady_now now n s0 =
     bind_res (block_worker E steady_now now n s0) (\<lambda>(block_session, s).
       let head = last_header_ex (m_blockchain n); c = scan_headers n s
       in if blockchain_sync_in_progress s then Inr (hs_coefficient c, block_session, Start_nothing, s)
          else bind_res (own_sync_info E n) (\<lambda>own.
               case decide (now - time_signed head) head (hs_header c) (hs_peer c \<noteq> []) (c_sum own) (c_sum (net_sync_info n s)) of
                 Sync_now \<Rightarrow>
                   throw_if (hs_peer c = []) (Logic_error ''scan_peer.empty()'')
                     (Inr (hs_coefficient c, block_session, Start_headers (hs_peer c) (hs_header c), s))
               | Mine_now \<Rightarrow>
                   bind_res (is_miner n) (\<lambda>miner.
                     Inr (hs_coefficient c, block_session, if miner then Start_mining else Start_nothing, s))
               | Just_wait \<Rightarrow> Inr (hs_coefficient c, block_session, Start_nothing, s)))"

section \<open>The requests for promises\<close>

text \<open>\<open>Ask_peer\<close> goes over an open connection; \<open>Ask_address\<close> opens one to the address of a node
  and first has it sign a ping, by the key of its authority when one is known.\<close>

datatype sync_session = Ask_peer string | Ask_address string string string

definition authority_of :: "(string \<rightharpoonup> string) \<Rightarrow> string \<Rightarrow> string" where
  "authority_of authorities node_address = (case authorities node_address of None \<Rightarrow> [] | Some a \<Rightarrow> a)"

definition sync_targets :: "node \<Rightarrow> (string \<rightharpoonup> string) \<Rightarrow> sync_state \<Rightarrow> sync_session list" where
  "sync_targets n authorities s =
     map Ask_peer (m_p2p_peers s) @
     map (\<lambda>i. Ask_address (pa_node_address i) (pa_local_address i) (authority_of authorities (pa_node_address i)))
       (filter (\<lambda>i. pa_node_address i \<notin> set (m_p2p_peers s) \<and> get_role (pa_node_address i) (m_state n) = None
                    \<and> own_address n \<noteq> pa_node_address i)
         (fresh_addresses PUBLIC_ADDRESS_FRESH_THRESHHOLD_SECONDS (m_public_addresses n)))"

definition sync_worker ::
  "ext \<Rightarrow> time \<Rightarrow> time \<Rightarrow> (string \<rightharpoonup> string) \<Rightarrow> node \<Rightarrow> sync_state
     \<Rightarrow> ((string \<times> reason) option \<times> header_outcome \<times> sync_session list \<times> sync_state) res" where
  "sync_worker E steady_now now authorities n s =
     bind_res (header_worker E steady_now now n s) (\<lambda>(_, block_session, outcome, s').
       Inr (block_session, outcome, sync_targets n authorities s', s'))"

section \<open>What the header worker decides\<close>

text \<open>The scan ends with the own head, its sum set to zero, or with the header of a connected peer.\<close>

definition header_found :: "node \<Rightarrow> sync_state \<Rightarrow> header_scan \<Rightarrow> bool" where
  "header_found n s c \<longleftrightarrow>
     (let head = last_header_ex (m_blockchain n)
      in block_number head \<le> block_number (hs_header c)
       \<and> (if hs_peer c = [] then hs_header c = head\<lparr>c_sum := 0\<rparr>
          else hs_peer c \<in> set (m_p2p_peers s) \<and> (\<exists>r. (hs_peer c, r) \<in> set (sync_responses s) \<and> hs_header c = own_header r)
               \<and> block_hash head \<noteq> block_hash (hs_header c)))"

lemma scan_headers_found:
  assumes "[] \<notin> set (m_p2p_peers s)"
  shows "header_found n s (scan_headers n s)"
  unfolding scan_headers_def Let_def
proof (rule fold_invariant [where Q = "\<lambda>x. x \<in> set (sync_responses s)"])
  fix x c assume x: "x \<in> set (sync_responses s)" and c: "header_found n s c"
  obtain peer r where x': "x = (peer, r)" by force
  have "peer \<noteq> []" if "peer \<in> set (m_p2p_peers s)" using that assms by auto
  then show "header_found n s (header_scan_step s (last_header_ex (m_blockchain n)) x c)"
    using c x by (auto simp: x' header_found_def header_scan_step_def Let_def intro: order.trans)
qed (simp_all add: header_found_def)

text \<open>Whether headers of a peer are under way that take own blocks away, and the heads that are on offer: reported by
  a connected peer that is not one of those, not the own head nor below it, nor one that such a peer reported.\<close>

definition fetching :: "sync_state \<Rightarrow> string \<Rightarrow> bool" where
  "fetching s peer \<longleftrightarrow> (case map_of (headers_actions_data s) peer of None \<Rightarrow> False | Some d \<Rightarrow> reverts_required d > 0)"

definition reported :: "sync_state \<Rightarrow> bool \<Rightarrow> block_header_extended \<Rightarrow> bool" where
  "reported s busy h \<longleftrightarrow> (\<exists>(peer, r) \<in> set (sync_responses s).
     peer \<in> set (m_p2p_peers s) \<and> fetching s peer = busy \<and> h = own_header r)"

definition on_offer :: "node \<Rightarrow> sync_state \<Rightarrow> block_header_extended \<Rightarrow> bool" where
  "on_offer n s h \<longleftrightarrow> reported s False h \<and> block_hash h \<noteq> m_last_hash (m_blockchain n)
     \<and> block_number (m_last_header (m_blockchain n)) \<le> block_number h
     \<and> (\<forall>k. reported s True k \<longrightarrow> block_hash k \<noteq> block_hash h)"

lemma header_scan_step_cases:
  assumes head: "head = last_header_ex (m_blockchain n)"
    and mem: "(peer, r) \<in> set (sync_responses s)" and c: "c' = header_scan_step s head (peer, r) c"
    and requested: "\<forall>hash \<in> set (hs_requested c). \<exists>k. reported s True k \<and> block_hash k = hash"
  shows "block_number (hs_header c) \<le> block_number (hs_header c')" "c_sum (hs_header c) \<le> c_sum (hs_header c')"
    "\<forall>hash \<in> set (hs_requested c'). \<exists>k. reported s True k \<and> block_hash k = hash"
    "on_offer n s (own_header r) \<Longrightarrow> peer \<in> set (m_p2p_peers s) \<Longrightarrow> \<not> fetching s peer
      \<Longrightarrow> c_sum (own_header r) \<le> c_sum (hs_header c') \<or> block_number (own_header r) < block_number (hs_header c')"
proof -
  have active: "fetching s peer \<longleftrightarrow> 0 < (case map_of (headers_actions_data s) peer of None \<Rightarrow> 0 | Some d \<Rightarrow> reverts_required d)"
    by (simp add: fetching_def split: option.splits)
  have rep: "reported s (fetching s peer) (own_header r)" if "peer \<in> set (m_p2p_peers s)"
    using that mem by (auto simp: reported_def)
  have step: "c' = (if peer \<notin> set (m_p2p_peers s) then c
      else if fetching s peer then c' \<lparr>hs_header := hs_header c, hs_peer := hs_peer c\<rparr>
      else if block_hash head \<noteq> block_hash (own_header r) \<and> c_sum (hs_header c) < c_sum (own_header r)
          \<and> block_number (hs_header c) \<le> block_number (own_header r) \<and> block_hash (own_header r) \<notin> set (hs_requested c)
        then c\<lparr>hs_header := own_header r, hs_peer := peer\<rparr> else c)"
    using c active by (simp add: header_scan_step_def Let_def)
  show "block_number (hs_header c) \<le> block_number (hs_header c')" "c_sum (hs_header c) \<le> c_sum (hs_header c')"
    by (subst step; simp add: order.strict_implies_order)+
  show "\<forall>hash \<in> set (hs_requested c'). \<exists>k. reported s True k \<and> block_hash k = hash"
    using requested rep active c by (auto simp: header_scan_step_def Let_def)
  show "c_sum (own_header r) \<le> c_sum (hs_header c') \<or> block_number (own_header r) < block_number (hs_header c')"
    if "on_offer n s (own_header r)" "peer \<in> set (m_p2p_peers s)" "\<not> fetching s peer"
  proof -
    have "block_hash head \<noteq> block_hash (own_header r)" "block_hash (own_header r) \<notin> set (hs_requested c)"
      using that(1) requested by (auto simp: on_offer_def head last_header_ex_def extend_header_def)
    then have "c' = (if c_sum (hs_header c) < c_sum (own_header r) \<and> block_number (hs_header c) \<le> block_number (own_header r)
        then c\<lparr>hs_header := own_header r, hs_peer := peer\<rparr> else c)"
      using step that(2,3) by simp
    then show ?thesis by (auto simp: not_less split: if_splits)
  qed
qed

text \<open>Every head on offer is at most as good as the one found, or shorter.\<close>

definition overtaken :: "header_scan \<Rightarrow> block_header_extended \<Rightarrow> bool" where
  "overtaken c h \<longleftrightarrow> c_sum h \<le> c_sum (hs_header c) \<or> block_number h < block_number (hs_header c)"

lemma overtaken_mono:
  assumes "overtaken c h" "block_number (hs_header c) \<le> block_number (hs_header c')" "c_sum (hs_header c) \<le> c_sum (hs_header c')"
  shows "overtaken c' h"
proof (cases "c_sum h \<le> c_sum (hs_header c)")
  case True
  then show ?thesis using order.trans [OF True assms(3)] by (simp add: overtaken_def)
next
  case False
  then have "block_number h < block_number (hs_header c)" using assms(1) by (simp add: overtaken_def)
  then show ?thesis using less_le_trans [OF _ assms(2)] by (simp add: overtaken_def)
qed

lemma fold_header_scan:
  assumes "set xs \<subseteq> set (sync_responses s)" "\<forall>hash \<in> set (hs_requested c). \<exists>k. reported s True k \<and> block_hash k = hash"
  shows "overtaken c h \<Longrightarrow> overtaken (fold (header_scan_step s (last_header_ex (m_blockchain n))) xs c) h"
    "(peer, r) \<in> set xs \<Longrightarrow> on_offer n s (own_header r) \<Longrightarrow> peer \<in> set (m_p2p_peers s) \<Longrightarrow> \<not> fetching s peer
      \<Longrightarrow> overtaken (fold (header_scan_step s (last_header_ex (m_blockchain n))) xs c) (own_header r)"
  using assms
proof (induction xs arbitrary: c h)
  case (Cons x xs)
  obtain q t where x: "x = (q, t)" by force
  {
    case 1
    let ?c = "header_scan_step s (last_header_ex (m_blockchain n)) x c"
    have mem: "(q, t) \<in> set (sync_responses s)" using 1(2) x by simp
    note step = header_scan_step_cases [OF refl mem refl 1(3), of n, folded x]
    have "overtaken ?c h" by (rule overtaken_mono [OF 1(1) step(1,2)])
    then show ?case using Cons.IH(1) [OF _ _ step(3)] 1(2) by simp
  next
    case 2
    let ?c = "header_scan_step s (last_header_ex (m_blockchain n)) x c"
    have mem: "(q, t) \<in> set (sync_responses s)" using 2(5) x by simp
    note step = header_scan_step_cases [OF refl mem refl 2(6), of n, folded x]
    show ?case
    proof (cases "(peer, r) \<in> set xs")
      case True
      then show ?thesis using Cons.IH(2) [OF True 2(2-4) _ step(3)] 2(5) by simp
    next
      case False
      then have "(q, t) = (peer, r)" using 2(1) x by simp
      then have "overtaken ?c (own_header r)" using step(4) 2(2-4) by (simp add: overtaken_def)
      then show ?thesis using Cons.IH(1) [OF _ _ step(3)] 2(5) by simp
    qed
  }
qed simp_all

lemma scan_headers_best: "on_offer n s h \<Longrightarrow> overtaken (scan_headers n s) h"
proof -
  assume h: "on_offer n s h"
  then obtain peer r where "(peer, r) \<in> set (sync_responses s)" "peer \<in> set (m_p2p_peers s)" "\<not> fetching s peer" "h = own_header r"
    by (auto simp: on_offer_def reported_def)
  then show ?thesis
    using fold_header_scan(2) [of "sync_responses s" s _ peer r n] h by (simp add: scan_headers_def Let_def)
qed

text \<open>Without a peer there is nothing to take over.\<close>

lemma decide_without_peer:
  assumes "block_number head + 1 \<noteq> 0"
  shows "decide since head (head\<lparr>c_sum := 0\<rparr>) False own_sum net_sum \<noteq> Sync_now"
proof -
  have "\<not> block_number head + 1 < block_number head"
    using assms by (simp add: word_less_nat_alt unatSuc add.commute)
  then show ?thesis by (simp add: decide_def)
qed

lemma decide_mine:
  assumes "decide since head found found_peer own_sum net_sum = Mine_now"
  shows "int BLOCK_MINE_DELAY \<le> since" "c_sum found \<le> own_sum"
    "net_sum \<le> own_sum \<or> int (BLOCK_MINE_DELAY + BLOCK_WAIT_DELAY) \<le> since"
    "\<not> (c_sum head < c_sum found \<and> block_number head = block_number found)"
  using assms by (auto simp: decide_def split: if_splits)

lemma block_worker_idle:
  assumes "block_worker E steady_now now n s = Inr (b, s')" "\<not> blockchain_sync_in_progress s'"
  shows "b = None" "m_p2p_peers s' = m_p2p_peers s" "sync_responses s' = sync_responses s" "\<not> blockchain_sync_in_progress s"
proof -
  have fields: "m_p2p_peers t' = m_p2p_peers t \<and> sync_responses t' = sync_responses t
      \<and> blockchain_sync_in_progress t' = blockchain_sync_in_progress t"
    if "choose_chain now n p t = Inr (c, t')" for p t c t'
    using that by (auto simp: choose_chain_def result_simps)
  have "b = None \<and> m_p2p_peers s' = m_p2p_peers s \<and> sync_responses s' = sync_responses s \<and> \<not> blockchain_sync_in_progress s"
  proof (cases "blockchain_sync_in_progress s")
    case True
    then show ?thesis using assms by (auto simp: block_worker_def)
  next
    case False
    then obtain p c t where c: "choose_chain now n p (s\<lparr>m_votes := votes_of steady_now n s\<rparr>) = Inr (c, t)"
      and b: "b = map_option (\<lambda>(peer, _, why). (peer, why)) c"
      and s': "s' = (if c = None then t else t\<lparr>blockchain_sync_in_progress := True\<rparr>)"
      using assms(1) by (auto simp: block_worker_def votes_of_def [symmetric] Let_def result_simps)
    have "c = None" using s' assms(2) by (metis sync_state.select_convs(1) sync_state.surjective sync_state.update_convs(1))
    then show ?thesis using b s' fields [OF c] False by simp_all
  qed
  then show "b = None" "m_p2p_peers s' = m_p2p_peers s" "sync_responses s' = sync_responses s"
    "\<not> blockchain_sync_in_progress s" by simp_all
qed

lemma block_worker_peers:
  assumes "block_worker E steady_now now n s = Inr (b, s')"
  shows "m_p2p_peers s' = m_p2p_peers s"
  using assms by (auto simp: block_worker_def choose_chain_def Let_def result_simps split: if_splits)

text \<open>C18: What the header worker starts, and when. It takes over headers only from a connected peer that
  reported another head block which is not below the own one. It mines only as a miner, not before
  BLOCK\_MINE\_DELAY seconds have passed since the head block, and, before BLOCK\_WAIT\_DELAY more seconds have
  passed, only when the block it would mine is as good as what the network has promised. Every head that is on
  offer then, reported by a connected peer and not being fetched already, has at most the sum of the block it would
  mine, or is shorter than a head that has at most this sum and that another connected peer reported. It starts
  neither while blocks are being taken over.\<close>

theorem header_worker_decision:
  assumes "header_worker E steady_now now n s = Inr (coefficient, block_session, outcome, s')" "[] \<notin> set (m_p2p_peers s)"
  shows "case outcome of
     Start_headers peer h \<Rightarrow> block_session = None \<and> \<not> blockchain_sync_in_progress s' \<and> peer \<in> set (m_p2p_peers s)
       \<and> (\<exists>r. (peer, r) \<in> set (sync_responses s) \<and> h = own_header r)
       \<and> block_hash h \<noteq> m_last_hash (m_blockchain n)
       \<and> block_number (m_last_header (m_blockchain n)) \<le> block_number h
   | Start_mining \<Rightarrow> block_session = None \<and> \<not> blockchain_sync_in_progress s' \<and> is_miner n = Inr True
       \<and> int BLOCK_MINE_DELAY \<le> now - time_signed (m_last_header (m_blockchain n))
       \<and> (\<exists>own. own_sync_info E n = Inr own
            \<and> (\<forall>h. on_offer n s' h \<longrightarrow> c_sum h \<le> c_sum own
                 \<or> (\<exists>peer r. (peer, r) \<in> set (sync_responses s) \<and> peer \<in> set (m_p2p_peers s)
                      \<and> c_sum (own_header r) \<le> c_sum own \<and> block_number h < block_number (own_header r)))
            \<and> (c_sum (net_sync_info n s') \<le> c_sum own
               \<or> int (BLOCK_MINE_DELAY + BLOCK_WAIT_DELAY) \<le> now - time_signed (m_last_header (m_blockchain n))))
   | Start_nothing \<Rightarrow> True"
proof -
  let ?head = "last_header_ex (m_blockchain n)" and ?c = "scan_headers n s'"
  let ?age = "now - time_signed (m_last_header (m_blockchain n))"
  obtain b t where t: "block_worker E steady_now now n s = Inr (b, t)"
    using assms(1) by (auto simp: header_worker_def result_simps)
  have "b = block_session \<and> t = s' \<and> (outcome = Start_nothing
      \<or> outcome = Start_headers (hs_peer (scan_headers n t)) (hs_header (scan_headers n t))
          \<and> hs_peer (scan_headers n t) \<noteq> [] \<and> \<not> blockchain_sync_in_progress t
      \<or> outcome = Start_mining \<and> is_miner n = Inr True \<and> \<not> blockchain_sync_in_progress t
          \<and> (\<exists>own. own_sync_info E n = Inr own
               \<and> decide ?age ?head (hs_header (scan_headers n t)) (hs_peer (scan_headers n t) \<noteq> []) (c_sum own)
                   (c_sum (net_sync_info n t)) = Mine_now))"
  proof (cases "blockchain_sync_in_progress t")
    case False
    then obtain own where own: "own_sync_info E n = Inr own"
      using assms(1) t by (auto simp: header_worker_def Let_def result_simps)
    have age: "now - time_signed ?head = ?age" by (simp add: last_header_ex_def extend_header_def)
    show ?thesis
      using assms(1) t False own age
      by (cases "decide ?age ?head (hs_header (scan_headers n t)) (hs_peer (scan_headers n t) \<noteq> []) (c_sum own)
                   (c_sum (net_sync_info n t))")
        (auto simp: header_worker_def Let_def result_simps split: if_splits)
  qed (use assms(1) t in \<open>auto simp: header_worker_def Let_def\<close>)
  then have bw: "block_worker E steady_now now n s = Inr (block_session, s')"
    and outcomes: "outcome = Start_nothing
      \<or> outcome = Start_headers (hs_peer ?c) (hs_header ?c) \<and> hs_peer ?c \<noteq> [] \<and> \<not> blockchain_sync_in_progress s'
      \<or> outcome = Start_mining \<and> is_miner n = Inr True \<and> \<not> blockchain_sync_in_progress s'
          \<and> (\<exists>own. own_sync_info E n = Inr own
               \<and> decide ?age ?head (hs_header ?c) (hs_peer ?c \<noteq> []) (c_sum own) (c_sum (net_sync_info n s')) = Mine_now)"
    using t by blast+
  have found: "header_found n s' ?c"
    using scan_headers_found [of s' n] block_worker_peers [OF bw] assms(2) by simp
  have head: "time_signed ?head = time_signed (m_last_header (m_blockchain n))"
    "block_number ?head = block_number (m_last_header (m_blockchain n))" "block_hash ?head = m_last_hash (m_blockchain n)"
    by (simp_all add: last_header_ex_def extend_header_def)
  consider (idle) "outcome = Start_nothing"
    | (sync) "outcome = Start_headers (hs_peer ?c) (hs_header ?c)" "hs_peer ?c \<noteq> []" "\<not> blockchain_sync_in_progress s'"
    | (mine) own where "outcome = Start_mining" "is_miner n = Inr True" "own_sync_info E n = Inr own"
        "\<not> blockchain_sync_in_progress s'"
        "decide ?age ?head (hs_header ?c) (hs_peer ?c \<noteq> []) (c_sum own) (c_sum (net_sync_info n s')) = Mine_now"
    using outcomes by blast
  then show ?thesis
  proof cases
    case sync
    then show ?thesis using block_worker_idle [OF bw] found head by (auto simp: header_found_def Let_def)
  next
    case mine
    have "c_sum h \<le> c_sum own \<or> (\<exists>peer r. (peer, r) \<in> set (sync_responses s) \<and> peer \<in> set (m_p2p_peers s)
        \<and> c_sum (own_header r) \<le> c_sum own \<and> block_number h < block_number (own_header r))" if h: "on_offer n s' h" for h
    proof (cases "hs_peer ?c = []")
      case True
      then have "hs_header ?c = ?head\<lparr>c_sum := 0\<rparr>" using found by (simp add: header_found_def Let_def)
      moreover have "\<not> block_number h < block_number ?head" using h head by (simp add: on_offer_def not_less)
      ultimately have "c_sum h \<le> 0" using scan_headers_best [OF h] by (simp add: overtaken_def)
      then show ?thesis by (metis order.trans word_zero_le)
    next
      case False
      then obtain r where r: "(hs_peer ?c, r) \<in> set (sync_responses s)" "hs_peer ?c \<in> set (m_p2p_peers s)" "hs_header ?c = own_header r"
        using found block_worker_idle [OF bw mine(4)] by (auto simp: header_found_def Let_def)
      then show ?thesis
        using scan_headers_best [OF h] decide_mine(2) [OF mine(5)] unfolding overtaken_def by (metis order.trans)
    qed
    then show ?thesis using mine block_worker_idle [OF bw mine(4)] decide_mine [OF mine(5)] by auto
  qed simp
qed

text \<open>The worker always finds a peer when it decides to take over headers: the exception for an empty
  peer is never thrown. When the poll and the own promise can be computed, the worker returns.\<close>

theorem header_worker_returns:
  assumes "block_worker E steady_now now n s = Inr (b, s')" "own_sync_info E n = Inr own"
    and "[] \<notin> set (m_p2p_peers s)" "block_number (m_last_header (m_blockchain n)) + 1 \<noteq> 0"
  shows "\<exists>coefficient outcome. header_worker E steady_now now n s = Inr (coefficient, b, outcome, s')"
proof -
  let ?c = "scan_headers n s'" and ?head = "last_header_ex (m_blockchain n)"
  have found: "header_found n s' ?c"
    using scan_headers_found [of s' n] block_worker_peers [OF assms(1)] assms(3) by simp
  have "decide since ?head (hs_header ?c) (hs_peer ?c \<noteq> []) own_sum net_sum \<noteq> Sync_now" if "hs_peer ?c = []" for since own_sum net_sum
    using found that decide_without_peer [of ?head] assms(4)
    by (simp add: header_found_def Let_def last_header_ex_def extend_header_def)
  moreover obtain miner where "is_miner n = Inr miner"
    using assms(2) by (auto simp: own_sync_info_def Let_def result_simps)
  ultimately show ?thesis
    using assms(1,2) by (auto simp: header_worker_def Let_def throw_if_def split: sync_decision.splits)
qed

text \<open>Three peers report another block at the height of the sample node's own head.\<close>

definition sample_fork :: sync_state where
  "sample_fork = sample_sync\<lparr>headers_actions_data := []\<rparr>"

lemma sample_fork_run:
  "case header_worker sample_ext 100 100 sample_node sample_fork of
     Inr (_, _, outcome, _) \<Rightarrow> outcome = Start_headers ''alice'' sample_peer_header | _ \<Rightarrow> False"
  "is_ok (block_worker sample_ext 100 100 sample_node sample_fork)"
  "is_ok (own_sync_info sample_ext sample_node)"
  by code_simp+

lemma sample_fork_peers: "[] \<notin> set (m_p2p_peers sample_fork)"
  by (simp add: sample_fork_def sample_sync_def)

theorem header_worker_decision_witness:
  "\<exists>coefficient block_session s'.
     header_worker sample_ext 100 100 sample_node sample_fork
       = Inr (coefficient, block_session, Start_headers ''alice'' sample_peer_header, s')
     \<and> block_session = None \<and> \<not> blockchain_sync_in_progress s' \<and> ''alice'' \<in> set (m_p2p_peers sample_fork)"
proof -
  obtain coefficient block_session s' where run: "header_worker sample_ext 100 100 sample_node sample_fork
       = Inr (coefficient, block_session, Start_headers ''alice'' sample_peer_header, s')"
    using sample_fork_run(1) by (auto split: sum.splits prod.splits)
  then show ?thesis using header_worker_decision [OF run sample_fork_peers] by simp
qed

theorem header_worker_returns_witness:
  "\<exists>b coefficient outcome s'. header_worker sample_ext 100 100 sample_node sample_fork = Inr (coefficient, b, outcome, s')"
proof -
  obtain b s' own where "block_worker sample_ext 100 100 sample_node sample_fork = Inr (b, s')"
    "own_sync_info sample_ext sample_node = Inr own"
    using sample_fork_run(2,3) by (auto simp: is_ok_iff)
  moreover have "block_number (m_last_header (m_blockchain sample_node)) + 1 \<noteq> 0"
    by (simp add: sample_chain_def sample_header_def)
  ultimately show ?thesis using header_worker_returns sample_fork_peers by blast
qed

end
