(* ===== verification/Log_Answer.thy ===== *)
theory Log_Answer
  imports Action_Log
begin

text \<open>
  \<open>get_actions\<close> of libblockchain/communication\_rpc.cpp: what a node answers to a client that keeps
  up with its action log. The answer leaves out what was applied and reverted since the client's
  last request. The theorems say that a client that plays the answers has exactly the entries in
  force, by \<open>open_entries\<close> of Action\_Log.
\<close>

section \<open>The answer\<close>

definition ACTION_LOG_MAX_RESPONSE :: nat where "ACTION_LOG_MAX_RESPONSE = 10000"

definition action_size :: "logged_action \<Rightarrow> nat" where
  "action_size a =
     (case a of
        Block_log b \<Rightarrow> 1 + length (bl_rewards b) + length (bl_transactions b) + length (bl_unit_uri_impacts b)
                         + length (bl_applied_sponsor_items b)
      | Transaction_log _ \<Rightarrow> 1)"

text \<open>Both loops run over the entries from the index on; the stack has its top in front, the index of
  an entry is replaced by its position. The first loop reads an entry before it compares the
  position with the length.\<close>

fun leading_reverts ::
  "nat \<Rightarrow> logged_transaction list \<Rightarrow> nat \<Rightarrow> nat \<Rightarrow> logged_transaction list
     \<Rightarrow> (logged_transaction list \<times> nat \<times> nat \<times> logged_transaction list) res" where
  "leading_reverts max_count [] i count st =
     (if count < max_count then Inl External_error else Inr ([], i, count, st))"
| "leading_reverts max_count (e # es) i count st =
     (if count < max_count \<and> logging_type e = LT_revert
      then leading_reverts max_count es (Suc i) (count + action_size (log_action e)) (e\<lparr>log_index := of_nat i\<rparr> # st)
      else Inr (e # es, i, count, st))"

fun remaining_actions ::
  "nat \<Rightarrow> u64 \<Rightarrow> logged_transaction list \<Rightarrow> nat \<Rightarrow> nat \<Rightarrow> logged_transaction list \<Rightarrow> logged_transaction list res" where
  "remaining_actions max_count start_index [] i count st = Inr st"
| "remaining_actions max_count start_index (e # es) i count st =
     (if \<not> count < max_count then Inr st
      else if logging_type e = LT_revert \<and> log_index e \<ge> start_index
           then (case st of [] \<Rightarrow> Inl Undefined_behaviour
                 | t # st' \<Rightarrow>
                     remaining_actions max_count start_index es (Suc i) (count - action_size (log_action t)) st')
           else remaining_actions max_count start_index es (Suc i) (count + action_size (log_action e))
                  (e\<lparr>log_index := of_nat i\<rparr> # st))"

definition response_limit :: "u64 \<Rightarrow> nat" where
  "response_limit max_count =
     (if unat max_count < ACTION_LOG_MAX_RESPONSE then unat max_count else ACTION_LOG_MAX_RESPONSE)"

definition get_actions :: "u64 \<Rightarrow> u64 \<Rightarrow> action_log \<Rightarrow> logged_transaction list res" where
  "get_actions start_index max_count l =
     (let limit = response_limit max_count; i = unat start_index; es = drop i (m_actions l)
      in bind_res (if i < length (m_actions l) then leading_reverts limit es i 0 [] else Inr (es, i, 0, [])) (\<lambda>(es', j, count, st).
         bind_res (remaining_actions limit start_index es' j count st) (\<lambda>st'. Inr (rev st'))))"

section \<open>What the log holds\<close>

text \<open>An applied entry carries its position, a revert is a marked copy of the entry in force that it
  undoes.\<close>

definition entry_faithful :: "logged_transaction list \<Rightarrow> nat \<Rightarrow> bool" where
  "entry_faithful es i \<longleftrightarrow>
     (case logging_type (es ! i) of
       LT_apply \<Rightarrow> log_index (es ! i) = of_nat i
     | LT_revert \<Rightarrow> open_entries (take i es) \<noteq> []
         \<and> es ! i = (es ! hd (open_entries (take i es)))\<lparr>logging_type := LT_revert\<rparr>)"

definition log_faithful :: "logged_transaction list \<Rightarrow> bool" where
  "log_faithful es \<longleftrightarrow> (\<forall>i < length es. entry_faithful es i)"

lemma log_faithful_balanced: "log_faithful es \<Longrightarrow> log_balanced es"
  by (force simp: log_faithful_def entry_faithful_def log_balanced_def)

lemma hd_open_entries_less: "open_entries es \<noteq> [] \<Longrightarrow> hd (open_entries es) < length es"
  using open_entries_less hd_in_set by blast

lemma entry_faithful_append:
  assumes "i < length es"
  shows "entry_faithful (es @ fs) i = entry_faithful es i"
proof -
  have "(es @ fs) ! hd (open_entries (take i es)) = es ! hd (open_entries (take i es))" if "open_entries (take i es) \<noteq> []"
    using hd_open_entries_less [OF that] assms by (simp add: nth_append)
  then show ?thesis using assms by (auto simp: entry_faithful_def nth_append split: logging_type.splits)
qed

lemma log_faithful_snoc:
  "log_faithful (es @ [e]) \<longleftrightarrow> log_faithful es \<and>
     (case logging_type e of
        LT_apply \<Rightarrow> log_index e = of_nat (length es)
      | LT_revert \<Rightarrow> open_entries es \<noteq> [] \<and> e = (es ! hd (open_entries es))\<lparr>logging_type := LT_revert\<rparr>)"
proof -
  have "(es @ [e]) ! hd (open_entries es) = es ! hd (open_entries es)" if "open_entries es \<noteq> []"
    using hd_open_entries_less [OF that] by (simp add: nth_append)
  then have "entry_faithful (es @ [e]) (length es) \<longleftrightarrow>
     (case logging_type e of
        LT_apply \<Rightarrow> log_index e = of_nat (length es)
      | LT_revert \<Rightarrow> open_entries es \<noteq> [] \<and> e = (es ! hd (open_entries es))\<lparr>logging_type := LT_revert\<rparr>)"
    by (auto simp: entry_faithful_def split: logging_type.splits)
  then show ?thesis by (auto simp: log_faithful_def All_less_Suc entry_faithful_append)
qed

lemma al_insert_faithful:
  "log_faithful (m_actions l) \<Longrightarrow> log_faithful (m_actions (al_insert a l))"
  by (simp add: al_insert_def log_faithful_snoc al_length_def)

lemma al_revert_faithful:
  assumes "log_faithful (m_actions l)" "action_log_wf l" "al_revert l = Inr l'"
  shows "log_faithful (m_actions l')"
proof (cases "m_enabled l")
  case True
  show ?thesis
  proof (cases "open_entries (m_actions l)")
    case Nil
    then show ?thesis using al_revert_empty [OF assms(2) True] assms(3) by simp
  next
    case (Cons i s)
    then show ?thesis using al_revert_pop(1) [OF assms(2) True Cons] assms(1,3) by (auto simp: log_faithful_snoc)
  qed
qed (use assms in \<open>simp add: al_revert_def\<close>)

section \<open>What an answer says\<close>

definition stack_size :: "logged_transaction list \<Rightarrow> nat" where
  "stack_size st = sum_list (map (\<lambda>e. action_size (log_action e)) st)"

definition entry_content :: "logged_transaction \<Rightarrow> logging_type \<times> logged_action" where
  "entry_content e = (logging_type e, log_action e)"

text \<open>The stack of the loops when the log was read from position \<open>s\<close> to \<open>i\<close>: below the reverts of the
  \<open>k\<close> topmost entries in force at \<open>s\<close>, on top the new entries in force. The position of the last
  revert is one from which on nothing else happened to the old entries.\<close>

definition answer_state :: "logged_transaction list \<Rightarrow> nat \<Rightarrow> nat \<Rightarrow> logged_transaction list \<Rightarrow> nat \<Rightarrow> nat list
    \<Rightarrow> logged_transaction list \<Rightarrow> bool" where
  "answer_state es s i st k new undone \<longleftrightarrow>
     (let base = open_entries (take s es)
      in st = map ((!) es) new @ undone \<and> k \<le> length base \<and> open_entries (take i es) = new @ drop k base
       \<and> (\<forall>a \<in> set new. s \<le> a)
       \<and> map entry_content (rev undone) = map (\<lambda>b. (LT_revert, log_action (es ! b))) (take k base)
       \<and> (undone \<noteq> [] \<longrightarrow> (\<exists>p. log_index (hd undone) = of_nat p \<and> s \<le> p \<and> p < i
            \<and> open_entries (take (Suc p) es) = drop k base))
       \<and> (\<forall>e \<in> set undone. \<exists>p < length es. log_index e = of_nat p))"

lemma open_entries_take_less: "a \<in> set (open_entries (take i es)) \<Longrightarrow> a < i"
  using open_entries_less by fastforce

lemma open_entries_Suc:
  "i < length es \<Longrightarrow> open_entries (take (Suc i) es) = stack_step i (es ! i) (open_entries (take i es))"
  by (simp add: take_Suc_conv_app_nth open_entries_snoc min_def)

definition log_at :: "logged_transaction list \<Rightarrow> nat \<Rightarrow> bool" where
  "log_at es s \<longleftrightarrow> log_faithful es \<and> length es < 2 ^ 64 \<and> s \<le> length es"

lemma log_atD:
  assumes "log_at es s"
  shows "length es < 2 ^ 64" "s \<le> length es" "log_balanced es" "i < length es \<Longrightarrow> entry_faithful es i"
  using assms log_faithful_balanced by (auto simp: log_at_def log_faithful_def)

lemma revert_entry:
  assumes "log_at es s" "i < length es" "logging_type (es ! i) = LT_revert"
  obtains b t where "open_entries (take i es) = b # t" "log_action (es ! i) = log_action (es ! b)"
    "log_index (es ! i) = of_nat b" "b < i"
proof -
  have f: "open_entries (take i es) \<noteq> []" "es ! i = (es ! hd (open_entries (take i es)))\<lparr>logging_type := LT_revert\<rparr>"
    using log_atD(4) [OF assms(1,2)] assms(3) by (auto simp: entry_faithful_def)
  then obtain b t where bt: "open_entries (take i es) = b # t" by (cases "open_entries (take i es)") auto
  then have b: "b < i" using open_entries_take_less [of b i es] by simp
  have "log_balanced (take i es)"
    using log_atD(3) [OF assms(1)] assms(2) by (auto simp: log_balanced_def)
  then have "logging_type (es ! b) = LT_apply" using open_entries_apply [of "take i es" b] bt b by simp
  moreover have "entry_faithful es b" using log_atD(4) [OF assms(1)] b assms(2) by simp
  ultimately have "log_index (es ! b) = of_nat b" by (simp add: entry_faithful_def)
  then show ?thesis using that bt f(2) b by simp
qed

lemma apply_entry:
  assumes "log_at es s" "i < length es" "logging_type (es ! i) = LT_apply"
  shows "(es ! i)\<lparr>log_index := of_nat i\<rparr> = es ! i"
proof -
  have "log_index (es ! i) = of_nat i" using log_atD(4) [OF assms(1,2)] assms(3) by (simp add: entry_faithful_def)
  then show ?thesis by (cases "es ! i") simp
qed

lemma answer_state_start: "answer_state es s s [] 0 [] []"
  by (simp add: answer_state_def)

lemma answer_state_apply:
  assumes "answer_state es s i st k new undone" "i < length es" "s \<le> i" "logging_type (es ! i) = LT_apply"
  shows "answer_state es s (Suc i) (es ! i # st) k (i # new) undone"
  using assms by (auto simp: answer_state_def Let_def open_entries_Suc stack_step_def)

text \<open>A revert of an old entry is only met when no new entry is in force.\<close>

lemma answer_state_undo:
  assumes at: "log_at es s" and st: "answer_state es s i st k new undone" and i: "i < length es" "s \<le> i" "logging_type (es ! i) = LT_revert"
    and old: "\<not> log_index (es ! i) \<ge> of_nat s \<or> new = []"
  shows "new = []"
    and "answer_state es s (Suc i) ((es ! i)\<lparr>log_index := of_nat i\<rparr> # st) (Suc k) [] ((es ! i)\<lparr>log_index := of_nat i\<rparr> # undone)"
proof -
  let ?base = "open_entries (take s es)"
  obtain b t where b: "open_entries (take i es) = b # t" "log_action (es ! i) = log_action (es ! b)"
    "log_index (es ! i) = of_nat b" "b < i"
    using revert_entry [OF at i(1,3)] .
  show new: "new = []"
  proof (rule ccontr)
    assume "new \<noteq> []"
    then have "b \<in> set new" using st b(1) by (cases new) (auto simp: answer_state_def Let_def)
    then have "s \<le> b" using st by (auto simp: answer_state_def Let_def)
    then have "unat (of_nat s :: u64) \<le> unat (of_nat b :: u64)"
      using b(4) i(1) log_atD(1) [OF at] by (simp add: unat_of_nat_u64)
    then show False using old b(3) \<open>new \<noteq> []\<close> by (simp add: word_le_nat_alt)
  qed
  then have drop: "drop k ?base = b # t" "k < length ?base"
    using st b(1) by (auto simp: answer_state_def Let_def) (metis drop_all leI list.discI)
  then have "?base ! k = b" "drop (Suc k) ?base = t" 
    by (simp_all add: nth_via_drop) (metis drop_Suc list.sel(3) tl_drop)
  moreover from this have "take (Suc k) ?base = take k ?base @ [b]" using drop(2) by (simp add: take_Suc_conv_app_nth)
  moreover have "open_entries (take (Suc i) es) = t"
    using open_entries_Suc [OF i(1)] b(1) i(3) by (simp add: stack_step_def)
  moreover from calculation have "\<exists>p. (of_nat i :: u64) = of_nat p \<and> s \<le> p \<and> p < Suc i \<and> open_entries (take (Suc p) es) = t"
    using i(2) by (intro exI [of _ i]) simp
  moreover have "\<exists>p < length es. (of_nat i :: u64) = of_nat p" using i(1) by blast
  ultimately show "answer_state es s (Suc i) ((es ! i)\<lparr>log_index := of_nat i\<rparr> # st) (Suc k) []
      ((es ! i)\<lparr>log_index := of_nat i\<rparr> # undone)"
    using st new b(2) i drop(2) by (auto simp: answer_state_def Let_def entry_content_def)
qed

text \<open>The revert of a new entry meets its own entry on top of the stack.\<close>

lemma answer_state_cancel:
  assumes at: "log_at es s" and st: "answer_state es s i st k new undone" and i: "i < length es" "s \<le> i" "logging_type (es ! i) = LT_revert"
    and recent: "log_index (es ! i) \<ge> of_nat s"
  obtains a new' where "new = a # new'" "st = es ! a # tl st" "answer_state es s (Suc i) (tl st) k new' undone"
proof -
  obtain b t where b: "open_entries (take i es) = b # t" "log_index (es ! i) = of_nat b" "b < i"
    using revert_entry [OF at i(1,3)] by metis
  have "s \<le> b" using recent b(2,3) i log_atD(1) [OF at] by (simp add: word_le_nat_alt unat_of_nat_u64)
  have "new \<noteq> []"
  proof
    assume "new = []"
    then have "drop k (open_entries (take s es)) = b # t"
      using st b(1) by (auto simp: answer_state_def Let_def)
    then have "b \<in> set (open_entries (take s es))" by (metis in_set_dropD list.set_intros(1))
    then show False using open_entries_take_less \<open>s \<le> b\<close> by fastforce
  qed
  then obtain a new' where new: "new = a # new'" by (cases new) auto
  moreover have "open_entries (take (Suc i) es) = t"
    using open_entries_Suc [OF i(1)] b(1) i(3) by (simp add: stack_step_def)
  moreover have "st = es ! a # tl st" using st new by (simp add: answer_state_def Let_def)
  ultimately show ?thesis
    using that st b(1) by (auto simp: answer_state_def Let_def less_Suc_eq)
qed

text \<open>Both loops keep the invariant; the second ends at the end of the log or at the limit.\<close>

lemma stack_size_simps [simp]:
  "stack_size [] = 0" "stack_size (e # st) = action_size (log_action e) + stack_size st"
  by (simp_all add: stack_size_def)

lemma remaining_actions_spec:
  assumes at: "log_at es s" and "answer_state es s i st k new undone" "s \<le> i" "i \<le> length es"
  shows "\<exists>st' j k' new' undone'. remaining_actions limit (of_nat s) (drop i es) i (stack_size st) st = Inr st'
    \<and> i \<le> j \<and> j \<le> length es \<and> answer_state es s j st' k' new' undone' \<and> (j = length es \<or> limit \<le> stack_size st')"
  using assms(2-4)
proof (induction "length es - i" arbitrary: i st k new undone)
  case 0
  then have "remaining_actions limit (of_nat s) (drop i es) i (stack_size st) st = Inr st" "i = length es" by auto
  then show ?case using 0 by blast
next
  case (Suc m)
  then have i: "i < length es" by simp
  then have drop: "drop i es = es ! i # drop (Suc i) es" by (simp add: Cons_nth_drop_Suc)
  show ?case
  proof (cases "stack_size st < limit")
    case False
    then have "remaining_actions limit (of_nat s) (drop i es) i (stack_size st) st = Inr st" using drop by simp
    then show ?thesis using Suc.prems False by (meson not_less order_refl)
  next
    case lim: True
    have next_step: ?thesis if a: "answer_state es s (Suc i) st2 k2 new2 undone2"
      and run: "remaining_actions limit (of_nat s) (drop i es) i (stack_size st) st
        = remaining_actions limit (of_nat s) (drop (Suc i) es) (Suc i) (stack_size st2) st2" for st2 k2 new2 undone2
    proof -
      have "m = length es - Suc i" "s \<le> Suc i" "Suc i \<le> length es" using Suc.hyps(2) Suc.prems(2) i by auto
      from Suc.hyps(1) [OF this(1) a this(2,3)] show ?thesis unfolding run by (metis Suc_leD)
    qed
    show ?thesis
    proof (cases "logging_type (es ! i)")
      case LT_apply
      then show ?thesis
        using next_step [OF answer_state_apply [OF Suc.prems(1) i Suc.prems(2)]] apply_entry [OF at i] lim drop
        by (simp add: add.commute)
    next
      case rev: LT_revert
      show ?thesis
      proof (cases "log_index (es ! i) \<ge> of_nat s")
        case True
        obtain a new' st2 where c: "st = es ! a # st2" "answer_state es s (Suc i) st2 k new' undone"
          using answer_state_cancel [OF at Suc.prems(1) i Suc.prems(2) rev True] by metis
        then show ?thesis using lim rev True drop by (intro next_step [OF c(2)]) simp
      next
        case False
        then show ?thesis
          using next_step [OF answer_state_undo(2) [OF at Suc.prems(1) i Suc.prems(2) rev]] lim rev drop
          by (simp add: add.commute)
      qed
    qed
  qed
qed

lemma leading_reverts_spec:
  assumes at: "log_at es s" and "answer_state es s i st k [] undone" "s \<le> i" "i \<le> length es"
  shows "case leading_reverts limit (drop i es) i (stack_size st) st of
      Inl e \<Rightarrow> e = External_error \<and> (\<forall>p. i \<le> p \<and> p < length es \<longrightarrow> logging_type (es ! p) = LT_revert)
    | Inr (rest, j, count, st') \<Rightarrow> rest = drop j es \<and> count = stack_size st' \<and> i \<le> j \<and> j \<le> length es
        \<and> (\<exists>k' undone'. answer_state es s j st' k' [] undone')"
  using assms(2-4)
proof (induction "length es - i" arbitrary: i st k undone)
  case 0
  then show ?case by auto
next
  case (Suc m)
  then have i: "i < length es" by simp
  then have drop: "drop i es = es ! i # drop (Suc i) es" by (simp add: Cons_nth_drop_Suc)
  show ?case
  proof (cases "stack_size st < limit \<and> logging_type (es ! i) = LT_revert")
    case False
    then show ?thesis using Suc.prems drop by (auto simp del: drop_Suc_Cons)
  next
    case True
    let ?e = "(es ! i)\<lparr>log_index := of_nat i\<rparr>"
    have "m = length es - Suc i" "s \<le> Suc i" "Suc i \<le> length es" using Suc.hyps(2) Suc.prems(2) i by auto
    note IH = Suc.hyps(1) [OF this(1) answer_state_undo(2) [OF at Suc.prems(1) i Suc.prems(2)] this(2,3)]
    have run: "leading_reverts limit (drop i es) i (stack_size st) st
      = leading_reverts limit (drop (Suc i) es) (Suc i) (stack_size (?e # st)) (?e # st)"
      using True drop by (simp add: add.commute)
    have all: "(\<forall>p. i \<le> p \<and> p < length es \<longrightarrow> logging_type (es ! p) = LT_revert) \<longleftrightarrow>
        (\<forall>p. Suc i \<le> p \<and> p < length es \<longrightarrow> logging_type (es ! p) = LT_revert)"
      using True by (metis Suc_leD Suc_leI le_neq_implies_less)
    show ?thesis using IH True unfolding run all by (auto split: sum.splits)
  qed
qed

text \<open>Where a client that got an answer goes on.\<close>

definition next_start :: "u64 \<Rightarrow> logged_transaction list \<Rightarrow> u64" where
  "next_start start_index answer = (if answer = [] then start_index else log_index (last answer) + 1)"

lemma get_actions_cases:
  assumes at: "log_at (m_actions l) (unat start)"
  shows "case get_actions start max_count l of
      Inl e \<Rightarrow> e = External_error \<and> unat start < length (m_actions l)
        \<and> (\<forall>p. unat start \<le> p \<and> p < length (m_actions l) \<longrightarrow> logging_type (m_actions l ! p) = LT_revert)
    | Inr answer \<Rightarrow> \<exists>j k new undone. unat start \<le> j \<and> j \<le> length (m_actions l)
        \<and> answer_state (m_actions l) (unat start) j (rev answer) k new undone
        \<and> (j = length (m_actions l) \<or> response_limit max_count \<le> stack_size answer)"
proof -
  let ?es = "m_actions l" and ?s = "unat start" and ?limit = "response_limit max_count"
  have size: "stack_size (rev st) = stack_size st" for st
    by (simp add: stack_size_def rev_map [symmetric] sum_list_rev)
  define P where "P answer \<longleftrightarrow> (\<exists>j k new undone. ?s \<le> j \<and> j \<le> length ?es
      \<and> answer_state ?es ?s j (rev answer) k new undone \<and> (j = length ?es \<or> ?limit \<le> stack_size answer))" for answer
  have run: "\<exists>answer. bind_res (remaining_actions ?limit start (drop i ?es) i (stack_size st) st) (\<lambda>st'. Inr (rev st')) = Inr answer
      \<and> P answer"
    if st: "answer_state ?es ?s i st k0 [] undone0" "?s \<le> i" "i \<le> length ?es" for i st k0 undone0
  proof -
    have word: "(of_nat ?s :: u64) = start" by simp
    obtain st' j k new undone where r: "remaining_actions ?limit start (drop i ?es) i (stack_size st) st = Inr st'"
      "i \<le> j" "j \<le> length ?es" "answer_state ?es ?s j st' k new undone" "j = length ?es \<or> ?limit \<le> stack_size st'"
      using remaining_actions_spec [OF at st, of ?limit] unfolding word by blast
    then have "P (rev st')" unfolding P_def using st(2) size by (metis order_trans rev_rev_ident)
    then show ?thesis using r(1) by auto
  qed
  show ?thesis
  proof (cases "?s < length ?es")
    case False
    then have "get_actions start max_count l
        = bind_res (remaining_actions ?limit start (drop ?s ?es) ?s (stack_size []) []) (\<lambda>st'. Inr (rev st'))"
      by (simp add: get_actions_def Let_def)
    then obtain answer where "get_actions start max_count l = Inr answer" "P answer"
      using run [OF answer_state_start order_refl log_atD(2) [OF at]] by auto
    then show ?thesis by (simp only: sum.case P_def)
  next
    case True
    have start: "get_actions start max_count l
        = bind_res (leading_reverts ?limit (drop ?s ?es) ?s (stack_size []) []) (\<lambda>(es', j, count, st).
            bind_res (remaining_actions ?limit start es' j count st) (\<lambda>st'. Inr (rev st')))"
      using True by (simp add: get_actions_def Let_def)
    note lead = leading_reverts_spec [OF at answer_state_start order_refl log_atD(2) [OF at], of ?limit]
    show ?thesis
    proof (cases "leading_reverts ?limit (drop ?s ?es) ?s (stack_size []) []")
      case (Inl e)
      then show ?thesis using lead True by (simp add: start)
    next
      case (Inr r)
      then obtain j st k undone where r: "r = (drop j ?es, j, stack_size st, st)" "?s \<le> j" "j \<le> length ?es"
        "answer_state ?es ?s j st k [] undone"
        using lead by (cases r) auto
      then obtain answer where "get_actions start max_count l = Inr answer" "P answer"
        using run [OF r(4,2,3)] start Inr by auto
      then show ?thesis by (simp only: sum.case P_def)
    qed
  qed
qed

section \<open>What a client makes of it\<close>

text \<open>A client keeps the positions of the entries in force, the latest first.\<close>

fun play :: "logged_transaction list \<Rightarrow> nat list \<Rightarrow> nat list" where
  "play [] s = s"
| "play (e # es) s = play es (if logging_type e = LT_apply then unat (log_index e) # s else tl s)"

lemma play_append: "play (xs @ ys) s = play ys (play xs s)"
  by (induction xs arbitrary: s) simp_all

text \<open>An answer spelled out: first the reverts of the \<open>k\<close> topmost entries the client has, the top
  first, then the new entries in force in the order of the log.\<close>

lemma answer_state_play:
  assumes at: "log_at es s" and st: "answer_state es s j (rev answer) k new undone" "j \<le> length es"
  shows "play answer (open_entries (take s es)) = open_entries (take j es)"
    and "map entry_content answer = map (\<lambda>b. (LT_revert, log_action (es ! b))) (take k (open_entries (take s es)))
           @ map (\<lambda>a. (LT_apply, log_action (es ! a))) (rev new)"
    and "e \<in> set answer \<Longrightarrow> \<exists>p < length es. log_index e = of_nat p"
proof -
  let ?base = "open_entries (take s es)"
  have a: "answer = rev undone @ map ((!) es) (rev new)" "k \<le> length ?base" "open_entries (take j es) = new @ drop k ?base"
    "map entry_content (rev undone) = map (\<lambda>b. (LT_revert, log_action (es ! b))) (take k ?base)"
    using st(1) by (auto simp: answer_state_def Let_def rev_map rev_swap)
  have new: "logging_type (es ! i) = LT_apply \<and> log_index (es ! i) = of_nat i \<and> i < length es" if "i \<in> set new" for i
  proof -
    have i: "i \<in> set (open_entries (take j es))" using that a(3) by simp
    then have less: "i < j" by (rule open_entries_take_less)
    have "log_balanced (take j es)" using log_atD(3) [OF at] st(2) by (auto simp: log_balanced_def)
    then have "logging_type (es ! i) = LT_apply" using open_entries_apply [of "take j es" i] i less by simp
    then show ?thesis using log_atD(4) [OF at, of i] less st(2) by (simp add: entry_faithful_def)
  qed
  have undo: "play es' b = drop (length es') b" if "\<forall>e \<in> set es'. logging_type e = LT_revert" for es' b
    using that by (induction es' arbitrary: b) (auto simp: drop_Suc)
  have len: "length (rev undone) = k" using a(2,4) by (metis length_map length_take min_absorb2)
  have "\<forall>e \<in> set (rev undone). entry_content e \<in> set (map entry_content (rev undone))" by simp
  then have "\<forall>e \<in> set (rev undone). logging_type e = LT_revert" unfolding a(4) by (auto simp: entry_content_def)
  then have "play (rev undone) ?base = drop k ?base" using undo len by metis
  moreover have "play (map ((!) es) (rev xs)) b = xs @ b" if "set xs \<subseteq> set new" for xs b
    using that
  proof (induction xs)
    case (Cons x xs)
    then show ?case using new [of x] log_atD(1) [OF at] by (simp add: play_append unat_of_nat_u64)
  qed simp
  ultimately show "play answer ?base = open_entries (take j es)" by (simp add: a(1,3) play_append)
  have "map entry_content (map ((!) es) (rev new)) = map (\<lambda>a. (LT_apply, log_action (es ! a))) (rev new)"
    using new by (simp add: entry_content_def)
  then show "map entry_content answer = map (\<lambda>b. (LT_revert, log_action (es ! b))) (take k ?base)
           @ map (\<lambda>a. (LT_apply, log_action (es ! a))) (rev new)"
    by (simp add: a(1,4))
  have "\<forall>e \<in> set undone. \<exists>p < length es. log_index e = of_nat p"
    using st(1) unfolding answer_state_def Let_def by blast
  then show "\<exists>p < length es. log_index e = of_nat p" if "e \<in> set answer"
    using that new by (auto simp: a(1))
qed

text \<open>Asking again from the position of the last entry received is asking from where the node stopped.\<close>

lemma answer_state_next:
  assumes at: "log_at es (unat start)" and st: "answer_state es (unat start) j (rev answer) k new undone" "j \<le> length es"
  shows "open_entries (take (unat (next_start start answer)) es) = open_entries (take j es)"
    and "answer \<noteq> [] \<Longrightarrow> unat start < unat (next_start start answer)" "unat (next_start start answer) \<le> length es"
proof -
  let ?base = "open_entries (take (unat start) es)"
  have a: "rev answer = map ((!) es) new @ undone" "open_entries (take j es) = new @ drop k ?base" "\<forall>a \<in> set new. unat start \<le> a"
    "map entry_content (rev undone) = map (\<lambda>b. (LT_revert, log_action (es ! b))) (take k ?base)"
    "undone \<noteq> [] \<longrightarrow> (\<exists>p. log_index (hd undone) = of_nat p \<and> unat start \<le> p \<and> p < j
       \<and> open_entries (take (Suc p) es) = drop k ?base)"
    using st(1) by (auto simp: answer_state_def Let_def)
  have last_front: "answer \<noteq> [] \<and> last answer = e" if "rev answer = e # t" for e t
    using that hd_rev [of answer] by (cases answer) auto
  have pos: "unat (of_nat p + 1 :: u64) = Suc p" if "Suc p < 2 ^ 64" for p
    using unat_of_nat_u64 [OF that] by (simp add: add.commute)
  have "\<exists>n. unat (next_start start answer) = n \<and> open_entries (take n es) = open_entries (take j es)
      \<and> (answer \<noteq> [] \<longrightarrow> unat start < n) \<and> n \<le> length es"
  proof (cases new)
    case (Cons x xs)
    have x: "x < j" using open_entries_take_less [of x j es] a(2) Cons by simp
    have "log_balanced (take j es)" using log_atD(3) [OF at] st(2) by (auto simp: log_balanced_def)
    then have ap: "logging_type (es ! x) = LT_apply" using open_entries_apply [of "take j es" x] a(2) Cons x by simp
    then have idx: "log_index (es ! x) = of_nat x" using log_atD(4) [OF at, of x] x st(2) by (simp add: entry_faithful_def)
    have "rev answer = es ! x # (map ((!) es) xs @ undone)" using a(1) Cons by simp
    from last_front [OF this] have "unat (next_start start answer) = Suc x"
      using idx x st(2) log_atD(1) [OF at] pos [of x] by (simp add: next_start_def)
    moreover have "open_entries (take (Suc x) es) = x # open_entries (take x es)"
      using ap x st(2) by (simp add: open_entries_Suc stack_step_def)
    moreover have "open_entries (take x (take j es)) = tl (open_entries (take j es))"
      using open_entries_below [of 0 "take j es"] a(2) Cons by simp
    moreover have "take x (take j es) = take x es" using x by simp
    ultimately show ?thesis using a(2,3) Cons x st(2) by auto
  next
    case Nil
    show ?thesis
    proof (cases undone)
      case Nil': Nil
      then have "answer = []" "k = 0 \<or> ?base = []" using a(1,4) Nil by (auto simp: take_eq_Nil)
      then show ?thesis using a(2) Nil log_atD(2) [OF at] by (auto simp: next_start_def)
    next
      case (Cons r rs)
      then obtain p where p: "log_index r = of_nat p" "unat start \<le> p" "p < j"
        "open_entries (take (Suc p) es) = drop k ?base" using a(5) by auto
      have "rev answer = r # rs" using a(1) Cons Nil by simp
      from last_front [OF this] have "unat (next_start start answer) = Suc p"
        using p st(2) log_atD(1) [OF at] pos [of p] by (simp add: next_start_def)
      then show ?thesis using p a(2) Nil st(2) by auto
    qed
  qed
  then show "open_entries (take (unat (next_start start answer)) es) = open_entries (take j es)"
    and "answer \<noteq> [] \<Longrightarrow> unat start < unat (next_start start answer)" "unat (next_start start answer) \<le> length es"
    by auto
qed

lemma leading_reverts_all:
  assumes "\<forall>e \<in> set es. logging_type e = LT_revert" "count + stack_size es < max_count"
  shows "leading_reverts max_count es i count st = Inl External_error"
  using assms by (induction es arbitrary: i count st) (simp_all add: add.assoc [symmetric])

text \<open>A node that is asked again and again, each time from behind the last entry it has sent.\<close>

fun client_rounds :: "nat \<Rightarrow> u64 \<Rightarrow> action_log \<Rightarrow> u64 \<times> nat list \<Rightarrow> (u64 \<times> nat list) res" where
  "client_rounds 0 max_count l c = Inr c"
| "client_rounds (Suc n) max_count l (start, s) =
     bind_res (get_actions start max_count l) (\<lambda>answer.
       client_rounds n max_count l (next_start start answer, play answer s))"

lemma get_actions_round:
  assumes at: "log_at (m_actions l) (unat start)" and "get_actions start max_count l = Inr answer"
  shows "play answer (open_entries (take (unat start) (m_actions l))) = open_entries (take (unat (next_start start answer)) (m_actions l))"
    and "log_at (m_actions l) (unat (next_start start answer))"
    and "answer \<noteq> [] \<Longrightarrow> unat start < unat (next_start start answer)"
    and "stack_size answer < response_limit max_count \<Longrightarrow>
      open_entries (take (unat (next_start start answer)) (m_actions l)) = open_entries (m_actions l)"
    and "\<exists>k new. k \<le> length (open_entries (take (unat start) (m_actions l))) \<and> (\<forall>a \<in> set new. unat start \<le> a)
      \<and> open_entries (take (unat (next_start start answer)) (m_actions l)) = new @ drop k (open_entries (take (unat start) (m_actions l)))
      \<and> map entry_content answer = map (\<lambda>b. (LT_revert, log_action (m_actions l ! b))) (take k (open_entries (take (unat start) (m_actions l))))
          @ map (\<lambda>a. (LT_apply, log_action (m_actions l ! a))) (rev new)"
    and "e \<in> set answer \<Longrightarrow> \<exists>p < length (m_actions l). log_index e = of_nat p"
proof -
  obtain j k new undone where j: "j \<le> length (m_actions l)" "answer_state (m_actions l) (unat start) j (rev answer) k new undone"
    "j = length (m_actions l) \<or> response_limit max_count \<le> stack_size answer"
    using get_actions_cases [OF at, of max_count] assms(2) by auto
  note nxt = answer_state_next [OF at j(2,1)]
  show "play answer (open_entries (take (unat start) (m_actions l))) = open_entries (take (unat (next_start start answer)) (m_actions l))"
    using answer_state_play(1) [OF at j(2,1)] nxt(1) by simp
  show "log_at (m_actions l) (unat (next_start start answer))" using at nxt(3) by (simp add: log_at_def)
  show "answer \<noteq> [] \<Longrightarrow> unat start < unat (next_start start answer)" by (rule nxt(2))
  show "open_entries (take (unat (next_start start answer)) (m_actions l)) = open_entries (m_actions l)"
    if "stack_size answer < response_limit max_count" using that j(3) nxt(1) by simp
  show "\<exists>p < length (m_actions l). log_index e = of_nat p" if "e \<in> set answer"
    using answer_state_play(3) [OF at j(2,1) that] .
  have "k \<le> length (open_entries (take (unat start) (m_actions l)))"
    "open_entries (take j (m_actions l)) = new @ drop k (open_entries (take (unat start) (m_actions l)))"
    using j(2) by (auto simp: answer_state_def Let_def)
  moreover have "\<forall>a \<in> set new. unat start \<le> a" using j(2) by (simp add: answer_state_def Let_def)
  ultimately show "\<exists>k new. k \<le> length (open_entries (take (unat start) (m_actions l))) \<and> (\<forall>a \<in> set new. unat start \<le> a)
      \<and> open_entries (take (unat (next_start start answer)) (m_actions l)) = new @ drop k (open_entries (take (unat start) (m_actions l)))
      \<and> map entry_content answer = map (\<lambda>b. (LT_revert, log_action (m_actions l ! b))) (take k (open_entries (take (unat start) (m_actions l))))
          @ map (\<lambda>a. (LT_apply, log_action (m_actions l ! a))) (rev new)"
    using answer_state_play(2) [OF at j(2,1)] nxt(1) by metis
qed

lemma client_rounds_reach:
  assumes "log_at (m_actions l) (unat start)" "s = open_entries (take (unat start) (m_actions l))"
    "m_actions l = [] \<or> logging_type (last (m_actions l)) = LT_apply" "0 < max_count"
    "length (m_actions l) - unat start \<le> n" "0 < n"
  shows "\<exists>start'. client_rounds n max_count l (start, s) = Inr (start', open_entries (m_actions l))"
  using assms(1,2,5,6)
proof (induction n arbitrary: start s)
  case (Suc n)
  have "get_actions start max_count l \<noteq> Inl e" for e
  proof
    assume "get_actions start max_count l = Inl e"
    then have less: "unat start < length (m_actions l)"
      and all: "\<forall>p. unat start \<le> p \<and> p < length (m_actions l) \<longrightarrow> logging_type (m_actions l ! p) = LT_revert"
      using get_actions_cases [OF Suc.prems(1), of max_count] by auto
    from less have "m_actions l \<noteq> []" by auto
    then have "last (m_actions l) = m_actions l ! (length (m_actions l) - 1)" by (rule last_conv_nth)
    then show False using all less assms(3) \<open>m_actions l \<noteq> []\<close> by (metis diff_less le_numeral_extra(4) leI length_greater_0_conv
      logging_type.distinct(1) Suc_diff_1 less_Suc_eq_le zero_less_one)
  qed
  then obtain answer where ans: "get_actions start max_count l = Inr answer" by (cases "get_actions start max_count l") auto
  note round = get_actions_round [OF Suc.prems(1) ans]
  let ?start = "next_start start answer" and ?s = "play answer s"
  have s: "?s = open_entries (take (unat ?start) (m_actions l))" using round(1) Suc.prems(2) by simp
  have run: "client_rounds (Suc n) max_count l (start, s) = client_rounds n max_count l (?start, ?s)" using ans by simp
  have lim: "0 < response_limit max_count" using assms(4)
    by (simp add: response_limit_def ACTION_LOG_MAX_RESPONSE_def word_less_nat_alt)
  show ?case
  proof (cases "answer = []")
    case True
    then have "?s = open_entries (m_actions l)" using round(4) lim s by simp
    moreover have "client_rounds n max_count l (?start, ?s) = Inr (?start, ?s)"
      using ans True by (induction n) (simp_all add: next_start_def)
    ultimately show ?thesis using run by simp
  next
    case False
    then have step: "unat start < unat ?start" by (rule round(3))
    show ?thesis
    proof (cases n)
      case 0
      have "unat ?start \<le> length (m_actions l)" using log_atD(2) [OF round(2)] .
      then have "unat ?start = length (m_actions l)" using step Suc.prems(3) 0 by linarith
      then show ?thesis using run 0 s by simp
    next
      case (Suc n')
      then show ?thesis using Suc.IH [OF round(2) s] step Suc.prems(3) run by simp
    qed
  qed
qed simp

section \<open>The properties\<close>

text \<open>A log with two transactions of which the second is reverted and replaced by a third.\<close>

definition sample_entry :: "nat \<Rightarrow> u64 \<Rightarrow> logged_transaction" where
  "sample_entry i n = \<lparr> logging_type = LT_apply, log_index = of_nat i,
     log_action = Transaction_log \<lparr> tl_fee = Coin n 0, tl_time_signed = 0, tl_transaction_hash = [],
       tl_transaction_size = n, tl_action = Role \<lparr> rl_node_address = [], rl_node_type = NT_storage \<rparr> \<rparr> \<rparr>"

definition sample_action_log :: action_log where
  "sample_action_log = \<lparr> m_actions = [sample_entry 0 1, sample_entry 1 2, (sample_entry 1 2)\<lparr>logging_type := LT_revert\<rparr>,
     sample_entry 3 3], m_enabled = True, m_revert_index = 3 \<rparr>"

text \<open>C32: \<open>get_actions\<close> lets a client keep up. A client that has the entries in force at its start
  index and plays the answer has the entries in force at the index it asks from next, which lies
  further on unless the answer is empty and never behind the log; with an answer below the limit it
  has all entries in force. What was applied and reverted since is left out: the answer first reverts
  the latest \<open>k\<close> entries the client has and then applies entries in force, in the order of the log.\<close>

theorem get_actions_replay:
  assumes "log_faithful (m_actions l)" "length (m_actions l) < 2 ^ 64" "unat start \<le> length (m_actions l)"
    and "get_actions start max_count l = Inr answer"
  shows "let had = open_entries (take (unat start) (m_actions l)); start' = next_start start answer;
             has = open_entries (take (unat start') (m_actions l))
    in play answer had = has \<and> unat start' \<le> length (m_actions l) \<and> (answer \<noteq> [] \<longrightarrow> start < start')
      \<and> (stack_size answer < response_limit max_count \<longrightarrow> has = open_entries (m_actions l))
      \<and> (\<exists>k new. k \<le> length had \<and> has = new @ drop k had
          \<and> map entry_content answer = map (\<lambda>b. (LT_revert, log_action (m_actions l ! b))) (take k had)
              @ map (\<lambda>a. (LT_apply, log_action (m_actions l ! a))) (rev new))"
proof -
  have at: "log_at (m_actions l) (unat start)" using assms by (simp add: log_at_def)
  show ?thesis
    using get_actions_round [OF at assms(4)] unfolding Let_def by (auto simp: word_less_nat_alt log_at_def)
qed

theorem get_actions_replay_witness:
  "case get_actions 2 10 sample_action_log of
     Inr answer \<Rightarrow> map logging_type answer = [LT_revert, LT_apply] \<and> next_start 2 answer = 4 \<and> play answer [1, 0] = [3, 0]
       \<and> stack_size answer < 10
   | Inl _ \<Rightarrow> False"
proof -
  have faithful: "log_faithful (m_actions sample_action_log)"
    by (simp add: log_faithful_def sample_action_log_def sample_entry_def All_less_Suc entry_faithful_def open_entries_def
      stack_step_def numeral_nat)
  have "get_actions 2 10 sample_action_log = Inr [(sample_entry 1 2)\<lparr>logging_type := LT_revert, log_index := 2\<rparr>, sample_entry 3 3]"
    by code_simp
  then show ?thesis
    using get_actions_replay [OF faithful, of 2 10 "[(sample_entry 1 2)\<lparr>logging_type := LT_revert, log_index := 2\<rparr>, sample_entry 3 3]"]
    by (simp add: sample_action_log_def sample_entry_def Let_def next_start_def stack_size_def action_size_def open_entries_def stack_step_def)
qed

text \<open>C34: when all entries from the start index on are reverts and fewer than the limit,
  \<open>get_actions\<close> reads behind the end of the log and throws: after a revert without a new entry a
  client that is up to date gets no answer.\<close>

theorem get_actions_only_reverts:
  assumes "unat start < length (m_actions l)"
    and "\<forall>e \<in> set (drop (unat start) (m_actions l)). logging_type e = LT_revert"
    and "stack_size (drop (unat start) (m_actions l)) < response_limit max_count"
  shows "get_actions start max_count l = Inl External_error"
  using assms leading_reverts_all [of "drop (unat start) (m_actions l)" 0 "response_limit max_count"]
  by (simp add: get_actions_def Let_def)

theorem get_actions_only_reverts_witness:
  "get_actions 2 10 (sample_action_log\<lparr>m_actions := take 3 (m_actions sample_action_log)\<rparr>) = Inl External_error"
  by (rule get_actions_only_reverts)
    (simp_all add: sample_action_log_def sample_entry_def response_limit_def ACTION_LOG_MAX_RESPONSE_def stack_size_def action_size_def)

text \<open>C33: a client that asks a node often enough, each time from behind the last entry received,
  ends with exactly the entries in force, whatever limit above 0 it asks with, when the log does not
  end in a revert: no request fails, and as many requests as there are entries to read are enough.\<close>

theorem client_catches_up:
  assumes "log_faithful (m_actions l)" "length (m_actions l) < 2 ^ 64" "unat start \<le> length (m_actions l)"
    and "logging_type (last (m_actions l)) = LT_apply" "0 < max_count"
    and "length (m_actions l) - unat start \<le> n" "0 < n"
  shows "\<exists>start'. client_rounds n max_count l (start, open_entries (take (unat start) (m_actions l)))
     = Inr (start', open_entries (m_actions l))"
  using client_rounds_reach [of l start _ max_count n] assms by (simp add: log_at_def)

theorem client_catches_up_witness:
  "\<exists>start'. client_rounds 2 1 sample_action_log (2, [1, 0]) = Inr (start', [3, 0])"
proof -
  have "log_faithful (m_actions sample_action_log)"
    by (simp add: log_faithful_def sample_action_log_def sample_entry_def All_less_Suc entry_faithful_def open_entries_def
      stack_step_def numeral_nat)
  moreover have "open_entries (take 2 (m_actions sample_action_log)) = [1, 0]" "open_entries (m_actions sample_action_log) = [3, 0]"
    "logging_type (last (m_actions sample_action_log)) = LT_apply" "length (m_actions sample_action_log) = 4"
    by code_simp+
  ultimately show ?thesis using client_catches_up [of sample_action_log 2 1 2] by simp
qed

end
