(* ===== verification/Account_Log.thy ===== *)
theory Account_Log
  imports Action_Log
begin

text \<open>
  The accounts of the commander: commander/utility.cpp and the part of commander/daemon\_rpc.cpp
  that keeps, for every tracked account, its balance, its transactions and its rewards, indexed by
  block. The index of a log is shown to refine the plain list of pairs of a block and an entry.
\<close>

section \<open>What a logged transaction is about (utility.cpp)\<close>

record transaction_summary =
  ti_from :: string
  ti_to :: string
  ti_amount :: coin
  ti_fee :: coin

text \<open>\<open>author_addresses[0]\<close> of an empty vector is undefined. The text of the last exception ends in
  the type number, which is left out.\<close>

definition first_author :: "string list \<Rightarrow> string res" where
  "first_author authors = (case authors of [] \<Rightarrow> Inl Undefined_behaviour | a # _ \<Rightarrow> Inr a)"

definition transaction_info :: "transaction_log \<Rightarrow> transaction_summary res" where
  "transaction_info log =
     (let info = \<lambda>from to amount. \<lparr> ti_from = from, ti_to = to, ti_amount = amount, ti_fee = tl_fee log \<rparr>;
          only = \<lambda>from. info from [] coin_zero
      in case tl_action log of
        Transfer t \<Rightarrow> Inr (info (tf_from t) (tf_to t) (tf_amount t))
      | File f \<Rightarrow> bind_res (first_author (fl_author_addresses f)) (\<lambda>a. Inr (only a))
      | ContentUnit c \<Rightarrow> bind_res (first_author (cu_author_addresses c)) (\<lambda>a. Inr (only a))
      | Content c \<Rightarrow> Inr (only (ct_channel_address c))
      | Role r \<Rightarrow> Inr (only (rl_node_address r))
      | StorageUpdate u \<Rightarrow> Inr (only (su_storage_address u))
      | ServiceStatistics s \<Rightarrow> Inr (only (ss_server_address s))
      | SponsorContentUnit s \<Rightarrow> Inr (info (sp_sponsor_address s) [] (sp_amount s))
      | CancelSponsorContentUnit c \<Rightarrow> Inr (only (cs_sponsor_address c))
      | _ \<Rightarrow> Inl (Logic_error ''unknown transaction log item - ''))"

section \<open>Balances\<close>

text \<open>The key of an account is its address, which is all it holds beside the balance.\<close>

type_synonym accounts = "string \<rightharpoonup> coin"

datatype update_balance_type = Increase | Decrease

definition update_balance ::
  "ext \<Rightarrow> string list \<Rightarrow> string \<Rightarrow> coin \<Rightarrow> update_balance_type \<Rightarrow> accounts \<Rightarrow> accounts res" where
  "update_balance E set_accounts str_account update_by type accounts =
     (if str_account \<in> set set_accounts
      then check_public_key E str_account
        (let stored = (case accounts str_account of None \<Rightarrow> coin_zero | Some c \<Rightarrow> c)
         in bind_res (coin_of stored) (\<lambda>balance. bind_res (coin_of update_by) (\<lambda>change.
              bind_res (if type = Decrease then coin_minus balance change else Inr (coin_plus balance change)) (\<lambda>b.
                Inr (accounts(str_account \<mapsto> b))))))
      else Inr accounts)"

definition move_amount ::
  "ext \<Rightarrow> string list \<Rightarrow> update_balance_type \<Rightarrow> string \<Rightarrow> string \<Rightarrow> coin \<Rightarrow> accounts \<Rightarrow> accounts res" where
  "move_amount E set_accounts type payer receiver amount accounts =
     (let other = (if type = Decrease then Increase else Decrease)
      in if amount \<noteq> coin_zero
         then bind_res (if payer \<noteq> [] then update_balance E set_accounts payer amount type accounts else Inr accounts) (\<lambda>accounts.
                if receiver \<noteq> [] then update_balance E set_accounts receiver amount other accounts else Inr accounts)
         else Inr accounts)"

definition update_balances ::
  "ext \<Rightarrow> string list \<Rightarrow> transaction_log \<Rightarrow> string \<Rightarrow> logging_type \<Rightarrow> accounts \<Rightarrow> accounts res" where
  "update_balances E set_accounts log authority type accounts =
     (let payer = (if type = LT_apply then Decrease else Increase)
      in bind_res (transaction_info log) (\<lambda>info.
         bind_res (move_amount E set_accounts payer (ti_from info) (ti_to info) (ti_amount info) accounts) (\<lambda>accounts.
           move_amount E set_accounts payer (ti_from info) authority (ti_fee info) accounts)))"

section \<open>Logs with an index by block\<close>

text \<open>A vector of entries and, by the number of the block in decimal, where the entries of the block
  start and how many there are.\<close>

record 'a account_log =
  ag_entries :: "'a list"
  ag_index :: "string \<rightharpoonup> u64 \<times> u64"

definition account_log_empty :: "'a account_log" where
  "account_log_empty = \<lparr> ag_entries = [], ag_index = Map.empty \<rparr>"

definition log_push :: "string \<Rightarrow> u64 \<Rightarrow> 'a \<Rightarrow> 'a account_log \<Rightarrow> 'a account_log res" where
  "log_push what block_index x l =
     (let entries = ag_entries l @ [x]; current = of_nat (length entries) - 1; key = to_string_u64 block_index
      in case ag_index l key of
           None \<Rightarrow> Inr \<lparr> ag_entries = entries, ag_index = (ag_index l)(key \<mapsto> (current, 1)) \<rparr>
         | Some (start, count) \<Rightarrow>
             throw_if (start + count \<noteq> current) (Logic_error (''cannot add to '' @ what @ '' index''))
               (Inr \<lparr> ag_entries = entries, ag_index = (ag_index l)(key \<mapsto> (start, count + 1)) \<rparr>))"

definition log_pop :: "string \<Rightarrow> u64 \<Rightarrow> 'a account_log \<Rightarrow> 'a account_log res" where
  "log_pop what block_index l =
     throw_if (ag_entries l = []) External_error
       (let entries = butlast (ag_entries l); current = of_nat (length entries) :: u64; key = to_string_u64 block_index
        in case ag_index l key of
             None \<Rightarrow> Inl (Logic_error (''cannot remove from '' @ what @ '' index''))
           | Some (start, count) \<Rightarrow>
               throw_if (start + count \<noteq> current + 1) (Logic_error (''cannot remove from '' @ what @ '' index - check error''))
                 (Inr \<lparr> ag_entries = entries,
                   ag_index = (ag_index l)(key := (if count = 1 then None else Some (start, count - 1))) \<rparr>))"

definition process_log :: "string \<Rightarrow> u64 \<Rightarrow> logging_type \<Rightarrow> 'a \<Rightarrow> 'a account_log \<Rightarrow> 'a account_log res" where
  "process_log what block_index type x l =
     (if type = LT_apply then log_push what block_index x l else log_pop what block_index l)"

text \<open>The logs of all accounts; only those of tracked accounts are opened.\<close>

definition process_account ::
  "string \<Rightarrow> string list \<Rightarrow> u64 \<Rightarrow> logging_type \<Rightarrow> string \<Rightarrow> 'a \<Rightarrow> (string \<Rightarrow> 'a account_log) \<Rightarrow> (string \<Rightarrow> 'a account_log) res" where
  "process_account what set_accounts block_index type str_account x logs =
     (if str_account \<in> set set_accounts
      then bind_res (process_log what block_index type x (logs str_account)) (\<lambda>l. Inr (logs(str_account := l)))
      else Inr logs)"

definition process_reward ::
  "string list \<Rightarrow> u64 \<Rightarrow> logging_type \<Rightarrow> reward_log \<Rightarrow> (string \<Rightarrow> reward_log account_log) \<Rightarrow> (string \<Rightarrow> reward_log account_log) res" where
  "process_reward set_accounts block_index type r = process_account ''reward'' set_accounts block_index type (rl_to r) r"

definition process_transaction ::
  "string list \<Rightarrow> u64 \<Rightarrow> logging_type \<Rightarrow> string \<Rightarrow> transaction_log \<Rightarrow> (string \<Rightarrow> transaction_log account_log)
     \<Rightarrow> (string \<Rightarrow> transaction_log account_log) res" where
  "process_transaction = process_account ''transaction''"

definition process_transactions ::
  "string list \<Rightarrow> u64 \<Rightarrow> transaction_log \<Rightarrow> string \<Rightarrow> logging_type \<Rightarrow> (string \<Rightarrow> transaction_log account_log)
     \<Rightarrow> (string \<Rightarrow> transaction_log account_log) res" where
  "process_transactions set_accounts block_index log authority type logs =
     bind_res (transaction_info log) (\<lambda>info.
       let from = ti_from info; to = ti_to info; process = \<lambda>a. process_transaction set_accounts block_index type a log
       in bind_res (if from \<noteq> [] then process from logs else Inr logs) (\<lambda>logs.
          bind_res (if authority \<noteq> [] \<and> authority \<noteq> from then process authority logs else Inr logs) (\<lambda>logs.
            if to \<noteq> [] \<and> to \<noteq> from \<and> to \<noteq> authority then process to logs else Inr logs)))"

section \<open>The index refines a list of pairs\<close>

text \<open>The log of the pairs of a block and an entry.\<close>

definition block_start :: "u64 \<Rightarrow> (u64 \<times> 'a) list \<Rightarrow> nat" where
  "block_start b al = length (takeWhile (\<lambda>p. fst p \<noteq> b) al)"

definition block_entries :: "u64 \<Rightarrow> (u64 \<times> 'a) list \<Rightarrow> 'a list" where
  "block_entries b al = map snd (filter (\<lambda>p. fst p = b) al)"

definition index_of :: "(u64 \<times> 'a) list \<Rightarrow> string \<rightharpoonup> u64 \<times> u64" where
  "index_of al key =
     map_option (\<lambda>p. (of_nat (block_start (fst p) al), of_nat (length (block_entries (fst p) al))))
       (find (\<lambda>p. to_string_u64 (fst p) = key) al)"

definition account_log_of :: "(u64 \<times> 'a) list \<Rightarrow> 'a account_log" where
  "account_log_of al = \<lparr> ag_entries = map snd al, ag_index = index_of al \<rparr>"

lemma index_of_key: "index_of al (to_string_u64 b) =
    (if b \<in> fst ` set al then Some (of_nat (block_start b al), of_nat (length (block_entries b al))) else None)"
proof (cases "find (\<lambda>p. fst p = b) al")
  case None
  then show ?thesis by (force simp: index_of_def find_None_iff)
next
  case (Some p)
  then have "fst p = b" "p \<in> set al" by (auto simp: find_Some_iff)
  then show ?thesis using Some by (force simp: index_of_def)
qed

lemma index_of_other: "(\<And>b. key \<noteq> to_string_u64 b) \<Longrightarrow> index_of al key = None"
  by (auto simp: index_of_def find_None_iff)

lemma index_of_eqI:
  assumes "\<And>b. f (to_string_u64 b) = index_of al (to_string_u64 b)" "\<And>key. (\<And>b. key \<noteq> to_string_u64 b) \<Longrightarrow> f key = None"
  shows "f = index_of al"
proof
  fix key
  show "f key = index_of al key"
  proof (cases "\<exists>b. key = to_string_u64 b")
    case False
    then have "f key = None" by (intro assms(2)) auto
    then show ?thesis using False by (simp add: index_of_other)
  qed (use assms(1) in auto)
qed

text \<open>The entries of a block stand together when every entry is added at the end or to the last block.\<close>

definition ends_in :: "u64 \<Rightarrow> (u64 \<times> 'a) list \<Rightarrow> bool" where
  "ends_in b al \<longleftrightarrow> block_start b al + length (block_entries b al) = length al"

lemma block_start_snoc:
  "block_start c (al @ [(b, x)]) = (if c \<in> fst ` set al then block_start c al else length al + (if b = c then 0 else 1))"
  by (induction al) (auto simp: block_start_def)

lemma block_entries_snoc [simp]:
  "block_entries c (al @ [(b, x)]) = block_entries c al @ (if b = c then [x] else [])"
  by (simp add: block_entries_def)

lemma block_entries_Nil_iff: "block_entries b al = [] \<longleftrightarrow> b \<notin> fst ` set al"
  by (auto simp: block_entries_def filter_empty_conv image_iff)

lemma block_start_new: "b \<notin> fst ` set al \<Longrightarrow> block_start b al = length al"
  by (induction al) (auto simp: block_start_def)

lemma index_of_snoc:
  assumes "b \<in> fst ` set al \<or> b = c"
  shows "index_of (al @ [(c, x)]) (to_string_u64 b) =
    (if b = c then Some (of_nat (block_start b al), of_nat (length (block_entries b al)) + 1) else index_of al (to_string_u64 b))"
  using assms by (auto simp: index_of_key block_start_snoc block_start_new add.commute)

lemma index_of_snoc_other: "b \<noteq> c \<Longrightarrow> index_of (al @ [(c, x)]) (to_string_u64 b) = index_of al (to_string_u64 b)"
  by (simp add: index_of_key block_start_snoc)

lemma index_of_snoc_upd:
  "index_of (al @ [(b, x)]) = (index_of al)(to_string_u64 b \<mapsto> (of_nat (block_start b al), of_nat (length (block_entries b al)) + 1))"
proof (rule sym, rule index_of_eqI)
  fix c
  show "((index_of al)(to_string_u64 b \<mapsto> (of_nat (block_start b al), of_nat (length (block_entries b al)) + 1))) (to_string_u64 c)
     = index_of (al @ [(b, x)]) (to_string_u64 c)"
    using index_of_snoc [of c al b x] index_of_snoc_other [of c b al x] by (cases "c = b") auto
qed (auto simp: index_of_other)

lemma log_push_refines:
  assumes "ends_in b al"
  shows "log_push what b x (account_log_of al) = Inr (account_log_of (al @ [(b, x)]))"
proof (cases "b \<in> fst ` set al")
  case True
  have "(of_nat (block_start b al) + of_nat (length (block_entries b al)) :: u64) = of_nat (length al)"
    using assms by (simp add: ends_in_def flip: of_nat_add)
  then show ?thesis using True
    by (simp add: log_push_def account_log_of_def index_of_key index_of_snoc_upd Let_def)
next
  case False
  then have "block_entries b al = []" by (simp add: block_entries_Nil_iff)
  then show ?thesis using False
    by (simp add: log_push_def account_log_of_def index_of_key index_of_snoc_upd block_start_new Let_def)
qed

lemma log_pop_refines:
  assumes "ends_in b al" "Suc (length al) < 2 ^ 64"
  shows "log_pop what b (account_log_of (al @ [(b, x)])) = Inr (account_log_of al)"
proof -
  let ?s = "block_start b al" and ?n = "length (block_entries b al)"
  have sum: "(of_nat ?s + of_nat ?n :: u64) = of_nat (length al)"
    using assms(1) by (simp add: ends_in_def flip: of_nat_add)
  have small: "Suc ?n < 2 ^ 64" using assms by (simp add: ends_in_def)
  have one: "(of_nat ?n + 1 :: u64) = 1 \<longleftrightarrow> b \<notin> fst ` set al"
  proof -
    have "unat (of_nat ?n :: u64) = ?n" using small by (intro unat_of_nat_u64) simp
    then have "(of_nat ?n :: u64) = 0 \<longleftrightarrow> ?n = 0" by (metis unat_eq_zero)
    then show ?thesis using block_entries_Nil_iff [of b al] by simp
  qed
  have same: "(index_of al)(to_string_u64 b := index_of al (to_string_u64 b)) = index_of al" by simp
  show ?thesis
  proof (cases "b \<in> fst ` set al")
    case True
    then have "index_of al (to_string_u64 b) = Some (of_nat ?s, of_nat ?n)" by (simp add: index_of_key)
    then show ?thesis using same True one sum
      by (simp add: log_pop_def account_log_of_def index_of_snoc_upd Let_def add.assoc [symmetric])
  next
    case False
    then have "index_of al (to_string_u64 b) = None" by (simp add: index_of_key)
    then show ?thesis using same False one sum
      by (simp add: log_pop_def account_log_of_def index_of_snoc_upd Let_def add.assoc [symmetric])
  qed
qed

text \<open>Entries are added for the last block or the one after it.\<close>

definition blocks_upto :: "nat \<Rightarrow> (u64 \<times> 'a) list \<Rightarrow> bool" where
  "blocks_upto h al \<longleftrightarrow> sorted (map (\<lambda>p. unat (fst p)) al) \<and> (\<forall>p \<in> set al. unat (fst p) \<le> h)"

lemma blocks_upto_Nil [simp]: "blocks_upto h []"
  by (simp add: blocks_upto_def)

lemma blocks_upto_mono: "blocks_upto h al \<Longrightarrow> h \<le> h' \<Longrightarrow> blocks_upto h' al"
  by (force simp: blocks_upto_def)

lemma blocks_upto_snoc: "blocks_upto h (al @ [(b, x)]) \<longleftrightarrow> blocks_upto h al \<and> (\<forall>p \<in> set al. unat (fst p) \<le> unat b) \<and> unat b \<le> h"
  by (auto simp: blocks_upto_def sorted_append)

lemma blocks_upto_ends_in: "blocks_upto (unat b) al \<Longrightarrow> ends_in b al"
proof (induction al)
  case (Cons p al)
  have al: "blocks_upto (unat b) al" using Cons.prems by (simp add: blocks_upto_def)
  show ?case
  proof (cases "fst p = b")
    case True
    then have "\<forall>q \<in> set al. fst q = b"
      using Cons.prems by (force simp: blocks_upto_def intro: word_unat_eq_iff [THEN iffD2])
    then have "filter (\<lambda>q. fst q = b) al = al" by (simp add: filter_id_conv)
    then show ?thesis using True by (simp add: ends_in_def block_start_def block_entries_def)
  next
    case False
    then show ?thesis using Cons.IH [OF al] by (simp add: ends_in_def block_start_def block_entries_def)
  qed
qed (simp add: ends_in_def block_start_def block_entries_def)

definition logs_of :: "(string \<Rightarrow> (u64 \<times> 'a) list) \<Rightarrow> string \<Rightarrow> 'a account_log" where
  "logs_of A a = account_log_of (A a)"

definition add_entry :: "string set \<Rightarrow> u64 \<times> 'a \<Rightarrow> (string \<Rightarrow> (u64 \<times> 'a) list) \<Rightarrow> string \<Rightarrow> (u64 \<times> 'a) list" where
  "add_entry S p A a = (if a \<in> S then A a @ [p] else A a)"

lemma logs_of_upd: "(logs_of A)(a := account_log_of l) = logs_of (A(a := l))"
  by (auto simp: logs_of_def)

lemma add_entry_insert: "(add_entry S p A)(a := A a @ [p]) = add_entry (insert a S) p A"
  by (auto simp: add_entry_def)

lemma add_entry_empty [simp]: "add_entry {} p A = A"
  by (simp add: add_entry_def fun_eq_iff)

lemma process_account_apply:
  assumes "a \<notin> S" "ends_in b (A a)"
  shows "process_account what T b LT_apply a x (logs_of (add_entry S (b, x) A)) = Inr (logs_of (add_entry (S \<union> ({a} \<inter> set T)) (b, x) A))"
proof -
  have "logs_of (add_entry S (b, x) A) a = account_log_of (A a)" using assms(1) by (simp add: logs_of_def add_entry_def)
  then show ?thesis
    by (simp add: process_account_def process_log_def log_push_refines [OF assms(2)] logs_of_upd add_entry_insert)
qed

lemma process_account_revert:
  assumes "S \<subseteq> set T" "a \<in> set T \<longrightarrow> a \<in> S" "ends_in b (A a)" "Suc (length (A a)) < 2 ^ 64"
  shows "process_account what T b LT_revert a x (logs_of (add_entry S (b, x) A)) = Inr (logs_of (add_entry (S - {a}) (b, x) A))"
proof (cases "a \<in> set T")
  case True
  then have "logs_of (add_entry S (b, x) A) a = account_log_of (A a @ [(b, x)])"
    using assms(2) by (simp add: logs_of_def add_entry_def)
  moreover have "(add_entry S (b, x) A)(a := A a) = add_entry (S - {a}) (b, x) A"
    by (auto simp: add_entry_def)
  ultimately show ?thesis using True
    by (simp add: process_account_def process_log_def log_pop_refines [OF assms(3,4)] logs_of_upd)
next
  case False
  then have "S - {a} = S" using assms(1) by auto
  then show ?thesis using False by (simp add: process_account_def)
qed

text \<open>A transaction is entered once for each of its accounts that is tracked.\<close>

definition touched :: "string list \<Rightarrow> transaction_summary \<Rightarrow> string \<Rightarrow> string set" where
  "touched T info authority = {a \<in> set T. a \<noteq> [] \<and> a \<in> {ti_from info, authority, ti_to info}}"

lemma process_transactions_apply:
  assumes info: "transaction_info log = Inr info" and ends: "\<And>a. ends_in b (A a)"
  shows "process_transactions T b log authority LT_apply (logs_of A) = Inr (logs_of (add_entry (touched T info authority) (b, log) A))"
proof -
  note step = process_account_apply [OF _ ends, of _ _ "''transaction''" T]
  have eq: "\<And>a x. process_account ''transaction'' T b LT_apply a x (logs_of A) = Inr (logs_of (add_entry ({a} \<inter> set T) (b, x) A))"
    using step [of _ "{}"] by simp
  have set: "touched T info authority = ((({ti_from info} - {[]}) \<union> ({authority} - {[]}) \<union> ({ti_to info} - {[]})) \<inter> set T)"
    by (auto simp: touched_def)
  show ?thesis
    by (auto simp: process_transactions_def process_transaction_def info Let_def eq step set Int_Un_distrib2
      insert_commute Int_insert_left intro!: arg_cong [where f = logs_of] split: if_splits)
qed

lemma process_transactions_revert:
  assumes info: "transaction_info log = Inr info" and ends: "\<And>a. ends_in b (A a)" "\<And>a. Suc (length (A a)) < 2 ^ 64"
  shows "process_transactions T b log authority LT_revert (logs_of (add_entry (touched T info authority) (b, log) A)) = Inr (logs_of A)"
proof -
  let ?S = "touched T info authority"
  have step: "(if a \<noteq> [] then process_account ''transaction'' T b LT_revert a log (logs_of (add_entry S (b, log) A))
      else Inr (logs_of (add_entry S (b, log) A))) = Inr (logs_of (add_entry (S - {a}) (b, log) A))"
    if "S \<subseteq> ?S" "a \<in> ?S \<longrightarrow> a \<in> S" "a \<in> {ti_from info, authority, ti_to info}" for a S
  proof (cases "a = []")
    case True
    then have "S - {a} = S" using that by (auto simp: touched_def)
    then show ?thesis using True by simp
  next
    case False
    then have "S \<subseteq> set T" "a \<in> set T \<longrightarrow> a \<in> S" using that by (auto simp: touched_def)
    then show ?thesis using False process_account_revert [OF _ _ ends] by simp
  qed
  have one: "(if ti_from info \<noteq> [] then process_account ''transaction'' T b LT_revert (ti_from info) log (logs_of (add_entry ?S (b, log) A))
      else Inr (logs_of (add_entry ?S (b, log) A))) = Inr (logs_of (add_entry (?S - {ti_from info}) (b, log) A))"
    by (rule step) auto
  have two: "(if authority \<noteq> [] \<and> authority \<noteq> ti_from info
      then process_account ''transaction'' T b LT_revert authority log (logs_of (add_entry (?S - {ti_from info}) (b, log) A))
      else Inr (logs_of (add_entry (?S - {ti_from info}) (b, log) A)))
    = Inr (logs_of (add_entry (?S - {ti_from info} - {authority}) (b, log) A))"
    using step [of "?S - {ti_from info}" authority] by (cases "authority = ti_from info") auto
  have three: "(if ti_to info \<noteq> [] \<and> ti_to info \<noteq> ti_from info \<and> ti_to info \<noteq> authority
      then process_account ''transaction'' T b LT_revert (ti_to info) log (logs_of (add_entry (?S - {ti_from info} - {authority}) (b, log) A))
      else Inr (logs_of (add_entry (?S - {ti_from info} - {authority}) (b, log) A)))
    = Inr (logs_of (add_entry (?S - {ti_from info} - {authority} - {ti_to info}) (b, log) A))"
    using step [of "?S - {ti_from info} - {authority}" "ti_to info", OF order_trans [OF Diff_subset Diff_subset]]
    by (cases "ti_to info = ti_from info \<or> ti_to info = authority") auto
  have "?S - {ti_from info} - {authority} - {ti_to info} = {}" by (auto simp: touched_def)
  then show ?thesis
    by (simp only: process_transactions_def process_transaction_def info Let_def bind_res_simps one two three add_entry_empty)
qed

section \<open>Balances as numbers of fractions\<close>

definition account_balance :: "accounts \<Rightarrow> string \<Rightarrow> coin" where
  "account_balance accounts a = (case accounts a of None \<Rightarrow> coin_zero | Some c \<Rightarrow> c)"

definition balance_val :: "accounts \<Rightarrow> string \<Rightarrow> nat" where
  "balance_val accounts a = coin_val (account_balance accounts a)"

definition accounts_ok :: "accounts \<Rightarrow> bool" where
  "accounts_ok accounts \<longleftrightarrow> (\<forall>a. coin_ok (account_balance accounts a))"

lemma accounts_ok_upd: "accounts_ok accounts \<Longrightarrow> coin_ok c \<Longrightarrow> accounts_ok (accounts(a \<mapsto> c))"
  by (simp add: accounts_ok_def account_balance_def)

lemma balance_val_upd [simp]: "balance_val (accounts(a \<mapsto> c)) b = (if b = a then coin_val c else balance_val accounts b)"
  by (simp add: balance_val_def account_balance_def)

lemma update_balance_cases:
  "update_balance E T a c type accounts =
     (if a \<in> set T
      then check_public_key E a
        (bind_res (coin_of (account_balance accounts a)) (\<lambda>balance. bind_res (coin_of c) (\<lambda>change.
           bind_res (if type = Decrease then coin_minus balance change else Inr (coin_plus balance change)) (\<lambda>b.
             Inr (accounts(a \<mapsto> b))))))
      else Inr accounts)"
  by (simp add: update_balance_def account_balance_def Let_def)

definition keys_ok :: "ext \<Rightarrow> string list \<Rightarrow> bool" where
  "keys_ok E T \<longleftrightarrow> (\<forall>a \<in> set T. x_public_key_ok E a)"

lemma update_balance_increase:
  assumes "keys_ok E T" "accounts_ok accounts" "coin_ok c" "balance_val accounts a + coin_val c < val_limit"
  shows "\<exists>accounts'. update_balance E T a c Increase accounts = Inr accounts' \<and> accounts_ok accounts'
    \<and> (\<forall>b. balance_val accounts' b = balance_val accounts b + (if b = a \<and> a \<in> set T then coin_val c else 0))"
proof -
  have ok: "coin_ok (account_balance accounts a)" using assms(2) by (simp add: accounts_ok_def)
  have "coin_val (coin_plus (account_balance accounts a) c) = balance_val accounts a + coin_val c"
    using coin_plus_val [OF ok assms(3)] assms(4) by (simp add: balance_val_def)
  then show ?thesis
    using assms(1,2,3) ok accounts_ok_upd [OF assms(2) coin_plus_ok [OF ok assms(3)]]
    by (auto simp: update_balance_cases keys_ok_def check_public_key_def)
qed

lemma update_balance_decrease:
  assumes "keys_ok E T" "accounts_ok accounts" "coin_ok c"
  shows "if a \<in> set T \<and> balance_val accounts a < coin_val c
    then \<exists>e. update_balance E T a c Decrease accounts = Inl e
    else \<exists>accounts'. update_balance E T a c Decrease accounts = Inr accounts' \<and> accounts_ok accounts'
      \<and> (\<forall>b. balance_val accounts' b = balance_val accounts b - (if b = a \<and> a \<in> set T then coin_val c else 0))"
proof -
  have ok: "coin_ok (account_balance accounts a)" using assms(2) by (simp add: accounts_ok_def)
  show ?thesis
  proof (cases "balance_val accounts a < coin_val c")
    case True
    then show ?thesis using assms ok coin_minus_Inl [OF ok assms(3)]
      by (auto simp: update_balance_cases keys_ok_def check_public_key_def balance_val_def)
  next
    case False
    then obtain d where d: "coin_minus (account_balance accounts a) c = Inr d"
      using coin_minus_total [OF ok assms(3)] by (auto simp: balance_val_def)
    then have "coin_ok d" "coin_val d = balance_val accounts a - coin_val c"
      using coin_minus_eq [OF ok assms(3)] by (auto simp: balance_val_def)
    then show ?thesis
      using assms(1,2,3) ok d False accounts_ok_upd [OF assms(2)]
      by (auto simp: update_balance_cases keys_ok_def check_public_key_def)
  qed
qed

text \<open>What a transfer between two accounts does to the tracked ones, forwards and backwards.\<close>

definition counted :: "string list \<Rightarrow> string \<Rightarrow> string \<Rightarrow> coin \<Rightarrow> nat" where
  "counted T a k c = (if a = k \<and> k \<noteq> [] \<and> k \<in> set T then coin_val c else 0)"

lemma move_amount_apply:
  assumes "keys_ok E T" "accounts_ok s" "coin_ok c" "\<And>k. balance_val s k + coin_val c < val_limit"
  shows "if counted T p p c \<le> balance_val s p
    then \<exists>s'. move_amount E T Decrease p r c s = Inr s' \<and> accounts_ok s'
      \<and> (\<forall>k. balance_val s' k + counted T p k c = balance_val s k + counted T r k c)
    else \<exists>e. move_amount E T Decrease p r c s = Inl e"
proof (cases "c = coin_zero")
  case True
  then show ?thesis using assms(2) by (simp add: move_amount_def counted_def)
next
  case False
  show ?thesis
  proof (cases "counted T p p c \<le> balance_val s p")
    case no: False
    then show ?thesis using update_balance_decrease [OF assms(1-3), of p] False
      by (auto simp: move_amount_def counted_def split: if_splits)
  next
    case yes: True
    have "\<exists>t. (if p \<noteq> [] then update_balance E T p c Decrease s else Inr s) = Inr t \<and> accounts_ok t
        \<and> (\<forall>k. balance_val t k + counted T p k c = balance_val s k)"
      using update_balance_decrease [OF assms(1-3), of p] yes assms(2)
      by (auto simp: counted_def split: if_splits)
    then obtain t where t: "(if p \<noteq> [] then update_balance E T p c Decrease s else Inr s) = Inr t" "accounts_ok t"
      "\<And>k. balance_val t k + counted T p k c = balance_val s k" by blast
    have "balance_val t r + coin_val c < val_limit" using t(3) [of r] assms(4) [of r] by linarith
    then have "\<exists>u. (if r \<noteq> [] then update_balance E T r c Increase t else Inr t) = Inr u \<and> accounts_ok u
        \<and> (\<forall>k. balance_val u k = balance_val t k + counted T r k c)"
      using update_balance_increase [OF assms(1) t(2) assms(3), of r] t(2)
      by (auto simp: counted_def split: if_splits)
    then obtain u where u: "(if r \<noteq> [] then update_balance E T r c Increase t else Inr t) = Inr u" "accounts_ok u"
      "\<And>k. balance_val u k = balance_val t k + counted T r k c" by blast
    have "balance_val u k + counted T p k c = balance_val s k + counted T r k c" for k
      using t(3) [of k] u(3) [of k] by linarith
    moreover have "move_amount E T Decrease p r c s = Inr u"
      using False t(1) u(1) by (simp add: move_amount_def Let_def)
    ultimately show ?thesis using yes u(2) by simp
  qed
qed

lemma move_amount_revert:
  assumes "keys_ok E T" "accounts_ok s" "coin_ok c" "\<And>k. balance_val s k + coin_val c < val_limit"
    and cover: "counted T r r c \<le> balance_val s r + counted T p r c"
  shows "\<exists>s'. move_amount E T Increase p r c s = Inr s' \<and> accounts_ok s'
      \<and> (\<forall>k. balance_val s' k + counted T r k c = balance_val s k + counted T p k c)"
proof (cases "c = coin_zero")
  case True
  then show ?thesis using assms(2) by (simp add: move_amount_def counted_def)
next
  case False
  have "\<exists>t. (if p \<noteq> [] then update_balance E T p c Increase s else Inr s) = Inr t \<and> accounts_ok t
      \<and> (\<forall>k. balance_val t k = balance_val s k + counted T p k c)"
    using update_balance_increase [OF assms(1-3) assms(4), of p] assms(2)
    by (auto simp: counted_def split: if_splits)
  then obtain t where t: "(if p \<noteq> [] then update_balance E T p c Increase s else Inr s) = Inr t" "accounts_ok t"
    "\<And>k. balance_val t k = balance_val s k + counted T p k c" by blast
  have "counted T r r c \<le> balance_val t r" using cover t(3) by simp
  then have "\<exists>u. (if r \<noteq> [] then update_balance E T r c Decrease t else Inr t) = Inr u \<and> accounts_ok u
      \<and> (\<forall>k. balance_val u k + counted T r k c = balance_val t k)"
    using update_balance_decrease [OF assms(1) t(2) assms(3), of r] t(2)
    by (auto simp: counted_def split: if_splits)
  then obtain u where u: "(if r \<noteq> [] then update_balance E T r c Decrease t else Inr t) = Inr u" "accounts_ok u"
    "\<And>k. balance_val u k + counted T r k c = balance_val t k" by blast
  have "move_amount E T Increase p r c s = Inr u"
    using False t(1) u(1) by (simp add: move_amount_def Let_def)
  then show ?thesis using u t(3) by simp
qed

definition info_ok :: "transaction_summary \<Rightarrow> bool" where
  "info_ok info \<longleftrightarrow> coin_ok (ti_amount info) \<and> coin_ok (ti_fee info)"

definition moved :: "transaction_summary \<Rightarrow> nat" where
  "moved info = coin_val (ti_amount info) + coin_val (ti_fee info)"

definition gain :: "string list \<Rightarrow> transaction_summary \<Rightarrow> string \<Rightarrow> string \<Rightarrow> nat" where
  "gain T info authority k = counted T (ti_to info) k (ti_amount info) + counted T authority k (ti_fee info)"

definition loss :: "string list \<Rightarrow> transaction_summary \<Rightarrow> string \<Rightarrow> nat" where
  "loss T info k = counted T (ti_from info) k (ti_amount info) + counted T (ti_from info) k (ti_fee info)"

lemma move_amount_Inr:
  assumes "keys_ok E T" "accounts_ok s" "coin_ok c" "\<And>k. balance_val s k + coin_val c < val_limit"
    and "move_amount E T Decrease p r c s = Inr s'"
  shows "counted T p p c \<le> balance_val s p" "accounts_ok s'"
    "balance_val s' k + counted T p k c = balance_val s k + counted T r k c"
  using move_amount_apply [OF assms(1-3), of p r] assms(4,5) by (auto split: if_splits)

lemma counted_le: "counted T a k c \<le> coin_val c"
  by (simp add: counted_def)

lemma counted_other: "a \<noteq> k \<Longrightarrow> counted T a k c = 0"
  by (simp add: counted_def)

text \<open>What the payer's balance has to cover for the payments to go through.\<close>

definition covered_by :: "string list \<Rightarrow> transaction_summary \<Rightarrow> (string \<Rightarrow> nat) \<Rightarrow> bool" where
  "covered_by T info b \<longleftrightarrow> (let p = ti_from info
     in counted T p p (ti_amount info) \<le> b p \<and> loss T info p \<le> b p + counted T (ti_to info) p (ti_amount info))"

lemma gain_le: "gain T info authority k \<le> moved info"
  using counted_le [of T "ti_to info" k "ti_amount info"] counted_le [of T authority k "ti_fee info"]
  by (simp add: gain_def moved_def)

lemma covered_loss: "covered_by T info b \<Longrightarrow> loss T info k \<le> b k + gain T info authority k"
  by (cases "ti_from info = k") (auto simp: covered_by_def Let_def loss_def gain_def counted_other)

lemma update_balances_apply:
  assumes keys: "keys_ok E T" and info: "transaction_info log = Inr info" "info_ok info"
    and s: "accounts_ok s" "\<And>k. balance_val s k = b k" "\<And>k. b k + moved info < val_limit"
    and cover: "covered_by T info b"
  shows "\<exists>s'. update_balances E T log authority LT_apply s = Inr s' \<and> accounts_ok s'
    \<and> (\<forall>k. balance_val s' k = b k + gain T info authority k - loss T info k)"
proof -
  let ?A = "ti_amount info" and ?F = "ti_fee info" and ?p = "ti_from info" and ?q = "ti_to info"
  note coins = info(2) [unfolded info_ok_def, THEN conjunct1] info(2) [unfolded info_ok_def, THEN conjunct2]
  have "balance_val s k + coin_val ?A < val_limit" for k using s(2,3) [of k] by (simp add: moved_def)
  moreover have "counted T ?p ?p ?A \<le> balance_val s ?p" using cover s(2) by (simp add: covered_by_def Let_def)
  ultimately obtain t where t: "move_amount E T Decrease ?p ?q ?A s = Inr t" "accounts_ok t"
    "\<And>k. balance_val t k + counted T ?p k ?A = balance_val s k + counted T ?q k ?A"
    using move_amount_apply [OF keys s(1) coins(1), of ?p ?q] by auto
  have "balance_val t k + coin_val ?F < val_limit" for k
    using t(3) [of k] counted_le [of T ?q k ?A] s(2,3) [of k] by (simp add: moved_def)
  moreover have "counted T ?p ?p ?F \<le> balance_val t ?p"
    using cover t(3) [of ?p] s(2) by (simp add: covered_by_def Let_def loss_def)
  ultimately obtain s' where s': "move_amount E T Decrease ?p authority ?F t = Inr s'" "accounts_ok s'"
    "\<And>k. balance_val s' k + counted T ?p k ?F = balance_val t k + counted T authority k ?F"
    using move_amount_apply [OF keys t(2) coins(2), of ?p authority] by auto
  have "update_balances E T log authority LT_apply s = Inr s'"
    using t(1) s'(1) info(1) by (simp add: update_balances_def Let_def)
  moreover have "balance_val s' k = b k + gain T info authority k - loss T info k" for k
    using s'(3) [of k] t(3) [of k] s(2) [of k] by (simp add: loss_def gain_def)
  ultimately show ?thesis using s'(2) by blast
qed

text \<open>Reverting a transaction's payments succeeds and takes back what applying them has done, also
  when \<open>w\<close> was paid in between.\<close>

lemma update_balances_revert:
  assumes keys: "keys_ok E T" and info: "transaction_info log = Inr info" "info_ok info"
    and s: "accounts_ok s" "\<And>k. balance_val s k = b k + gain T info authority k - loss T info k + w k"
      "\<And>k. b k + w k + 2 * moved info < val_limit"
    and cover: "covered_by T info b"
  shows "\<exists>s'. update_balances E T log authority LT_revert s = Inr s' \<and> accounts_ok s' \<and> (\<forall>k. balance_val s' k = b k + w k)"
proof -
  let ?A = "ti_amount info" and ?F = "ti_fee info" and ?p = "ti_from info" and ?q = "ti_to info"
  note coins = info(2) [unfolded info_ok_def, THEN conjunct1] info(2) [unfolded info_ok_def, THEN conjunct2]
  have bal: "balance_val s k + loss T info k = b k + w k + gain T info authority k" for k
    using s(2) [of k] covered_loss [OF cover, of k authority] by linarith
  have lim: "balance_val s k + moved info < val_limit" for k
    using bal [of k] gain_le [of T info authority k] s(3) [of k] by linarith
  have "balance_val s k + coin_val ?A < val_limit" for k
    using lim [of k] by (simp add: moved_def)
  moreover have "counted T ?q ?q ?A \<le> balance_val s ?q + counted T ?p ?q ?A"
  proof (cases "?q = ?p")
    case False
    then have "loss T info ?q = 0" by (simp add: loss_def counted_other)
    then show ?thesis using bal [of ?q] by (simp add: gain_def)
  qed (simp)
  ultimately obtain t where t: "move_amount E T Increase ?p ?q ?A s = Inr t" "accounts_ok t"
    "\<And>k. balance_val t k + counted T ?q k ?A = balance_val s k + counted T ?p k ?A"
    using move_amount_revert [OF keys s(1) coins(1), of ?q ?p] by blast
  have tbal: "balance_val t k + counted T ?p k ?F = b k + w k + counted T authority k ?F" for k
    using t(3) [of k] bal [of k] by (simp add: loss_def gain_def)
  have "balance_val t k + coin_val ?F < val_limit" for k
    using tbal [of k] counted_le [of T authority k ?F] s(3) [of k] by (simp add: moved_def)
  moreover have "counted T authority authority ?F \<le> balance_val t authority + counted T ?p authority ?F"
    using tbal [of authority] by simp
  ultimately obtain s' where s': "move_amount E T Increase ?p authority ?F t = Inr s'" "accounts_ok s'"
    "\<And>k. balance_val s' k + counted T authority k ?F = balance_val t k + counted T ?p k ?F"
    using move_amount_revert [OF keys t(2) coins(2), of authority ?p] by blast
  have "update_balances E T log authority LT_revert s = Inr s'"
    using t(1) s'(1) info(1) by (simp add: update_balances_def Let_def)
  moreover have "balance_val s' k = b k + w k" for k
    using s'(3) [of k] tbal [of k] by simp
  ultimately show ?thesis using s'(2) by blast
qed

end
