(* ===== verification/Channel_History.thy ===== *)
theory Channel_History
  imports Action_Log
begin

text \<open>
  \<open>process_channel_transactions\<close> of commander/daemon\_rpc.cpp: for every tracked channel the
  versions of its contents. The history of a content is shown to represent its approved versions and
  the units that wait for approval; reverting a unit or a content takes the representation back.
\<close>

section \<open>State\<close>

record channel_unit =
  cn_author_addresses :: "string list"
  cn_file_uris :: "string list"

type_synonym units = "(string, channel_unit) omap"

record channel_content =
  hc_approved :: bool
  hc_content_units :: units

type_synonym histories = "channel_content list"

text \<open>A channel holds its address, which is its key, and by the id of a content its history.\<close>

type_synonym channels = "string \<rightharpoonup> (u64, histories) omap"

section \<open>Units\<close>

definition channel_unit_of :: "content_unit \<Rightarrow> channel_unit" where
  "channel_unit_of u = \<lparr> cn_author_addresses = cu_author_addresses u, cn_file_uris = cu_file_uris u \<rparr>"

definition waiting_content :: "content_unit \<Rightarrow> channel_content" where
  "waiting_content u = \<lparr> hc_approved = False, hc_content_units = [(cu_uri u, channel_unit_of u)] \<rparr>"

definition unit_to_history :: "content_unit \<Rightarrow> histories \<Rightarrow> histories res" where
  "unit_to_history u content_histories =
     throw_if (content_histories = []) (Logic_error ''content_histories.empty()'')
       (let content = last content_histories
        in Inr (if \<not> hc_approved content
                then butlast content_histories
                  @ [content\<lparr>hc_content_units := omap_set (cu_uri u) (channel_unit_of u) (hc_content_units content)\<rparr>]
                else content_histories @ [waiting_content u]))"

definition channel_unit_apply :: "content_unit \<Rightarrow> channels \<Rightarrow> channels res" where
  "channel_unit_apply u channels =
     (let address = cu_channel_address u; content_id = cu_content_id u
      in case channels address of
           None \<Rightarrow> Inr (channels(address \<mapsto> [(content_id, [waiting_content u])]))
         | Some contents \<Rightarrow>
             (case map_of contents content_id of
                None \<Rightarrow> Inr (channels(address \<mapsto> omap_set content_id [waiting_content u] contents))
              | Some content_histories \<Rightarrow>
                  bind_res (unit_to_history u content_histories) (\<lambda>h.
                    Inr (channels(address \<mapsto> omap_set content_id h contents)))))"

definition unit_from_history :: "string \<Rightarrow> histories \<Rightarrow> histories res" where
  "unit_from_history uri contents =
     throw_if (contents = []) (Logic_error ''contents.size() == 0'')
       (let content = last contents; rest = omap_erase uri (hc_content_units content)
        in throw_if (map_of (hc_content_units content) uri = None) (Logic_error ''erased_count == 0'')
             (throw_if (hc_approved content) (Logic_error ''contents.back().approved'')
               (Inr (if rest = [] then butlast contents else butlast contents @ [content\<lparr>hc_content_units := rest\<rparr>]))))"

definition channel_unit_revert :: "content_unit \<Rightarrow> channels \<Rightarrow> channels res" where
  "channel_unit_revert u channels =
     (let address = cu_channel_address u; content_id = cu_content_id u
      in case channels address of
           None \<Rightarrow> Inl External_error
         | Some contents \<Rightarrow>
             (case map_of contents content_id of
                None \<Rightarrow> Inl (Logic_error ''contents_item == channel_response_item.contents.end()'')
              | Some content_histories \<Rightarrow>
                  bind_res (unit_from_history (cu_uri u) content_histories) (\<lambda>h.
                    let contents = (if h = [] then omap_erase content_id contents else omap_set content_id h contents)
                    in Inr (channels(address := (if contents = [] then None else Some contents))))))"

section \<open>Contents\<close>

text \<open>The newest version of a unit; a unit that waits for approval is taken out of the last content.\<close>

definition take_unit :: "string \<Rightarrow> histories \<times> units \<Rightarrow> (histories \<times> units) res" where
  "take_unit uri = (\<lambda>(content_histories, new_units).
     case find (\<lambda>c. map_of (hc_content_units c) uri \<noteq> None) (rev content_histories) of
       None \<Rightarrow> Inl (Logic_error ''!found'')
     | Some c \<Rightarrow>
         let content = last content_histories;
             new_units = omap_set uri (the (map_of (hc_content_units c) uri)) new_units
         in Inr (if map_of (hc_content_units content) uri \<noteq> None \<and> \<not> hc_approved content
                 then (butlast content_histories @ [content\<lparr>hc_content_units := omap_erase uri (hc_content_units content)\<rparr>], new_units)
                 else (content_histories, new_units)))"

fun insert_after_approved :: "channel_content \<Rightarrow> histories \<Rightarrow> histories" where
  "insert_after_approved new_content [] = []"
| "insert_after_approved new_content (c # cs) =
     (if hc_approved c then c\<lparr>hc_approved := False\<rparr> # new_content # cs else c # insert_after_approved new_content cs)"

definition approve_history :: "string list \<Rightarrow> histories \<Rightarrow> histories res" where
  "approve_history uris content_histories =
     throw_if (content_histories = []) (Logic_error ''content_histories.size() == 0'')
       (bind_res (fold_res take_unit uris (content_histories, [])) (\<lambda>(content_histories, new_units).
          throw_if (new_units = []) (Logic_error ''new_content.content_units.size() == 0'')
            (let new_content = \<lparr> hc_approved = True, hc_content_units = new_units \<rparr>;
                 content_histories = (if hc_content_units (last content_histories) = [] then butlast content_histories
                                      else content_histories)
             in Inr (if content_histories = [] then [new_content]
                     else if length content_histories = 1 \<and> \<not> hc_approved (last content_histories)
                          then new_content # content_histories
                          else insert_after_approved new_content content_histories))))"

definition set_last_approved :: "histories \<Rightarrow> histories" where
  "set_last_approved cs = (if cs = [] then [] else butlast cs @ [(last cs)\<lparr>hc_approved := True\<rparr>])"

definition emplace_unit :: "string \<times> channel_unit \<Rightarrow> units \<Rightarrow> units res" where
  "emplace_unit p units =
     throw_if (map_of units (fst p) \<noteq> None) (Logic_error ''!emplace_result.second'') (Inr (omap_set (fst p) (snd p) units))"

definition unapprove_history :: "string list \<Rightarrow> histories \<Rightarrow> histories res" where
  "unapprove_history uris content_histories =
     throw_if (content_histories = []) (Logic_error ''content_histories.size() == 0'')
       (let older = takeWhile (\<lambda>c. \<not> hc_approved c) content_histories
        in case drop (length older) content_histories of
             [] \<Rightarrow> Inl (Logic_error ''approved_iter == content_histories.end()'')
           | approved # newer \<Rightarrow>
               throw_if (\<exists>uri \<in> set uris. map_of (hc_content_units approved) uri = None)
                 (Logic_error ''count != content.content_unit_uris.size()'')
                 (let units = fold (\<lambda>c. fold (\<lambda>p. omap_erase (fst p)) (hc_content_units c)) older (hc_content_units approved)
                  in if newer = []
                     then Inr (set_last_approved older @ [approved\<lparr>hc_approved := False, hc_content_units := units\<rparr>])
                     else bind_res (fold_res emplace_unit units (hc_content_units (last newer))) (\<lambda>merged.
                            Inr (set_last_approved older @ butlast newer @ [(last newer)\<lparr>hc_content_units := merged\<rparr>]))))"

definition with_history :: "string \<Rightarrow> u64 \<Rightarrow> (histories \<Rightarrow> histories res) \<Rightarrow> channels \<Rightarrow> channels res" where
  "with_history address content_id f channels =
     (case channels address of
        None \<Rightarrow> Inl (Logic_error ''rpc_server.channels.contains(content.channel_address)'')
      | Some contents \<Rightarrow>
          (case map_of contents content_id of
             None \<Rightarrow> Inl (Logic_error ''contents_item == channel_response_item.contents.end()'')
           | Some content_histories \<Rightarrow>
               bind_res (f content_histories) (\<lambda>h. Inr (channels(address \<mapsto> omap_set content_id h contents)))))"

definition process_channel_transactions ::
  "string list \<Rightarrow> transaction_log \<Rightarrow> logging_type \<Rightarrow> channels \<Rightarrow> channels res" where
  "process_channel_transactions set_accounts log type channels =
     (case tl_action log of
        ContentUnit u \<Rightarrow>
          (if cu_channel_address u \<in> set set_accounts
           then if type = LT_apply then channel_unit_apply u channels else channel_unit_revert u channels
           else Inr channels)
      | Content c \<Rightarrow>
          (if ct_channel_address c \<in> set set_accounts
           then with_history (ct_channel_address c) (ct_content_id c)
                  (if type = LT_apply then approve_history (ct_content_unit_uris c) else unapprove_history (ct_content_unit_uris c))
                  channels
           else Inr channels)
      | _ \<Rightarrow> Inr channels)"

section \<open>What a history represents\<close>

text \<open>The approved versions, the latest last, and the units that wait for approval.\<close>

definition waiting :: "units \<Rightarrow> channel_content" where
  "waiting u = \<lparr> hc_approved = False, hc_content_units = u \<rparr>"

definition approved :: "units \<Rightarrow> channel_content" where
  "approved u = \<lparr> hc_approved = True, hc_content_units = u \<rparr>"

definition versions :: "units list \<Rightarrow> histories" where
  "versions vs = (if vs = [] then [] else map waiting (butlast vs) @ [approved (last vs)])"

definition content_wf :: "units list \<times> units \<Rightarrow> bool" where
  "content_wf = (\<lambda>(vs, t). omap_ok t \<and> (\<forall>v \<in> set vs. omap_ok v \<and> v \<noteq> [] \<and> (\<forall>k. map_of v k = None \<or> map_of t k = None)))"

definition history_of :: "units list \<Rightarrow> units \<Rightarrow> histories \<Rightarrow> bool" where
  "history_of vs t h \<longleftrightarrow> h = versions vs @ [waiting t] \<or> (t = [] \<and> vs \<noteq> [] \<and> h = versions vs)"

definition represents :: "histories \<Rightarrow> units list \<times> units \<Rightarrow> bool" where
  "represents h = (\<lambda>(vs, t). content_wf (vs, t) \<and> history_of vs t h \<and> (vs \<noteq> [] \<or> t \<noteq> []))"

definition latest :: "string \<Rightarrow> units list \<times> units \<Rightarrow> channel_unit option" where
  "latest uri = (\<lambda>(vs, t). case map_of t uri of Some x \<Rightarrow> Some x
     | None \<Rightarrow> (case find (\<lambda>v. map_of v uri \<noteq> None) (rev vs) of Some v \<Rightarrow> map_of v uri | None \<Rightarrow> None))"

definition collected :: "string list \<Rightarrow> units list \<times> units \<Rightarrow> units" where
  "collected uris c = fold (\<lambda>uri. omap_set uri (the (latest uri c))) uris []"

definition content_add :: "content_unit \<Rightarrow> units list \<times> units \<Rightarrow> units list \<times> units" where
  "content_add u = (\<lambda>(vs, t). (vs, omap_set (cu_uri u) (channel_unit_of u) t))"

definition content_approve :: "string list \<Rightarrow> units list \<times> units \<Rightarrow> units list \<times> units" where
  "content_approve uris = (\<lambda>(vs, t). (vs @ [collected uris (vs, t)], fold omap_erase uris t))"

text \<open>What the ledger guarantees of the units and contents it logs, up to the last condition: a new
  unit is listed once.\<close>

definition addable :: "content_unit \<Rightarrow> units list \<times> units \<Rightarrow> bool" where
  "addable u c \<longleftrightarrow> latest (cu_uri u) c = None"

definition approvable :: "string list \<Rightarrow> units list \<times> units \<Rightarrow> bool" where
  "approvable uris c \<longleftrightarrow> uris \<noteq> [] \<and> (\<forall>uri \<in> set uris. latest uri c \<noteq> None)
     \<and> distinct (filter (\<lambda>uri. map_of (snd c) uri \<noteq> None) uris)"

lemma mk_simps [simp]:
  "hc_approved (waiting u) = False" "hc_content_units (waiting u) = u"
  "hc_approved (approved u) = True" "hc_content_units (approved u) = u"
  "(waiting u)\<lparr>hc_content_units := v\<rparr> = waiting v" "(waiting u)\<lparr>hc_approved := True\<rparr> = approved u"
  "(approved u)\<lparr>hc_approved := False\<rparr> = waiting u"
  "(approved u)\<lparr>hc_approved := False, hc_content_units := v\<rparr> = waiting v"
  "\<lparr> hc_approved = True, hc_content_units = u \<rparr> = approved u"
  by (simp_all add: waiting_def approved_def)

lemma waiting_content_eq: "waiting_content u = waiting (omap_set (cu_uri u) (channel_unit_of u) [])"
  by (simp add: waiting_content_def waiting_def omap_set_def)

lemma versions_simps [simp]:
  "versions [] = []" "versions [v] = [approved v]" "versions (vs @ [v]) = map waiting vs @ [approved v]" "versions vs = [] \<longleftrightarrow> vs = []" "[] = versions vs \<longleftrightarrow> vs = []"
  by (auto simp: versions_def)

lemma last_versions: "vs \<noteq> [] \<Longrightarrow> last (versions vs) = approved (last vs)"
  by (simp add: versions_def)

lemma find_SomeD: "find P xs = Some x \<Longrightarrow> x \<in> set xs \<and> P x"
  by (induction xs) (auto split: if_splits)

lemma distinct_filter_mono:
  "distinct (filter P xs) \<Longrightarrow> (\<And>x. Q x \<Longrightarrow> P x) \<Longrightarrow> distinct (filter Q xs)"
  by (induction xs) (auto split: if_splits)

lemma latest_None_iff: "latest uri (vs, t) = None \<longleftrightarrow> map_of t uri = None \<and> (\<forall>v \<in> set vs. map_of v uri = None)"
proof (cases "find (\<lambda>v. map_of v uri \<noteq> None) (rev vs)")
  case None
  then have "\<forall>v \<in> set vs. map_of v uri = None" by (simp add: find_None_iff)
  then show ?thesis using None by (auto simp: latest_def split: option.splits)
next
  case (Some v)
  note found = find_SomeD [OF Some]
  then show ?thesis using Some by (auto simp: latest_def split: option.splits)
qed

lemma latest_waiting: "\<forall>v \<in> set vs. map_of v uri = None \<Longrightarrow> latest uri (vs, t) = map_of t uri"
  using latest_None_iff [of uri vs t] by (cases "map_of t uri") (auto simp: latest_def)

text \<open>A unit is added.\<close>

lemma unit_to_history_represents:
  assumes "represents h c" "addable u c"
  shows "\<exists>h'. unit_to_history u h = Inr h' \<and> represents h' (content_add u c)"
proof -
  obtain vs t where c: "c = (vs, t)" by force
  let ?t = "omap_set (cu_uri u) (channel_unit_of u) t"
  have wf: "content_wf (vs, t)" "history_of vs t h" using assms(1) by (simp_all add: represents_def c)
  have fresh: "map_of v (cu_uri u) = None" if "v \<in> set vs" for v
    using assms(2) that by (simp add: addable_def c latest_None_iff)
  have "content_wf (vs, ?t)" using wf(1) fresh by (auto simp: content_wf_def)
  moreover have "unit_to_history u h = Inr (versions vs @ [waiting ?t])"
    using wf(2) by (auto simp: history_of_def unit_to_history_def Let_def last_versions waiting_content_eq)
  ultimately show ?thesis by (auto simp: represents_def history_of_def content_add_def c)
qed

lemma unit_from_history_represents:
  assumes "represents h' (content_add u c)" "addable u c" "content_wf c"
  shows "\<exists>h. unit_from_history (cu_uri u) h' = Inr h \<and> (if c = ([], []) then h = [] else represents h c)"
proof -
  obtain vs t where c: "c = (vs, t)" by force
  let ?t = "omap_set (cu_uri u) (channel_unit_of u) t"
  have h': "h' = versions vs @ [waiting ?t]"
    using assms(1) by (auto simp: represents_def history_of_def content_add_def c)
  have t: "omap_ok t" "map_of t (cu_uri u) = None"
    using assms(2,3) by (auto simp: c content_wf_def addable_def latest_None_iff)
  have "unit_from_history (cu_uri u) h' = Inr (if t = [] then versions vs else versions vs @ [waiting t])"
    using t by (simp add: unit_from_history_def h' Let_def omap_erase_set)
  then show ?thesis using assms(3) by (auto simp: c represents_def history_of_def)
qed

text \<open>A content is approved: the loop over its units.\<close>

lemma history_of_last_waiting:
  assumes "history_of vs t h" "map_of t uri \<noteq> None"
  shows "h = versions vs @ [waiting t]"
  using assms by (auto simp: history_of_def)

lemma find_image: "find P (map f xs) = map_option f (find (\<lambda>x. P (f x)) xs)"
  by (induction xs) auto

lemma units_of_versions [simp]: "map hc_content_units (versions vs) = vs"
  by (cases vs rule: rev_cases) (auto simp: comp_def)

lemma history_of_find:
  assumes "history_of vs t h"
  shows "map_option hc_content_units (find (\<lambda>c. map_of (hc_content_units c) uri \<noteq> None) (rev h))
     = find (\<lambda>v. map_of v uri \<noteq> None) (t # rev vs)"
proof -
  have "map_option hc_content_units (find (\<lambda>c. map_of (hc_content_units c) uri \<noteq> None) (rev h))
      = find (\<lambda>v. map_of v uri \<noteq> None) (rev (map hc_content_units h))"
    by (simp add: find_image rev_map)
  also have "\<dots> = find (\<lambda>v. map_of v uri \<noteq> None) (t # rev vs)"
    using assms by (auto simp: history_of_def)
  finally show ?thesis .
qed

lemma latest_find:
  "latest uri (vs, t) = (case find (\<lambda>v. map_of v uri \<noteq> None) (t # rev vs) of None \<Rightarrow> None | Some v \<Rightarrow> map_of v uri)"
  by (auto simp: latest_def split: option.splits)

lemma take_unit_step:
  assumes h: "history_of vs t h" and l: "latest uri (vs, t) = Some x"
  shows "\<exists>h'. take_unit uri (h, new_units) = Inr (h', omap_set uri x new_units) \<and> history_of vs (omap_erase uri t) h'"
proof -
  obtain v where v: "find (\<lambda>v. map_of v uri \<noteq> None) (t # rev vs) = Some v" "map_of v uri = Some x"
    using l unfolding latest_find by (auto split: option.splits)
  then obtain c where c: "find (\<lambda>c. map_of (hc_content_units c) uri \<noteq> None) (rev h) = Some c" "hc_content_units c = v"
    using history_of_find [OF h, of uri] by auto
  show ?thesis
  proof (cases "map_of t uri = None")
    case False
    have end_h: "h = versions vs @ [waiting t]" by (rule history_of_last_waiting [OF h False])
    then have "c = waiting t" using c(1) False by auto
    then have "map_of t uri = Some x" using c(2) v(2) by auto
    then have "take_unit uri (h, new_units) = Inr (versions vs @ [waiting (omap_erase uri t)], omap_set uri x new_units)"
      by (simp add: take_unit_def Let_def end_h)
    then show ?thesis by (auto simp: history_of_def)
  next
    case True
    then have "map_of (hc_content_units (last h)) uri = None \<or> hc_approved (last h)"
      using h by (auto simp: history_of_def last_versions)
    then have "take_unit uri (h, new_units) = Inr (h, omap_set uri x new_units)"
      using c v(2) by (auto simp: take_unit_def Let_def)
    then show ?thesis using h True by (simp add: omap_erase_absent)
  qed
qed

lemma latest_erase: "uri \<noteq> uri' \<Longrightarrow> latest uri (vs, omap_erase uri' t) = latest uri (vs, t)"
  by (simp add: latest_def)

lemma latest_erase_absent: "map_of t uri' = None \<Longrightarrow> latest uri (vs, omap_erase uri' t) = latest uri (vs, t)"
  by (simp add: omap_erase_absent)

lemma take_units:
  assumes "history_of vs t h" "\<forall>uri \<in> set uris. latest uri (vs, t) \<noteq> None" "distinct (filter (\<lambda>uri. map_of t uri \<noteq> None) uris)"
  shows "\<exists>h'. fold_res take_unit uris (h, new_units) = Inr (h', fold (\<lambda>uri. omap_set uri (the (latest uri (vs, t)))) uris new_units)
    \<and> history_of vs (fold omap_erase uris t) h'"
  using assms
proof (induction uris arbitrary: h t new_units)
  case (Cons uri uris)
  obtain x where x: "latest uri (vs, t) = Some x" using Cons.prems(2) by auto
  from take_unit_step [OF Cons.prems(1) this, of new_units] obtain h1 where
    h1: "take_unit uri (h, new_units) = Inr (h1, omap_set uri x new_units)" "history_of vs (omap_erase uri t) h1" by auto
  have same: "latest u (vs, omap_erase uri t) = latest u (vs, t)" if "u \<in> set uris" for u
  proof (cases "map_of t uri = None")
    case False
    then have "u \<noteq> uri" using Cons.prems(3) that by auto
    then show ?thesis by (rule latest_erase)
  qed (rule latest_erase_absent)
  have "distinct (filter (\<lambda>u. map_of (omap_erase uri t) u \<noteq> None) uris)"
  proof (rule distinct_filter_mono)
    show "distinct (filter (\<lambda>u. map_of t u \<noteq> None) uris)" using Cons.prems(3) by (auto split: if_splits)
  qed (auto split: if_splits)
  then obtain h' where h': "fold_res take_unit uris (h1, omap_set uri x new_units) =
      Inr (h', fold (\<lambda>u. omap_set u (the (latest u (vs, omap_erase uri t)))) uris (omap_set uri x new_units))"
    "history_of vs (fold omap_erase uris (omap_erase uri t)) h'"
    using Cons.IH [OF h1(2), of "omap_set uri x new_units"] Cons.prems(2) same by auto
  have "fold (\<lambda>u. omap_set u (the (latest u (vs, omap_erase uri t)))) uris n = fold (\<lambda>u. omap_set u (the (latest u (vs, t)))) uris n" for n
    by (rule fold_cong) (simp_all add: same)
  then show ?case using h1(1) h' x by simp
qed simp

lemma map_of_fold_set:
  "omap_ok n \<Longrightarrow> omap_ok (fold (\<lambda>k. omap_set k (f k)) ks n)
    \<and> map_of (fold (\<lambda>k. omap_set k (f k)) ks n) = (\<lambda>k. if k \<in> set ks then Some (f k) else map_of n k)"
proof (induction ks arbitrary: n)
  case (Cons k ks)
  then show ?case using Cons.IH [of "omap_set k (f k) n"] by (auto simp: fun_eq_iff)
qed auto

lemma map_of_fold_erase:
  "omap_ok n \<Longrightarrow> omap_ok (fold omap_erase ks n) \<and> map_of (fold omap_erase ks n) = (\<lambda>k. if k \<in> set ks then None else map_of n k)"
proof (induction ks arbitrary: n)
  case (Cons k ks)
  then show ?case using Cons.IH [of "omap_erase k n"] by (auto simp: fun_eq_iff)
qed auto

lemma collected_props:
  "omap_ok (collected uris c)"
  "map_of (collected uris c) = (\<lambda>k. if k \<in> set uris then Some (the (latest k c)) else None)"
  using map_of_fold_set [of "[]" "\<lambda>k. the (latest k c)" uris] by (auto simp: collected_def)

lemma insert_after_versions:
  "insert_after_approved (approved v) (versions vs @ t) = (if vs = [] then insert_after_approved (approved v) t else versions (vs @ [v]) @ t)"
proof (cases vs rule: rev_cases)
  case (snoc ws w)
  have "insert_after_approved (approved v) (map waiting ws @ approved w # t) = map waiting ws @ waiting w # approved v # t"
    by (induction ws) auto
  then show ?thesis using snoc versions_simps(3) [of "ws @ [w]" v] by simp
qed simp

lemma approve_wf:
  assumes "content_wf (vs, t)" "approvable uris (vs, t)"
  shows "content_wf (content_approve uris (vs, t))"
proof -
  have t: "omap_ok t" using assms(1) by (simp add: content_wf_def)
  note new = collected_props [of uris "(vs, t)"]
  have "collected uris (vs, t) \<noteq> []"
    using assms(2) new(2) by (cases uris) (auto simp: approvable_def omap_Nil_iff fun_eq_iff)
  then show ?thesis using assms(1) new map_of_fold_erase [OF t, of uris]
    by (auto simp: content_wf_def content_approve_def)
qed

lemma approve_history_represents:
  assumes rep: "represents h c" and ok: "approvable uris c"
  shows "\<exists>h'. approve_history uris h = Inr h' \<and> represents h' (content_approve uris c)"
proof -
  obtain vs t where c: "c = (vs, t)" by force
  have h: "history_of vs t h" "content_wf (vs, t)" "vs \<noteq> [] \<or> t \<noteq> []" using rep by (auto simp: represents_def c)
  let ?new = "collected uris (vs, t)" and ?t = "fold omap_erase uris t"
  note wf = approve_wf [OF h(2) ok [unfolded c]]
  obtain h1 where h1: "fold_res take_unit uris (h, []) = Inr (h1, ?new)" "history_of vs ?t h1"
    using take_units [OF h(1), of uris "[]"] ok by (auto simp: approvable_def c collected_def)
  have new: "?new \<noteq> []" using wf by (simp add: content_wf_def content_approve_def)
  have ne: "h \<noteq> []" using h(1) by (metis history_of_def append_is_Nil_conv list.distinct(1) versions_simps(4))
  let ?h2 = "versions vs @ (if ?t = [] then [] else [waiting ?t])"
  have vne: "hc_content_units (last h1) \<noteq> []" if "h1 = versions vs" "vs \<noteq> []"
    using that h(2) by (simp add: last_versions content_wf_def)
  have h2: "(if hc_content_units (last h1) = [] then butlast h1 else h1) = ?h2"
    using h1(2) vne by (auto simp: history_of_def)
  have "approve_history uris h = Inr (versions (vs @ [?new]) @ (if ?t = [] then [] else [waiting ?t]))"
  proof (cases "vs = []")
    case True
    then show ?thesis using ne h1(1) new h2
      by (simp add: approve_history_def Let_def)
  next
    case False
    then have "\<not> (length ?h2 = 1 \<and> \<not> hc_approved (last ?h2))"
      by (auto simp: last_versions length_Suc_conv append_eq_Cons_conv)
    then show ?thesis using ne h1(1) new False unfolding approve_history_def
      by (cases "?t = []") (simp_all add: Let_def last_versions [OF False] h2 insert_after_versions [of _ vs "[]", simplified] insert_after_versions del: versions_simps(3))
  qed
  then show ?thesis using wf by (auto simp: represents_def c content_approve_def history_of_def)
qed

text \<open>A content is taken back.\<close>

lemma map_of_erase_older:
  "omap_ok n \<Longrightarrow> omap_ok (fold (\<lambda>c. fold (\<lambda>p. omap_erase (fst p)) (hc_content_units c)) (map waiting vs) n)
    \<and> map_of (fold (\<lambda>c. fold (\<lambda>p. omap_erase (fst p)) (hc_content_units c)) (map waiting vs) n)
      = (\<lambda>k. if \<exists>v \<in> set vs. map_of v k \<noteq> None then None else map_of n k)"
proof (induction vs arbitrary: n)
  case (Cons v vs)
  have one: "omap_ok (fold (\<lambda>p. omap_erase (fst p)) v n)"
    "map_of (fold (\<lambda>p. omap_erase (fst p)) v n) = (\<lambda>k. if map_of v k \<noteq> None then None else map_of n k)"
    using map_of_fold_erase [OF Cons.prems, of "map fst v"] by (simp_all add: fold_map comp_def fun_eq_iff map_of_eq_None_iff)
  show ?case using Cons.IH [OF one(1)] one(2) by (auto simp: fun_eq_iff)
qed auto

lemma emplace_units:
  assumes "omap_ok m" "omap_ok n" "\<And>k. map_of m k = None \<or> map_of n k = None"
  shows "\<exists>n'. fold_res emplace_unit m n = Inr n' \<and> omap_ok n' \<and> map_of n' = map_of n ++ map_of m"
  using assms
proof (induction m arbitrary: n)
  case (Cons p m)
  obtain k v where p: "p = (k, v)" by force
  have m: "omap_ok m" "map_of m k = None"
    using Cons.prems(1) by (auto simp: omap_ok_def p map_of_eq_None_iff)
  have n: "map_of n k = None" using Cons.prems(3) [of k] by (simp add: p)
  have "map_of m l = None \<or> map_of (omap_set k v n) l = None" for l
    using Cons.prems(2) Cons.prems(3) [of l] m(2) by (auto simp: p split: if_splits)
  then obtain n' where "fold_res emplace_unit m (omap_set k v n) = Inr n'" "omap_ok n'"
    "map_of n' = map_of (omap_set k v n) ++ map_of m"
    using Cons.IH [OF m(1) omap_ok_set [OF Cons.prems(2)]] by blast
  moreover have "emplace_unit p n = Inr (omap_set k v n)" using n by (simp add: emplace_unit_def p)
  moreover have "map_of (omap_set k v n) ++ map_of m = map_of n ++ map_of (p # m)"
    using Cons.prems(2) m(2) by (auto simp: p map_add_def fun_eq_iff split: option.splits)
  ultimately have "fold_res emplace_unit (p # m) n = Inr n'" "omap_ok n'" "map_of n' = map_of n ++ map_of (p # m)"
    by (simp_all only: fold_res.simps bind_res_simps)
  then show ?case by blast
qed simp

lemma takeWhile_versions [simp]:
  "takeWhile (\<lambda>c. \<not> hc_approved c) (map waiting vs @ approved v # t) = map waiting vs"
  by (induction vs) auto

lemma set_last_approved_versions [simp]: "set_last_approved (map waiting vs) = versions vs"
  by (cases vs rule: rev_cases) (auto simp: set_last_approved_def)

lemma unapprove_history_represents:
  assumes rep: "represents h' (content_approve uris c)" and ok: "approvable uris c" and wf: "content_wf c"
  shows "\<exists>h. unapprove_history uris h' = Inr h \<and> represents h c"
proof -
  obtain vs t where c: "c = (vs, t)" by force
  let ?new = "collected uris (vs, t)" and ?t = "fold omap_erase uris t"
  note t = wf [unfolded c content_wf_def, simplified]
  note t' = map_of_fold_erase [of t uris]
  note new = collected_props [of uris "(vs, t)"]
  obtain newer where newer: "h' = map waiting vs @ approved ?new # newer" "newer = [waiting ?t] \<or> newer = [] \<and> ?t = []"
    using rep by (auto simp: represents_def history_of_def content_approve_def c)
  let ?rem = "fold (\<lambda>c. fold (\<lambda>p. omap_erase (fst p)) (hc_content_units c)) (map waiting vs) ?new"
  have "map_of ?rem k = (if k \<in> set uris then map_of t k else None)" for k
  proof (cases "\<exists>v \<in> set vs. map_of v k \<noteq> None")
    case True
    then have "map_of t k = None" using t by metis
    then show ?thesis using True map_of_erase_older [OF new(1), of vs] by simp
  next
    case False
    then have l: "latest k (vs, t) = map_of t k" by (intro latest_waiting) auto
    have "k \<in> set uris \<Longrightarrow> map_of t k \<noteq> None" using ok unfolding approvable_def c l [symmetric] by blast
    then show ?thesis using l False map_of_erase_older [OF new(1), of vs] new(2) by auto
  qed
  then have rem: "omap_ok ?rem" "map_of ?rem = (\<lambda>k. if k \<in> set uris then map_of t k else None)"
    using map_of_erase_older [OF new(1), of vs] by auto
  have all: "\<not> (\<exists>uri \<in> set uris. map_of (hc_content_units (approved ?new)) uri = None)" using new(2) by simp
  have "unapprove_history uris h' = Inr (versions vs @ [waiting t])"
  proof (cases "newer = []")
    case True
    then have empty: "map_of t k = None" if "k \<notin> set uris" for k
      using newer(2) t' t that by (metis list.distinct(1) map_of.simps(1))
    have "?rem = t" using t rem empty by (intro omap_eqI) (auto simp: fun_eq_iff)
    then show ?thesis using True all newer(1) by (auto simp: unapprove_history_def throw_if_def Let_def)
  next
    case False
    then have n: "newer = [waiting ?t]" using newer(2) by simp
    have "\<exists>n. fold_res emplace_unit ?rem ?t = Inr n \<and> omap_ok n \<and> map_of n = map_of ?t ++ map_of ?rem"
      using t t' rem by (intro emplace_units) (auto split: if_splits)
    then obtain n where n': "fold_res emplace_unit ?rem ?t = Inr n" "omap_ok n" "map_of n = map_of ?t ++ map_of ?rem" by blast
    have "n = t" using t t' rem n'(2,3) by (intro omap_eqI) (auto simp: map_add_def fun_eq_iff split: option.splits)
    then show ?thesis using n n'(1) all newer(1) by (auto simp: unapprove_history_def throw_if_def Let_def)
  qed
  moreover have "vs \<noteq> [] \<or> t \<noteq> []"
    using ok by (cases uris) (auto simp: c approvable_def latest_def)
  ultimately show ?thesis using wf by (auto simp: represents_def c history_of_def)
qed

section \<open>What the channels represent\<close>

type_synonym contents_spec = "string \<Rightarrow> u64 \<Rightarrow> units list \<times> units"

definition contents_of :: "(u64, histories) omap option \<Rightarrow> (u64 \<Rightarrow> units list \<times> units) \<Rightarrow> bool" where
  "contents_of stored C =
     (case stored of
        None \<Rightarrow> (\<forall>i. C i = ([], []))
      | Some contents \<Rightarrow> omap_ok contents \<and> contents \<noteq> []
          \<and> (\<forall>i. case map_of contents i of None \<Rightarrow> C i = ([], []) | Some h \<Rightarrow> represents h (C i)))"

definition channels_of :: "channels \<Rightarrow> contents_spec \<Rightarrow> bool" where
  "channels_of channels C \<longleftrightarrow> (\<forall>a. contents_of (channels a) (C a))"

definition spec_upd :: "string \<Rightarrow> u64 \<Rightarrow> units list \<times> units \<Rightarrow> contents_spec \<Rightarrow> contents_spec" where
  "spec_upd a i c C = C(a := (C a)(i := c))"

definition process_channel_spec :: "string list \<Rightarrow> transaction_log \<Rightarrow> contents_spec \<Rightarrow> contents_spec" where
  "process_channel_spec T log C =
     (case tl_action log of
        ContentUnit u \<Rightarrow>
          (if cu_channel_address u \<in> set T
           then spec_upd (cu_channel_address u) (cu_content_id u) (content_add u (C (cu_channel_address u) (cu_content_id u))) C else C)
      | Content c \<Rightarrow>
          (if ct_channel_address c \<in> set T
           then spec_upd (ct_channel_address c) (ct_content_id c)
             (content_approve (ct_content_unit_uris c) (C (ct_channel_address c) (ct_content_id c))) C else C)
      | _ \<Rightarrow> C)"

definition process_channel_ok :: "string list \<Rightarrow> transaction_log \<Rightarrow> contents_spec \<Rightarrow> bool" where
  "process_channel_ok T log C \<longleftrightarrow>
     (case tl_action log of
        ContentUnit u \<Rightarrow> cu_channel_address u \<in> set T \<longrightarrow> addable u (C (cu_channel_address u) (cu_content_id u))
      | Content c \<Rightarrow> ct_channel_address c \<in> set T \<longrightarrow>
          approvable (ct_content_unit_uris c) (C (ct_channel_address c) (ct_content_id c))
      | _ \<Rightarrow> True)"

lemma content_wf_empty [simp]: "content_wf ([], [])"
  by (simp add: content_wf_def)

lemma represents_wf: "represents h c \<Longrightarrow> content_wf c"
  by (auto simp: represents_def split: prod.splits)

lemma represents_empty: "\<not> represents h ([], [])"
  by (simp add: represents_def)

lemma contents_of_wf: "contents_of stored C \<Longrightarrow> content_wf (C i)"
  by (auto simp: contents_of_def split: option.splits dest: represents_wf) (metis content_wf_empty not_None_eq represents_wf)

lemma contents_of_Some:
  assumes "contents_of (Some contents) C"
  shows "omap_ok contents" "map_of contents i = Some h \<Longrightarrow> represents h (C i)" "map_of contents i = None \<Longrightarrow> C i = ([], [])"
  using assms by (auto simp: contents_of_def) (metis option.simps(5) option.simps(4))+

lemma contents_of_upd:
  assumes "contents_of (Some contents) C" "represents h c"
  shows "contents_of (Some (omap_set i h contents)) (C(i := c))"
  using contents_of_Some [OF assms(1)] assms(2) by (simp add: contents_of_def split: option.splits)

lemma contents_of_new: "contents_of None C \<Longrightarrow> represents h c \<Longrightarrow> contents_of (Some [(i, h)]) (C(i := c))"
  by (simp add: contents_of_def omap_ok_def)

lemma contents_of_removed:
  assumes C: "contents_of (Some contents) C"
  shows "contents_of (if omap_erase i contents = [] then None else Some (omap_erase i contents)) (C(i := ([], [])))"
proof -
  note c = contents_of_Some [OF C]
  have ok: "omap_ok (omap_erase i contents)" using c(1) by simp
  have other: "case map_of (omap_erase i contents) j of None \<Rightarrow> (C(i := ([], []))) j = ([], []) | Some h \<Rightarrow> represents h ((C(i := ([], []))) j)" for j
    using c(2,3) [of j] by (auto split: option.splits)
  show ?thesis
  proof (cases "omap_erase i contents = []")
    case True
    have "(C(i := ([], []))) j = ([], [])" for j using other [of j] unfolding True by simp
    then show ?thesis using True by (simp add: contents_of_def)
  qed (use ok other in \<open>simp add: contents_of_def\<close>)
qed

lemma channels_of_upd:
  assumes "channels_of channels C" "contents_of stored ((C a)(i := c))"
  shows "channels_of (channels(a := stored)) (spec_upd a i c C)"
  using assms by (auto simp: channels_of_def spec_upd_def)

lemma waiting_content_represents:
  assumes "C = ([], [])"
  shows "represents [waiting_content u] (content_add u C)"
  by (simp add: assms content_add_def represents_def history_of_def waiting_content_eq content_wf_def)

lemma channel_unit_apply_spec:
  assumes C: "channels_of channels C" and ok: "addable u (C (cu_channel_address u) (cu_content_id u))"
  shows "\<exists>channels'. channel_unit_apply u channels = Inr channels'
    \<and> channels_of channels' (spec_upd (cu_channel_address u) (cu_content_id u) (content_add u (C (cu_channel_address u) (cu_content_id u))) C)"
proof -
  let ?a = "cu_channel_address u" and ?i = "cu_content_id u"
  have Ca: "contents_of (channels ?a) (C ?a)" using C by (simp add: channels_of_def)
  show ?thesis
  proof (cases "channels ?a")
    case None
    then have "C ?a ?i = ([], [])" using Ca by (simp add: contents_of_def)
    then have "contents_of (Some [(?i, [waiting_content u])]) ((C ?a)(?i := content_add u (C ?a ?i)))"
      using Ca None by (intro contents_of_new waiting_content_represents) simp_all
    then show ?thesis using channels_of_upd [OF C] None by (simp add: channel_unit_apply_def Let_def)
  next
    case (Some contents)
    note Ca = Ca [unfolded Some]
    show ?thesis
    proof (cases "map_of contents ?i")
      case None
      then have "represents [waiting_content u] (content_add u (C ?a ?i))"
        using contents_of_Some(3) [OF Ca] by (intro waiting_content_represents)
      then show ?thesis using Some None channels_of_upd [OF C contents_of_upd [OF Ca]]
        by (simp add: channel_unit_apply_def Let_def)
    next
      case h: (Some h)
      then have "represents h (C ?a ?i)" using contents_of_Some(2) [OF Ca] by simp
      from unit_to_history_represents [OF this ok] obtain h' where
        "unit_to_history u h = Inr h'" "represents h' (content_add u (C ?a ?i))" by blast
      then show ?thesis using Some h channels_of_upd [OF C contents_of_upd [OF Ca]]
        by (simp add: channel_unit_apply_def Let_def)
    qed
  qed
qed

lemma channel_unit_revert_spec:
  assumes C': "channels_of channels (spec_upd (cu_channel_address u) (cu_content_id u) (content_add u c) C)"
    and c: "C (cu_channel_address u) (cu_content_id u) = c" and ok: "addable u c" "content_wf c"
  shows "\<exists>channels'. channel_unit_revert u channels = Inr channels' \<and> channels_of channels' C"
proof -
  let ?a = "cu_channel_address u" and ?i = "cu_content_id u"
  have Ca: "contents_of (channels ?a) ((C ?a)(?i := content_add u c))"
    using C' unfolding channels_of_def spec_upd_def by (metis fun_upd_same)
  have ne: "content_add u c \<noteq> ([], [])" by (auto simp: content_add_def split: prod.splits)
  have "\<not> (\<forall>i. ((C ?a)(?i := content_add u c)) i = ([], []))" using ne by (metis fun_upd_same)
  then obtain contents where contents: "channels ?a = Some contents"
    using Ca unfolding contents_of_def by (cases "channels ?a") simp_all
  note Ca = Ca [unfolded contents]
  obtain h where h: "map_of contents ?i = Some h" using contents_of_Some(3) [OF Ca, of ?i] ne by fastforce
  then have "represents h (content_add u c)" using contents_of_Some(2) [OF Ca] by fastforce
  from unit_from_history_represents [OF this ok] obtain h' where
    h': "unit_from_history (cu_uri u) h = Inr h'" "if c = ([], []) then h' = [] else represents h' c" by blast
  have back_to: "spec_upd ?a ?i c (spec_upd ?a ?i (content_add u c) C) = C"
    using c by (auto simp: spec_upd_def fun_eq_iff)
  have "h' \<noteq> []" if "represents h' c" using that by (auto simp: represents_def history_of_def split: prod.splits)
  then have "contents_of (let contents = (if h' = [] then omap_erase ?i contents else omap_set ?i h' contents)
      in if contents = [] then None else Some contents) ((C ?a)(?i := c))"
    using h'(2) contents_of_removed [OF Ca, of ?i] contents_of_upd [OF Ca, of h' c ?i] by (auto simp: Let_def split: if_splits)
  then have "channels_of (channels(?a := (let contents = (if h' = [] then omap_erase ?i contents else omap_set ?i h' contents)
      in if contents = [] then None else Some contents))) (spec_upd ?a ?i c (spec_upd ?a ?i (content_add u c) C))"
    by (intro channels_of_upd [OF C']) (simp add: spec_upd_def)
  then show ?thesis using contents h h'(1) unfolding back_to by (simp add: channel_unit_revert_def Let_def)
qed

lemma approvable_not_empty: "approvable uris c \<Longrightarrow> c \<noteq> ([], [])"
  by (cases uris) (auto simp: approvable_def latest_def)

lemma with_history_spec:
  assumes C: "channels_of channels C" and ne: "C a i \<noteq> ([], [])"
    and f: "\<And>h. represents h (C a i) \<Longrightarrow> \<exists>h'. f h = Inr h' \<and> represents h' c"
  shows "\<exists>channels'. with_history a i f channels = Inr channels' \<and> channels_of channels' (spec_upd a i c C)"
proof -
  have Ca: "contents_of (channels a) (C a)" using C by (simp add: channels_of_def)
  obtain contents where contents: "channels a = Some contents"
    using Ca ne by (auto simp: contents_of_def split: option.splits)
  note Ca = Ca [unfolded contents]
  obtain h where h: "map_of contents i = Some h" using contents_of_Some(3) [OF Ca, of i] ne by fastforce
  from f [OF contents_of_Some(2) [OF Ca h]] obtain h' where "f h = Inr h'" "represents h' c" by blast
  then show ?thesis using contents h channels_of_upd [OF C contents_of_upd [OF Ca]] by (simp add: with_history_def)
qed

lemma spec_upd_back: "spec_upd a i (C a i) (spec_upd a i c C) = C"
  by (auto simp: spec_upd_def fun_eq_iff)

lemma spec_upd_at [simp]: "spec_upd a i c C a i = c"
  by (simp add: spec_upd_def)

text \<open>Applying a logged transaction follows the specification, reverting it takes it back.\<close>

lemma process_channel_apply:
  assumes C: "channels_of channels C" and ok: "process_channel_ok T log C"
  shows "\<exists>channels'. process_channel_transactions T log LT_apply channels = Inr channels'
    \<and> channels_of channels' (process_channel_spec T log C)"
proof (cases "tl_action log")
  case (ContentUnit u)
  then show ?thesis using C ok channel_unit_apply_spec [OF C, of u]
    by (auto simp: process_channel_transactions_def process_channel_spec_def process_channel_ok_def)
next
  case (Content c)
  show ?thesis
  proof (cases "ct_channel_address c \<in> set T")
    case True
    let ?a = "ct_channel_address c" and ?i = "ct_content_id c" and ?uris = "ct_content_unit_uris c"
    have ok: "approvable ?uris (C ?a ?i)" using ok Content True by (simp add: process_channel_ok_def)
    have "\<exists>channels'. with_history ?a ?i (approve_history ?uris) channels = Inr channels'
        \<and> channels_of channels' (spec_upd ?a ?i (content_approve ?uris (C ?a ?i)) C)"
      by (rule with_history_spec [OF C approvable_not_empty [OF ok] approve_history_represents [OF _ ok]])
    then show ?thesis using Content True by (simp add: process_channel_transactions_def process_channel_spec_def)
  qed (use C Content in \<open>simp add: process_channel_transactions_def process_channel_spec_def\<close>)
qed (use C in \<open>simp_all add: process_channel_transactions_def process_channel_spec_def\<close>)

lemma process_channel_revert:
  assumes C': "channels_of channels (process_channel_spec T log C)" and ok: "process_channel_ok T log C"
    and wf: "\<And>a i. content_wf (C a i)"
  shows "\<exists>channels'. process_channel_transactions T log LT_revert channels = Inr channels' \<and> channels_of channels' C"
proof (cases "tl_action log")
  case (ContentUnit u)
  then show ?thesis using C' ok channel_unit_revert_spec [of channels u _ C, OF _ refl _ wf]
    by (auto simp: process_channel_transactions_def process_channel_spec_def process_channel_ok_def)
next
  case (Content c)
  show ?thesis
  proof (cases "ct_channel_address c \<in> set T")
    case True
    let ?a = "ct_channel_address c" and ?i = "ct_content_id c" and ?uris = "ct_content_unit_uris c"
    have ok: "approvable ?uris (C ?a ?i)" using ok Content True by (simp add: process_channel_ok_def)
    let ?C = "spec_upd ?a ?i (content_approve ?uris (C ?a ?i)) C"
    have C': "channels_of channels ?C" using C' Content True by (simp add: process_channel_spec_def)
    have "content_approve ?uris (C ?a ?i) \<noteq> ([], [])" by (auto simp: content_approve_def split: prod.splits)
    then have "\<exists>channels'. with_history ?a ?i (unapprove_history ?uris) channels = Inr channels'
        \<and> channels_of channels' (spec_upd ?a ?i (C ?a ?i) ?C)"
      using unapprove_history_represents [OF _ ok wf] by (intro with_history_spec [OF C']) simp_all
    then show ?thesis using Content True by (simp add: process_channel_transactions_def spec_upd_back)
  qed (use C' Content in \<open>simp add: process_channel_transactions_def process_channel_spec_def\<close>)
qed (use C' in \<open>simp_all add: process_channel_transactions_def process_channel_spec_def\<close>)

lemma process_channel_spec_wf:
  assumes "process_channel_ok T log C" "\<And>a i. content_wf (C a i)"
  shows "content_wf (process_channel_spec T log C a i)"
proof -
  have add: "content_wf (content_add u c)" if "content_wf c" "addable u c" for u c
    using that by (cases c) (auto simp: content_wf_def content_add_def addable_def latest_None_iff)
  have appr: "content_wf (content_approve uris c)" if "content_wf c" "approvable uris c" for uris c
    using that approve_wf by (cases c) blast
  show ?thesis using assms add appr
    by (auto simp: process_channel_spec_def process_channel_ok_def spec_upd_def split: action.splits)
qed

end
