(* ===== verification/Commander.thy ===== *)
theory Commander
  imports Log_Answer Account_Log Channel_History
begin

text \<open>
  \<open>sync\<close> of commander/daemon\_rpc.cpp: a commander asks a node for the entries of its action log and
  keeps balances, account logs, storages and channels of the accounts it tracks. Beside the model stand
  the specification \<open>commander_spec\<close>, computed from the entries in force alone, what the ledger guarantees
  of them, and the interface \<open>replica\<close> of a state that follows a log. Commander\_Sync proves that the
  commander is one.
\<close>

section \<open>State\<close>

record block_info =
  bi_authority :: string
  bi_block_hash :: string
  bi_block_number :: u64
  bi_block_size :: u64
  bi_time_signed :: time

text \<open>The stores of the class \<open>rpc\<close>. A storage or channel item holds its key, too.\<close>

record rpc_server =
  rs_pv_key :: string
  rs_accounts :: accounts
  rs_blocks :: "block_info list"
  rs_storages :: "string \<rightharpoonup> (string, bool) omap"
  rs_channels :: channels
  rs_file_usage :: "u64 \<rightharpoonup> (string, u64) omap"

text \<open>The context of a run of \<open>sync\<close>: for all tracked accounts together or for one that is imported.
  The head block and the start index of the first kind are references to the commander's own.\<close>

record sync_context =
  sy_new_import :: bool
  sy_set_accounts :: "string list"
  sy_start_index :: u64
  sy_head_block_index :: u64
  sy_transactions :: "string \<Rightarrow> transaction_log account_log"
  sy_rewards :: "string \<Rightarrow> reward_log account_log"

type_synonym commander_state = "rpc_server \<times> sync_context"

section \<open>Storages and statistics\<close>

definition process_storage_transactions ::
  "string list \<Rightarrow> transaction_log \<Rightarrow> logging_type \<Rightarrow> (string \<rightharpoonup> (string, bool) omap) \<Rightarrow> (string \<rightharpoonup> (string, bool) omap) res" where
  "process_storage_transactions set_accounts log type storages =
     (case tl_action log of
        StorageUpdate u \<Rightarrow>
          if su_storage_address u \<in> set set_accounts
          then let is_stored = (su_status u = UT_store \<and> type = LT_apply \<or> su_status u = UT_remove \<and> type = LT_revert);
                   address = su_storage_address u; uri = su_file_uri u
               in (case storages address of
                     None \<Rightarrow> Inr (storages(address \<mapsto> [(uri, is_stored)]))
                   | Some file_uris \<Rightarrow>
                       throw_if (map_of file_uris uri = Some is_stored) (Logic_error ''stored_file_uri->second == is_stored'')
                         (Inr (storages(address \<mapsto> omap_set uri is_stored file_uris))))
          else Inr storages
      | _ \<Rightarrow> Inr storages)"

definition add_usage :: "u64 \<Rightarrow> string \<Rightarrow> u64 \<Rightarrow> (u64 \<rightharpoonup> (string, u64) omap) \<Rightarrow> (u64 \<rightharpoonup> (string, u64) omap)" where
  "add_usage block_index file_uri count m =
     m(block_index \<mapsto> omap_alter file_uri (\<lambda>c. (case c of None \<Rightarrow> 0 | Some c \<Rightarrow> c) + count)
         (case m block_index of None \<Rightarrow> [] | Some f \<Rightarrow> f))"

definition process_statistics_transactions ::
  "transaction_log \<Rightarrow> u64 \<Rightarrow> logging_type \<Rightarrow> rpc_server \<Rightarrow> rpc_server" where
  "process_statistics_transactions log block_index type rs =
     (case tl_action log of
        ServiceStatistics s \<Rightarrow>
          if rs_pv_key rs \<noteq> []
          then rs\<lparr>rs_file_usage :=
            (if type = LT_apply
             then fold (\<lambda>f m. if sf_unit_uri f \<noteq> []
                              then fold (\<lambda>c. add_usage block_index (sf_file_uri f) (sc_count c)) (sf_count_items f) m else m)
                    (ss_file_items s) (rs_file_usage rs)
             else (rs_file_usage rs)(block_index := None))\<rparr>
          else rs
      | _ \<Rightarrow> rs)"

section \<open>Entries of the log\<close>

definition sync_transaction ::
  "ext \<Rightarrow> bool \<Rightarrow> u64 \<Rightarrow> string \<Rightarrow> logging_type \<times> transaction_log \<Rightarrow> commander_state \<Rightarrow> commander_state res" where
  "sync_transaction E statistics block_index authority = (\<lambda>(type, log) (rs, sy).
     bind_res (process_storage_transactions (sy_set_accounts sy) log type (rs_storages rs)) (\<lambda>storages.
     bind_res (process_channel_transactions (sy_set_accounts sy) log type (rs_channels rs)) (\<lambda>channels.
     let rs = rs\<lparr>rs_storages := storages, rs_channels := channels\<rparr>;
         rs = (if statistics then process_statistics_transactions log block_index type rs else rs)
     in bind_res (update_balances E (sy_set_accounts sy) log authority type (rs_accounts rs)) (\<lambda>accounts.
        bind_res (process_transactions (sy_set_accounts sy) block_index log authority type (sy_transactions sy)) (\<lambda>transactions.
          Inr (rs\<lparr>rs_accounts := accounts\<rparr>, sy\<lparr>sy_transactions := transactions\<rparr>))))))"

definition sync_reward :: "ext \<Rightarrow> u64 \<Rightarrow> logging_type \<times> reward_log \<Rightarrow> commander_state \<Rightarrow> commander_state res" where
  "sync_reward E block_index = (\<lambda>(type, r) (rs, sy).
     bind_res (update_balance E (sy_set_accounts sy) (rl_to r) (rl_amount r)
                 (if type = LT_apply then Increase else Decrease) (rs_accounts rs)) (\<lambda>accounts.
     bind_res (process_reward (sy_set_accounts sy) block_index type r (sy_rewards sy)) (\<lambda>rewards.
       Inr (rs\<lparr>rs_accounts := accounts\<rparr>, sy\<lparr>sy_rewards := rewards\<rparr>))))"

definition block_info_of :: "block_log \<Rightarrow> block_info" where
  "block_info_of bl = \<lparr> bi_authority = bl_authority bl, bi_block_hash = bl_block_hash bl,
     bi_block_number = bl_block_number bl, bi_block_size = bl_block_size bl, bi_time_signed = bl_time_signed bl \<rparr>"

definition sync_apply :: "ext \<Rightarrow> bool \<Rightarrow> logged_action \<Rightarrow> commander_state \<Rightarrow> commander_state res" where
  "sync_apply E dont_increment_head_block_index a = (\<lambda>(rs, sy).
     case a of
       Block_log bl \<Rightarrow>
         let block_index = (if dont_increment_head_block_index then sy_head_block_index sy else sy_head_block_index sy + 1);
             sy = sy\<lparr>sy_head_block_index := block_index\<rparr>;
             rs = (if \<not> sy_new_import sy then rs\<lparr>rs_blocks := rs_blocks rs @ [block_info_of bl]\<rparr> else rs)
         in bind_res (fold_res (sync_transaction E (\<not> sy_new_import sy) block_index (bl_authority bl))
                        (map (Pair LT_apply) (bl_transactions bl)) (rs, sy)) (\<lambda>st.
              fold_res (sync_reward E block_index) (map (Pair LT_apply) (bl_rewards bl)) st)
     | Transaction_log log \<Rightarrow>
         sync_transaction E False (sy_head_block_index sy + 1) [] (LT_apply, log) (rs, sy))"

definition pop_block :: "commander_state \<Rightarrow> commander_state res" where
  "pop_block = (\<lambda>(rs, sy).
     if \<not> sy_new_import sy
     then throw_if (rs_blocks rs = []) External_error (Inr (rs\<lparr>rs_blocks := butlast (rs_blocks rs)\<rparr>, sy))
     else Inr (rs, sy))"

definition sync_revert :: "ext \<Rightarrow> logged_action \<Rightarrow> commander_state \<Rightarrow> commander_state res" where
  "sync_revert E a = (\<lambda>(rs, sy).
     case a of
       Block_log bl \<Rightarrow>
         let block_index = sy_head_block_index sy;
             sy = sy\<lparr>sy_head_block_index := sy_head_block_index sy - 1\<rparr>
         in bind_res (fold_res (sync_transaction E (\<not> sy_new_import sy) block_index (bl_authority bl))
                        (map (Pair LT_revert) (rev (bl_transactions bl))) (rs, sy)) (\<lambda>st.
            bind_res (fold_res (sync_reward E block_index) (map (Pair LT_revert) (rev (bl_rewards bl))) st) pop_block)
     | Transaction_log log \<Rightarrow>
         sync_transaction E False (sy_head_block_index sy + 1) [] (LT_revert, log) (rs, sy))"

definition sync_action :: "ext \<Rightarrow> logged_transaction \<Rightarrow> commander_state \<Rightarrow> commander_state res" where
  "sync_action E action_info = (\<lambda>(rs, sy).
     let dont_increment_head_block_index = (sy_start_index sy = 0);
         st = (rs, sy\<lparr>sy_start_index := log_index action_info + 1\<rparr>)
     in if logging_type action_info = LT_apply
        then sync_apply E dont_increment_head_block_index (log_action action_info) st
        else sync_revert E (log_action action_info) st)"

text \<open>The request for entries from the start index on goes to a node, given by what it answers. The
  answer is counted the way the node counts it.\<close>

definition sync_max_count :: u64 where "sync_max_count = 10000"

partial_function (option) sync ::
  "ext \<Rightarrow> (u64 \<Rightarrow> u64 \<Rightarrow> logged_transaction list res) \<Rightarrow> commander_state \<Rightarrow> commander_state res option" where
  "sync E node st =
     (case node (sy_start_index (snd st)) sync_max_count of
        Inl e \<Rightarrow> Some (Inl (Runtime_error '' - sync cannot handle''))
      | Inr actions \<Rightarrow>
          (case fold_res (sync_action E) actions st of
             Inl e \<Rightarrow> Some (Inl e)
           | Inr st' \<Rightarrow> if stack_size actions < unat sync_max_count then Some (Inr st') else sync E node st'))"

section \<open>What the entries in force say\<close>

text \<open>The head is absent before the genesis block. Balances count fractions; the entries of an account
  carry the number of their block.\<close>

record commander_spec =
  sp_head :: "u64 option"
  sp_blocks :: "block_info list"
  sp_stored :: "string \<Rightarrow> string \<Rightarrow> bool"
  sp_contents :: contents_spec
  sp_balance :: "string \<Rightarrow> nat"
  sp_transactions :: "string \<Rightarrow> (u64 \<times> transaction_log) list"
  sp_rewards :: "string \<Rightarrow> (u64 \<times> reward_log) list"

definition spec_empty :: commander_spec where
  "spec_empty = \<lparr> sp_head = None, sp_blocks = [], sp_stored = (\<lambda>_ _. False), sp_contents = (\<lambda>_ _. ([], [])),
     sp_balance = (\<lambda>_. 0), sp_transactions = (\<lambda>_. []), sp_rewards = (\<lambda>_. []) \<rparr>"

definition spec_storage :: "string list \<Rightarrow> transaction_log \<Rightarrow> (string \<Rightarrow> string \<Rightarrow> bool) \<Rightarrow> string \<Rightarrow> string \<Rightarrow> bool" where
  "spec_storage T log S =
     (case tl_action log of
        StorageUpdate u \<Rightarrow>
          if su_storage_address u \<in> set T
          then S(su_storage_address u := (S (su_storage_address u))(su_file_uri u := (su_status u = UT_store))) else S
      | _ \<Rightarrow> S)"

definition the_info :: "transaction_log \<Rightarrow> transaction_summary" where
  "the_info log = (case transaction_info log of Inr i \<Rightarrow> i | Inl _ \<Rightarrow> \<lparr> ti_from = [], ti_to = [], ti_amount = coin_zero, ti_fee = coin_zero \<rparr>)"

definition spec_transaction :: "string list \<Rightarrow> u64 \<Rightarrow> string \<Rightarrow> transaction_log \<Rightarrow> commander_spec \<Rightarrow> commander_spec" where
  "spec_transaction T b authority log s =
     s\<lparr>sp_stored := spec_storage T log (sp_stored s),
       sp_contents := process_channel_spec T log (sp_contents s),
       sp_balance := (\<lambda>k. sp_balance s k + gain T (the_info log) authority k - loss T (the_info log) k),
       sp_transactions := add_entry (touched T (the_info log) authority) (b, log) (sp_transactions s)\<rparr>"

definition reward_gain :: "string list \<Rightarrow> reward_log \<Rightarrow> string \<Rightarrow> nat" where
  "reward_gain T r k = (if k = rl_to r \<and> rl_to r \<in> set T then coin_val (rl_amount r) else 0)"

definition spec_reward :: "string list \<Rightarrow> u64 \<Rightarrow> reward_log \<Rightarrow> commander_spec \<Rightarrow> commander_spec" where
  "spec_reward T b r s =
     s\<lparr>sp_balance := (\<lambda>k. sp_balance s k + reward_gain T r k),
       sp_rewards := add_entry ({rl_to r} \<inter> set T) (b, r) (sp_rewards s)\<rparr>"

definition spec_block :: "string list \<Rightarrow> u64 \<Rightarrow> block_log \<Rightarrow> commander_spec \<Rightarrow> commander_spec" where
  "spec_block T b bl s =
     fold (spec_reward T b) (bl_rewards bl)
       (fold (spec_transaction T b (bl_authority bl)) (bl_transactions bl)
         (s\<lparr>sp_head := Some b, sp_blocks := sp_blocks s @ [block_info_of bl]\<rparr>))"

definition next_block :: "commander_spec \<Rightarrow> u64" where
  "next_block s = (case sp_head s of None \<Rightarrow> 0 | Some h \<Rightarrow> h + 1)"

definition spec_action :: "string list \<Rightarrow> logged_action \<Rightarrow> commander_spec \<Rightarrow> commander_spec" where
  "spec_action T a s =
     (case a of Block_log bl \<Rightarrow> spec_block T (next_block s) bl s
      | Transaction_log log \<Rightarrow> spec_transaction T (next_block s) [] log s)"

section \<open>What the ledger guarantees of them\<close>

text \<open>What is applied is payable, a storage adds what it lacks and removes what it has, units are new
  and contents consist of known units. No sum of amounts comes near 2\^64 coins: \<open>w\<close> are the rewards of
  the block.\<close>

definition storage_ok :: "string list \<Rightarrow> transaction_log \<Rightarrow> (string \<Rightarrow> string \<Rightarrow> bool) \<Rightarrow> bool" where
  "storage_ok T log S \<longleftrightarrow>
     (case tl_action log of
        StorageUpdate u \<Rightarrow> su_storage_address u \<in> set T \<longrightarrow>
          (S (su_storage_address u) (su_file_uri u) \<longleftrightarrow> su_status u = UT_remove)
      | _ \<Rightarrow> True)"

definition transaction_ok ::
  "string list \<Rightarrow> string \<Rightarrow> (string \<Rightarrow> nat) \<Rightarrow> transaction_log \<Rightarrow> commander_spec \<Rightarrow> bool" where
  "transaction_ok T authority w log s \<longleftrightarrow> is_ok (transaction_info log)
     \<and> storage_ok T log (sp_stored s) \<and> process_channel_ok T log (sp_contents s)
     \<and> info_ok (the_info log) \<and> covered_by T (the_info log) (sp_balance s)
     \<and> (\<forall>k. sp_balance s k + w k + 2 * moved (the_info log) < val_limit)
     \<and> (\<forall>a. Suc (length (sp_transactions s a)) < 2 ^ 64)"

definition reward_ok :: "string list \<Rightarrow> reward_log \<Rightarrow> commander_spec \<Rightarrow> bool" where
  "reward_ok T r s \<longleftrightarrow> coin_ok (rl_amount r) \<and> (\<forall>k. sp_balance s k + reward_gain T r k < val_limit)
     \<and> (\<forall>a. Suc (length (sp_rewards s a)) < 2 ^ 64)"

text \<open>The invariant of the specification: every entry was added for the block \<open>b\<close> or before.\<close>

definition spec_wf :: "nat \<Rightarrow> commander_spec \<Rightarrow> bool" where
  "spec_wf b s \<longleftrightarrow> (\<forall>a i. content_wf (sp_contents s a i))
     \<and> (\<forall>a. blocks_upto b (sp_transactions s a)) \<and> (\<forall>a. blocks_upto b (sp_rewards s a))"

lemma spec_wf_mono: "spec_wf b s \<Longrightarrow> b \<le> c \<Longrightarrow> spec_wf c s"
  by (auto simp: spec_wf_def intro: blocks_upto_mono)

lemma blocks_upto_add_entry:
  assumes "\<forall>a. blocks_upto (unat b) (A a)"
  shows "blocks_upto (unat b) (add_entry S (b, x) A a)"
proof -
  have "blocks_upto (unat b) (A a)" using assms by blast
  then show ?thesis by (simp add: add_entry_def blocks_upto_snoc) (simp add: blocks_upto_def)
qed

lemma spec_transaction_wf:
  "spec_wf (unat b) s \<Longrightarrow> transaction_ok T authority w log s \<Longrightarrow> spec_wf (unat b) (spec_transaction T b authority log s)"
  using process_channel_spec_wf
  by (auto simp: spec_wf_def spec_transaction_def transaction_ok_def intro: blocks_upto_add_entry)

lemma spec_reward_wf: "spec_wf (unat b) s \<Longrightarrow> spec_wf (unat b) (spec_reward T b r s)"
  by (auto simp: spec_wf_def spec_reward_def intro: blocks_upto_add_entry)

section \<open>Replicas\<close>

text \<open>A list of actions of which each is fine in the state that specifies those before it.\<close>

fun ok_run :: "('x \<Rightarrow> 'a \<Rightarrow> bool) \<Rightarrow> ('x \<Rightarrow> 'a \<Rightarrow> 'a) \<Rightarrow> 'x list \<Rightarrow> 'a \<Rightarrow> bool" where
  "ok_run ok spec [] a = True"
| "ok_run ok spec (x # xs) a = (ok x a \<and> ok_run ok spec xs (spec x a))"

lemma ok_run_append: "ok_run ok spec (xs @ ys) a \<longleftrightarrow> ok_run ok spec xs a \<and> ok_run ok spec ys (fold spec xs a)"
  by (induction xs arbitrary: a) auto

text \<open>A replica follows messages that apply or revert an action. It represents an abstract state: an
  action that is fine in it is applied as specified and reverted to it.\<close>

locale replica =
  fixes rel :: "'c \<Rightarrow> 'a \<Rightarrow> bool" and ok :: "'x \<Rightarrow> 'a \<Rightarrow> bool" and undoable :: "'a \<Rightarrow> bool" and spec :: "'x \<Rightarrow> 'a \<Rightarrow> 'a"
    and step :: "'m \<Rightarrow> 'c \<Rightarrow> 'c res" and act :: "'m \<Rightarrow> 'x" and reverts :: "'m \<Rightarrow> bool" and good :: "'m \<Rightarrow> bool"
  assumes step_apply: "good m \<Longrightarrow> \<not> reverts m \<Longrightarrow> rel c a \<Longrightarrow> ok (act m) a \<Longrightarrow>
      \<exists>c'. step m c = Inr c' \<and> rel c' (spec (act m) a)"
    and step_revert: "good m \<Longrightarrow> reverts m \<Longrightarrow> rel c (spec (act m) a) \<Longrightarrow> ok (act m) a \<Longrightarrow> undoable a \<Longrightarrow>
      \<exists>c'. step m c = Inr c' \<and> rel c' a"
begin

lemma apply_all:
  assumes "rel c a" "ok_run ok spec (map act ms) a" "\<forall>m \<in> set ms. good m \<and> \<not> reverts m"
  shows "\<exists>c'. fold_res step ms c = Inr c' \<and> rel c' (fold spec (map act ms) a)"
  using assms
proof (induction ms arbitrary: c a)
  case (Cons m ms)
  obtain c1 where "step m c = Inr c1" "rel c1 (spec (act m) a)"
    using step_apply [of m c a] Cons.prems by auto
  then show ?case using Cons.IH [of c1 "spec (act m) a"] Cons.prems by auto
qed simp

text \<open>The messages revert the actions from the last to the first.\<close>

lemma revert_all:
  assumes "rel c (fold spec (map act (rev ms)) a)" "ok_run ok spec (map act (rev ms)) a" "\<forall>m \<in> set ms. good m \<and> reverts m"
    and undo: "undoable a" "\<And>x a. undoable a \<Longrightarrow> ok x a \<Longrightarrow> undoable (spec x a)"
  shows "\<exists>c'. fold_res step ms c = Inr c' \<and> rel c' a"
  using assms(1-3)
proof (induction ms arbitrary: c)
  case (Cons m ms)
  let ?a = "fold spec (map act (rev ms)) a"
  have run: "ok_run ok spec (map act (rev ms)) a" "ok (act m) ?a" using Cons.prems(2) by (auto simp: ok_run_append)
  have "undoable (fold spec xs b)" if "undoable b" "ok_run ok spec xs b" for xs b
    using that by (induction xs arbitrary: b) (auto intro: undo(2))
  then have "undoable ?a" using undo(1) run(1) by blast
  then obtain c1 where "step m c = Inr c1" "rel c1 ?a"
    using step_revert [of m c ?a] Cons.prems run(2) by auto
  then show ?case using Cons.IH run(1) Cons.prems(3) by auto
qed simp

text \<open>Messages that take a list of actions to another one.\<close>

lemma replay:
  assumes rel: "rel c (fold spec (P @ Q) a)" and ok: "ok_run ok spec (P @ Q) a" "ok_run ok spec (P @ Z) a"
    and us: "map act us = rev Q" "\<forall>m \<in> set us. good m \<and> reverts m"
    and vs: "map act vs = Z" "\<forall>m \<in> set vs. good m \<and> \<not> reverts m"
    and undo: "Q \<noteq> [] \<Longrightarrow> undoable (fold spec P a)" "\<And>x a. undoable a \<Longrightarrow> ok x a \<Longrightarrow> undoable (spec x a)"
  shows "\<exists>c'. fold_res step (us @ vs) c = Inr c' \<and> rel c' (fold spec (P @ Z) a)"
proof -
  have Q: "map act (rev us) = Q" using us(1) by (simp add: rev_map [symmetric])
  have "\<exists>c1. fold_res step us c = Inr c1 \<and> rel c1 (fold spec P a)"
  proof (cases "Q = []")
    case False
    have "rel c (fold spec (map act (rev us)) (fold spec P a))" "ok_run ok spec (map act (rev us)) (fold spec P a)"
      using rel ok(1) unfolding Q by (simp_all add: ok_run_append)
    from revert_all [OF this us(2) undo(1) [OF False] undo(2)] show ?thesis by blast
  qed (use us(1) rel in simp)
  then obtain c1 where c1: "fold_res step us c = Inr c1" "rel c1 (fold spec P a)" by blast
  have "ok_run ok spec (map act vs) (fold spec P a)" using ok(2) vs(1) by (simp add: ok_run_append)
  from apply_all [OF c1(2) this vs(2)] show ?thesis using c1(1) vs(1) by (simp add: fold_res_append)
qed

end

end
