(* ===== verification/Commander_Sync.thy ===== *)
theory Commander_Sync
  imports Commander Action_Documents
begin

text \<open>
  The commander represents what the actions in force in the log of its node say: refinement of
  \<open>commander_spec\<close> by the operations of Commander, for transactions, rewards, blocks and whole runs of
  \<open>sync\<close> against a node that answers from its log.
\<close>

section \<open>Transactions and rewards\<close>

definition storage_of :: "(string, bool) omap option \<Rightarrow> (string \<Rightarrow> bool) \<Rightarrow> bool" where
  "storage_of stored S =
     (case stored of None \<Rightarrow> (\<forall>f. \<not> S f) | Some m \<Rightarrow> omap_ok m \<and> (\<forall>f. S f \<longleftrightarrow> map_of m f = Some True))"

definition storages_of :: "(string \<rightharpoonup> (string, bool) omap) \<Rightarrow> (string \<Rightarrow> string \<Rightarrow> bool) \<Rightarrow> bool" where
  "storages_of storages S \<longleftrightarrow> (\<forall>a. storage_of (storages a) (S a))"

text \<open>A reverted storage update leaves the entry false where there was none.\<close>

lemma storage_of_upd:
  "storage_of stored S \<Longrightarrow> storage_of (Some (case stored of None \<Rightarrow> [(f, b)] | Some m \<Rightarrow> omap_set f b m)) (S(f := b))"
  by (auto simp: storage_of_def omap_ok_def [of "[_]"] split: option.splits)

lemma storages_of_upd:
  assumes "storages_of storages S"
  shows "storages_of (storages(a \<mapsto> (case storages a of None \<Rightarrow> [(f, b)] | Some m \<Rightarrow> omap_set f b m)))
    (S(a := (S a)(f := b)))"
proof -
  have "storage_of (storages a) (S a)" using assms by (simp add: storages_of_def)
  from storage_of_upd [OF this] show ?thesis using assms unfolding storages_of_def by auto
qed

lemma process_storage_set:
  assumes S: "storages_of storages S" and log: "tl_action log = StorageUpdate u" "su_storage_address u \<in> set T"
    and b: "b \<longleftrightarrow> su_status u = UT_store \<and> type = LT_apply \<or> su_status u = UT_remove \<and> type = LT_revert"
    and new: "S (su_storage_address u) (su_file_uri u) \<noteq> b"
  shows "\<exists>storages'. process_storage_transactions T log type storages = Inr storages'
    \<and> storages_of storages' (S(su_storage_address u := (S (su_storage_address u))(su_file_uri u := b)))"
proof -
  let ?a = "su_storage_address u" and ?f = "su_file_uri u"
  have "storage_of (storages ?a) (S ?a)" using S by (simp add: storages_of_def)
  then have "map_of m ?f \<noteq> Some b" if "storages ?a = Some m" for m
    using new that by (cases b) (auto simp: storage_of_def)
  then have "process_storage_transactions T log type storages
      = Inr (storages(?a \<mapsto> (case storages ?a of None \<Rightarrow> [(?f, b)] | Some m \<Rightarrow> omap_set ?f b m)))"
    using log unfolding process_storage_transactions_def b [symmetric]
    by (auto simp: Let_def throw_if_def b [symmetric] split: option.splits)
  then show ?thesis using storages_of_upd [OF S] by blast
qed

lemma process_storage_apply:
  assumes S: "storages_of storages S" and ok: "storage_ok T log S"
  shows "\<exists>storages'. process_storage_transactions T log LT_apply storages = Inr storages' \<and> storages_of storages' (spec_storage T log S)"
proof (cases "\<exists>u. tl_action log = StorageUpdate u \<and> su_storage_address u \<in> set T")
  case True
  then obtain u where u: "tl_action log = StorageUpdate u" "su_storage_address u \<in> set T" by blast
  then have "S (su_storage_address u) (su_file_uri u) \<noteq> (su_status u = UT_store)"
    using ok by (cases "su_status u") (auto simp: storage_ok_def)
  then show ?thesis using process_storage_set [OF S u, of "su_status u = UT_store" LT_apply] u
    by (simp add: spec_storage_def)
next
  case False
  then have "process_storage_transactions T log LT_apply storages = Inr storages" "spec_storage T log S = S"
    by (auto simp: process_storage_transactions_def spec_storage_def split: action.splits)
  then show ?thesis using S by simp
qed

lemma process_storage_revert:
  assumes S: "storages_of storages (spec_storage T log S)" and ok: "storage_ok T log S"
  shows "\<exists>storages'. process_storage_transactions T log LT_revert storages = Inr storages' \<and> storages_of storages' S"
proof (cases "\<exists>u. tl_action log = StorageUpdate u \<and> su_storage_address u \<in> set T")
  case True
  then obtain u where u: "tl_action log = StorageUpdate u" "su_storage_address u \<in> set T" by blast
  let ?S = "S(su_storage_address u := (S (su_storage_address u))(su_file_uri u := su_status u = UT_store))"
  have spec: "spec_storage T log S = ?S" using u by (simp add: spec_storage_def)
  have old: "S (su_storage_address u) (su_file_uri u) \<longleftrightarrow> su_status u = UT_remove"
    using ok u by (simp add: storage_ok_def)
  have "?S(su_storage_address u := (?S (su_storage_address u))(su_file_uri u := su_status u = UT_remove)) = S"
    using old by (auto simp: fun_eq_iff)
  moreover have "?S (su_storage_address u) (su_file_uri u) \<noteq> (su_status u = UT_remove)"
    by (cases "su_status u") auto
  ultimately show ?thesis
    using process_storage_set [OF S [unfolded spec] u, of "su_status u = UT_remove" LT_revert] by simp
next
  case False
  then have "process_storage_transactions T log LT_revert storages = Inr storages" "spec_storage T log S = S"
    by (auto simp: process_storage_transactions_def spec_storage_def split: action.splits)
  then show ?thesis using S by simp
qed

text \<open>The state represents a specification, apart from head and blocks, which are its frame.\<close>

definition core :: "ext \<Rightarrow> string list \<Rightarrow> commander_state \<Rightarrow> commander_spec \<Rightarrow> bool" where
  "core E T = (\<lambda>(rs, sy) s. keys_ok E T \<and> sy_set_accounts sy = T
     \<and> accounts_ok (rs_accounts rs) \<and> (\<forall>k. balance_val (rs_accounts rs) k = sp_balance s k)
     \<and> storages_of (rs_storages rs) (sp_stored s) \<and> channels_of (rs_channels rs) (sp_contents s)
     \<and> sy_transactions sy = logs_of (sp_transactions s) \<and> sy_rewards sy = logs_of (sp_rewards s))"

definition frame :: "commander_state \<Rightarrow> string \<times> block_info list \<times> bool \<times> u64 \<times> u64" where
  "frame = (\<lambda>(rs, sy). (rs_pv_key rs, rs_blocks rs, sy_new_import sy, sy_start_index sy, sy_head_block_index sy))"

lemma statistics_frame [simp]:
  "rs_accounts (process_statistics_transactions log b type rs) = rs_accounts rs"
  "rs_storages (process_statistics_transactions log b type rs) = rs_storages rs"
  "rs_channels (process_statistics_transactions log b type rs) = rs_channels rs"
  "rs_blocks (process_statistics_transactions log b type rs) = rs_blocks rs"
  "rs_pv_key (process_statistics_transactions log b type rs) = rs_pv_key rs"
  by (simp_all add: process_statistics_transactions_def split: action.splits)

lemma is_ok_info: "is_ok (transaction_info log) \<Longrightarrow> transaction_info log = Inr (the_info log)"
  by (cases "transaction_info log") (simp_all add: the_info_def)

text \<open>While the transactions of a block are reverted, its rewards \<open>w\<close>, entered in \<open>R\<close>, are still there.\<close>

definition with_rewards :: "(string \<Rightarrow> nat) \<Rightarrow> (string \<Rightarrow> (u64 \<times> reward_log) list) \<Rightarrow> commander_spec \<Rightarrow> commander_spec" where
  "with_rewards w R s = s\<lparr>sp_balance := (\<lambda>k. sp_balance s k + w k), sp_rewards := R\<rparr>"

lemma spec_wf_ends_in: "spec_wf (unat b) s \<Longrightarrow> ends_in b (sp_transactions s a)" "spec_wf (unat b) s \<Longrightarrow> ends_in b (sp_rewards s a)"
  by (simp_all add: spec_wf_def blocks_upto_ends_in)

lemma sync_transaction_apply:
  assumes st: "core E T st (with_rewards w R s)" and ok: "transaction_ok T authority w log s" "spec_wf (unat b) s"
  shows "\<exists>st'. sync_transaction E statistics b authority (LT_apply, log) st = Inr st'
    \<and> core E T st' (with_rewards w R (spec_transaction T b authority log s)) \<and> frame st' = frame st"
proof -
  obtain rs sy where c: "st = (rs, sy)" "keys_ok E T" "sy_set_accounts sy = T" "accounts_ok (rs_accounts rs)"
    "\<And>k. balance_val (rs_accounts rs) k = sp_balance s k + w k" "storages_of (rs_storages rs) (sp_stored s)"
    "channels_of (rs_channels rs) (sp_contents s)" "sy_transactions sy = logs_of (sp_transactions s)" "sy_rewards sy = logs_of R"
    using st by (cases st) (auto simp: core_def with_rewards_def)
  let ?i = "the_info log"
  note t = ok(1) [unfolded transaction_ok_def]
  have info: "transaction_info log = Inr ?i" using t is_ok_info by blast
  obtain storages where S: "process_storage_transactions T log LT_apply (rs_storages rs) = Inr storages"
    "storages_of storages (spec_storage T log (sp_stored s))"
    using process_storage_apply [OF c(6)] t by blast
  obtain channels where C: "process_channel_transactions T log LT_apply (rs_channels rs) = Inr channels"
    "channels_of channels (process_channel_spec T log (sp_contents s))"
    using process_channel_apply [OF c(7)] t by blast
  have cover: "covered_by T ?i (\<lambda>k. sp_balance s k + w k)" using t by (auto simp: covered_by_def Let_def)
  have lim: "sp_balance s k + w k + moved ?i < val_limit" for k
  proof -
    have "sp_balance s k + w k + 2 * moved ?i < val_limit" using t by blast
    then show ?thesis by linarith
  qed
  obtain accounts where A: "update_balances E T log authority LT_apply (rs_accounts rs) = Inr accounts" "accounts_ok accounts"
    "\<And>k. balance_val accounts k = sp_balance s k + w k + gain T ?i authority k - loss T ?i k"
    using update_balances_apply [OF c(2) info _ c(4,5) lim cover, of authority] t by blast
  have L: "process_transactions T b log authority LT_apply (sy_transactions sy)
      = Inr (logs_of (add_entry (touched T ?i authority) (b, log) (sp_transactions s)))"
    unfolding c(8) by (rule process_transactions_apply [OF info spec_wf_ends_in(1) [OF ok(2)]])
  have "covered_by T ?i (sp_balance s)" using t by blast
  from covered_loss [OF this, of _ authority]
  have bal: "balance_val accounts k = sp_balance s k + gain T ?i authority k - loss T ?i k + w k" for k
    using A(3) [of k] by (metis add.commute add.left_commute diff_add_assoc2)
  show ?thesis
    using S C A(1,2) L c(2,3,9) bal
    by (simp add: sync_transaction_def c(1) core_def frame_def with_rewards_def spec_transaction_def Let_def)
qed

lemma sync_transaction_revert:
  assumes st: "core E T st (with_rewards w R (spec_transaction T b authority log s))"
    and ok: "transaction_ok T authority w log s" "spec_wf (unat b) s"
  shows "\<exists>st'. sync_transaction E statistics b authority (LT_revert, log) st = Inr st'
    \<and> core E T st' (with_rewards w R s) \<and> frame st' = frame st"
proof -
  let ?i = "the_info log"
  obtain rs sy where c: "st = (rs, sy)" "keys_ok E T" "sy_set_accounts sy = T" "accounts_ok (rs_accounts rs)"
    "\<And>k. balance_val (rs_accounts rs) k = sp_balance s k + gain T ?i authority k - loss T ?i k + w k"
    "storages_of (rs_storages rs) (spec_storage T log (sp_stored s))"
    "channels_of (rs_channels rs) (process_channel_spec T log (sp_contents s))"
    "sy_transactions sy = logs_of (add_entry (touched T ?i authority) (b, log) (sp_transactions s))" "sy_rewards sy = logs_of R"
    using st by (cases st) (auto simp: core_def with_rewards_def spec_transaction_def)
  note t = ok(1) [unfolded transaction_ok_def]
  have info: "transaction_info log = Inr ?i" using t is_ok_info by blast
  obtain storages where S: "process_storage_transactions T log LT_revert (rs_storages rs) = Inr storages"
    "storages_of storages (sp_stored s)"
    using process_storage_revert [OF c(6)] t by blast
  have "content_wf (sp_contents s a i)" for a i using ok(2) by (simp add: spec_wf_def)
  then obtain channels where C: "process_channel_transactions T log LT_revert (rs_channels rs) = Inr channels"
    "channels_of channels (sp_contents s)"
    using process_channel_revert [OF c(7)] t by blast
  have lim: "sp_balance s k + w k + 2 * moved ?i < val_limit" for k using t by blast
  obtain accounts where A: "update_balances E T log authority LT_revert (rs_accounts rs) = Inr accounts" "accounts_ok accounts"
    "\<And>k. balance_val accounts k = sp_balance s k + w k"
    using update_balances_revert [OF c(2) info _ c(4,5) lim] t by blast
  have L: "process_transactions T b log authority LT_revert (sy_transactions sy) = Inr (logs_of (sp_transactions s))"
    unfolding c(8) using t by (intro process_transactions_revert [OF info spec_wf_ends_in(1) [OF ok(2)]]) simp
  show ?thesis
    using S C A L c(2,3,9)
    by (simp add: sync_transaction_def c(1) core_def frame_def with_rewards_def Let_def)
qed

interpretation tx: replica "\<lambda>st s. core E T st (with_rewards w R s) \<and> frame st = \<phi>"
  "\<lambda>log s. transaction_ok T authority w log s \<and> spec_wf (unat b) s" "\<lambda>_. True" "spec_transaction T b authority"
  "sync_transaction E statistics b authority" snd "\<lambda>m. fst m = LT_revert" "\<lambda>_. True"
  for E T w R \<phi> b authority statistics
proof
  fix m :: "logging_type \<times> transaction_log" and st s
  assume "fst m \<noteq> LT_revert"
  then have "m = (LT_apply, snd m)" by (cases m; cases "fst m") auto
  then show "core E T st (with_rewards w R s) \<and> frame st = \<phi> \<Longrightarrow> transaction_ok T authority w (snd m) s \<and> spec_wf (unat b) s \<Longrightarrow>
      \<exists>st'. sync_transaction E statistics b authority m st = Inr st' \<and> core E T st' (with_rewards w R (spec_transaction T b authority (snd m) s)) \<and> frame st' = \<phi>"
    using sync_transaction_apply by metis
next
  fix m :: "logging_type \<times> transaction_log" and st s
  assume "fst m = LT_revert"
  then have "m = (LT_revert, snd m)" by (cases m) auto
  then show "core E T st (with_rewards w R (spec_transaction T b authority (snd m) s)) \<and> frame st = \<phi> \<Longrightarrow>
      transaction_ok T authority w (snd m) s \<and> spec_wf (unat b) s \<Longrightarrow>
      \<exists>st'. sync_transaction E statistics b authority m st = Inr st' \<and> core E T st' (with_rewards w R s) \<and> frame st' = \<phi>"
    using sync_transaction_revert by metis
qed

lemma sync_reward_apply:
  assumes st: "core E T st s" and ok: "reward_ok T r s" "spec_wf (unat b) s"
  shows "\<exists>st'. sync_reward E b (LT_apply, r) st = Inr st' \<and> core E T st' (spec_reward T b r s) \<and> frame st' = frame st"
proof -
  obtain rs sy where c: "st = (rs, sy)" "keys_ok E T" "sy_set_accounts sy = T" "accounts_ok (rs_accounts rs)"
    "\<And>k. balance_val (rs_accounts rs) k = sp_balance s k" "storages_of (rs_storages rs) (sp_stored s)"
    "channels_of (rs_channels rs) (sp_contents s)" "sy_transactions sy = logs_of (sp_transactions s)" "sy_rewards sy = logs_of (sp_rewards s)"
    using st by (cases st) (auto simp: core_def)
  have coin: "coin_ok (rl_amount r)" "sp_balance s (rl_to r) + reward_gain T r (rl_to r) < val_limit"
    using ok(1) by (simp_all add: reward_ok_def)
  obtain accounts where
    A: "update_balance E T (rl_to r) (rl_amount r) Increase (rs_accounts rs) = Inr accounts" "accounts_ok accounts"
    "\<And>k. balance_val accounts k = sp_balance s k + reward_gain T r k"
  proof (cases "rl_to r \<in> set T")
    case True
    then have "balance_val (rs_accounts rs) (rl_to r) + coin_val (rl_amount r) < val_limit"
      using coin(2) c(5) by (simp add: reward_gain_def)
    from update_balance_increase [OF c(2,4) coin(1) this] show ?thesis using that c(5) by (auto simp: reward_gain_def)
  next
    case False
    then show ?thesis using that [of "rs_accounts rs"] c(4,5) by (simp add: reward_gain_def update_balance_def)
  qed
  have L: "process_reward T b LT_apply r (sy_rewards sy) = Inr (logs_of (add_entry ({rl_to r} \<inter> set T) (b, r) (sp_rewards s)))"
    using process_account_apply [of "rl_to r" "{}" b "sp_rewards s" "''reward''" T r] spec_wf_ends_in(2) [OF ok(2)]
    unfolding process_reward_def c(9) by simp
  show ?thesis using A L c by (simp add: sync_reward_def core_def frame_def spec_reward_def)
qed

lemma sync_reward_revert:
  assumes st: "core E T st (spec_reward T b r s)" and ok: "reward_ok T r s" "spec_wf (unat b) s"
  shows "\<exists>st'. sync_reward E b (LT_revert, r) st = Inr st' \<and> core E T st' s \<and> frame st' = frame st"
proof -
  obtain rs sy where c: "st = (rs, sy)" "keys_ok E T" "sy_set_accounts sy = T" "accounts_ok (rs_accounts rs)"
    "\<And>k. balance_val (rs_accounts rs) k = sp_balance s k + reward_gain T r k" "storages_of (rs_storages rs) (sp_stored s)"
    "channels_of (rs_channels rs) (sp_contents s)" "sy_transactions sy = logs_of (sp_transactions s)"
    "sy_rewards sy = logs_of (add_entry ({rl_to r} \<inter> set T) (b, r) (sp_rewards s))"
    using st by (cases st) (auto simp: core_def spec_reward_def)
  have coin: "coin_ok (rl_amount r)" using ok(1) by (simp add: reward_ok_def)
  have "\<not> (rl_to r \<in> set T \<and> balance_val (rs_accounts rs) (rl_to r) < coin_val (rl_amount r))"
    using c(5) by (simp add: reward_gain_def)
  then obtain accounts where
    A: "update_balance E T (rl_to r) (rl_amount r) Decrease (rs_accounts rs) = Inr accounts" "accounts_ok accounts"
    "\<And>k. balance_val accounts k = balance_val (rs_accounts rs) k - reward_gain T r k"
    using update_balance_decrease [OF c(2,4) coin, of "rl_to r"] unfolding reward_gain_def by auto
  have len: "Suc (length (sp_rewards s (rl_to r))) < 2 ^ 64" using ok(1) by (simp add: reward_ok_def)
  have none: "{rl_to r} \<inter> set T - {rl_to r} = {}" by auto
  have L: "process_reward T b LT_revert r (sy_rewards sy) = Inr (logs_of (sp_rewards s))"
    using process_account_revert [of "{rl_to r} \<inter> set T" T "rl_to r" b "sp_rewards s" "''reward''" r] len spec_wf_ends_in(2) [OF ok(2)]
    unfolding process_reward_def c(9) none by simp
  show ?thesis using A L c by (simp add: sync_reward_def core_def frame_def)
qed

interpretation rw: replica "\<lambda>st s. core E T st s \<and> frame st = \<phi>"
  "\<lambda>r s. reward_ok T r s \<and> spec_wf (unat b) s" "\<lambda>_. True" "spec_reward T b"
  "sync_reward E b" snd "\<lambda>m. fst m = LT_revert" "\<lambda>_. True"
  for E T \<phi> b
proof
  fix m :: "logging_type \<times> reward_log" and st s
  assume "fst m \<noteq> LT_revert"
  then have "m = (LT_apply, snd m)" by (cases m; cases "fst m") auto
  then show "core E T st s \<and> frame st = \<phi> \<Longrightarrow> reward_ok T (snd m) s \<and> spec_wf (unat b) s \<Longrightarrow>
      \<exists>st'. sync_reward E b m st = Inr st' \<and> core E T st' (spec_reward T b (snd m) s) \<and> frame st' = \<phi>"
    using sync_reward_apply by metis
next
  fix m :: "logging_type \<times> reward_log" and st s
  assume "fst m = LT_revert"
  then have "m = (LT_revert, snd m)" by (cases m) auto
  then show "core E T st (spec_reward T b (snd m) s) \<and> frame st = \<phi> \<Longrightarrow>
      reward_ok T (snd m) s \<and> spec_wf (unat b) s \<Longrightarrow>
      \<exists>st'. sync_reward E b m st = Inr st' \<and> core E T st' s \<and> frame st' = \<phi>"
    using sync_reward_revert by metis
qed

section \<open>Entries\<close>

text \<open>A block is fine when its transactions and then its rewards are.\<close>

definition block_rewards :: "string list \<Rightarrow> block_log \<Rightarrow> string \<Rightarrow> nat" where
  "block_rewards T bl k = (\<Sum>r \<leftarrow> bl_rewards bl. reward_gain T r k)"

definition rewards_ok :: "string list \<Rightarrow> block_log \<Rightarrow> commander_spec \<Rightarrow> bool" where
  "rewards_ok T bl s \<longleftrightarrow> (\<forall>r \<in> set (bl_rewards bl). coin_ok (rl_amount r))
     \<and> (\<forall>k. sp_balance s k + block_rewards T bl k < val_limit)
     \<and> (\<forall>a. length (sp_rewards s a) + length (bl_rewards bl) < 2 ^ 64)"

definition with_block :: "u64 \<Rightarrow> block_log \<Rightarrow> commander_spec \<Rightarrow> commander_spec" where
  "with_block b bl s = s\<lparr>sp_head := Some b, sp_blocks := sp_blocks s @ [block_info_of bl]\<rparr>"

definition after_transactions :: "string list \<Rightarrow> u64 \<Rightarrow> block_log \<Rightarrow> commander_spec \<Rightarrow> commander_spec" where
  "after_transactions T b bl s = fold (spec_transaction T b (bl_authority bl)) (bl_transactions bl) (with_block b bl s)"

definition action_ok :: "string list \<Rightarrow> logged_action \<Rightarrow> commander_spec \<Rightarrow> bool" where
  "action_ok T a s \<longleftrightarrow> unat (next_block s) + 2 < 2 ^ 64 \<and>
     (case a of
        Block_log bl \<Rightarrow>
          ok_run (transaction_ok T (bl_authority bl) (block_rewards T bl)) (spec_transaction T (next_block s) (bl_authority bl))
            (bl_transactions bl) (with_block (next_block s) bl s)
          \<and> rewards_ok T bl s \<and> rewards_ok T bl (after_transactions T (next_block s) bl s)
      | Transaction_log log \<Rightarrow> sp_head s \<noteq> None \<and> transaction_ok T [] (\<lambda>_. 0) log s)"

definition head_wf :: "commander_spec \<Rightarrow> bool" where
  "head_wf s \<longleftrightarrow> spec_wf (unat (next_block s)) s"

lemma ok_run_invariant:
  assumes "ok_run ok spec xs a" "I a" "\<And>x a. I a \<Longrightarrow> ok x a \<Longrightarrow> I (spec x a)"
  shows "ok_run (\<lambda>x a. ok x a \<and> I a) spec xs a" "I (fold spec xs a)"
  using assms(1,2) by (induction xs arbitrary: a) (auto intro: assms(3))

lemma ok_run_mono: "ok_run ok spec xs a \<Longrightarrow> (\<And>x a. ok x a \<Longrightarrow> ok' x a) \<Longrightarrow> ok_run ok' spec xs a"
  by (induction xs arbitrary: a) auto

lemma transaction_ok_mono:
  assumes "transaction_ok T authority w log s"
  shows "transaction_ok T authority (\<lambda>_. 0) log s"
proof -
  have "sp_balance s k + 0 + 2 * moved (the_info log) < val_limit" for k
  proof -
    have "sp_balance s k + w k + 2 * moved (the_info log) < val_limit" using assms unfolding transaction_ok_def by blast
    then show ?thesis by linarith
  qed
  then show ?thesis using assms unfolding transaction_ok_def by blast
qed

lemma fold_spec_transaction [simp]:
  "sp_rewards (fold (spec_transaction T b authority) xs s) = sp_rewards s"
  "sp_head (fold (spec_transaction T b authority) xs s) = sp_head s"
  "sp_blocks (fold (spec_transaction T b authority) xs s) = sp_blocks s"
  by (induction xs arbitrary: s) (simp_all add: spec_transaction_def)

text \<open>Rewards change balances and their own log only, independently of the rest.\<close>

definition add_rewards :: "u64 \<Rightarrow> string list \<Rightarrow> reward_log list \<Rightarrow> (string \<Rightarrow> (u64 \<times> reward_log) list) \<Rightarrow> string \<Rightarrow> (u64 \<times> reward_log) list" where
  "add_rewards b T = fold (\<lambda>r. add_entry ({rl_to r} \<inter> set T) (b, r))"

lemma fold_spec_reward:
  "fold (spec_reward T b) rs s = with_rewards (\<lambda>k. \<Sum>r \<leftarrow> rs. reward_gain T r k) (add_rewards b T rs (sp_rewards s)) s"
proof (induction rs arbitrary: s)
  case (Cons r rs)
  show ?case
    unfolding fold_simps comp_def Cons.IH
    by (simp add: with_rewards_def add_rewards_def spec_reward_def add.assoc)
qed (simp add: with_rewards_def add_rewards_def)

lemma add_entry_length: "length (add_entry S p A a) \<le> Suc (length (A a))"
  by (simp add: add_entry_def)

lemma rewards_ok_run:
  assumes "\<forall>r \<in> set rs. coin_ok (rl_amount r)" "\<And>k. sp_balance s k + (\<Sum>r \<leftarrow> rs. reward_gain T r k) < val_limit"
    "\<And>a. length (sp_rewards s a) + length rs < 2 ^ 64"
  shows "ok_run (reward_ok T) (spec_reward T b) rs s"
  using assms
proof (induction rs arbitrary: s)
  case (Cons r rs)
  have "reward_ok T r s"
    unfolding reward_ok_def
  proof (intro conjI allI)
    show "sp_balance s k + reward_gain T r k < val_limit" for k using Cons.prems(2) [of k] by simp
    show "Suc (length (sp_rewards s a)) < 2 ^ 64" for a using Cons.prems(3) [of a] by simp
  qed (use Cons.prems(1) in simp)
  moreover have "length (sp_rewards (spec_reward T b r s) a) + length rs < 2 ^ 64" for a
    using Cons.prems(3) [of a] add_entry_length [of "{rl_to r} \<inter> set T" "(b, r)" "sp_rewards s" a] by (simp add: spec_reward_def)
  moreover have "sp_balance (spec_reward T b r s) k + (\<Sum>r \<leftarrow> rs. reward_gain T r k) < val_limit" for k
    using Cons.prems(2) [of k] by (simp add: spec_reward_def add.assoc)
  ultimately show ?case using Cons.IH Cons.prems(1) by simp
qed simp

lemma fold_spec_reward_frame [simp]:
  "sp_head (fold (spec_reward T b) rs s) = sp_head s" "sp_blocks (fold (spec_reward T b) rs s) = sp_blocks s"
  by (simp_all add: fold_spec_reward with_rewards_def)

text \<open>The state represents a specification, head and blocks included; a new import keeps no blocks.\<close>

definition tracks :: "ext \<Rightarrow> string list \<Rightarrow> bool \<Rightarrow> commander_state \<Rightarrow> commander_spec \<Rightarrow> bool" where
  "tracks E T N = (\<lambda>(rs, sy) s. core E T (rs, sy) s \<and> sy_new_import sy = N \<and> (\<not> N \<longrightarrow> rs_blocks rs = sp_blocks s)
     \<and> (case sp_head s of None \<Rightarrow> sy_start_index sy = 0 \<and> sy_head_block_index sy = 0
        | Some h \<Rightarrow> sy_start_index sy \<noteq> 0 \<and> sy_head_block_index sy = h))"

lemma core_frame [simp]:
  "core E T (rs, sy\<lparr>sy_start_index := i\<rparr>) s = core E T (rs, sy) s"
  "core E T (rs, sy\<lparr>sy_head_block_index := i\<rparr>) s = core E T (rs, sy) s"
  "core E T (rs\<lparr>rs_blocks := bs\<rparr>, sy) s = core E T (rs, sy) s"
  "core E T st (with_block b bl s) = core E T st s"
  by (auto simp: core_def with_block_def split: prod.splits)

lemma map_snd_Pair [simp]: "map snd (map (Pair x) ys) = ys"
  by (simp add: comp_def)

lemma map_snd_rev: "map snd (rev (map (Pair x) (rev ys))) = ys"
  by (simp add: rev_map comp_def)

lemma with_rewards_same [simp]: "with_rewards (\<lambda>_. 0) (sp_rewards s) s = s"
  by (simp add: with_rewards_def)

lemma block_transactions_apply:
  assumes "core E T st s1" "spec_wf (unat b) s1"
    and "ok_run (transaction_ok T authority w) (spec_transaction T b authority) logs s1"
  shows "\<exists>st'. fold_res (sync_transaction E statistics b authority) (map (Pair LT_apply) logs) st = Inr st'
    \<and> core E T st' (fold (spec_transaction T b authority) logs s1) \<and> frame st' = frame st"
    and "spec_wf (unat b) (fold (spec_transaction T b authority) logs s1)"
proof -
  have run: "ok_run (transaction_ok T authority (\<lambda>_. 0)) (spec_transaction T b authority) logs s1"
    by (rule ok_run_mono [OF assms(3) transaction_ok_mono])
  note inv = ok_run_invariant [where I = "spec_wf (unat b)", OF run assms(2) spec_transaction_wf]
  have pre: "core E T st (with_rewards (\<lambda>_. 0) (sp_rewards s1) s1) \<and> frame st = frame st" using assms(1) by simp
  have all: "\<forall>m \<in> set (map (Pair LT_apply) logs). True \<and> fst m \<noteq> LT_revert" by auto
  have "ok_run (\<lambda>log s. transaction_ok T authority (\<lambda>_. 0) log s \<and> spec_wf (unat b) s) (spec_transaction T b authority)
      (map snd (map (Pair LT_apply) logs)) s1"
    unfolding map_snd_Pair by (rule inv(1))
  note applied = tx.apply_all [OF pre this all, of statistics, unfolded map_snd_Pair]
  have "with_rewards (\<lambda>_. 0) (sp_rewards s1) (fold (spec_transaction T b authority) logs s1) = fold (spec_transaction T b authority) logs s1"
    using with_rewards_same [of "fold (spec_transaction T b authority) logs s1"] by simp
  then show "\<exists>st'. fold_res (sync_transaction E statistics b authority) (map (Pair LT_apply) logs) st = Inr st'
    \<and> core E T st' (fold (spec_transaction T b authority) logs s1) \<and> frame st' = frame st"
    using applied by simp
  show "spec_wf (unat b) (fold (spec_transaction T b authority) logs s1)" by (rule inv(2))
qed

lemma block_rewards_apply:
  assumes "core E T st s" "spec_wf (unat b) s" "rewards_ok T bl s"
  shows "\<exists>st'. fold_res (sync_reward E b) (map (Pair LT_apply) (bl_rewards bl)) st = Inr st'
    \<and> core E T st' (fold (spec_reward T b) (bl_rewards bl) s) \<and> frame st' = frame st"
    and "spec_wf (unat b) (fold (spec_reward T b) (bl_rewards bl) s)"
proof -
  have run: "ok_run (reward_ok T) (spec_reward T b) (bl_rewards bl) s"
    using assms(3) by (intro rewards_ok_run) (simp_all add: rewards_ok_def block_rewards_def)
  note inv = ok_run_invariant [where I = "spec_wf (unat b)", OF run assms(2) spec_reward_wf]
  have pre: "core E T st s \<and> frame st = frame st" using assms(1) by simp
  have all: "\<forall>m \<in> set (map (Pair LT_apply) (bl_rewards bl)). True \<and> fst m \<noteq> LT_revert" by auto
  have "ok_run (\<lambda>r s. reward_ok T r s \<and> spec_wf (unat b) s) (spec_reward T b) (map snd (map (Pair LT_apply) (bl_rewards bl))) s"
    unfolding map_snd_Pair by (rule inv(1))
  from rw.apply_all [OF pre this all, unfolded map_snd_Pair]
  show "\<exists>st'. fold_res (sync_reward E b) (map (Pair LT_apply) (bl_rewards bl)) st = Inr st'
    \<and> core E T st' (fold (spec_reward T b) (bl_rewards bl) s) \<and> frame st' = frame st" by simp
  show "spec_wf (unat b) (fold (spec_reward T b) (bl_rewards bl) s)" by (rule inv(2))
qed

text \<open>The transactions are reverted while the rewards, which were applied after them, still stand.\<close>

lemma block_revert:
  assumes st: "core E T st (fold (spec_reward T b) (bl_rewards bl) (fold (spec_transaction T b (bl_authority bl)) (bl_transactions bl) s1))"
    and wf: "spec_wf (unat b) s1" and rewards: "rewards_ok T bl s1"
    and run: "ok_run (transaction_ok T (bl_authority bl) (block_rewards T bl)) (spec_transaction T b (bl_authority bl)) (bl_transactions bl) s1"
  shows "\<exists>st'. bind_res (fold_res (sync_transaction E statistics b (bl_authority bl)) (map (Pair LT_revert) (rev (bl_transactions bl))) st)
       (fold_res (sync_reward E b) (map (Pair LT_revert) (rev (bl_rewards bl)))) = Inr st'
    \<and> core E T st' s1 \<and> frame st' = frame st"
proof -
  let ?R = "add_rewards b T (bl_rewards bl) (sp_rewards s1)" and ?w = "block_rewards T bl"
  have w: "(\<lambda>k. \<Sum>r \<leftarrow> bl_rewards bl. reward_gain T r k) = ?w" by (simp add: block_rewards_def fun_eq_iff)
  have pre: "core E T st (with_rewards ?w ?R (fold (spec_transaction T b (bl_authority bl)) (map snd (rev (map (Pair LT_revert) (rev (bl_transactions bl))))) s1))
      \<and> frame st = frame st"
    using st unfolding map_snd_rev by (simp add: fold_spec_reward w)
  note inv = ok_run_invariant [where I = "spec_wf (unat b)", OF run wf spec_transaction_wf]
  have run': "ok_run (\<lambda>log s. transaction_ok T (bl_authority bl) ?w log s \<and> spec_wf (unat b) s) (spec_transaction T b (bl_authority bl))
      (map snd (rev (map (Pair LT_revert) (rev (bl_transactions bl))))) s1"
    using inv(1) unfolding map_snd_rev .
  have all: "\<forall>m \<in> set (map (Pair LT_revert) (rev (bl_transactions bl))). True \<and> fst m = LT_revert" by auto
  from tx.revert_all [OF pre run' all, of statistics] obtain st1 where
    st1: "fold_res (sync_transaction E statistics b (bl_authority bl)) (map (Pair LT_revert) (rev (bl_transactions bl))) st = Inr st1"
    "core E T st1 (with_rewards ?w ?R s1)" "frame st1 = frame st" by blast
  have rrun: "ok_run (reward_ok T) (spec_reward T b) (bl_rewards bl) s1"
    using rewards by (intro rewards_ok_run) (simp_all add: rewards_ok_def block_rewards_def)
  note rinv = ok_run_invariant [where I = "spec_wf (unat b)", OF rrun wf spec_reward_wf]
  have rpre: "core E T st1 (fold (spec_reward T b) (map snd (rev (map (Pair LT_revert) (rev (bl_rewards bl))))) s1) \<and> frame st1 = frame st1"
    using st1(2) unfolding map_snd_rev by (simp add: fold_spec_reward w)
  have rrun': "ok_run (\<lambda>r s. reward_ok T r s \<and> spec_wf (unat b) s) (spec_reward T b) (map snd (rev (map (Pair LT_revert) (rev (bl_rewards bl))))) s1"
    using rinv(1) unfolding map_snd_rev .
  have rall: "\<forall>m \<in> set (map (Pair LT_revert) (rev (bl_rewards bl))). True \<and> fst m = LT_revert" by auto
  from rw.revert_all [OF rpre rrun' rall] show ?thesis using st1(1,3) by auto
qed

text \<open>Entries of the log, apart from the first, can be reverted.\<close>

lemma head_wf_with_block: "head_wf s \<Longrightarrow> spec_wf (unat (next_block s)) (with_block (next_block s) bl s)"
  by (simp add: head_wf_def spec_wf_def with_block_def)

lemma next_block_grows:
  assumes "unat (next_block s) + 2 < 2 ^ 64" "sp_head t = Some (next_block s)"
  shows "unat (next_block t) = Suc (unat (next_block s))"
proof -
  have "next_block s + 1 = of_nat (Suc (unat (next_block s)))" by (simp add: add.commute)
  moreover have "Suc (unat (next_block s)) < 2 ^ 64" using assms(1) by simp
  ultimately have "unat (next_block s + 1) = Suc (unat (next_block s))" using unat_of_nat_u64 by metis
  then show ?thesis using assms(2) by (simp add: next_block_def)
qed

lemma spec_action_head:
  "sp_head (spec_action T a s) = (case a of Block_log _ \<Rightarrow> Some (next_block s) | Transaction_log _ \<Rightarrow> sp_head s)"
  by (cases a) (simp_all add: spec_action_def spec_block_def spec_transaction_def)

lemma spec_action_wf:
  assumes ok: "action_ok T a s" and wf: "head_wf s"
  shows "head_wf (spec_action T a s)"
proof (cases a)
  case (Block_log bl)
  let ?b = "next_block s"
  have "ok_run (transaction_ok T (bl_authority bl) (block_rewards T bl)) (spec_transaction T ?b (bl_authority bl)) (bl_transactions bl) (with_block ?b bl s)"
    and lim: "unat ?b + 2 < 2 ^ 64" using ok Block_log by (simp_all add: action_ok_def)
  from ok_run_invariant(2) [where I = "spec_wf (unat ?b)", OF this(1) head_wf_with_block [OF wf] spec_transaction_wf]
  have "spec_wf (unat ?b) (after_transactions T ?b bl s)" by (simp add: after_transactions_def)
  then have "spec_wf (unat ?b) (fold (spec_reward T ?b) rs (after_transactions T ?b bl s))" for rs
    by (induction rs rule: rev_induct) (auto intro: spec_reward_wf)
  then have "spec_wf (unat ?b) (spec_action T a s)"
    by (simp add: Block_log spec_action_def spec_block_def after_transactions_def with_block_def)
  moreover have "unat ?b \<le> unat (next_block (spec_action T a s))"
    using next_block_grows [OF lim] by (simp add: spec_action_head Block_log)
  ultimately show ?thesis unfolding head_wf_def by (rule spec_wf_mono)
next
  case (Transaction_log log)
  then have "transaction_ok T [] (\<lambda>_. 0) log s" using ok by (simp add: action_ok_def)
  from spec_transaction_wf [OF wf [unfolded head_wf_def] this] show ?thesis
    by (simp add: Transaction_log head_wf_def spec_action_def next_block_def spec_transaction_def)
qed

lemma sync_apply_block:
  assumes "(if d then sy_head_block_index sy else sy_head_block_index sy + 1) = b"
  shows "sync_apply E d (Block_log bl) (rs, sy) =
    bind_res (fold_res (sync_transaction E (\<not> sy_new_import sy) b (bl_authority bl)) (map (Pair LT_apply) (bl_transactions bl))
        ((if \<not> sy_new_import sy then rs\<lparr>rs_blocks := rs_blocks rs @ [block_info_of bl]\<rparr> else rs), sy\<lparr>sy_head_block_index := b\<rparr>))
      (fold_res (sync_reward E b) (map (Pair LT_apply) (bl_rewards bl)))"
  unfolding sync_apply_def Let_def assms [symmetric] by simp

lemma entry_apply:
  assumes st: "tracks E T N st s" and ok: "action_ok T a s" and wf: "head_wf s"
  shows "\<exists>st'. sync_apply E (sy_start_index (snd st) = 0) a (fst st, (snd st)\<lparr>sy_start_index := i\<rparr>) = Inr st'
      \<and> (i \<noteq> 0 \<longrightarrow> tracks E T N st' (spec_action T a s))"
proof -
  obtain rs sy where c: "st = (rs, sy)" "core E T (rs, sy) s" "sy_new_import sy = N" "\<not> N \<longrightarrow> rs_blocks rs = sp_blocks s"
    "case sp_head s of None \<Rightarrow> sy_start_index sy = 0 \<and> sy_head_block_index sy = 0
        | Some h \<Rightarrow> sy_start_index sy \<noteq> 0 \<and> sy_head_block_index sy = h"
    using st by (cases st) (auto simp: tracks_def)
  let ?b = "next_block s"
  have lim: "unat ?b + 2 < 2 ^ 64" using ok by (simp add: action_ok_def)
  show ?thesis
  proof (cases a)
    case (Block_log bl)
    let ?s1 = "with_block ?b bl s"
    have b: "(if sy_start_index sy = 0 then sy_head_block_index sy else sy_head_block_index sy + 1) = ?b"
      using c(5) by (auto simp: next_block_def split: option.splits)
    have b': "(if sy_start_index sy = 0 then sy_head_block_index (sy\<lparr>sy_start_index := i\<rparr>)
        else sy_head_block_index (sy\<lparr>sy_start_index := i\<rparr>) + 1) = ?b" using b by (simp split: if_splits)
    let ?st0 = "((if \<not> N then rs\<lparr>rs_blocks := rs_blocks rs @ [block_info_of bl]\<rparr> else rs),
      sy\<lparr>sy_start_index := i, sy_head_block_index := ?b\<rparr>)"
    have run: "ok_run (transaction_ok T (bl_authority bl) (block_rewards T bl)) (spec_transaction T ?b (bl_authority bl)) (bl_transactions bl) ?s1"
      and rew: "rewards_ok T bl (after_transactions T ?b bl s)" using ok Block_log by (simp_all add: action_ok_def)
    have core0: "core E T ?st0 ?s1" using c(2) by simp
    note tx = block_transactions_apply [OF core0 head_wf_with_block [OF wf] run]
    obtain st1 where st1: "fold_res (sync_transaction E (\<not> N) ?b (bl_authority bl)) (map (Pair LT_apply) (bl_transactions bl)) ?st0 = Inr st1"
      "core E T st1 (after_transactions T ?b bl s)" "frame st1 = frame ?st0"
      using tx(1) unfolding after_transactions_def by blast
    note rw = block_rewards_apply [OF st1(2) tx(2) [folded after_transactions_def] rew]
    obtain st2 where st2: "fold_res (sync_reward E ?b) (map (Pair LT_apply) (bl_rewards bl)) st1 = Inr st2"
      "core E T st2 (fold (spec_reward T ?b) (bl_rewards bl) (after_transactions T ?b bl s))" "frame st2 = frame st1"
      using rw(1) by blast
    have spec: "spec_action T a s = fold (spec_reward T ?b) (bl_rewards bl) (after_transactions T ?b bl s)"
      by (simp add: Block_log spec_action_def spec_block_def after_transactions_def with_block_def)
    have "sync_apply E (sy_start_index (snd st) = 0) a (fst st, (snd st)\<lparr>sy_start_index := i\<rparr>) = Inr st2"
      using sync_apply_block [OF b', of E bl rs] st1(1) st2(1) c(1,3)
      by (simp add: Block_log)
    moreover have "tracks E T N st2 (spec_action T a s)" if "i \<noteq> 0"
    proof -
      obtain rs2 sy2 where e: "st2 = (rs2, sy2)" by force
      have f: "rs_blocks rs2 = rs_blocks (fst ?st0)" "sy_new_import sy2 = N" "sy_start_index sy2 = i" "sy_head_block_index sy2 = ?b"
        using st2(3) st1(3) c(3) by (auto simp: e frame_def split: if_splits)
      have g: "sp_blocks (spec_action T a s) = sp_blocks s @ [block_info_of bl]" "sp_head (spec_action T a s) = Some ?b"
        by (simp_all add: spec after_transactions_def with_block_def)
      have "core E T (rs2, sy2) (spec_action T a s)" using st2(2) unfolding e spec .
      then show ?thesis using f g c(4) that unfolding e tracks_def by simp
    qed
    ultimately show ?thesis by blast
  next
    case (Transaction_log log)
    have t: "transaction_ok T [] (\<lambda>_. 0) log s" "sp_head s \<noteq> None" using ok by (simp_all add: action_ok_def Transaction_log)
    then have b: "sy_head_block_index sy + 1 = ?b" using c(5) by (auto simp: next_block_def)
    have core0: "core E T (rs, sy\<lparr>sy_start_index := i\<rparr>) (with_rewards (\<lambda>_. 0) (sp_rewards s) s)" using c(2) by simp
    have spec: "spec_action T a s = spec_transaction T ?b [] log s" by (simp add: spec_action_def Transaction_log)
    have same: "with_rewards (\<lambda>_. 0) (sp_rewards s) (spec_action T a s) = spec_action T a s"
      by (simp add: spec with_rewards_def spec_transaction_def)
    obtain st' where st': "sync_transaction E False ?b [] (LT_apply, log) (rs, sy\<lparr>sy_start_index := i\<rparr>) = Inr st'"
      "core E T st' (spec_action T a s)" "frame st' = frame (rs, sy\<lparr>sy_start_index := i\<rparr>)"
      using sync_transaction_apply [OF core0 t(1) wf [unfolded head_wf_def], of False] unfolding spec [symmetric] same by blast
    have "sync_apply E (sy_start_index (snd st) = 0) a (fst st, (snd st)\<lparr>sy_start_index := i\<rparr>) = Inr st'"
      using st'(1) c(1) b by (simp add: Transaction_log sync_apply_def)
    moreover have "tracks E T N st' (spec_action T a s)" if "i \<noteq> 0"
    proof -
      obtain rs2 sy2 where e: "st' = (rs2, sy2)" by force
      have "rs_blocks rs2 = rs_blocks rs" "sy_new_import sy2 = N" "sy_start_index sy2 = i" "sy_head_block_index sy2 = sy_head_block_index sy"
        using st'(3) c(3) by (auto simp: e frame_def)
      moreover have "sp_blocks (spec_action T a s) = sp_blocks s" "sp_head (spec_action T a s) = sp_head s"
        by (simp_all add: spec spec_transaction_def)
      ultimately show ?thesis using st'(2) c(4,5) t(2) that unfolding e tracks_def by auto
    qed
    ultimately show ?thesis by blast
  qed
qed

lemma entry_revert:
  assumes st: "tracks E T N st (spec_action T a s)" and ok: "action_ok T a s" and wf: "head_wf s" and old: "sp_head s \<noteq> None" and i: "i \<noteq> 0"
  shows "\<exists>st'. sync_revert E a (fst st, (snd st)\<lparr>sy_start_index := i\<rparr>) = Inr st' \<and> tracks E T N st' s"
proof -
  obtain h where h: "sp_head s = Some h" using old by blast
  let ?b = "next_block s"
  have b: "?b = h + 1" by (simp add: next_block_def h)
  obtain rs sy where c: "st = (rs, sy)" "core E T (rs, sy) (spec_action T a s)" "sy_new_import sy = N"
    "\<not> N \<longrightarrow> rs_blocks rs = sp_blocks (spec_action T a s)"
    "sy_head_block_index sy = (case a of Block_log _ \<Rightarrow> ?b | Transaction_log _ \<Rightarrow> h)"
    using st by (cases st; cases a) (auto simp: tracks_def spec_action_head h)
  show ?thesis
  proof (cases a)
    case (Block_log bl)
    let ?s1 = "with_block ?b bl s" and ?st0 = "(rs, sy\<lparr>sy_start_index := i, sy_head_block_index := h\<rparr>)"
    have run: "ok_run (transaction_ok T (bl_authority bl) (block_rewards T bl)) (spec_transaction T ?b (bl_authority bl)) (bl_transactions bl) ?s1"
      and rew: "rewards_ok T bl ?s1" using ok Block_log by (auto simp: action_ok_def rewards_ok_def with_block_def)
    have spec: "spec_action T a s = fold (spec_reward T ?b) (bl_rewards bl) (fold (spec_transaction T ?b (bl_authority bl)) (bl_transactions bl) ?s1)"
      by (simp add: Block_log spec_action_def spec_block_def with_block_def)
    have core0: "core E T ?st0 (fold (spec_reward T ?b) (bl_rewards bl) (fold (spec_transaction T ?b (bl_authority bl)) (bl_transactions bl) ?s1))"
      using c(2) unfolding spec by simp
    obtain st' where st': "bind_res (fold_res (sync_transaction E (\<not> N) ?b (bl_authority bl)) (map (Pair LT_revert) (rev (bl_transactions bl))) ?st0)
       (fold_res (sync_reward E ?b) (map (Pair LT_revert) (rev (bl_rewards bl)))) = Inr st'" "core E T st' ?s1" "frame st' = frame ?st0"
      using block_revert [OF core0 head_wf_with_block [OF wf] rew run] by blast
    obtain rs2 sy2 where e: "st' = (rs2, sy2)" by force
    have f: "rs_blocks rs2 = rs_blocks rs" "sy_new_import sy2 = N" "sy_start_index sy2 = i" "sy_head_block_index sy2 = h"
      using st'(3) c(3) by (auto simp: e frame_def)
    have blocks: "\<not> N \<Longrightarrow> rs_blocks rs = sp_blocks s @ [block_info_of bl]"
      using c(4) by (simp add: spec with_block_def)
    have head: "sy_head_block_index sy = ?b" "?b - 1 = h" using c(5) b by (simp_all add: Block_log)
    have "sync_revert E a (fst st, (snd st)\<lparr>sy_start_index := i\<rparr>) = pop_block st'"
    proof -
      obtain st1 where st1: "fold_res (sync_transaction E (\<not> N) ?b (bl_authority bl)) (map (Pair LT_revert) (rev (bl_transactions bl))) ?st0 = Inr st1"
        "fold_res (sync_reward E ?b) (map (Pair LT_revert) (rev (bl_rewards bl))) st1 = Inr st'"
        using st'(1) by (auto simp: result_simps)
      then show ?thesis using c(1,3) head by (simp add: sync_revert_def Block_log Let_def)
    qed
    moreover have "pop_block st' = Inr ((if N then rs2 else rs2\<lparr>rs_blocks := sp_blocks s\<rparr>), sy2)"
      using blocks f by (simp add: pop_block_def e)
    moreover have "tracks E T N ((if N then rs2 else rs2\<lparr>rs_blocks := sp_blocks s\<rparr>), sy2) s"
      using st'(2) f i h by (simp add: tracks_def e)
    ultimately show ?thesis by simp
  next
    case (Transaction_log log)
    have t: "transaction_ok T [] (\<lambda>_. 0) log s" using ok by (simp add: action_ok_def Transaction_log)
    have hb: "sy_head_block_index sy = h" using c(5) by (simp add: Transaction_log)
    have spec: "spec_action T a s = spec_transaction T ?b [] log s" by (simp add: spec_action_def Transaction_log)
    have "with_rewards (\<lambda>_. 0) (sp_rewards s) (spec_transaction T ?b [] log s) = spec_transaction T ?b [] log s"
      by (simp add: with_rewards_def spec_transaction_def)
    then have core0: "core E T (rs, sy\<lparr>sy_start_index := i\<rparr>) (with_rewards (\<lambda>_. 0) (sp_rewards s) (spec_transaction T ?b [] log s))"
      using c(2) spec by simp
    obtain st' where st': "sync_transaction E False ?b [] (LT_revert, log) (rs, sy\<lparr>sy_start_index := i\<rparr>) = Inr st'"
      "core E T st' s" "frame st' = frame (rs, sy\<lparr>sy_start_index := i\<rparr>)"
      using sync_transaction_revert [OF core0 t wf [unfolded head_wf_def], of False] by auto
    obtain rs2 sy2 where e: "st' = (rs2, sy2)" by force
    have f: "rs_blocks rs2 = rs_blocks rs" "sy_new_import sy2 = N" "sy_start_index sy2 = i" "sy_head_block_index sy2 = h"
      using st'(3) c(3) hb by (auto simp: e frame_def)
    have "sync_revert E a (fst st, (snd st)\<lparr>sy_start_index := i\<rparr>) = Inr st'"
      using st'(1) c(1) hb b by (simp add: Transaction_log sync_revert_def)
    moreover have "tracks E T N st' s"
      using st'(2) f i h c(4) by (simp add: tracks_def e spec spec_transaction_def)
    ultimately show ?thesis by blast
  qed
qed

interpretation cm: replica "tracks E T N" "\<lambda>a s. action_ok T a s \<and> head_wf s" "\<lambda>s. sp_head s \<noteq> None" "spec_action T"
  "sync_action E" log_action "\<lambda>m. logging_type m = LT_revert" "\<lambda>m. log_index m + 1 \<noteq> 0"
  for E T N
proof
  fix m :: logged_transaction and st s
  assume m: "log_index m + 1 \<noteq> 0" "logging_type m \<noteq> LT_revert" "tracks E T N st s" "action_ok T (log_action m) s \<and> head_wf s"
  have "logging_type m = LT_apply" using m(2) by (cases "logging_type m") auto
  then show "\<exists>st'. sync_action E m st = Inr st' \<and> tracks E T N st' (spec_action T (log_action m) s)"
    using entry_apply [OF m(3), of "log_action m" "log_index m + 1"] m(1,4)
    by (auto simp: sync_action_def Let_def split: prod.splits)
next
  fix m :: logged_transaction and st s
  assume m: "log_index m + 1 \<noteq> 0" "logging_type m = LT_revert" "tracks E T N st (spec_action T (log_action m) s)"
    "action_ok T (log_action m) s \<and> head_wf s" "sp_head s \<noteq> None"
  then show "\<exists>st'. sync_action E m st = Inr st' \<and> tracks E T N st' s"
    using entry_revert [OF m(3), of "log_index m + 1"]
    by (auto simp: sync_action_def Let_def split: prod.splits)
qed

section \<open>Synchronisation\<close>

text \<open>The actions in force after the first \<open>p\<close> entries of a log, in their order, and what they say.\<close>

definition in_force :: "logged_transaction list \<Rightarrow> nat \<Rightarrow> logged_action list" where
  "in_force es p = map (\<lambda>i. log_action (es ! i)) (rev (open_entries (take p es)))"

definition log_spec :: "string list \<Rightarrow> logged_transaction list \<Rightarrow> nat \<Rightarrow> commander_spec" where
  "log_spec T es p = fold (spec_action T) (in_force es p) spec_empty"

text \<open>What was in force at any time was fine, and the genesis block always was.\<close>

definition sound_log :: "string list \<Rightarrow> logged_transaction list \<Rightarrow> bool" where
  "sound_log T es \<longleftrightarrow> (\<forall>p \<le> length es. ok_run (action_ok T) (spec_action T) (in_force es p) spec_empty
     \<and> (0 < p \<longrightarrow> 0 \<in> set (open_entries (take p es))))"

lemma head_wf_empty: "head_wf spec_empty"
  by (simp add: head_wf_def spec_wf_def spec_empty_def)

lemma head_stays: "sp_head s \<noteq> None \<Longrightarrow> sp_head (fold (spec_action T) xs s) \<noteq> None"
  by (induction xs arbitrary: s) (auto simp: spec_action_head split: logged_action.splits)

lemma head_there:
  assumes "ok_run (action_ok T) (spec_action T) xs s" "xs \<noteq> []"
  shows "sp_head (fold (spec_action T) xs s) \<noteq> None"
proof -
  obtain x ys where xs: "xs = x # ys" using assms(2) by (cases xs) auto
  have "sp_head (spec_action T x s) \<noteq> None"
    using assms(1) by (auto simp: xs spec_action_head action_ok_def split: logged_action.splits)
  then show ?thesis using head_stays by (simp add: xs)
qed

text \<open>The start index follows the entries.\<close>

lemma sync_transaction_start:
  "sync_transaction E statistics b authority m st = Inr st' \<Longrightarrow> sy_start_index (snd st') = sy_start_index (snd st)"
  by (auto simp: sync_transaction_def Let_def result_simps split: prod.splits)

lemma sync_reward_start: "sync_reward E b m st = Inr st' \<Longrightarrow> sy_start_index (snd st') = sy_start_index (snd st)"
  by (auto simp: sync_reward_def result_simps split: prod.splits)

lemma fold_start:
  assumes "fold_res f xs st = Inr st'" "\<And>x st st'. f x st = Inr st' \<Longrightarrow> sy_start_index (snd st') = sy_start_index (snd st)"
  shows "sy_start_index (snd st') = sy_start_index (snd (st :: commander_state))"
  using fold_res_invariant [OF assms(1), of "\<lambda>s. sy_start_index (snd s) = sy_start_index (snd st)"] assms(2) by metis

lemma fold_transactions_start:
  "fold_res (sync_transaction E statistics b authority) xs st = Inr st' \<Longrightarrow> sy_start_index (snd st') = sy_start_index (snd st)"
  by (erule fold_start) (rule sync_transaction_start)

lemma fold_rewards_start: "fold_res (sync_reward E b) xs st = Inr st' \<Longrightarrow> sy_start_index (snd st') = sy_start_index (snd st)"
  by (erule fold_start) (rule sync_reward_start)

lemma pop_block_start: "pop_block st = Inr st' \<Longrightarrow> sy_start_index (snd st') = sy_start_index (snd st)"
  by (auto simp: pop_block_def result_simps split: prod.splits if_splits)

lemma sync_apply_start: "sync_apply E d a st = Inr st' \<Longrightarrow> sy_start_index (snd st') = sy_start_index (snd st)"
  by (auto simp: sync_apply_def Let_def result_simps split: prod.splits logged_action.splits
    dest!: fold_transactions_start fold_rewards_start sync_transaction_start)

lemma sync_revert_start: "sync_revert E a st = Inr st' \<Longrightarrow> sy_start_index (snd st') = sy_start_index (snd st)"
  by (auto simp: sync_revert_def Let_def result_simps split: prod.splits logged_action.splits
    dest!: fold_transactions_start fold_rewards_start sync_transaction_start pop_block_start)

lemma sync_action_start: "sync_action E m st = Inr st' \<Longrightarrow> sy_start_index (snd st') = log_index m + 1"
  by (auto simp: sync_action_def Let_def split: prod.splits if_splits dest!: sync_apply_start sync_revert_start)

lemma sync_actions_start:
  "fold_res (sync_action E) answer st = Inr st' \<Longrightarrow> sy_start_index (snd st') = next_start (sy_start_index (snd st)) answer"
proof (induction answer arbitrary: st)
  case (Cons m ms)
  obtain st1 where st1: "sync_action E m st = Inr st1" "fold_res (sync_action E) ms st1 = Inr st'"
    using Cons.prems by (auto simp: result_simps)
  show ?case using Cons.IH [OF st1(2)] sync_action_start [OF st1(1)] by (simp add: next_start_def)
qed (simp add: next_start_def)

text \<open>One request and its answer.\<close>

lemma sync_round:
  assumes at: "log_at (m_actions l) (unat start)" and sound: "sound_log T (m_actions l)"
    and ans: "get_actions start max_count l = Inr answer"
    and st: "tracks E T N st (log_spec T (m_actions l) (unat start))" "sy_start_index (snd st) = start"
  shows "\<exists>st'. fold_res (sync_action E) answer st = Inr st' \<and> sy_start_index (snd st') = next_start start answer
    \<and> tracks E T N st' (log_spec T (m_actions l) (unat (next_start start answer)))"
proof -
  let ?es = "m_actions l" and ?had = "open_entries (take (unat start) (m_actions l))" and ?next = "next_start start answer"
  let ?f = "\<lambda>i. log_action (?es ! i)"
  note round = get_actions_round [OF at ans]
  obtain k new where k: "k \<le> length ?had" "\<forall>a \<in> set new. unat start \<le> a" "open_entries (take (unat ?next) ?es) = new @ drop k ?had"
    "map entry_content answer = map (\<lambda>b. (LT_revert, ?f b)) (take k ?had) @ map (\<lambda>a. (LT_apply, ?f a)) (rev new)"
    using round(5) by blast
  let ?P = "map ?f (rev (drop k ?had))" and ?Q = "map ?f (rev (take k ?had))" and ?Z = "map ?f (rev new)"
  have had: "in_force ?es (unat start) = ?P @ ?Q"
    unfolding in_force_def by (metis append_take_drop_id map_append rev_append)
  have has: "in_force ?es (unat ?next) = ?P @ ?Z" by (simp add: in_force_def k(3))
  have run: "ok_run (action_ok T) (spec_action T) (?P @ ?Q) spec_empty" "ok_run (action_ok T) (spec_action T) (?P @ ?Z) spec_empty"
    using sound log_atD(2) [OF at] log_atD(2) [OF round(2)] had has unfolding sound_log_def by metis+
  note inv = ok_run_invariant(1) [where I = head_wf, OF _ head_wf_empty spec_action_wf]
  let ?us = "take k answer" and ?vs = "drop k answer"
  have cu: "map entry_content ?us = map (\<lambda>b. (LT_revert, ?f b)) (take k ?had)" "map entry_content ?vs = map (\<lambda>a. (LT_apply, ?f a)) (rev new)"
    using k(1,4) by (simp_all add: take_map [symmetric] drop_map [symmetric])
  have good: "log_index m + 1 \<noteq> 0" if "m \<in> set answer" for m
  proof -
    obtain p where p: "p < length ?es" "log_index m = of_nat p" using round(6) [OF \<open>m \<in> set answer\<close>] by blast
    then have "Suc p < 2 ^ 64" using log_atD(1) [OF at] by linarith
    then have "unat (of_nat (Suc p) :: u64) = Suc p" by (rule unat_of_nat_u64)
    then show ?thesis using p(2) by (metis add.commute of_nat_Suc nat.distinct(1) unsigned_0)
  qed
  have us: "map log_action ?us = rev ?Q" "\<forall>m \<in> set ?us. log_index m + 1 \<noteq> 0 \<and> logging_type m = LT_revert"
  proof -
    have "map snd (map entry_content ?us) = rev ?Q" unfolding cu(1) by (simp add: rev_map comp_def)
    then show "map log_action ?us = rev ?Q" by (simp add: entry_content_def comp_def)
    have "map fst (map entry_content ?us) = map (\<lambda>_. LT_revert) (take k ?had)" unfolding cu(1) by (simp add: comp_def)
    then have "\<forall>t \<in> set (map fst (map entry_content ?us)). t = LT_revert" by auto
    then show "\<forall>m \<in> set ?us. log_index m + 1 \<noteq> 0 \<and> logging_type m = LT_revert"
      using good by (auto simp: entry_content_def dest: in_set_takeD)
  qed
  have vs: "map log_action ?vs = ?Z" "\<forall>m \<in> set ?vs. log_index m + 1 \<noteq> 0 \<and> logging_type m \<noteq> LT_revert"
  proof -
    have "map snd (map entry_content ?vs) = ?Z" unfolding cu(2) by (simp add: comp_def)
    then show "map log_action ?vs = ?Z" by (simp add: entry_content_def comp_def)
    have "map fst (map entry_content ?vs) = map (\<lambda>_. LT_apply) (rev new)" unfolding cu(2) by (simp add: comp_def)
    then have "\<forall>t \<in> set (map fst (map entry_content ?vs)). t = LT_apply" by auto
    then show "\<forall>m \<in> set ?vs. log_index m + 1 \<noteq> 0 \<and> logging_type m \<noteq> LT_revert"
      using good by (auto simp: entry_content_def dest: in_set_dropD)
  qed
  have undo: "sp_head (fold (spec_action T) ?P spec_empty) \<noteq> None" if "?Q \<noteq> []"
  proof -
    have "?had \<noteq> []" using that by auto
    then have start: "0 < unat start" by (cases "unat start") auto
    moreover have "0 < unat ?next" using start round(3) by (cases "answer = []") (auto simp: next_start_def)
    ultimately have "0 \<in> set (new @ drop k ?had)"
      using sound log_atD(2) [OF round(2)] unfolding sound_log_def k(3) [symmetric] by blast
    then have "?P \<noteq> []" using k(2) start by auto
    then show ?thesis using head_there run(1) by (simp add: ok_run_append)
  qed
  have stay: "sp_head s \<noteq> None \<Longrightarrow> action_ok T x s \<and> head_wf s \<Longrightarrow> sp_head (spec_action T x s) \<noteq> None" for x s
    by (simp add: spec_action_head split: logged_action.splits)
  have rel: "tracks E T N st (fold (spec_action T) (?P @ ?Q) spec_empty)"
    using st(1) unfolding log_spec_def had .
  from cm.replay [OF rel inv [OF run(1)] inv [OF run(2)] us vs undo stay] obtain st' where
    st': "fold_res (sync_action E) answer st = Inr st'" "tracks E T N st' (fold (spec_action T) (?P @ ?Z) spec_empty)" by auto
  show ?thesis
    using st' sync_actions_start [OF st'(1)] st(2) unfolding log_spec_def has by auto
qed

text \<open>C2: \<open>sync\<close> against a node that answers from its log returns, and the commander then represents
  exactly the actions in force: balances, account logs, storages, channels, blocks and head of the
  tracked accounts are what applying these actions alone, in their order, gives. It starts from a state
  that represents what was in force at its start index; entries that were reverted since are taken back. The
  log is faithful (reverts repeat what they revert), does not end in a revert, and the entries in force at any
  time are ones the commander can follow (\<open>sound_log\<close>): no authorisation update, no content that lists a unit
  twice, storage updates that change something, and amounts in range. Without these \<open>sync\<close> can
  throw: see C34 and C35.\<close>

theorem sync_exact:
  assumes "log_faithful (m_actions l)" "length (m_actions l) < 2 ^ 64" "sound_log T (m_actions l)"
    and "m_actions l = [] \<or> logging_type (last (m_actions l)) = LT_apply"
    and "unat (sy_start_index (snd st)) \<le> length (m_actions l)"
    and "tracks E T N st (log_spec T (m_actions l) (unat (sy_start_index (snd st))))"
  shows "\<exists>st'. sync E (\<lambda>start max_count. get_actions start max_count l) st = Some (Inr st')
    \<and> tracks E T N st' (log_spec T (m_actions l) (length (m_actions l)))"
proof -
  let ?node = "\<lambda>start max_count. get_actions start max_count l"
  have "\<exists>st'. sync E ?node st = Some (Inr st') \<and> tracks E T N st' (log_spec T (m_actions l) (length (m_actions l)))"
    if "log_at (m_actions l) (unat start)" "sy_start_index (snd st) = start" "tracks E T N st (log_spec T (m_actions l) (unat start))"
    for st start
    using that
  proof (induction "length (m_actions l) - unat start" arbitrary: start st rule: less_induct)
    case less
    let ?max = "sync_max_count"
    have lim: "response_limit ?max = 10000" "unat ?max = 10000"
      by (simp_all add: response_limit_def sync_max_count_def ACTION_LOG_MAX_RESPONSE_def)
    have "get_actions start ?max l \<noteq> Inl e" for e
    proof
      assume "get_actions start ?max l = Inl e"
      then have "unat start < length (m_actions l)"
        and "\<forall>p. unat start \<le> p \<and> p < length (m_actions l) \<longrightarrow> logging_type (m_actions l ! p) = LT_revert"
        using get_actions_cases [OF less.prems(1), of ?max] by auto
      moreover from calculation(1) have "unat start \<le> length (m_actions l) - 1 \<and> length (m_actions l) - 1 < length (m_actions l)" by linarith
      ultimately have "logging_type (m_actions l ! (length (m_actions l) - 1)) = LT_revert" "unat start < length (m_actions l)" by blast+
      then show False using assms(4) by (cases "m_actions l = []") (simp_all add: last_conv_nth)
    qed
    then obtain answer where ans: "get_actions start ?max l = Inr answer" by (cases "get_actions start ?max l") auto
    note round = get_actions_round [OF less.prems(1) ans]
    obtain st1 where st1: "fold_res (sync_action E) answer st = Inr st1" "sy_start_index (snd st1) = next_start start answer"
      "tracks E T N st1 (log_spec T (m_actions l) (unat (next_start start answer)))"
      using sync_round [OF less.prems(1) assms(3) ans less.prems(3,2)] by blast
    have run: "sync E ?node st = (if stack_size answer < unat ?max then Some (Inr st1) else sync E ?node st1)"
      using ans st1(1) less.prems(2) by (subst sync.simps) simp
    show ?case
    proof (cases "stack_size answer < unat ?max")
      case True
      then have "open_entries (take (unat (next_start start answer)) (m_actions l)) = open_entries (m_actions l)"
        using round(4) lim by simp
      then have "log_spec T (m_actions l) (unat (next_start start answer)) = log_spec T (m_actions l) (length (m_actions l))"
        by (simp add: log_spec_def in_force_def)
      then show ?thesis using run True st1(3) by simp
    next
      case False
      then have "answer \<noteq> []" using lim by auto
      then have "unat start < unat (next_start start answer)" by (rule round(3))
      then have "length (m_actions l) - unat (next_start start answer) < length (m_actions l) - unat start"
        using log_atD(2) [OF round(2)] by linarith
      from less.hyps [OF this round(2) st1(2,3)] show ?thesis using run False by simp
    qed
  qed
  then show ?thesis using assms by (simp add: log_at_def)
qed

text \<open>A commander that starts to import an account.\<close>

definition fresh_state :: "string \<Rightarrow> commander_state" where
  "fresh_state account =
     (\<lparr> rs_pv_key = [], rs_accounts = Map.empty, rs_blocks = [], rs_storages = Map.empty, rs_channels = Map.empty,
        rs_file_usage = Map.empty \<rparr>,
      \<lparr> sy_new_import = True, sy_set_accounts = [account], sy_start_index = 0, sy_head_block_index = 0,
        sy_transactions = (\<lambda>_. account_log_empty), sy_rewards = (\<lambda>_. account_log_empty) \<rparr>)"

lemma tracks_fresh: "x_public_key_ok E account \<Longrightarrow> tracks E [account] True (fresh_state account) spec_empty"
  by (simp add: tracks_def fresh_state_def spec_empty_def core_def keys_ok_def accounts_ok_def account_balance_def
      balance_val_def storages_of_def storage_of_def channels_of_def contents_of_def logs_of_def account_log_of_def
      account_log_empty_def index_of_def fun_eq_iff)

text \<open>A genesis block that gives alice 10 coins, a transfer that is reverted, and a block with another one.\<close>

definition sample_transfer_log :: "u64 \<Rightarrow> transaction_log" where
  "sample_transfer_log n = \<lparr> tl_fee = Coin 1 0, tl_time_signed = 0, tl_transaction_hash = [], tl_transaction_size = 1,
     tl_action = Transfer \<lparr> tf_from = ''alice'', tf_to = ''bob'', tf_amount = Coin n 0, tf_message = [] \<rparr> \<rparr>"

definition sample_block_log :: "u64 \<Rightarrow> transaction_log list \<Rightarrow> reward_log list \<Rightarrow> block_log" where
  "sample_block_log n transactions rs = \<lparr> bl_block_hash = [], bl_block_number = n, bl_time_signed = 0, bl_authority = ''miner'',
     bl_block_size = 1, bl_transactions = transactions, bl_rewards = rs, bl_unit_uri_impacts = [], bl_applied_sponsor_items = [] \<rparr>"

definition sample_actions :: "logged_transaction list" where
  "sample_actions =
     [\<lparr> logging_type = LT_apply, log_index = 0, log_action = Block_log (sample_block_log 0 []
          [\<lparr> rl_to = ''alice'', rl_amount = Coin 10 0, rl_reward_type = RT_initial \<rparr>]) \<rparr>,
      \<lparr> logging_type = LT_apply, log_index = 1, log_action = Transaction_log (sample_transfer_log 3) \<rparr>,
      \<lparr> logging_type = LT_revert, log_index = 1, log_action = Transaction_log (sample_transfer_log 3) \<rparr>,
      \<lparr> logging_type = LT_apply, log_index = 3, log_action = Block_log (sample_block_log 1 [sample_transfer_log 2] []) \<rparr>]"

lemma sample_info:
  "transaction_info (sample_transfer_log n) = Inr \<lparr> ti_from = ''alice'', ti_to = ''bob'', ti_amount = Coin n 0, ti_fee = Coin 1 0 \<rparr>"
  "the_info (sample_transfer_log n) = \<lparr> ti_from = ''alice'', ti_to = ''bob'', ti_amount = Coin n 0, ti_fee = Coin 1 0 \<rparr>"
  by (simp_all add: the_info_def transaction_info_def sample_transfer_log_def Let_def)

lemma sample_moves:
  "gain [''alice''] (the_info (sample_transfer_log 2)) ''miner'' = (\<lambda>_. 0)"
  "loss [''alice''] (the_info (sample_transfer_log 2)) = (\<lambda>k. if k = ''alice'' then 300000000 else 0)"
  by (auto simp: sample_info gain_def loss_def counted_def fun_eq_iff coin_val_def)

lemma sample_actions_sound: "sound_log [''alice''] sample_actions"
proof -
  have force: "in_force sample_actions 0 = []"
    "in_force sample_actions 1 = [log_action (sample_actions ! 0)]"
    "in_force sample_actions 2 = [log_action (sample_actions ! 0), log_action (sample_actions ! 1)]"
    "in_force sample_actions 3 = [log_action (sample_actions ! 0)]"
    "in_force sample_actions 4 = [log_action (sample_actions ! 0), log_action (sample_actions ! 3)]"
    by (simp_all add: in_force_def sample_actions_def open_entries_def stack_step_def numeral_nat)
  have genesis: "0 \<in> set (open_entries (take p sample_actions))" if "p \<in> {1, 2, 3, 4}" for p
    using that by (auto simp: sample_actions_def open_entries_def stack_step_def numeral_nat)
  have "length sample_actions = 4" by (simp add: sample_actions_def)
  then have p: "p \<in> {0, 1, 2, 3, 4}" if "p \<le> length sample_actions" for p using that by auto
  let ?s0 = spec_empty and ?s1 = "spec_action [''alice''] (log_action (sample_actions ! 0)) spec_empty"
  have s1: "sp_head ?s1 = Some 0" "sp_balance ?s1 = (\<lambda>k. if k = ''alice'' then 1000000000 else 0)"
    "sp_transactions ?s1 = (\<lambda>_. [])" "length (sp_rewards ?s1 a) \<le> 1" for a
    by (auto simp: sample_actions_def spec_action_def spec_block_def sample_block_log_def spec_empty_def spec_reward_def next_block_def
      reward_gain_def coin_val_def add_entry_def fun_eq_iff)
  have act: "tl_action (sample_transfer_log n) = Transfer \<lparr> tf_from = ''alice'', tf_to = ''bob'', tf_amount = Coin n 0, tf_message = [] \<rparr>" for n
    by (simp add: sample_transfer_log_def)
  have ok0: "action_ok [''alice''] (log_action (sample_actions ! 0)) ?s0"
    by (simp add: action_ok_def sample_actions_def sample_block_log_def next_block_def spec_empty_def rewards_ok_def with_block_def
      after_transactions_def block_rewards_def reward_gain_def coin_val_def coin_ok_def fractions_in_whole_def)
  have t: "transaction_ok [''alice''] a (\<lambda>_. 0) (sample_transfer_log n) s"
    if "sp_balance s = (\<lambda>k. if k = ''alice'' then 1000000000 else 0)" "sp_transactions s = (\<lambda>_. [])" "n \<in> {2, 3}" for a n s
    using that by (auto simp: transaction_ok_def sample_info act storage_ok_def process_channel_ok_def info_ok_def
      covered_by_def loss_def counted_def moved_def coin_val_def coin_ok_def fractions_in_whole_def Let_def)
  have ok1: "action_ok [''alice''] (log_action (sample_actions ! 1)) ?s1"
    using t [of ?s1 3] s1 by (simp add: action_ok_def sample_actions_def next_block_def)
  have ok3: "action_ok [''alice''] (log_action (sample_actions ! 3)) ?s1"
  proof -
    let ?bl = "sample_block_log 1 [sample_transfer_log 2] []"
    have bl: "bl_authority ?bl = ''miner''" "bl_transactions ?bl = [sample_transfer_log 2]" "bl_rewards ?bl = []"
      by (simp_all add: sample_block_log_def)
    have none: "block_rewards [''alice''] ?bl = (\<lambda>_. 0)" by (simp add: block_rewards_def bl fun_eq_iff)
    have "transaction_ok [''alice''] ''miner'' (\<lambda>_. 0) (sample_transfer_log 2) (with_block 1 ?bl ?s1)"
      using s1 by (intro t) (simp_all add: with_block_def)
    moreover have "length (sp_rewards ?s1 a) < 2 ^ 64" for a using s1(4) [of a] by (rule le_less_trans) simp
    moreover have "log_action (sample_actions ! 3) = Block_log ?bl" by (simp add: sample_actions_def)
    moreover have "sp_balance (spec_transaction [''alice''] 1 ''miner'' (sample_transfer_log 2) (with_block 1 ?bl ?s1)) k < val_limit" for k
    proof -
      have "sp_balance (with_block 1 ?bl ?s1) = sp_balance ?s1" by (simp add: with_block_def)
      then have "sp_balance (spec_transaction [''alice''] 1 ''miner'' (sample_transfer_log 2) (with_block 1 ?bl ?s1)) k
          = (if k = ''alice'' then 700000000 else 0)"
        by (simp add: spec_transaction_def sample_moves s1(2))
      then show ?thesis by simp
    qed
    moreover have "sp_rewards (spec_transaction [''alice''] 1 ''miner'' (sample_transfer_log 2) (with_block 1 ?bl ?s1)) = sp_rewards ?s1"
      by (simp add: spec_transaction_def with_block_def)
    moreover have "next_block ?s1 = 1" using s1(1) by (simp add: next_block_def)
    ultimately show ?thesis using s1(2)
      by (simp add: action_ok_def bl none rewards_ok_def after_transactions_def)
  qed
  have ok: "ok_run (action_ok [''alice'']) (spec_action [''alice'']) (in_force sample_actions p) spec_empty" if "p \<in> {0, 1, 2, 3, 4}" for p
    using that ok0 ok1 ok3 by (elim insertE) (simp_all only: force ok_run.simps simp_thms empty_iff)
  show ?thesis
    unfolding sound_log_def
  proof (intro allI impI conjI)
    fix p assume "p \<le> length sample_actions"
    then have p: "p \<in> {0, 1, 2, 3, 4}" by (rule p)
    then show "ok_run (action_ok [''alice'']) (spec_action [''alice'']) (in_force sample_actions p) spec_empty" by (rule ok)
    assume "0 < p"
    then have "p \<in> {1, 2, 3, 4}" using p by simp
    then show "0 \<in> set (open_entries (take p sample_actions))" by (rule genesis)
  qed
qed

theorem sync_exact_witness:
  "\<exists>st'. sync sample_ext (\<lambda>start max_count. get_actions start max_count (al_init sample_actions True)) (fresh_state ''alice'') = Some (Inr st')
     \<and> balance_val (rs_accounts (fst st')) ''alice'' = 700000000 \<and> sy_head_block_index (snd st') = 1
     \<and> ag_entries (sy_transactions (snd st') ''alice'') = [sample_transfer_log 2]"
proof -
  let ?l = "al_init sample_actions True"
  have es: "m_actions ?l = sample_actions" by (simp add: al_init_def)
  have faithful: "log_faithful sample_actions"
    by (simp add: log_faithful_def sample_actions_def All_less_Suc entry_faithful_def open_entries_def stack_step_def numeral_nat)
  have len: "length sample_actions = 4" "logging_type (last sample_actions) = LT_apply" by (simp_all add: sample_actions_def)
  have fresh: "tracks sample_ext [''alice''] True (fresh_state ''alice'') (log_spec [''alice''] sample_actions (unat (sy_start_index (snd (fresh_state ''alice'')))))"
    using tracks_fresh [of sample_ext "''alice''"] by (simp add: fresh_state_def log_spec_def in_force_def sample_ext_def)
  obtain st' where st': "sync sample_ext (\<lambda>start max_count. get_actions start max_count ?l) (fresh_state ''alice'') = Some (Inr st')"
    "tracks sample_ext [''alice''] True st' (log_spec [''alice''] sample_actions 4)"
    using sync_exact [of ?l "[''alice'']" "fresh_state ''alice''" sample_ext True] faithful len sample_actions_sound fresh
    unfolding es by (auto simp: fresh_state_def)
  have force: "in_force sample_actions 4 = [log_action (sample_actions ! 0), log_action (sample_actions ! 3)]"
    by (simp add: in_force_def sample_actions_def open_entries_def stack_step_def numeral_nat)
  let ?s = "log_spec [''alice''] sample_actions 4"
  have "?s = spec_action [''alice''] (log_action (sample_actions ! 3)) (spec_action [''alice''] (log_action (sample_actions ! 0)) spec_empty)"
    by (simp add: log_spec_def force)
  also have "\<dots> = spec_action [''alice''] (Block_log (sample_block_log 1 [sample_transfer_log 2] []))
      (spec_action [''alice''] (Block_log (sample_block_log 0 [] [\<lparr> rl_to = ''alice'', rl_amount = Coin 10 0, rl_reward_type = RT_initial \<rparr>])) spec_empty)"
    by (simp add: sample_actions_def)
  finally have spec: "?s = \<dots>" .
  have "sp_balance ?s ''alice'' = 700000000"
    unfolding spec by (simp add: sample_block_log_def spec_action_def spec_block_def spec_empty_def next_block_def
      spec_transaction_def spec_reward_def reward_gain_def coin_val_def sample_moves)
  moreover have "sp_head ?s = Some 1" "sp_transactions ?s ''alice'' = [(1, sample_transfer_log 2)]"
    unfolding spec by (simp_all add: sample_block_log_def spec_action_def spec_block_def spec_empty_def next_block_def
      spec_transaction_def spec_reward_def add_entry_def touched_def sample_info)
  ultimately show ?thesis using st' by (cases st') (auto simp: tracks_def core_def logs_of_def account_log_of_def)
qed

section \<open>A unit listed twice\<close>

lemma take_unit_unknown:
  assumes "history_of vs t h" "latest uri (vs, t) = None"
  shows "\<exists>e. take_unit uri (h, new_units) = Inl e"
proof -
  have "find (\<lambda>v. map_of v uri \<noteq> None) (t # rev vs) = None"
    using assms(2) by (auto simp: latest_None_iff find_None_iff)
  then have "find (\<lambda>c. map_of (hc_content_units c) uri \<noteq> None) (rev h) = None"
    using history_of_find [OF assms(1), of uri] by simp
  then show ?thesis by (simp add: take_unit_def)
qed

lemma take_units_unknown:
  assumes "history_of vs t h" "latest uri (vs, t) = None" "uri \<in> set uris"
  shows "\<exists>e. fold_res take_unit uris (h, new_units) = Inl e"
  using assms
proof (induction uris arbitrary: h t new_units)
  case (Cons u uris)
  show ?case
  proof (cases "latest u (vs, t)")
    case None
    then obtain e where "take_unit u (h, new_units) = Inl e" using take_unit_unknown [OF Cons.prems(1)] by blast
    then show ?thesis by simp
  next
    case (Some x)
    then obtain h' where h': "take_unit u (h, new_units) = Inr (h', omap_set u x new_units)" "history_of vs (omap_erase u t) h'"
      using take_unit_step [OF Cons.prems(1)] by blast
    have "u \<noteq> uri" using Cons.prems(2) Some by auto
    then have "latest uri (vs, omap_erase u t) = None" "uri \<in> set uris"
      using Cons.prems(2,3) by (auto simp: latest_None_iff)
    then show ?thesis using Cons.IH [OF h'(2)] h'(1) by simp
  qed
qed simp

lemma take_units_repeated:
  assumes "content_wf (vs, t)" "history_of vs t h" "map_of t uri \<noteq> None" "2 \<le> count_list uris uri"
  shows "\<exists>e. fold_res take_unit uris (h, new_units) = Inl e"
  using assms
proof (induction uris arbitrary: h t new_units)
  case (Cons u uris)
  show ?case
  proof (cases "latest u (vs, t)")
    case None
    then obtain e where "take_unit u (h, new_units) = Inl e" using take_unit_unknown [OF Cons.prems(2)] by blast
    then show ?thesis by simp
  next
    case (Some x)
    then obtain h' where h': "take_unit u (h, new_units) = Inr (h', omap_set u x new_units)" "history_of vs (omap_erase u t) h'"
      using take_unit_step [OF Cons.prems(2)] by blast
    show ?thesis
    proof (cases "u = uri")
      case True
      then have "uri \<in> set uris" using Cons.prems(4) by (metis count_list.simps(2) count_notin not_less_eq_eq numeral_2_eq_2 zero_le One_nat_def add_0 not_one_le_zero plus_1_eq_Suc Suc_le_mono)
      moreover have "latest uri (vs, omap_erase u t) = None"
      proof -
        have "\<forall>v \<in> set vs. map_of v uri = None"
          using Cons.prems(1,3) by (fastforce simp: content_wf_def)
        then show ?thesis using True by (simp add: latest_None_iff)
      qed
      ultimately show ?thesis using take_units_unknown [OF h'(2)] h'(1) by simp
    next
      case False
      have "content_wf (vs, omap_erase u t)" using Cons.prems(1) by (auto simp: content_wf_def)
      then show ?thesis using Cons.IH [OF _ h'(2)] Cons.prems(3,4) False h'(1) by simp
    qed
  qed
qed simp

lemma units_match_set:
  "set uris = set uris' \<Longrightarrow> units_match c d uris = Inr True \<longleftrightarrow> units_match c d uris' = Inr True"
proof -
  have "units_match c d uris = Inr True \<longleftrightarrow> (\<forall>uri \<in> set uris. \<exists>u. get_unit uri d = Inr u
      \<and> cu_channel_address u = ct_channel_address c \<and> cu_content_id u = ct_content_id c)" for uris
    by (induction uris) (auto simp: result_simps)
  then show "set uris = set uris' \<Longrightarrow> ?thesis" by simp
qed

text \<open>C35: a content that lists a unit twice is as good for the node as one that lists it once, but a
  commander that knows the unit as waiting for approval throws: it never gets past this entry of the log.\<close>

theorem repeated_unit_stops_commander:
  assumes "set_order_ok E" "represents h (vs, t)" "map_of t uri \<noteq> None" "2 \<le> count_list uris uri"
  shows "(content_can_apply E st (c\<lparr>ct_content_unit_uris := uris\<rparr>) layer n = Inr True
      \<longleftrightarrow> content_can_apply E st (c\<lparr>ct_content_unit_uris := remdups uris\<rparr>) layer n = Inr True)
    \<and> (\<exists>e. approve_history uris h = Inl e)"
proof
  have h: "content_wf (vs, t)" "history_of vs t h" using assms(2) by (simp_all add: represents_def)
  obtain e where "fold_res take_unit uris (h, []) = Inl e" using take_units_repeated [OF h assms(3,4)] by blast
  then show "\<exists>e. approve_history uris h = Inl e" by (simp add: approve_history_def throw_if_def)
  have exist: "fst (units_exist (x_set_order E uris) d) = fst (units_exist (x_set_order E (remdups uris)) d)" for d
    using assms(1) by (simp add: units_exist_iff set_order_ok_def)
  have "units_match (c\<lparr>ct_content_unit_uris := us\<rparr>) d xs = units_match c d xs" for us d xs
    by (induction xs) (simp_all cong: if_cong)
  then show "content_can_apply E st (c\<lparr>ct_content_unit_uris := uris\<rparr>) layer n = Inr True
      \<longleftrightarrow> content_can_apply E st (c\<lparr>ct_content_unit_uris := remdups uris\<rparr>) layer n = Inr True"
    using exist units_match_set [of uris "remdups uris" c] by (auto simp: content_can_apply_def result_simps split: if_splits)
qed

theorem repeated_unit_stops_commander_witness:
  "let u = \<lparr> cn_author_addresses = [], cn_file_uris = [] \<rparr>
   in \<exists>e. approve_history [''u'', ''u''] [\<lparr> hc_approved = False, hc_content_units = [(''u'', u)] \<rparr>] = Inl e"
proof -
  let ?u = "\<lparr> cn_author_addresses = [], cn_file_uris = [] \<rparr>"
  have "represents [\<lparr> hc_approved = False, hc_content_units = [(''u'', ?u)] \<rparr>] ([], [(''u'', ?u)])"
    by (simp add: represents_def content_wf_def history_of_def waiting_def omap_ok_def)
  from repeated_unit_stops_commander [OF set_order_ok_sample this, of "''u''" "[''u'', ''u'']"] show ?thesis by simp
qed

end
