(* ===== verification/Account_History.thy ===== *)
theory Account_History
  imports Commander_Sync
begin

text \<open>
  The history of an account and its confirmed balance: \<open>get_history\<close> and
  \<open>AccountResponseFromRawAccount\<close> of commander/rpc.cpp with \<open>range_break\<close> of rpc.hpp. The five loops
  of \<open>get_history\<close> are shown to visit the blocks in ascending order, the transactions of a block before
  its rewards, and the confirmed balance to be what the blocks alone say.
\<close>

section \<open>Items of a history\<close>

datatype history_item_type =
  Item_received | Item_received_fee | Item_sent | Item_sent_fee | Item_sponsored | Item_rewarded

text \<open>The \<open>Object details\<close> of an item. The reward types of the two modules have the same order, so
  the \<open>static_cast\<close> between them keeps the name.\<close>

datatype history_details =
    AccountHistoryReceived (ah_from: string) (ah_message: string) (ah_transaction_hash: string)
  | AccountHistoryReceivedFee (ah_from: string) (ah_transaction_hash: string)
  | AccountHistorySent (ah_to: string) (ah_message: string) (ah_transaction_hash: string)
  | AccountHistorySentFee (ah_to: string) (ah_transaction_hash: string)
  | AccountHistorySponsored (ah_uri: string) (ah_transaction_hash: string) (ah_start: time) (ah_end: time)
  | AccountHistoryRewarded (ah_reward_type: reward_type)

record history_item =
  hi_block_index :: u64
  hi_confirmations :: u64
  hi_item_type :: history_item_type
  hi_timestamp :: time
  hi_amount :: coin
  hi_details :: history_details

definition make_item ::
  "u64 \<Rightarrow> u64 \<Rightarrow> history_item_type \<Rightarrow> time \<Rightarrow> coin \<Rightarrow> history_details \<Rightarrow> history_item" where
  "make_item head_block_index block_index item_type tm amount details =
     \<lparr> hi_block_index = block_index, hi_confirmations = head_block_index - block_index + 1, hi_item_type = item_type,
       hi_timestamp = tm, hi_amount = amount, hi_details = details \<rparr>"

text \<open>\<open>for (index = first; index != first + second; ++index)\<close>: the loop counts through the words.\<close>

definition counter_range :: "u64 \<Rightarrow> u64 \<Rightarrow> u64 list" where
  "counter_range start stop = map (\<lambda>i. start + of_nat i) [0..<unat (stop - start)]"

text \<open>A vector loader throws when the index is not there.\<close>

definition vector_at :: "u64 \<Rightarrow> 'a list \<Rightarrow> 'a res" where
  "vector_at i xs = (if unat i < length xs then Inr (xs ! unat i) else Inl External_error)"

text \<open>The entries of a block, read through the index.\<close>

definition for_block :: "u64 \<Rightarrow> ('a \<Rightarrow> history_item list res) \<Rightarrow> 'a account_log \<Rightarrow> history_item list \<Rightarrow> history_item list res" where
  "for_block block_index items l result =
     (case ag_index l (to_string_u64 block_index) of
        None \<Rightarrow> Inl External_error
      | Some (first, second) \<Rightarrow>
          fold_res (\<lambda>index result. bind_res (vector_at index (ag_entries l)) (\<lambda>x.
              bind_res (items x) (\<lambda>new. Inr (result @ new))))
            (counter_range first (first + second)) result)"

definition reward_items :: "u64 \<Rightarrow> u64 \<Rightarrow> block_info list \<Rightarrow> reward_log \<Rightarrow> history_item list res" where
  "reward_items head_block_index block_index blocks r =
     bind_res (vector_at block_index blocks) (\<lambda>b.
       Inr [make_item head_block_index block_index Item_rewarded (bi_time_signed b) (rl_amount r)
              (AccountHistoryRewarded (rl_reward_type r))])"

definition process_history_rewards ::
  "u64 \<Rightarrow> u64 \<Rightarrow> reward_log account_log \<Rightarrow> block_info list \<Rightarrow> history_item list \<Rightarrow> history_item list res" where
  "process_history_rewards head_block_index block_index reward_logs blocks =
     for_block block_index (reward_items head_block_index block_index blocks) reward_logs"

definition action_items :: "u64 \<Rightarrow> u64 \<Rightarrow> string \<Rightarrow> transaction_log \<Rightarrow> history_item list" where
  "action_items head_block_index block_index address log =
     (let item = \<lambda>t. make_item head_block_index block_index t (tl_time_signed log); hash = tl_transaction_hash log
      in case tl_action log of
        Transfer tf \<Rightarrow>
          (if tf_to tf = address
           then [item Item_received (tf_amount tf) (AccountHistoryReceived (tf_from tf) (tf_message tf) hash)] else [])
          @ (if tf_from tf = address
             then [item Item_sent (tf_amount tf) (AccountHistorySent (tf_to tf) (tf_message tf) hash)] else [])
      | SponsorContentUnit scu \<Rightarrow>
          (if sp_sponsor_address scu = address
           then [item Item_sponsored (sp_amount scu) (AccountHistorySponsored (sp_uri scu) hash (sp_start_time_point scu)
                   (sp_start_time_point scu + sint (sp_hours scu) * 3600))] else [])
      | _ \<Rightarrow> [])"

definition fee_items :: "u64 \<Rightarrow> u64 \<Rightarrow> string \<Rightarrow> string \<Rightarrow> transaction_log \<Rightarrow> history_item list res" where
  "fee_items head_block_index block_index address authority log =
     (let item = \<lambda>t. make_item head_block_index block_index t (tl_time_signed log); hash = tl_transaction_hash log
      in bind_res (transaction_info log) (\<lambda>info.
        Inr ((if ti_from info = address \<and> tl_fee log \<noteq> coin_zero
              then [item Item_sent_fee (tl_fee log) (AccountHistorySentFee authority hash)] else [])
           @ (if authority = address \<and> tl_fee log \<noteq> coin_zero
              then [item Item_received_fee (tl_fee log) (AccountHistoryReceivedFee (ti_from info) hash)] else []))))"

definition block_authority :: "u64 \<Rightarrow> block_info list \<Rightarrow> string" where
  "block_authority block_index blocks =
     (if length blocks > unat block_index then bi_authority (blocks ! unat block_index) else [])"

definition transaction_items :: "u64 \<Rightarrow> u64 \<Rightarrow> string \<Rightarrow> block_info list \<Rightarrow> transaction_log \<Rightarrow> history_item list res" where
  "transaction_items head_block_index block_index address blocks log =
     bind_res (fee_items head_block_index block_index address (block_authority block_index blocks) log) (\<lambda>fees.
       Inr (action_items head_block_index block_index address log @ fees))"

definition process_history_transactions ::
  "u64 \<Rightarrow> u64 \<Rightarrow> string \<Rightarrow> transaction_log account_log \<Rightarrow> block_info list \<Rightarrow> history_item list \<Rightarrow> history_item list res" where
  "process_history_transactions head_block_index block_index address transaction_logs blocks =
     for_block block_index (transaction_items head_block_index block_index address blocks) transaction_logs"

section \<open>The order of the blocks\<close>

text \<open>\<open>range_break\<close> of rpc.hpp: every range excludes its end.\<close>

record history_ranges =
  rw1 :: "u64 \<times> u64"
  tx1 :: "u64 \<times> u64"
  rwtx :: "u64 \<times> u64"
  rw2 :: "u64 \<times> u64"
  tx2 :: "u64 \<times> u64"

definition range_break :: "u64 \<Rightarrow> u64 \<Rightarrow> u64 \<Rightarrow> u64 \<Rightarrow> history_ranges" where
  "range_break rw_min rw_max tx_min tx_max =
     (let none = \<lparr> rw1 = (0, 0), tx1 = (0, 0), rwtx = (0, 0), rw2 = (0, 0), tx2 = (0, 0) \<rparr>
      in if rw_max \<le> tx_min then none\<lparr>rw1 := (rw_min, rw_max), tx2 := (tx_min, tx_max)\<rparr>
         else if tx_max \<le> rw_min then none\<lparr>tx1 := (tx_min, tx_max), rw2 := (rw_min, rw_max)\<rparr>
         else \<lparr> rw1 = (if rw_min < tx_min then (rw_min, tx_min) else (0, 0)),
                tx1 = (if tx_min < rw_min then (tx_min, rw_min) else (0, 0)),
                rwtx = (max rw_min tx_min, min rw_max tx_max),
                rw2 = (if rw_max > tx_max then (tx_max, rw_max) else (0, 0)),
                tx2 = (if tx_max > rw_max then (rw_max, tx_max) else (0, 0)) \<rparr>)"

text \<open>\<open>std::set<uint64_t>\<close>: a strictly ascending list. The keys of an index in the order of the loader,
  and \<open>beltpp::stoui64\<close>, which reads a decimal number, are parameters.\<close>

definition in_window :: "u64 \<Rightarrow> u64 \<Rightarrow> u64 \<Rightarrow> bool" where
  "in_window first count block_index \<longleftrightarrow> block_index \<ge> first
     \<and> (block_index < first + count \<or> first > first + count)"

record log_reader =
  lr_keys :: "(string \<rightharpoonup> u64 \<times> u64) \<Rightarrow> string list"
  lr_stoui64 :: "string \<Rightarrow> u64"

definition block_set :: "log_reader \<Rightarrow> u64 \<Rightarrow> u64 \<Rightarrow> 'a account_log \<Rightarrow> u64 list" where
  "block_set R first count l =
     sort (remdups (filter (in_window first count) (map (lr_stoui64 R) (lr_keys R (ag_index l)))))"

definition set_bounds :: "u64 list \<Rightarrow> u64 \<times> u64" where
  "set_bounds xs = (if xs = [] then (0, 0) else (hd xs, last xs + 1))"

datatype visit = Visit_tx u64 | Visit_rw u64

definition history_visits :: "u64 list \<Rightarrow> u64 list \<Rightarrow> visit list" where
  "history_visits set_tx set_rw =
     (let R = range_break (fst (set_bounds set_rw)) (snd (set_bounds set_rw)) (fst (set_bounds set_tx)) (snd (set_bounds set_tx));
          range = \<lambda>(start, stop). counter_range start stop;
          tx = \<lambda>i. if i \<in> set set_tx then [Visit_tx i] else [];
          rw = \<lambda>i. if i \<in> set set_rw then [Visit_rw i] else []
      in concat (map tx (range (tx1 R))) @ concat (map rw (range (rw1 R)))
         @ concat (map (\<lambda>i. tx i @ rw i) (range (rwtx R)))
         @ concat (map tx (range (tx2 R))) @ concat (map rw (range (rw2 R))))"

definition process_visit ::
  "u64 \<Rightarrow> string \<Rightarrow> transaction_log account_log \<Rightarrow> reward_log account_log \<Rightarrow> block_info list \<Rightarrow> visit \<Rightarrow> history_item list \<Rightarrow> history_item list res" where
  "process_visit head_block_index address transaction_logs reward_logs blocks v =
     (case v of Visit_tx i \<Rightarrow> process_history_transactions head_block_index i address transaction_logs blocks
      | Visit_rw i \<Rightarrow> process_history_rewards head_block_index i reward_logs blocks)"

definition get_history ::
  "log_reader \<Rightarrow> u64 \<Rightarrow> u64 \<Rightarrow> u64 \<Rightarrow> string \<Rightarrow> commander_state \<Rightarrow> history_item list res" where
  "get_history R head_block_index first count address = (\<lambda>(rs, sy).
     let transaction_logs = sy_transactions sy address; reward_logs = sy_rewards sy address;
         set_tx = block_set R first count transaction_logs;
         set_rw = block_set R first count reward_logs
     in fold_res (process_visit head_block_index address transaction_logs reward_logs (rs_blocks rs))
          (history_visits set_tx set_rw) [])"

section \<open>The confirmed balance\<close>

definition incoming :: "history_item_type \<Rightarrow> bool" where
  "incoming t \<longleftrightarrow> t \<in> {Item_received, Item_received_fee, Item_rewarded}"

definition unconfirmed_step :: "history_item \<Rightarrow> coin \<times> coin \<Rightarrow> (coin \<times> coin) res" where
  "unconfirmed_step item = (\<lambda>(unconfirmed_sent, unconfirmed_received).
     if hi_confirmations item = 0
     then bind_res (coin_new (whole (hi_amount item)) (fraction (hi_amount item))) (\<lambda>temp.
       Inr (if incoming (hi_item_type item) then (unconfirmed_sent, coin_plus unconfirmed_received temp)
            else (coin_plus unconfirmed_sent temp, unconfirmed_received)))
     else Inr (unconfirmed_sent, unconfirmed_received))"

record account_response =
  ar_address :: string
  ar_balance :: coin
  ar_confirmed_balance :: coin
  ar_unconfirmed_sent :: coin
  ar_unconfirmed_received :: coin

definition AccountResponseFromRawAccount ::
  "log_reader \<Rightarrow> u64 \<Rightarrow> string \<Rightarrow> coin \<Rightarrow> commander_state \<Rightarrow> account_response res" where
  "AccountResponseFromRawAccount R head_index address balance st =
     bind_res (get_history R head_index head_index 2 address st) (\<lambda>history.
     bind_res (fold_res unconfirmed_step history (coin_zero, coin_zero)) (\<lambda>(unconfirmed_sent, unconfirmed_received).
     bind_res (coin_new (whole balance) (fraction balance)) (\<lambda>confirmed_balance.
     bind_res (coin_minus (coin_plus confirmed_balance unconfirmed_sent) unconfirmed_received) (\<lambda>confirmed_balance.
       Inr \<lparr> ar_address = address, ar_balance = balance, ar_confirmed_balance = confirmed_balance,
             ar_unconfirmed_sent = unconfirmed_sent, ar_unconfirmed_received = unconfirmed_received \<rparr>))))"

section \<open>The blocks are visited in ascending order\<close>

text \<open>What a loop over the blocks from \<open>m\<close> to \<open>n\<close> visits.\<close>

definition span :: "(u64 \<Rightarrow> visit list) \<Rightarrow> nat \<Rightarrow> nat \<Rightarrow> visit list" where
  "span f m n = concat (map (\<lambda>i. f (of_nat i)) [m..<n])"

lemma span_append: "m \<le> n \<Longrightarrow> n \<le> k \<Longrightarrow> span f m k = span f m n @ span f n k"
proof -
  assume "m \<le> n" "n \<le> k"
  then have "[m..<k] = [m..<n] @ [n..<k]" using upt_add_eq_append [of m n "k - n"] by simp
  then show ?thesis by (simp add: span_def)
qed

lemma span_cong: "(\<And>i. m \<le> i \<Longrightarrow> i < n \<Longrightarrow> f (of_nat i) = g (of_nat i)) \<Longrightarrow> span f m n = span g m n"
  by (auto simp: span_def intro!: arg_cong [where f = concat])

lemma span_Nil: "(\<And>i. m \<le> i \<Longrightarrow> i < n \<Longrightarrow> f (of_nat i) = []) \<Longrightarrow> span f m n = []"
  by (auto simp: span_def)

lemma counter_range_upt:
  assumes "unat a \<le> unat b"
  shows "counter_range a b = map of_nat [unat a..<unat b]"
proof -
  have "unat (b - a) = unat b - unat a" using assms by (simp add: unat_sub word_le_nat_alt)
  moreover have "[unat a..<unat b] = map (\<lambda>i. i + unat a) [0..<unat b - unat a]" using assms by (simp add: map_add_upt)
  ultimately show ?thesis by (simp add: counter_range_def add.commute)
qed

lemma concat_counter_range: "unat a \<le> unat b \<Longrightarrow> concat (map f (counter_range a b)) = span f (unat a) (unat b)"
  by (simp add: counter_range_upt span_def comp_def)

lemma set_bounds:
  assumes "sorted_wrt (<) xs" "\<forall>x \<in> set xs. Suc (unat x) < 2 ^ 64"
  shows "unat (fst (set_bounds xs)) \<le> unat (snd (set_bounds xs))"
    and "x \<in> set xs \<Longrightarrow> unat (fst (set_bounds xs)) \<le> unat x \<and> unat x < unat (snd (set_bounds xs))"
proof -
  have *: "unat (fst (set_bounds xs)) \<le> unat x \<and> unat x < unat (snd (set_bounds xs))" if x: "x \<in> set xs" for x
  proof -
    have ne: "xs \<noteq> []" using x by auto
    have "unat (last xs + 1) = Suc (unat (last xs))"
    proof -
      have "last xs + 1 = of_nat (Suc (unat (last xs)))" by (simp add: add.commute)
      moreover have "Suc (unat (last xs)) < 2 ^ 64" using assms(2) ne by simp
      ultimately show ?thesis using unat_of_nat_u64 by metis
    qed
    moreover have "hd xs \<le> x" using x assms(1) ne by (cases xs) auto
    moreover have "x \<le> last xs"
    proof -
      have "xs = butlast xs @ [last xs]" using ne by simp
      then have "x \<in> set (butlast xs) \<or> x = last xs" "sorted_wrt (<) (butlast xs @ [last xs])"
        using x assms(1) by (metis Un_iff empty_iff empty_set insert_iff list.simps(15) set_append, metis)
      then show ?thesis by (auto simp: sorted_wrt_append)
    qed
    ultimately show ?thesis using ne by (simp add: set_bounds_def word_le_nat_alt)
  qed
  show "x \<in> set xs \<Longrightarrow> unat (fst (set_bounds xs)) \<le> unat x \<and> unat x < unat (snd (set_bounds xs))" by (rule *)
  show "unat (fst (set_bounds xs)) \<le> unat (snd (set_bounds xs))"
  proof (cases xs)
    case (Cons y ys)
    then show ?thesis using * [of y] by simp
  qed (simp add: set_bounds_def)
qed

definition tx_visits :: "u64 list \<Rightarrow> u64 \<Rightarrow> visit list" where
  "tx_visits A i = (if i \<in> set A then [Visit_tx i] else [])"

definition rw_visits :: "u64 list \<Rightarrow> u64 \<Rightarrow> visit list" where
  "rw_visits B i = (if i \<in> set B then [Visit_rw i] else [])"

lemma history_visits_span:
  assumes A: "sorted_wrt (<) A" "\<forall>x \<in> set A. Suc (unat x) < 2 ^ 64"
    and B: "sorted_wrt (<) B" "\<forall>x \<in> set B. Suc (unat x) < 2 ^ 64"
  shows "history_visits A B = span (\<lambda>i. tx_visits A i @ rw_visits B i) 0 (2 ^ 64)"
proof -
  obtain a0 a1 b0 b1 where ab: "set_bounds A = (a0, a1)" "set_bounds B = (b0, b1)" by fastforce
  let ?tx = "tx_visits A" and ?rw = "rw_visits B" and ?both = "\<lambda>i. tx_visits A i @ rw_visits B i"
  let ?a0 = "unat a0" and ?a1 = "unat a1" and ?b0 = "unat b0" and ?b1 = "unat b1"
  have le: "?a0 \<le> ?a1" "?b0 \<le> ?b1" using set_bounds(1) [OF A] set_bounds(1) [OF B] ab by simp_all
  have lim: "?a1 < 2 ^ 64" "?b1 < 2 ^ 64" by (rule unat_u64_less)+
  have tx0: "?tx (of_nat i) = []" if "i < ?a0 \<or> ?a1 \<le> i" "i < 2 ^ 64" for i
    using set_bounds(2) [OF A, of "of_nat i"] that unat_of_nat_u64 [of i] ab by (fastforce simp: tx_visits_def)
  have rw0: "?rw (of_nat i) = []" if "i < ?b0 \<or> ?b1 \<le> i" "i < 2 ^ 64" for i
    using set_bounds(2) [OF B, of "of_nat i"] that unat_of_nat_u64 [of i] ab by (fastforce simp: rw_visits_def)
  have tx: "span ?both m n = span ?tx m n" if "n \<le> ?b0 \<or> ?b1 \<le> m" "n \<le> 2 ^ 64" for m n
    using that by (intro span_cong) (auto simp: rw0)
  have rw: "span ?both m n = span ?rw m n" if "n \<le> ?a0 \<or> ?a1 \<le> m" "n \<le> 2 ^ 64" for m n
    using that by (intro span_cong) (auto simp: tx0)
  have nil: "span ?both m n = []" if "n \<le> min ?a0 ?b0 \<or> max ?a1 ?b1 \<le> m \<or> n \<le> ?a0 \<and> ?b1 \<le> m \<or> n \<le> ?b0 \<and> ?a1 \<le> m" "n \<le> 2 ^ 64" for m n
    using that by (intro span_Nil) (auto simp: tx0 rw0)
  have split: "span ?both 0 (2 ^ 64) = span ?both 0 i @ span ?both i j @ span ?both j k @ span ?both k l @ span ?both l (2 ^ 64)"
    if "i \<le> j" "j \<le> k" "k \<le> l" "l \<le> 2 ^ 64" for i j k l
  proof -
    have "i \<le> 2 ^ 64" "j \<le> 2 ^ 64" "k \<le> 2 ^ 64" using that by simp_all
    then show ?thesis
      using that by (simp only: span_append [of 0 i "2 ^ 64" ?both] span_append [of i j "2 ^ 64" ?both]
        span_append [of j k "2 ^ 64" ?both] span_append [of k l "2 ^ 64" ?both] le0)
  qed
  have visits: "history_visits A B = (let R = range_break b0 b1 a0 a1; range = \<lambda>(start, stop). counter_range start stop
      in concat (map ?tx (range (tx1 R))) @ concat (map ?rw (range (rw1 R))) @ concat (map ?both (range (rwtx R)))
         @ concat (map ?tx (range (tx2 R))) @ concat (map ?rw (range (rw2 R))))"
  proof -
    have "(\<lambda>i. if i \<in> set A then [Visit_tx i] else []) = ?tx" "(\<lambda>i. if i \<in> set B then [Visit_rw i] else []) = ?rw"
      "(\<lambda>i. (if i \<in> set A then [Visit_tx i] else []) @ (if i \<in> set B then [Visit_rw i] else [])) = ?both"
      by (simp_all add: fun_eq_iff tx_visits_def rw_visits_def)
    then show ?thesis by (simp only: history_visits_def ab fst_conv snd_conv Let_def)
  qed
  have empty: "counter_range 0 0 = []" by (simp add: counter_range_def)
  consider "?b1 \<le> ?a0" | "\<not> ?b1 \<le> ?a0" "?a1 \<le> ?b0" | "?a0 < ?b1" "?b0 < ?a1" by linarith
  then show ?thesis
  proof cases
    case 1
    then have "history_visits A B = span ?rw ?b0 ?b1 @ span ?tx ?a0 ?a1"
      using le by (simp add: visits range_break_def word_le_nat_alt empty concat_counter_range)
    then show ?thesis using split [of ?b0 ?b1 ?a0 ?a1] 1 le lim
      by (simp add: tx [of ?a1 ?a0] rw [of ?b1 ?b0] nil)
  next
    case 2
    then have "history_visits A B = span ?tx ?a0 ?a1 @ span ?rw ?b0 ?b1"
      using le by (simp add: visits range_break_def word_le_nat_alt empty concat_counter_range)
    then show ?thesis using split [of ?a0 ?a1 ?b0 ?b1] 2 le lim
      by (simp add: tx [of ?a1 ?a0] rw [of ?b1 ?b0] nil)
  next
    case 3
    have "range_break b0 b1 a0 a1 = \<lparr> rw1 = (if ?b0 < ?a0 then (b0, a0) else (0, 0)), tx1 = (if ?a0 < ?b0 then (a0, b0) else (0, 0)),
        rwtx = (max b0 a0, min b1 a1), rw2 = (if ?b1 > ?a1 then (a1, b1) else (0, 0)), tx2 = (if ?a1 > ?b1 then (b1, a1) else (0, 0)) \<rparr>"
      using 3 by (simp add: range_break_def word_le_nat_alt word_less_nat_alt)
    moreover have m: "unat (max b0 a0) = max ?b0 ?a0" "unat (min b1 a1) = min ?b1 ?a1"
      by (simp_all add: max_def min_def word_le_nat_alt)
    ultimately have "history_visits A B = (if ?a0 < ?b0 then span ?tx ?a0 ?b0 else []) @ (if ?b0 < ?a0 then span ?rw ?b0 ?a0 else [])
        @ span ?both (max ?b0 ?a0) (min ?b1 ?a1) @ (if ?a1 > ?b1 then span ?tx ?b1 ?a1 else []) @ (if ?b1 > ?a1 then span ?rw ?a1 ?b1 else [])"
      using 3 le by (simp add: visits empty concat_counter_range)
    moreover have "span ?both (min ?a0 ?b0) (max ?b0 ?a0)
        = (if ?a0 < ?b0 then span ?tx ?a0 ?b0 else []) @ (if ?b0 < ?a0 then span ?rw ?b0 ?a0 else [])"
      using lim le tx [of ?b0 ?a0] rw [of ?a0 ?b0] by (auto simp: min_def max_def span_def)
    moreover have "span ?both (min ?b1 ?a1) (max ?a1 ?b1)
        = (if ?a1 > ?b1 then span ?tx ?b1 ?a1 else []) @ (if ?b1 > ?a1 then span ?rw ?a1 ?b1 else [])"
      using lim le tx [of ?a1 ?b1] rw [of ?b1 ?a1] by (auto simp: min_def max_def span_def)
    moreover have "span ?both 0 (min ?a0 ?b0) = []" "span ?both (max ?a1 ?b1) (2 ^ 64) = []"
      using lim le by (auto intro!: nil)
    ultimately show ?thesis
      using split [of "min ?a0 ?b0" "max ?b0 ?a0" "min ?b1 ?a1" "max ?a1 ?b1"] 3 le lim by simp
  qed
qed

lemma span_support:
  assumes C: "sorted_wrt (<) C" "\<forall>i \<in> set C. unat i < n" "n \<le> 2 ^ 64" and f: "\<And>i. i \<notin> set C \<Longrightarrow> f i = []"
  shows "span f 0 n = concat (map f C)"
proof -
  let ?ns = "filter (\<lambda>n. of_nat n \<in> set C) [0..<n]"
  have support: "concat (map h ns) = concat (map h (filter P ns))" if "\<And>n. \<not> P n \<Longrightarrow> h n = []" for h :: "nat \<Rightarrow> visit list" and P ns
    using that by (induction ns) auto
  have "span f 0 n = concat (map (\<lambda>i. f (of_nat i)) ?ns)"
    unfolding span_def by (rule support [of "\<lambda>n. of_nat n \<in> set C"]) (rule f)
  also have "?ns = map unat C"
  proof (rule sorted_distinct_set_unique)
    have "sorted C" "distinct C" using C(1) by (simp_all add: strict_sorted_iff)
    show "sorted (map unat C)" using \<open>sorted C\<close> by (simp add: sorted_map flip: word_le_nat_alt)
    show "distinct (map unat C)" using \<open>distinct C\<close>
      by (auto simp: distinct_map inj_on_def intro: word_unat_eq_iff [THEN iffD2])
    show "set ?ns = set (map unat C)"
    proof (intro subset_antisym subsetI)
      fix m assume "m \<in> set ?ns"
      then have "m < 2 ^ 64" "of_nat m \<in> set C" using C(3) by auto
      then show "m \<in> set (map unat C)" using unat_of_nat_u64 [of m] by (force simp: image_iff)
    next
      fix m assume "m \<in> set (map unat C)"
      then show "m \<in> set ?ns" using C(2) by auto
    qed
  qed (simp_all add: sorted_wrt_filter)
  finally show ?thesis by (simp add: comp_def)
qed

lemma sort_remdups: "sorted_wrt (<) (sort (remdups (xs :: u64 list)))" "set (sort (remdups xs)) = set xs"
  by (simp_all add: strict_sorted_iff)

lemma block_set_sorted: "sorted_wrt (<) (block_set R first count l)"
  unfolding block_set_def by (rule sort_remdups)

lemma fold_res_ends: "fold_res f [] = Inr" "bind_res r Inr = r"
  by (simp add: fun_eq_iff) (cases r; simp)

lemma fold_res_concat: "fold_res f (concat (map g xs)) s = fold_res (\<lambda>x. fold_res f (g x)) xs s"
  by (induction xs arbitrary: s) (simp_all add: fold_res_append)

definition history_of_block ::
  "u64 \<Rightarrow> string \<Rightarrow> transaction_log account_log \<Rightarrow> reward_log account_log \<Rightarrow> block_info list \<Rightarrow> u64 list \<Rightarrow> u64 list
     \<Rightarrow> u64 \<Rightarrow> history_item list \<Rightarrow> history_item list res" where
  "history_of_block head_block_index address transaction_logs reward_logs blocks set_tx set_rw i result =
     bind_res (if i \<in> set set_tx then process_history_transactions head_block_index i address transaction_logs blocks result
               else Inr result) (\<lambda>result.
       if i \<in> set set_rw then process_history_rewards head_block_index i reward_logs blocks result else Inr result)"

lemma history_visits_fold:
  assumes A: "sorted_wrt (<) A" "\<forall>x \<in> set A. Suc (unat x) < 2 ^ 64"
    and B: "sorted_wrt (<) B" "\<forall>x \<in> set B. Suc (unat x) < 2 ^ 64"
  shows "fold_res (process_visit h a tls rls bs) (history_visits A B) s
    = fold_res (history_of_block h a tls rls bs A B) (sort (remdups (A @ B))) s"
proof -
  let ?C = "sort (remdups (A @ B))"
  have "history_visits A B = concat (map (\<lambda>i. tx_visits A i @ rw_visits B i) ?C)"
    unfolding history_visits_span [OF A B] using A(2) B(2) sort_remdups [of "A @ B"]
    by (intro span_support) (auto simp: tx_visits_def rw_visits_def unat_u64_less)
  moreover have "(\<lambda>i. fold_res (process_visit h a tls rls bs) (tx_visits A i @ rw_visits B i)) = history_of_block h a tls rls bs A B"
    by (simp add: fun_eq_iff tx_visits_def rw_visits_def history_of_block_def process_visit_def fold_res_append fold_res_ends)
  ultimately show ?thesis by (simp add: fold_res_concat)
qed

text \<open>C13: the history of an account is its transactions and rewards block by block in ascending order, the
  transactions of a block before its rewards: the five loops over the parts of the two ranges visit no
  block twice and leave none out, whatever the two sets of blocks look like.\<close>

theorem history_ascending:
  assumes "set_tx = block_set R first count (sy_transactions sy a)" "set_rw = block_set R first count (sy_rewards sy a)"
    and "\<forall>i \<in> set set_tx \<union> set set_rw. Suc (unat i) < 2 ^ 64"
  shows "get_history R h first count a (rs, sy)
    = fold_res (history_of_block h a (sy_transactions sy a) (sy_rewards sy a) (rs_blocks rs) set_tx set_rw)
        (sort (remdups (set_tx @ set_rw))) []"
proof -
  have "sorted_wrt (<) set_tx" "sorted_wrt (<) set_rw" unfolding assms(1,2) by (rule block_set_sorted)+
  moreover have "\<forall>i \<in> set set_tx. Suc (unat i) < 2 ^ 64" "\<forall>i \<in> set set_rw. Suc (unat i) < 2 ^ 64" using assms(3) by blast+
  ultimately show ?thesis by (simp add: get_history_def history_visits_fold Let_def flip: assms(1,2))
qed

section \<open>Reading a log through its index\<close>

text \<open>What the code relies on in a map loader and in \<open>stoui64\<close>.\<close>

definition reader_ok :: "log_reader \<Rightarrow> bool" where
  "reader_ok R \<longleftrightarrow> (\<forall>b. lr_stoui64 R (to_string_u64 b) = b) \<and> (\<forall>m. finite (dom m) \<longrightarrow> set (lr_keys R m) = dom m)"

lemma dom_index_of: "dom (index_of al) = to_string_u64 ` fst ` set al"
proof (intro subset_antisym subsetI)
  fix key assume "key \<in> dom (index_of al)"
  then obtain p where "find (\<lambda>p. to_string_u64 (fst p) = key) al = Some p" by (auto simp: index_of_def)
  then show "key \<in> to_string_u64 ` fst ` set al" by (auto simp: find_Some_iff)
next
  fix key assume "key \<in> to_string_u64 ` fst ` set al"
  then obtain b where "key = to_string_u64 b" "b \<in> fst ` set al" by auto
  then show "key \<in> dom (index_of al)" by (simp add: index_of_key domIff)
qed

lemma set_block_set:
  assumes "reader_ok R"
  shows "set (block_set R first count (account_log_of al)) = {b \<in> fst ` set al. in_window first count b}"
proof -
  have "finite (dom (index_of al))" by (simp add: dom_index_of)
  then have "set (lr_keys R (index_of al)) = to_string_u64 ` fst ` set al"
    using assms by (simp add: reader_ok_def dom_index_of)
  then have "lr_stoui64 R ` set (lr_keys R (index_of al)) = fst ` set al"
    using assms by (simp add: reader_ok_def image_image)
  then show ?thesis by (auto simp: block_set_def account_log_of_def)
qed

lemma block_entries_section:
  assumes "blocks_upto h al"
  shows "block_entries b al = map snd (take (length (block_entries b al)) (drop (block_start b al) al))"
  using assms
proof (induction al)
  case (Cons p al)
  have al: "blocks_upto h al" using Cons.prems by (simp add: blocks_upto_def)
  show ?case
  proof (cases "fst p = b")
    case True
    show ?thesis
    proof (cases "b \<in> fst ` set al")
      case in_al: True
      then obtain q where q: "q \<in> set al" "fst q = b" by auto
      have "al \<noteq> []" using q by auto
      then have "unat b \<le> unat (fst (hd al))" "unat (fst (hd al)) \<le> unat b"
        using Cons.prems True q by (cases al; force simp: blocks_upto_def)+
      then have "fst (hd al) = b" by (simp add: word_unat_eq_iff)
      then have "block_start b al = 0" using \<open>al \<noteq> []\<close> by (cases al) (auto simp: block_start_def)
      then show ?thesis using Cons.IH [OF al] True by (simp add: block_start_def block_entries_def)
    next
      case False
      then have "block_entries b al = []" by (simp add: block_entries_Nil_iff)
      then show ?thesis using True by (simp add: block_start_def block_entries_def)
    qed
  next
    case False
    then have shift: "block_entries b (p # al) = block_entries b al" "block_start b (p # al) = Suc (block_start b al)"
      by (simp_all add: block_start_def block_entries_def)
    show ?thesis unfolding shift drop_Suc_Cons by (rule Cons.IH [OF al])
  qed
qed (simp add: block_entries_def)

text \<open>A loop that appends what each entry gives.\<close>

definition append_items :: "('a \<Rightarrow> history_item list res) \<Rightarrow> 'a \<Rightarrow> history_item list \<Rightarrow> history_item list res" where
  "append_items items x result = bind_res (items x) (\<lambda>new. Inr (result @ new))"

lemma append_items_all:
  assumes "\<And>x. x \<in> set xs \<Longrightarrow> items x = Inr (new x)"
  shows "fold_res (append_items items) xs result = Inr (result @ concat (map new xs))"
  using assms by (induction xs arbitrary: result) (simp_all add: append_items_def)

lemma fold_res_map: "fold_res f (map g xs) s = fold_res (\<lambda>x. f (g x)) xs s"
  by (induction xs arbitrary: s) (auto intro!: bind_res_cong)

lemma fold_res_cong: "(\<And>x s. x \<in> set xs \<Longrightarrow> f x s = g x s) \<Longrightarrow> fold_res f xs s = fold_res g xs s"
  by (induction xs arbitrary: s) (auto intro!: bind_res_cong)

lemma for_block_entries:
  assumes al: "blocks_upto h al" "length al < 2 ^ 64" and b: "b \<in> fst ` set al"
  shows "for_block b items (account_log_of al) result = fold_res (append_items items) (block_entries b al) result"
proof -
  let ?s = "block_start b al" and ?n = "length (block_entries b al)"
  let ?read = "\<lambda>i result. bind_res (vector_at i (map snd al)) (\<lambda>x. append_items items x result)"
  have le: "?s + ?n \<le> length al" using length_filter_le [of "\<lambda>p. fst p = b" al]
  proof -
    have "?n = length (take ?n (drop ?s al))" using block_entries_section [OF al(1), of b] by (metis length_map)
    moreover have "?n \<noteq> 0" using b block_entries_Nil_iff [of b al] by simp
    ultimately show ?thesis by (cases "?s \<le> length al") auto
  qed
  have range: "counter_range (of_nat ?s) (of_nat ?s + of_nat ?n) = map (\<lambda>i. of_nat (?s + i)) [0..<?n]"
  proof -
    have "unat (of_nat ?n :: u64) = ?n" using le al(2) by (intro unat_of_nat_u64) linarith
    then show ?thesis by (simp add: counter_range_def)
  qed
  have entry: "vector_at (of_nat (?s + i)) (map snd al) = Inr (block_entries b al ! i)" if "i < ?n" for i
  proof -
    have "unat (of_nat (?s + i) :: u64) = ?s + i" using le al(2) that by (intro unat_of_nat_u64) linarith
    moreover have "block_entries b al ! i = map snd al ! (?s + i)"
    proof -
      have "block_entries b al ! i = map snd (take ?n (drop ?s al)) ! i" using block_entries_section [OF al(1), of b] by metis
      then show ?thesis using le that by simp
    qed
    ultimately show ?thesis using le that by (simp add: vector_at_def)
  qed
  have "for_block b items (account_log_of al) result = fold_res ?read (map (\<lambda>i. of_nat (?s + i)) [0..<?n]) result"
    using b by (simp add: for_block_def account_log_of_def index_of_key range append_items_def)
  also have "\<dots> = fold_res (\<lambda>i. append_items items (block_entries b al ! i)) [0..<?n] result"
    unfolding fold_res_map by (rule fold_res_cong) (simp add: entry del: of_nat_add)
  also have "\<dots> = fold_res (append_items items) (map (\<lambda>i. block_entries b al ! i) [0..<?n]) result" by (simp add: fold_res_map)
  finally show ?thesis by (simp add: map_nth)
qed

section \<open>What is not confirmed\<close>

text \<open>The sums of the items without a confirmation.\<close>

definition earned :: "history_item list \<Rightarrow> nat" where
  "earned items = (\<Sum>i \<leftarrow> items. if hi_confirmations i = 0 \<and> incoming (hi_item_type i) then coin_val (hi_amount i) else 0)"

definition spent :: "history_item list \<Rightarrow> nat" where
  "spent items = (\<Sum>i \<leftarrow> items. if hi_confirmations i = 0 \<and> \<not> incoming (hi_item_type i) then coin_val (hi_amount i) else 0)"

definition amounts_ok :: "history_item list \<Rightarrow> bool" where
  "amounts_ok items \<longleftrightarrow> (\<forall>i \<in> set items. hi_confirmations i = 0 \<longrightarrow> coin_ok (hi_amount i))"

lemma item_sums [simp]:
  "earned [] = 0" "spent [] = 0" "amounts_ok []"
  "earned (xs @ ys) = earned xs + earned ys" "spent (xs @ ys) = spent xs + spent ys" "amounts_ok (xs @ ys) \<longleftrightarrow> amounts_ok xs \<and> amounts_ok ys"
  by (auto simp: earned_def spent_def amounts_ok_def)

lemma item_sums_Cons:
  "earned (i # xs) = earned [i] + earned xs" "spent (i # xs) = spent [i] + spent xs" "amounts_ok (i # xs) \<longleftrightarrow> amounts_ok [i] \<and> amounts_ok xs"
  by (auto simp: earned_def spent_def amounts_ok_def)

lemma item_sums_single [simp]:
  "earned [make_item h b t tm c d] = (if h - b + 1 = 0 \<and> incoming t then coin_val c else 0)"
  "spent [make_item h b t tm c d] = (if h - b + 1 = 0 \<and> \<not> incoming t then coin_val c else 0)"
  "amounts_ok [make_item h b t tm c d] \<longleftrightarrow> (h - b + 1 = 0 \<longrightarrow> coin_ok c)"
  by (auto simp: earned_def spent_def amounts_ok_def make_item_def)

lemma item_sums_concat:
  "earned (concat xss) = sum_list (map earned xss)" "spent (concat xss) = sum_list (map spent xss)"
  "amounts_ok (concat xss) \<longleftrightarrow> (\<forall>xs \<in> set xss. amounts_ok xs)"
  by (induction xss) simp_all

lemma unconfirmed_fold:
  assumes "amounts_ok items" "coin_ok s" "coin_ok r"
    and "coin_val s + spent items < val_limit" "coin_val r + earned items < val_limit"
  shows "\<exists>s' r'. fold_res unconfirmed_step items (s, r) = Inr (s', r') \<and> coin_ok s' \<and> coin_ok r'
    \<and> coin_val s' = coin_val s + spent items \<and> coin_val r' = coin_val r + earned items"
  using assms
proof (induction items arbitrary: s r)
  case (Cons i items)
  have ok: "amounts_ok items" and sums: "coin_val s + spent [i] + spent items < val_limit"
    "coin_val r + earned [i] + earned items < val_limit"
    using Cons.prems item_sums_Cons [of i items] by simp_all
  obtain s1 r1 where step: "unconfirmed_step i (s, r) = Inr (s1, r1)" and c: "coin_ok s1" "coin_ok r1"
    and v: "coin_val s1 = coin_val s + spent [i]" "coin_val r1 = coin_val r + earned [i]"
  proof (cases "hi_confirmations i = 0")
    case True
    then have i: "coin_ok (hi_amount i)" using Cons.prems(1) by (simp add: amounts_ok_def)
    have new: "coin_new (whole (hi_amount i)) (fraction (hi_amount i)) = Inr (hi_amount i)"
      using coin_of_ok [OF i] by (simp add: coin_of_def)
    show thesis
    proof (cases "incoming (hi_item_type i)")
      case inc: True
      then have e: "earned [i] = coin_val (hi_amount i)" "spent [i] = 0" using True by (simp_all add: earned_def spent_def)
      have "coin_val (coin_plus r (hi_amount i)) = coin_val r + coin_val (hi_amount i)"
        using sums(2) e by (intro coin_plus_val [OF Cons.prems(3) i]) simp
      then show thesis using that [of s "coin_plus r (hi_amount i)"] inc True e new Cons.prems(2,3) i coin_plus_ok
        by (simp add: unconfirmed_step_def)
    next
      case inc: False
      then have e: "spent [i] = coin_val (hi_amount i)" "earned [i] = 0" using True by (simp_all add: earned_def spent_def)
      have "coin_val (coin_plus s (hi_amount i)) = coin_val s + coin_val (hi_amount i)"
        using sums(1) e by (intro coin_plus_val [OF Cons.prems(2) i]) simp
      then show thesis using that [of "coin_plus s (hi_amount i)" r] inc True e new Cons.prems(2,3) i coin_plus_ok
        by (simp add: unconfirmed_step_def)
    qed
  next
    case False
    then show thesis using that [of s r] Cons.prems(2,3) by (simp add: unconfirmed_step_def earned_def spent_def)
  qed
  have "coin_val s1 + spent items < val_limit" "coin_val r1 + earned items < val_limit" using sums v by simp_all
  from Cons.IH [OF ok c this] show ?case using step v item_sums_Cons [of i items] by auto
qed simp

section \<open>Items of the pool and of the head block\<close>

definition items_of :: "u64 \<Rightarrow> u64 \<Rightarrow> string \<Rightarrow> string \<Rightarrow> transaction_log \<Rightarrow> history_item list" where
  "items_of h i a authority log =
     (let item = \<lambda>t. make_item h i t (tl_time_signed log); hash = tl_transaction_hash log; info = the_info log
      in action_items h i a log
         @ (if ti_from info = a \<and> tl_fee log \<noteq> coin_zero then [item Item_sent_fee (tl_fee log) (AccountHistorySentFee authority hash)] else [])
         @ (if authority = a \<and> tl_fee log \<noteq> coin_zero
            then [item Item_received_fee (tl_fee log) (AccountHistoryReceivedFee (ti_from info) hash)] else []))"

lemma transaction_items_of:
  "is_ok (transaction_info log) \<Longrightarrow>
   transaction_items h i a blocks log = Inr (items_of h i a (block_authority i blocks) log)"
  by (simp add: transaction_items_def fee_items_def items_of_def is_ok_info Let_def)

lemma action_items_confirmations: "\<forall>x \<in> set (action_items h i a log). hi_confirmations x = h - i + 1"
  by (auto simp: action_items_def make_item_def Let_def split: action.splits)

lemma items_of_confirmations: "\<forall>x \<in> set (items_of h i a authority log). hi_confirmations x = h - i + 1"
  using action_items_confirmations by (auto simp: items_of_def make_item_def Let_def)

lemma confirmed_sums: "\<forall>x \<in> set xs. hi_confirmations x \<noteq> 0 \<Longrightarrow> earned xs = 0 \<and> spent xs = 0 \<and> amounts_ok xs"
  by (induction xs) (auto simp: earned_def spent_def amounts_ok_def)

lemma pool_items:
  assumes info: "transaction_info log = Inr info" "info_ok info" and a: "a \<in> set T" "a \<noteq> []" and i: "h - i + 1 = 0"
  shows "earned (items_of h i a [] log) = gain T info [] a" "spent (items_of h i a [] log) = loss T info a"
    "amounts_ok (items_of h i a [] log)"
proof -
  have the: "the_info log = info" using info(1) by (simp add: the_info_def)
  have fee: "ti_fee info = tl_fee log" using info(1)
    by (auto simp: transaction_info_def Let_def first_author_def result_simps split: action.splits list.splits)
  have zero: "coin_val coin_zero = 0" by simp
  have act: "earned (action_items h i a log) = counted T (ti_to info) a (ti_amount info)
      \<and> spent (action_items h i a log) = counted T (ti_from info) a (ti_amount info) \<and> amounts_ok (action_items h i a log)"
    using info a i by (auto simp: action_items_def transaction_info_def Let_def counted_def incoming_def info_ok_def
      first_author_def result_simps split: action.splits list.splits)
  have fees: "coin_ok (tl_fee log)" "counted T [] a c = 0" for c using info(2) fee a by (auto simp: info_ok_def counted_def)
  show "earned (items_of h i a [] log) = gain T info [] a" "amounts_ok (items_of h i a [] log)"
    using act a i fees by (auto simp: items_of_def the gain_def incoming_def Let_def)
  show "spent (items_of h i a [] log) = loss T info a"
    using act a i fee by (auto simp: items_of_def the loss_def counted_def incoming_def Let_def)
qed

section \<open>The specification after a block and with the pool\<close>

text \<open>What holds of the specification between two entries: every logged transaction was understood and
  the logs are short enough for their indexes.\<close>

definition logs_fine :: "commander_spec \<Rightarrow> bool" where
  "logs_fine s \<longleftrightarrow> (\<forall>a. (\<forall>p \<in> set (sp_transactions s a). is_ok (transaction_info (snd p)))
     \<and> length (sp_transactions s a) < 2 ^ 64 \<and> length (sp_rewards s a) < 2 ^ 64)"

lemma logs_fine_transaction:
  assumes "transaction_ok T authority w log s" "logs_fine s"
  shows "logs_fine (spec_transaction T b authority log s)"
  using assms le_less_trans [OF add_entry_length] by (auto simp: logs_fine_def transaction_ok_def spec_transaction_def add_entry_def)

lemma logs_fine_transactions:
  "ok_run (transaction_ok T authority w) (spec_transaction T b authority) logs s \<Longrightarrow> logs_fine s \<Longrightarrow>
   logs_fine (fold (spec_transaction T b authority) logs s)"
  using ok_run_invariant(2) [where I = logs_fine] logs_fine_transaction by metis

lemma fold_spec_reward_logs:
  "sp_transactions (fold (spec_reward T b) rs s) = sp_transactions s"
  "length (sp_rewards (fold (spec_reward T b) rs s) a) \<le> length (sp_rewards s a) + length rs"
proof (induction rs arbitrary: s)
  case (Cons r rs)
  { case 1 show ?case using Cons.IH(1) by (simp add: spec_reward_def) }
  { case 2
    have "length (sp_rewards (spec_reward T b r s) a) \<le> Suc (length (sp_rewards s a))"
      by (simp add: spec_reward_def add_entry_length)
    then show ?case using Cons.IH(2) [of "spec_reward T b r s"] by simp }
qed simp_all

lemma logs_fine_rewards:
  assumes "logs_fine s" "\<forall>a. length (sp_rewards s a) + length rs < 2 ^ 64"
  shows "logs_fine (fold (spec_reward T b) rs s)"
proof -
  have "length (sp_rewards (fold (spec_reward T b) rs s) a) < 2 ^ 64" for a
    using fold_spec_reward_logs(2) [of T b rs s a] assms(2) by (meson le_less_trans)
  then show ?thesis using assms(1) by (simp add: logs_fine_def fold_spec_reward_logs)
qed

text \<open>The state of the specification right after a block of number \<open>h\<close>.\<close>

definition after_block :: "u64 \<Rightarrow> commander_spec \<Rightarrow> bool" where
  "after_block h s \<longleftrightarrow> sp_head s = Some h \<and> spec_wf (unat h) s \<and> logs_fine s \<and> length (sp_blocks s) = Suc (unat h)
     \<and> unat h + 2 < 2 ^ 64"

definition fits :: "commander_spec \<Rightarrow> bool" where
  "fits s \<longleftrightarrow> s = spec_empty \<or> (\<exists>h. after_block h s)"

lemma next_block_fits: "fits s \<Longrightarrow> unat (next_block s) = length (sp_blocks s) \<and> head_wf s \<and> logs_fine s"
proof -
  assume "fits s"
  then consider "s = spec_empty" | h where "after_block h s" by (auto simp: fits_def)
  then show ?thesis
  proof cases
    case 1
    then show ?thesis using head_wf_empty by (simp add: next_block_def spec_empty_def logs_fine_def)
  next
    case (2 h)
    have "unat (h + 1) = Suc (unat h)"
    proof -
      have "h + 1 = of_nat (Suc (unat h))" by (simp add: add.commute)
      moreover have "Suc (unat h) < 2 ^ 64" using 2 by (simp add: after_block_def)
      ultimately show ?thesis using unat_of_nat_u64 by metis
    qed
    then show ?thesis using 2 by (auto simp: after_block_def next_block_def head_wf_def intro: spec_wf_mono)
  qed
qed

lemma fits_block:
  assumes ok: "action_ok T (Block_log bl) s" and fits: "fits s"
  shows "after_block (next_block s) (spec_action T (Block_log bl) s)"
proof -
  let ?b = "next_block s" and ?w = "with_block (next_block s) bl s"
  note s = next_block_fits [OF fits]
  have run: "ok_run (transaction_ok T (bl_authority bl) (block_rewards T bl)) (spec_transaction T ?b (bl_authority bl)) (bl_transactions bl) ?w"
    and lim: "unat ?b + 2 < 2 ^ 64" and rewards: "rewards_ok T bl (after_transactions T ?b bl s)"
    using ok by (simp_all add: action_ok_def)
  have "logs_fine ?w" using s by (simp add: logs_fine_def with_block_def)
  from logs_fine_transactions [OF run this] have "logs_fine (after_transactions T ?b bl s)" by (simp add: after_transactions_def)
  from logs_fine_rewards [OF this] rewards have fine: "logs_fine (spec_action T (Block_log bl) s)"
    by (simp add: rewards_ok_def spec_action_def spec_block_def after_transactions_def with_block_def)
  from ok_run_invariant(2) [where I = "spec_wf (unat ?b)", OF run head_wf_with_block spec_transaction_wf] s
  have "spec_wf (unat ?b) (after_transactions T ?b bl s)" by (simp add: after_transactions_def)
  then have "spec_wf (unat ?b) (fold (spec_reward T ?b) rs (after_transactions T ?b bl s))" for rs
    by (induction rs rule: rev_induct) (auto intro: spec_reward_wf)
  then have "spec_wf (unat ?b) (spec_action T (Block_log bl) s)"
    by (simp add: spec_action_def spec_block_def after_transactions_def with_block_def)
  moreover have "sp_head (spec_action T (Block_log bl) s) = Some ?b" by (simp add: spec_action_head)
  moreover have "sp_blocks (spec_action T (Block_log bl) s) = sp_blocks s @ [block_info_of bl]"
    by (simp add: spec_action_def spec_block_def)
  ultimately show ?thesis using fine lim s by (simp add: after_block_def)
qed

lemma after_blocks:
  assumes "ok_run (action_ok T) (spec_action T) (map Block_log bls) s" "fits s" "bls \<noteq> []"
  shows "\<exists>h. after_block h (fold (spec_action T) (map Block_log bls) s)"
  using assms
proof (induction bls arbitrary: s)
  case (Cons bl bls)
  then have b: "after_block (next_block s) (spec_action T (Block_log bl) s)" using fits_block by simp
  then have "fits (spec_action T (Block_log bl) s)" by (auto simp: fits_def)
  then show ?case using Cons b by (cases "bls = []") auto
qed simp

text \<open>The transactions of the pool are entered for the block after the head.\<close>

lemma pool_is_transactions:
  assumes "sp_head s = Some h" "ok_run (action_ok T) (spec_action T) (map Transaction_log logs) s"
  shows "fold (spec_action T) (map Transaction_log logs) s = fold (spec_transaction T (h + 1) []) logs s
    \<and> ok_run (transaction_ok T [] (\<lambda>_. 0)) (spec_transaction T (h + 1) []) logs s"
  using assms
proof (induction logs arbitrary: s)
  case (Cons log logs)
  then have step: "spec_action T (Transaction_log log) s = spec_transaction T (h + 1) [] log s"
    by (simp add: spec_action_def next_block_def)
  then have "sp_head (spec_action T (Transaction_log log) s) = Some h" using Cons.prems by (simp add: spec_transaction_def)
  then show ?case using Cons step by (simp add: action_ok_def)
qed simp

lemma pool_spec:
  assumes "ok_run (transaction_ok T [] w) (spec_transaction T b []) logs s"
  shows "sp_transactions (fold (spec_transaction T b []) logs s) a
      = sp_transactions s a @ map (Pair b) (filter (\<lambda>l. a \<in> touched T (the_info l) []) logs)
    \<and> sp_balance (fold (spec_transaction T b []) logs s) a + (\<Sum>l \<leftarrow> logs. loss T (the_info l) a)
      = sp_balance s a + (\<Sum>l \<leftarrow> logs. gain T (the_info l) [] a)
    \<and> (\<forall>l \<in> set logs. is_ok (transaction_info l) \<and> info_ok (the_info l))"
  using assms
proof (induction logs arbitrary: s)
  case (Cons l logs)
  let ?s = "spec_transaction T b [] l s"
  have ok: "transaction_ok T [] w l s" "ok_run (transaction_ok T [] w) (spec_transaction T b []) logs ?s"
    using Cons.prems by simp_all
  have "sp_balance ?s a + loss T (the_info l) a = sp_balance s a + gain T (the_info l) [] a"
    using covered_loss [of T "the_info l" "sp_balance s" a "[]"] ok(1) by (simp add: spec_transaction_def transaction_ok_def)
  moreover have "sp_transactions ?s a = sp_transactions s a @ map (Pair b) (filter (\<lambda>l. a \<in> touched T (the_info l) []) [l])"
    by (simp add: spec_transaction_def add_entry_def)
  moreover have "is_ok (transaction_info l) \<and> info_ok (the_info l)" using ok(1) by (simp add: transaction_ok_def)
  ultimately show ?case using Cons.IH [OF ok(2)] by simp
qed simp

section \<open>The history from the head block on\<close>

lemma unat_next: "unat h + 2 < 2 ^ 64 \<Longrightarrow> unat (h + 1 :: u64) = Suc (unat h) \<and> unat (h + 2 :: u64) = unat h + 2"
proof
  assume lim: "unat h + 2 < 2 ^ 64"
  have "h + 1 = of_nat (Suc (unat h))" "h + 2 = of_nat (unat h + 2)" by (simp_all add: add.commute)
  moreover have "Suc (unat h) < 2 ^ 64" using lim by simp
  ultimately show "unat (h + 1) = Suc (unat h)" "unat (h + 2) = unat h + 2" using lim unat_of_nat_u64 by metis+
qed

lemma in_window_head:
  assumes "unat h + 2 < 2 ^ 64"
  shows "in_window h 2 b \<longleftrightarrow> b = h \<or> b = h + 1"
proof -
  have "in_window h 2 b \<longleftrightarrow> unat h \<le> unat b \<and> unat b < unat h + 2"
    using unat_next [OF assms] by (simp add: in_window_def word_le_nat_alt word_less_nat_alt)
  also have "\<dots> \<longleftrightarrow> unat b = unat h \<or> unat b = unat (h + 1)" using unat_next [OF assms] by linarith
  finally show ?thesis by (simp add: word_unat_eq_iff)
qed

lemma head_blocks_sorted:
  assumes "unat h + 2 < 2 ^ 64" "set xs \<subseteq> {h, h + 1}"
  shows "sort (remdups xs) = filter (\<lambda>i. i \<in> set xs) [h, h + 1 :: u64]"
proof (rule sorted_distinct_set_unique)
  have "h \<le> h + 1" "h \<noteq> h + 1" using unat_next [OF assms(1)] by (simp_all add: word_le_nat_alt word_unat_eq_iff)
  then show "sorted (filter (\<lambda>i. i \<in> set xs) [h, h + 1])" "distinct (filter (\<lambda>i. i \<in> set xs) [h, h + 1])"
    by auto
  show "set (sort (remdups xs)) = set (filter (\<lambda>i. i \<in> set xs) [h, h + 1])"
  proof (rule set_eqI)
    fix i
    have "i \<in> set xs \<longrightarrow> i = h \<or> i = h + 1" using assms(2) by blast
    then show "i \<in> set (sort (remdups xs)) \<longleftrightarrow> i \<in> set (filter (\<lambda>i. i \<in> set xs) [h, h + 1])" by auto
  qed
qed simp_all

lemma fold_res_filter: "(\<And>x s. \<not> P x \<Longrightarrow> f x s = Inr s) \<Longrightarrow> fold_res f (filter P xs) s = fold_res f xs s"
  by (induction xs arbitrary: s) (auto intro!: bind_res_cong)

definition reward_item :: "u64 \<Rightarrow> block_info list \<Rightarrow> reward_log \<Rightarrow> history_item" where
  "reward_item h blocks r = make_item h h Item_rewarded (bi_time_signed (blocks ! unat h)) (rl_amount r)
     (AccountHistoryRewarded (rl_reward_type r))"

definition block_items :: "u64 \<Rightarrow> u64 \<Rightarrow> string \<Rightarrow> block_info list \<Rightarrow> (u64 \<times> transaction_log) list \<Rightarrow> history_item list" where
  "block_items h i a blocks al = concat (map (items_of h i a (block_authority i blocks)) (block_entries i al))"

lemma head_history:
  assumes R: "reader_ok R" and h: "unat h + 2 < 2 ^ 64" "length (rs_blocks rs) = Suc (unat h)"
    and tx: "sy_transactions sy a = account_log_of al" "blocks_upto (Suc (unat h)) al" "length al < 2 ^ 64"
      "\<forall>p \<in> set al. is_ok (transaction_info (snd p))"
    and rw: "sy_rewards sy a = account_log_of rl" "blocks_upto (unat h) rl" "length rl < 2 ^ 64"
  shows "get_history R h h 2 a (rs, sy) = Inr (block_items h h a (rs_blocks rs) al
    @ map (reward_item h (rs_blocks rs)) (block_entries h rl) @ block_items h (h + 1) a (rs_blocks rs) al)"
proof -
  let ?A = "block_set R h 2 (account_log_of al)" and ?B = "block_set R h 2 (account_log_of rl)"
  let ?T = "\<lambda>i. block_items h i a (rs_blocks rs) al"
  let ?step = "history_of_block h a (account_log_of al) (account_log_of rl) (rs_blocks rs) ?A ?B"
  note head = unat_next [OF h(1)]
  have A: "set ?A = {i \<in> {h, h + 1}. i \<in> fst ` set al}" and B: "set ?B = {i \<in> {h, h + 1}. i \<in> fst ` set rl}"
    by (auto simp: set_block_set [OF R] in_window_head [OF h(1)])
  have "h + 1 \<notin> fst ` set rl" using rw(2) head by (force simp: blocks_upto_def)
  then have rest: "block_entries (h + 1) rl = []" "h + 1 \<notin> set ?B" by (simp_all add: B block_entries_Nil_iff)
  have small: "\<forall>i \<in> set ?A. Suc (unat i) < 2 ^ 64" "\<forall>i \<in> set ?B. Suc (unat i) < 2 ^ 64" using head h(1) by (auto simp: A B)
  have step_tx: "(if i \<in> set ?A then process_history_transactions h i a (account_log_of al) (rs_blocks rs) result else Inr result)
      = Inr (result @ ?T i)" if "i \<in> {h, h + 1}" for i result
  proof (cases "i \<in> fst ` set al")
    case True
    have "is_ok (transaction_info x)" if "x \<in> set (block_entries i al)" for x
      using that tx(4) by (auto simp: block_entries_def)
    then have "fold_res (append_items (transaction_items h i a (rs_blocks rs))) (block_entries i al) result = Inr (result @ ?T i)"
      unfolding block_items_def by (intro append_items_all transaction_items_of)
    then show ?thesis using True that A for_block_entries [OF tx(2,3) True] by (simp add: process_history_transactions_def)
  next
    case False
    then show ?thesis using block_entries_Nil_iff [of i al] by (simp add: A block_items_def)
  qed
  have step_rw: "(if h \<in> set ?B then process_history_rewards h h (account_log_of rl) (rs_blocks rs) result else Inr result)
      = Inr (result @ map (reward_item h (rs_blocks rs)) (block_entries h rl))" for result
  proof (cases "h \<in> fst ` set rl")
    case True
    have "fold_res (append_items (reward_items h h (rs_blocks rs))) (block_entries h rl) result
        = Inr (result @ concat (map (\<lambda>r. [reward_item h (rs_blocks rs) r]) (block_entries h rl)))"
      using h(2) by (intro append_items_all) (simp add: reward_items_def vector_at_def reward_item_def)
    then show ?thesis using True B for_block_entries [OF rw(2,3) True] by (simp add: process_history_rewards_def concat_map_singleton)
  next
    case False
    then show ?thesis using block_entries_Nil_iff [of h rl] by (simp add: B)
  qed
  have "?step h result = Inr (result @ ?T h @ map (reward_item h (rs_blocks rs)) (block_entries h rl))"
    "?step (h + 1) result = Inr (result @ ?T (h + 1))" for result
    using step_tx [of h result] step_tx [of "h + 1" result] step_rw rest(2) by (simp_all add: history_of_block_def)
  then have "fold_res ?step [h, h + 1] [] = Inr (?T h @ map (reward_item h (rs_blocks rs)) (block_entries h rl) @ ?T (h + 1))"
    by simp
  moreover have "fold_res ?step (sort (remdups (?A @ ?B))) [] = fold_res ?step [h, h + 1] []"
  proof -
    have "sort (remdups (?A @ ?B)) = filter (\<lambda>i. i \<in> set (?A @ ?B)) [h, h + 1]"
      using A B by (intro head_blocks_sorted [OF h(1)]) auto
    moreover have "fold_res ?step (filter (\<lambda>i. i \<in> set (?A @ ?B)) [h, h + 1]) [] = fold_res ?step [h, h + 1] []"
      by (rule fold_res_filter) (simp add: history_of_block_def)
    ultimately show ?thesis by simp
  qed
  moreover have "get_history R h h 2 a (rs, sy) = fold_res ?step (sort (remdups (?A @ ?B))) []"
    using history_visits_fold [OF block_set_sorted small(1) block_set_sorted small(2)] tx(1) rw(1)
    by (simp add: get_history_def Let_def)
  ultimately show ?thesis by simp
qed

section \<open>The confirmed balance is that of the blocks\<close>

lemma untouched:
  "a \<in> set T \<Longrightarrow> a \<noteq> [] \<Longrightarrow> a \<notin> touched T info [] \<Longrightarrow> gain T info [] a = 0 \<and> loss T info a = 0"
  by (auto simp: touched_def gain_def loss_def counted_def)

lemma pool_block_items:
  assumes a: "a \<in> set T" "a \<noteq> []" and h: "unat h + 2 < 2 ^ 64" "length blocks = Suc (unat h)"
    and logs: "\<forall>l \<in> set logs. is_ok (transaction_info l) \<and> info_ok (the_info l)"
    and al: "block_entries (h + 1) al = filter (\<lambda>l. a \<in> touched T (the_info l) []) logs"
  shows "earned (block_items h (h + 1) a blocks al) = (\<Sum>l \<leftarrow> logs. gain T (the_info l) [] a)"
    "spent (block_items h (h + 1) a blocks al) = (\<Sum>l \<leftarrow> logs. loss T (the_info l) a)"
    "amounts_ok (block_items h (h + 1) a blocks al)"
proof -
  have authority: "block_authority (h + 1) blocks = []" using unat_next [OF h(1)] h(2) by (simp add: block_authority_def)
  let ?touch = "\<lambda>l. a \<in> touched T (the_info l) []"
  have item: "earned (items_of h (h + 1) a [] l) = gain T (the_info l) [] a" "spent (items_of h (h + 1) a [] l) = loss T (the_info l) a"
    "amounts_ok (items_of h (h + 1) a [] l)" if "l \<in> set logs" for l
    using pool_items [OF is_ok_info _ a, of l h "h + 1"] logs that by simp_all
  have sums: "(\<Sum>l \<leftarrow> filter ?touch logs. gain T (the_info l) [] a) = (\<Sum>l \<leftarrow> logs. gain T (the_info l) [] a)"
    "(\<Sum>l \<leftarrow> filter ?touch logs. loss T (the_info l) a) = (\<Sum>l \<leftarrow> logs. loss T (the_info l) a)"
    using untouched [OF a] by (auto intro!: sum_list_map_filter)
  have items: "block_items h (h + 1) a blocks al = concat (map (items_of h (h + 1) a []) (filter ?touch logs))"
    by (simp add: block_items_def authority al)
  have "map earned (map (items_of h (h + 1) a []) (filter ?touch logs)) = map (\<lambda>l. gain T (the_info l) [] a) (filter ?touch logs)"
    "map spent (map (items_of h (h + 1) a []) (filter ?touch logs)) = map (\<lambda>l. loss T (the_info l) a) (filter ?touch logs)"
    using item by simp_all
  then show "earned (block_items h (h + 1) a blocks al) = (\<Sum>l \<leftarrow> logs. gain T (the_info l) [] a)"
    "spent (block_items h (h + 1) a blocks al) = (\<Sum>l \<leftarrow> logs. loss T (the_info l) a)"
    unfolding items item_sums_concat sums [symmetric] by (simp_all only:)
  show "amounts_ok (block_items h (h + 1) a blocks al)"
    using item(3) by (simp add: items item_sums_concat)
qed

lemma head_items_confirmed:
  "earned (block_items h h a blocks al @ map (reward_item h blocks) rl) = 0
    \<and> spent (block_items h h a blocks al @ map (reward_item h blocks) rl) = 0
    \<and> amounts_ok (block_items h h a blocks al @ map (reward_item h blocks) rl)"
proof (rule confirmed_sums, rule ballI)
  fix x assume "x \<in> set (block_items h h a blocks al @ map (reward_item h blocks) rl)"
  then have "hi_confirmations x = h - h + 1"
    using items_of_confirmations by (auto simp: block_items_def reward_item_def make_item_def)
  then show "hi_confirmations x \<noteq> 0" by simp
qed

lemma response_of_history:
  assumes history: "get_history R h h 2 a st = Inr (xs @ ys)" and xs: "earned xs = 0 \<and> spent xs = 0 \<and> amounts_ok xs"
    and ys: "earned ys = e" "spent ys = p" "amounts_ok ys"
    and balance: "coin_ok balance" "coin_val balance + p = b0 + e" "b0 + e < val_limit"
  shows "\<exists>r. AccountResponseFromRawAccount R h a balance st = Inr r \<and> ar_balance r = balance
    \<and> coin_val (ar_confirmed_balance r) = b0 \<and> coin_val (ar_unconfirmed_sent r) = p \<and> coin_val (ar_unconfirmed_received r) = e"
proof -
  have sums: "earned (xs @ ys) = e" "spent (xs @ ys) = p" "amounts_ok (xs @ ys)" using xs ys by simp_all
  obtain s r where fold: "fold_res unconfirmed_step (xs @ ys) (coin_zero, coin_zero) = Inr (s, r)" "coin_ok s" "coin_ok r"
    "coin_val s = p" "coin_val r = e"
    using unconfirmed_fold [OF sums(3), of coin_zero coin_zero] sums(1,2) balance(2,3) by auto
  have plus: "coin_val (coin_plus balance s) = b0 + e" "coin_ok (coin_plus balance s)"
    using coin_plus_val [OF balance(1) fold(2)] coin_plus_ok [OF balance(1) fold(2)] balance fold by simp_all
  obtain d where d: "coin_minus (coin_plus balance s) r = Inr d"
    using coin_minus_total [OF plus(2) fold(3)] plus(1) fold(5) by auto
  then have "coin_val d = b0" using coin_minus_eq [OF plus(2) fold(3)] plus(1) fold(5) by simp
  moreover have "coin_new (whole balance) (fraction balance) = Inr balance" using coin_of_ok [OF balance(1)] by (simp add: coin_of_def)
  ultimately show ?thesis using history fold d by (simp add: AccountResponseFromRawAccount_def)
qed

text \<open>C9: the confirmed balance a commander reports of an account it tracks is the balance after the blocks
  alone: it takes back exactly what the transactions of the pool have moved, fees included, although it
  is computed from the balance with the pool and the items of the history that have no confirmation.\<close>

theorem confirmed_balance_exact:
  assumes "bls \<noteq> []" "ok_run (action_ok T) (spec_action T) (map Block_log bls @ map Transaction_log logs) spec_empty"
    and "s0 = fold (spec_action T) (map Block_log bls) spec_empty"
    and "tracks E T False st (fold (spec_action T) (map Transaction_log logs) s0)"
    and "reader_ok R" "a \<in> set T" "a \<noteq> []"
    and "sp_balance s0 a + (\<Sum>l \<leftarrow> logs. gain T (the_info l) [] a) < val_limit"
  shows "\<exists>r. AccountResponseFromRawAccount R (sy_head_block_index (snd st)) a (account_balance (rs_accounts (fst st)) a) st = Inr r
    \<and> coin_val (ar_confirmed_balance r) = sp_balance s0 a
    \<and> coin_val (ar_unconfirmed_sent r) = (\<Sum>l \<leftarrow> logs. loss T (the_info l) a)
    \<and> coin_val (ar_unconfirmed_received r) = (\<Sum>l \<leftarrow> logs. gain T (the_info l) [] a)"
proof -
  let ?s = "fold (spec_action T) (map Transaction_log logs) s0"
  have runs: "ok_run (action_ok T) (spec_action T) (map Block_log bls) spec_empty"
    "ok_run (action_ok T) (spec_action T) (map Transaction_log logs) s0"
    using assms(2,3) by (simp_all add: ok_run_append)
  obtain h where h: "after_block h s0" using after_blocks [OF runs(1) _ assms(1)] assms(3) by (auto simp: fits_def)
  then have head: "sp_head s0 = Some h" and lim: "unat h + 2 < 2 ^ 64" by (simp_all add: after_block_def)
  have pool: "?s = fold (spec_transaction T (h + 1) []) logs s0" and run: "ok_run (transaction_ok T [] (\<lambda>_. 0)) (spec_transaction T (h + 1) []) logs s0"
    using pool_is_transactions [OF head runs(2)] by simp_all
  let ?al = "sp_transactions ?s a" and ?rl = "sp_rewards ?s a"
  have spec: "?al = sp_transactions s0 a @ map (Pair (h + 1)) (filter (\<lambda>l. a \<in> touched T (the_info l) []) logs)"
    "sp_balance ?s a + (\<Sum>l \<leftarrow> logs. loss T (the_info l) a) = sp_balance s0 a + (\<Sum>l \<leftarrow> logs. gain T (the_info l) [] a)"
    "\<forall>l \<in> set logs. is_ok (transaction_info l) \<and> info_ok (the_info l)"
    using pool_spec [OF run, of a] by (simp_all add: pool)
  have fine: "logs_fine ?s" using logs_fine_transactions [OF run] h by (simp add: pool after_block_def)
  have old: "\<forall>p \<in> set (sp_transactions s0 a). unat (fst p) \<le> unat h" "blocks_upto (unat h) (sp_rewards s0 a)"
    using h by (simp_all add: after_block_def spec_wf_def blocks_upto_def)
  have upto: "blocks_upto (Suc (unat h)) ?al"
  proof -
    have "spec_wf (unat (h + 1)) s0" using h unat_next [OF lim] by (auto simp: after_block_def intro: spec_wf_mono)
    from ok_run_invariant(2) [where I = "spec_wf (unat (h + 1))", OF run this spec_transaction_wf]
    show ?thesis using unat_next [OF lim] by (simp add: pool spec_wf_def)
  qed
  have entries: "block_entries (h + 1) ?al = filter (\<lambda>l. a \<in> touched T (the_info l) []) logs"
  proof -
    have "\<forall>p \<in> set (sp_transactions s0 a). fst p \<noteq> h + 1" using old(1) unat_next [OF lim] by auto
    then have "filter (\<lambda>p. fst p = h + 1) (sp_transactions s0 a) = []" by (simp add: filter_empty_conv)
    then show ?thesis by (simp add: block_entries_def spec(1) filter_map comp_def)
  qed
  obtain rs sy where st: "st = (rs, sy)" by (cases st)
  have state: "sy_transactions sy a = account_log_of ?al" "sy_rewards sy a = account_log_of ?rl" "sy_head_block_index sy = h"
    "rs_blocks rs = sp_blocks s0" "coin_ok (account_balance (rs_accounts rs) a)" "coin_val (account_balance (rs_accounts rs) a) = sp_balance ?s a"
    using assms(4) head by (simp_all add: st tracks_def core_def logs_of_def pool accounts_ok_def balance_val_def)
  have blocks: "length (rs_blocks rs) = Suc (unat h)" using h state(4) by (simp add: after_block_def)
  have rl: "blocks_upto (unat h) ?rl" "length ?rl < 2 ^ 64" "length ?al < 2 ^ 64" "\<forall>p \<in> set ?al. is_ok (transaction_info (snd p))"
    using old(2) fine by (simp_all add: pool logs_fine_def)
  have "get_history R h h 2 a st = Inr ((block_items h h a (rs_blocks rs) ?al @ map (reward_item h (rs_blocks rs)) (block_entries h ?rl))
      @ block_items h (h + 1) a (rs_blocks rs) ?al)"
    using head_history [OF assms(5) lim blocks state(1) upto rl(3,4) state(2) rl(1,2)] by (simp add: st)
  from response_of_history [OF this head_items_confirmed pool_block_items [OF assms(6,7) lim blocks spec(3) entries] state(5)] spec(2) assms(8)
  show ?thesis using state(3,6) by (auto simp: st)
qed

section \<open>Examples\<close>

definition parse_decimal :: "string \<Rightarrow> nat" where
  "parse_decimal = foldl (\<lambda>n c. n * 10 + (of_char c - 48)) 0"

lemma parse_to_string: "parse_decimal (to_string_nat n) = n"
proof (induction n rule: to_string_nat.induct)
  case (1 n)
  have digit: "(of_char (char_of (48 + d :: nat)) :: nat) - 48 = d" if "d < 10" for d using that by (simp add: of_char_of)
  show ?case
  proof (cases "n < 10")
    case True
    then show ?thesis by (subst to_string_nat.simps) (simp add: parse_decimal_def digit)
  next
    case False
    then have "parse_decimal (to_string_nat (n div 10)) = n div 10" using "1.IH" by simp
    then show ?thesis using False digit [of "n mod 10"] by (subst to_string_nat.simps) (simp add: parse_decimal_def)
  qed
qed

definition sample_reader :: log_reader where
  "sample_reader = \<lparr> lr_keys = (\<lambda>m. sorted_list_of_set (dom m)), lr_stoui64 = (\<lambda>s. of_nat (parse_decimal s)) \<rparr>"

lemma sample_reader_ok: "reader_ok sample_reader"
  by (simp add: reader_ok_def sample_reader_def to_string_u64_def parse_to_string)

text \<open>The genesis block of the example and the first transfer, still in the pool.\<close>

definition sample_genesis :: block_log where
  "sample_genesis = sample_block_log 0 [] [\<lparr> rl_to = ''alice'', rl_amount = Coin 10 0, rl_reward_type = RT_initial \<rparr>]"

lemma sample_pool_ok:
  "ok_run (action_ok [''alice'']) (spec_action [''alice'']) (map Block_log [sample_genesis] @ map Transaction_log [sample_transfer_log 3]) spec_empty"
proof -
  have "in_force sample_actions 2 = map Block_log [sample_genesis] @ map Transaction_log [sample_transfer_log 3]"
    by (simp add: in_force_def sample_actions_def sample_genesis_def open_entries_def stack_step_def numeral_nat)
  moreover have "2 \<le> length sample_actions" by (simp add: sample_actions_def)
  ultimately show ?thesis using sample_actions_sound unfolding sound_log_def by metis
qed

definition empty_state :: commander_state where
  "empty_state = (fst (fresh_state ''alice''), (snd (fresh_state ''alice''))\<lparr>sy_new_import := False\<rparr>)"

lemma sample_tracks:
  "\<exists>st. tracks sample_ext [''alice''] False st (fold (spec_action [''alice'']) (map Transaction_log [sample_transfer_log 3])
     (fold (spec_action [''alice'']) (map Block_log [sample_genesis]) spec_empty))"
proof -
  let ?T = "[''alice'']"
  let ?xs = "map Block_log [sample_genesis] @ map Transaction_log [sample_transfer_log 3]"
  let ?ms = "[\<lparr> logging_type = LT_apply, log_index = 0, log_action = Block_log sample_genesis \<rparr>,
      \<lparr> logging_type = LT_apply, log_index = 1, log_action = Transaction_log (sample_transfer_log 3) \<rparr>]"
  have "tracks sample_ext ?T False empty_state spec_empty"
    using tracks_fresh [of sample_ext "''alice''"]
    by (auto simp: empty_state_def tracks_def core_def fresh_state_def sample_ext_def spec_empty_def)
  moreover have "ok_run (\<lambda>a s. action_ok ?T a s \<and> head_wf s) (spec_action ?T) (map log_action ?ms) spec_empty"
    using ok_run_invariant(1) [where I = head_wf, OF sample_pool_ok head_wf_empty spec_action_wf] by simp
  ultimately obtain st where "tracks sample_ext ?T False st (fold (spec_action ?T) (map log_action ?ms) spec_empty)"
    using cm.apply_all [of sample_ext ?T False empty_state spec_empty ?ms] by auto
  then show ?thesis by (intro exI [of _ st]) simp
qed

lemma sample_genesis_balance:
  "sp_balance (fold (spec_action [''alice'']) (map Block_log [sample_genesis]) spec_empty) ''alice'' = 1000000000"
  by (simp add: sample_genesis_def sample_block_log_def spec_action_def spec_block_def spec_empty_def spec_reward_def next_block_def
    reward_gain_def coin_val_def)

theorem confirmed_balance_exact_witness:
  "\<exists>st r. AccountResponseFromRawAccount sample_reader (sy_head_block_index (snd st)) ''alice''
      (account_balance (rs_accounts (fst st)) ''alice'') st = Inr r
    \<and> coin_val (ar_confirmed_balance r) = 1000000000 \<and> coin_val (ar_unconfirmed_sent r) = 400000000
    \<and> coin_val (ar_unconfirmed_received r) = 0"
proof -
  obtain st where st: "tracks sample_ext [''alice''] False st (fold (spec_action [''alice'']) (map Transaction_log [sample_transfer_log 3])
     (fold (spec_action [''alice'']) (map Block_log [sample_genesis]) spec_empty))" using sample_tracks by blast
  have moves: "gain [''alice''] (the_info (sample_transfer_log 3)) [] ''alice'' = 0"
    "loss [''alice''] (the_info (sample_transfer_log 3)) ''alice'' = 400000000"
    by (simp_all add: sample_info gain_def loss_def counted_def coin_val_def)
  have "\<exists>r. AccountResponseFromRawAccount sample_reader (sy_head_block_index (snd st)) ''alice''
      (account_balance (rs_accounts (fst st)) ''alice'') st = Inr r
    \<and> coin_val (ar_confirmed_balance r) = sp_balance (fold (spec_action [''alice'']) (map Block_log [sample_genesis]) spec_empty) ''alice''
    \<and> coin_val (ar_unconfirmed_sent r) = (\<Sum>l \<leftarrow> [sample_transfer_log 3]. loss [''alice''] (the_info l) ''alice'')
    \<and> coin_val (ar_unconfirmed_received r) = (\<Sum>l \<leftarrow> [sample_transfer_log 3]. gain [''alice''] (the_info l) [] ''alice'')"
  proof (rule confirmed_balance_exact [OF _ sample_pool_ok refl st sample_reader_ok])
    show "sp_balance (fold (spec_action [''alice'']) (map Block_log [sample_genesis]) spec_empty) ''alice''
        + (\<Sum>l \<leftarrow> [sample_transfer_log 3]. gain [''alice''] (the_info l) [] ''alice'') < val_limit"
      unfolding sample_genesis_balance by (simp add: moves)
  qed simp_all
  then show ?thesis unfolding sample_genesis_balance by (intro exI [of _ st]) (simp add: moves)
qed

theorem history_ascending_witness:
  "let l = account_log_of [(1, sample_transfer_log 2)]; r = account_log_of [(0, \<lparr> rl_to = ''alice'', rl_amount = Coin 10 0, rl_reward_type = RT_initial \<rparr>)];
       st = (fst (fresh_state ''alice''), (snd (fresh_state ''alice''))\<lparr>sy_transactions := (\<lambda>_. l), sy_rewards := (\<lambda>_. r)\<rparr>);
       A = block_set sample_reader 0 2 l; B = block_set sample_reader 0 2 r
   in get_history sample_reader 1 0 2 ''alice'' st = fold_res (history_of_block 1 ''alice'' l r [] A B) [0, 1] []"
proof -
  let ?l = "account_log_of [(1, sample_transfer_log 2)]"
    and ?r = "account_log_of [(0, \<lparr> rl_to = ''alice'', rl_amount = Coin 10 0, rl_reward_type = RT_initial \<rparr>)]"
  let ?sy = "(snd (fresh_state ''alice''))\<lparr>sy_transactions := (\<lambda>_. ?l), sy_rewards := (\<lambda>_. ?r)\<rparr>"
  have "set (block_set sample_reader 0 2 ?l) = {1}" "set (block_set sample_reader 0 2 ?r) = {0}"
    by (auto simp: set_block_set [OF sample_reader_ok] in_window_def)
  then have sets: "block_set sample_reader 0 2 ?l = [1]" "block_set sample_reader 0 2 ?r = [0]"
    using block_set_sorted [of sample_reader 0 2 ?l] block_set_sorted [of sample_reader 0 2 ?r]
    by (metis strict_sorted_equal sorted_wrt1 empty_set list.simps(15))+
  have "get_history sample_reader 1 0 2 ''alice'' (fst (fresh_state ''alice''), ?sy)
    = fold_res (history_of_block 1 ''alice'' ?l ?r (rs_blocks (fst (fresh_state ''alice''))) [1] [0]) (sort (remdups ([1] @ [0]))) []"
    using history_ascending [of "[1]" sample_reader 0 2 ?sy "''alice''" "[0]" 1 "fst (fresh_state ''alice'')"] sets by simp
  then show ?thesis by (simp add: sets fresh_state_def Let_def)
qed

end
