(* ===== verification/Broadcasting.thy ===== *)
theory Broadcasting
  imports Messages
begin

text \<open>
  \<open>broadcast_message\<close> of libblockchain/communication\_rpc.cpp: to which peers a node passes on a
  message. A stored transaction goes on between peers in one direction of the order of their names only,
  unless it is reflected; a chain of such relays is shown to end whatever the peers, the dice and the names
  are.
\<close>

section \<open>Model\<close>

record broadcast =
  echoes :: u64
  bc_package :: signed_transaction

definition str_compare :: "string \<Rightarrow> string \<Rightarrow> int" where
  "str_compare a b = (if a > b then 1 else if a < b then -1 else 0)"

text \<open>\<open>chance_to_reflect\<close> is the outcome of \<open>beltpp::chance_one_of(10)\<close>. The result lists what is sent.\<close>

definition can_reflect :: "bool \<Rightarrow> broadcast \<Rightarrow> bool" where
  "can_reflect chance_to_reflect b \<longleftrightarrow> chance_to_reflect \<and> echoes b \<noteq> 0"

definition broadcast_message ::
  "bool \<Rightarrow> string \<Rightarrow> string \<Rightarrow> bool \<Rightarrow> string list \<Rightarrow> broadcast \<Rightarrow> (string \<times> broadcast) list" where
  "broadcast_message chance_to_reflect self from full_broadcast all_peers b =
     (let direction = (if full_broadcast then 0 else str_compare self from)
      in if \<not> full_broadcast \<and> direction = 0 then []
         else let b = (if full_broadcast then b\<lparr>echoes := 2\<rparr> else b);
                  reflect = can_reflect chance_to_reflect b;
                  b = (if echoes b > 2 then b\<lparr>echoes := 2\<rparr> else b);
                  filtered_peers = filter (\<lambda>peer. full_broadcast \<or> direction \<noteq> str_compare self peer) all_peers
              in if filtered_peers = [] \<and> reflect
                 then map (\<lambda>peer. (peer, b\<lparr>echoes := echoes b - 1\<rparr>)) all_peers
                 else map (\<lambda>peer. (peer, b)) filtered_peers)"

section \<open>A chain of relays ends\<close>

text \<open>A hop: the node that relays, the peer it has the message from, and the echoes left. \<open>relays\<close> are the
  hops one hop leads to, for either outcome of the dice. \<open>full\<close> is the argument \<open>full_broadcast\<close> of the handler
  that relays: false for a transaction that came from a peer, true for letters, storage commands and announced
  addresses.\<close>

type_synonym hop = "string \<times> string \<times> u64"

definition relays :: "bool \<Rightarrow> (string \<Rightarrow> string list) \<Rightarrow> signed_transaction \<Rightarrow> hop \<Rightarrow> hop list" where
  "relays full peers package = (\<lambda>(self, from, e).
     concat (map (\<lambda>chance. map (\<lambda>(peer, b). (peer, self, echoes b))
       (broadcast_message chance self from full (peers self) \<lparr> echoes = e, bc_package = package \<rparr>)) [False, True]))"

fun relay_chain :: "bool \<Rightarrow> (string \<Rightarrow> string list) \<Rightarrow> signed_transaction \<Rightarrow> hop list \<Rightarrow> bool" where
  "relay_chain full peers package [] = True"
| "relay_chain full peers package [h] = True"
| "relay_chain full peers package (h # h' # hs) = (h' \<in> set (relays full peers package h) \<and> relay_chain full peers package (h' # hs))"

text \<open>The nodes on the other side of a node than the peer it has the message from.\<close>

definition beyond :: "string set \<Rightarrow> string \<Rightarrow> string \<Rightarrow> string set" where
  "beyond N self from = {p \<in> N. str_compare self p \<noteq> 0 \<and> str_compare self p \<noteq> str_compare self from}"

definition echoes_left :: "u64 \<Rightarrow> nat" where
  "echoes_left e = min (unat e) 2"

lemma relays_cases:
  assumes "(p, self', e') \<in> set (relays False peers package (self, from, e))"
  obtains (onward) "self' = self" "p \<in> set (peers self)" "str_compare self from \<noteq> 0"
      "str_compare self p \<noteq> str_compare self from" "echoes_left e' = echoes_left e"
  | (reflected) "self' = self" "p \<in> set (peers self)" "Suc (echoes_left e') = echoes_left e"
proof -
  let ?b = "\<lparr> echoes = e, bc_package = package \<rparr>"
  have two: "unat (2 :: u64) = 2" by simp
  have capped: "echoes_left (echoes (if 2 < echoes ?b then ?b\<lparr>echoes := 2\<rparr> else ?b)) = echoes_left e"
    by (simp add: echoes_left_def word_less_nat_alt)
  have less: "Suc (echoes_left (echoes ((if 2 < echoes ?b then ?b\<lparr>echoes := 2\<rparr> else ?b)) - 1)) = echoes_left e" if "e \<noteq> 0"
  proof -
    have "unat (e - 1) = unat e - 1" "0 < unat e" using that by (simp_all add: unat_minus_one unat_gt_0)
    then show ?thesis by (auto simp: echoes_left_def word_less_nat_alt)
  qed
  have "\<exists>chance b. (p, b) \<in> set (broadcast_message chance self from False (peers self) ?b) \<and> self' = self \<and> e' = echoes b"
    using assms by (auto simp: relays_def)
  then obtain chance b where b: "(p, b) \<in> set (broadcast_message chance self from False (peers self) ?b)" "self' = self" "e' = echoes b"
    by blast
  have source: "str_compare self from \<noteq> 0" using b(1) by (auto simp: broadcast_message_def)
  show thesis
  proof (cases "filter (\<lambda>peer. str_compare self from \<noteq> str_compare self peer) (peers self) = [] \<and> can_reflect chance ?b")
    case True
    then have "p \<in> set (peers self)" "echoes b = echoes (if 2 < echoes ?b then ?b\<lparr>echoes := 2\<rparr> else ?b) - 1" "e \<noteq> 0"
      using b(1) source by (auto simp: broadcast_message_def can_reflect_def Let_def split: if_splits)
    then show thesis using reflected b less by simp
  next
    case False
    then have "(p, b) \<in> set (map (\<lambda>peer. (peer, if 2 < echoes ?b then ?b\<lparr>echoes := 2\<rparr> else ?b))
        (filter (\<lambda>peer. str_compare self from \<noteq> str_compare self peer) (peers self)))"
      using b(1) source by (simp add: broadcast_message_def Let_def split del: if_split cong: if_cong) (auto split: if_splits)
    then show thesis using onward b source capped by auto
  qed
qed

lemma str_compare_simps:
  "str_compare a b = 0 \<longleftrightarrow> a = b" "str_compare a b = 1 \<longleftrightarrow> b < a" "str_compare a b = -1 \<longleftrightarrow> a < b"
  "str_compare b a = - str_compare a b" "str_compare a b \<in> {-1, 0, 1}"
  by (auto simp: str_compare_def not_less)

lemma beyond_onward:
  assumes "str_compare self p \<noteq> 0" "str_compare self p \<noteq> str_compare self from" "p \<in> N"
  shows "beyond N p self \<subset> beyond N self from"
proof
  show "beyond N p self \<subseteq> beyond N self from"
  proof
    fix q assume q: "q \<in> beyond N p self"
    have "str_compare self q = str_compare self p"
    proof (cases "p < self")
      case True
      then have "q < p" using q str_compare_simps [of p q] str_compare_simps [of p self] by (auto simp: beyond_def)
      from this True have "q < self" by (rule less_trans)
      then show ?thesis using True by (simp add: str_compare_def)
    next
      case False
      then have "self < p" using assms(1) str_compare_simps(1) [of self p] by auto
      moreover from this have "p < q" using q str_compare_simps [of p q] str_compare_simps [of p self] by (auto simp: beyond_def)
      ultimately show ?thesis by (auto simp: str_compare_def)
    qed
    then show "q \<in> beyond N self from" using q assms by (simp add: beyond_def)
  qed
  have "p \<notin> beyond N p self" by (simp add: beyond_def str_compare_def)
  moreover have "p \<in> beyond N self from" using assms by (simp add: beyond_def)
  ultimately show "beyond N p self \<noteq> beyond N self from" by blast
qed

definition hop_measure :: "string set \<Rightarrow> hop \<Rightarrow> nat" where
  "hop_measure N = (\<lambda>(self, from, e). echoes_left e * card N + card (beyond N self from))"

lemma beyond_less: "finite N \<Longrightarrow> self \<in> N \<Longrightarrow> card (beyond N self from) < card N"
  by (rule psubset_card_mono) (auto simp: beyond_def str_compare_def)

lemma relay_decreases:
  assumes N: "finite N" "\<forall>n \<in> N. set (peers n) \<subseteq> N - {n}" and self: "self \<in> N"
    and hop: "(p, self', e') \<in> set (relays False peers package (self, from, e))"
  shows "p \<in> N \<and> hop_measure N (p, self', e') < hop_measure N (self, from, e)"
  using hop
proof (cases rule: relays_cases)
  case onward
  then have p: "p \<in> N" "p \<noteq> self" using N(2) self by auto
  then have "beyond N p self \<subset> beyond N self from" using onward str_compare_simps(1) [of self p] by (intro beyond_onward) auto
  then have "card (beyond N p self) < card (beyond N self from)"
    using N(1) by (intro psubset_card_mono) (auto simp: beyond_def)
  then show ?thesis using p onward by (simp add: hop_measure_def)
next
  case reflected
  then have p: "p \<in> N" using N(2) self by auto
  have "echoes_left e' * card N + card (beyond N p self) < Suc (echoes_left e') * card N" using beyond_less [OF N(1) p] by simp
  also have "\<dots> \<le> hop_measure N (self, from, e)" using reflected by (simp add: hop_measure_def)
  finally show ?thesis using p reflected by (simp add: hop_measure_def)
qed

lemma relay_chain_measure:
  assumes "finite N" "\<forall>n \<in> N. set (peers n) \<subseteq> N - {n}" "relay_chain False peers package (h # hs)" "fst h \<in> N"
  shows "length hs \<le> hop_measure N h"
  using assms(3,4)
proof (induction hs arbitrary: h)
  case (Cons h' hs)
  obtain self source e p self' e' where h: "h = (self, source, e)" "h' = (p, self', e')" by (metis prod.collapse)
  have "(p, self', e') \<in> set (relays False peers package (self, source, e))" "relay_chain False peers package (h' # hs)"
    using Cons.prems h by simp_all
  then have "p \<in> N \<and> hop_measure N h' < hop_measure N h" using relay_decreases [OF assms(1,2)] Cons.prems(2) h by simp
  then show ?case using Cons.IH [of h'] \<open>relay_chain False peers package (h' # hs)\<close> h by simp
qed simp

lemma relay_chain_short:
  assumes "finite N" "\<forall>n \<in> N. set (peers n) \<subseteq> N - {n}" "relay_chain False peers package hs" "hs \<noteq> [] \<Longrightarrow> fst (hd hs) \<in> N"
  shows "length hs \<le> 3 * card N"
proof (cases hs)
  case (Cons h hs')
  obtain self source e where h: "h = (self, source, e)" by (metis prod.collapse)
  have self: "self \<in> N" using assms(4) Cons h by simp
  have "echoes_left e \<le> 2" by (simp add: echoes_left_def)
  then have "echoes_left e * card N \<le> 2 * card N" by (rule mult_le_mono1)
  moreover have "length hs' \<le> echoes_left e * card N + card (beyond N self source)"
    using relay_chain_measure [OF assms(1,2), of package h hs'] assms(3) Cons h self by (simp add: hop_measure_def)
  moreover have "card (beyond N self source) < card N" using beyond_less [OF assms(1) self] .
  moreover have "length hs = Suc (length hs')" using Cons by simp
  ultimately show ?thesis by linarith
qed simp

text \<open>Two peers that always broadcast to everybody.\<close>

fun back_and_forth :: "string \<Rightarrow> string \<Rightarrow> nat \<Rightarrow> hop list" where
  "back_and_forth n m 0 = []"
| "back_and_forth n m (Suc k) = (n, m, 2) # back_and_forth m n k"

lemma full_relay: "m \<in> set (peers n) \<Longrightarrow> (m, n, 2) \<in> set (relays True peers package (n, p, e))"
  by (auto simp: relays_def broadcast_message_def can_reflect_def Let_def)

lemma back_and_forth_chain:
  "m \<in> set (peers n) \<Longrightarrow> n \<in> set (peers m) \<Longrightarrow> relay_chain True peers package (back_and_forth n m k) \<and> length (back_and_forth n m k) = k"
proof (induction k arbitrary: n m)
  case (Suc k)
  then have IH: "relay_chain True peers package (back_and_forth m n k)" "length (back_and_forth m n k) = k" by simp_all
  show ?case using IH full_relay [of m peers n package m 2] Suc.prems by (cases k) auto
qed simp

text \<open>C12: a transaction that peers pass on dies out: a chain of relays from peer to peer without
  \<open>full_broadcast\<close> has at most three times as many hops as there are nodes, whatever the peers of each node and
  whatever the dice say. Without a reflection the names along the chain only grow or only shrink, and there are at
  most two reflections. What is relayed with \<open>full_broadcast\<close> is not bounded by this: between two nodes that are
  peers of each other there are chains of any length, so that only the caches of the nodes stop it.\<close>

theorem relays_end:
  assumes "finite N" "\<forall>n \<in> N. set (peers n) \<subseteq> N - {n}"
  shows "(relay_chain False peers package hs \<and> (hs \<noteq> [] \<longrightarrow> fst (hd hs) \<in> N) \<longrightarrow> length hs \<le> 3 * card N)
    \<and> (m \<in> set (peers n) \<and> n \<in> set (peers m) \<longrightarrow> (\<exists>hops. relay_chain True peers package hops \<and> length hops = k))"
  using relay_chain_short [OF assms] back_and_forth_chain [of m peers n package k] by blast

text \<open>Three nodes in a row of which the one in the middle is the largest: with luck it reflects.\<close>

definition sample_peers :: "string \<Rightarrow> string list" where
  "sample_peers n = (if n = ''c'' then [''a'', ''b''] else if n \<in> {''a'', ''b''} then [''c''] else [])"

definition sample_package :: signed_transaction where
  "sample_package = \<lparr> transaction_details = \<lparr> tx_creation = 0, tx_expiry = 0, tx_fee = coin_zero, tx_action = Other_action Unknown_package \<rparr>,
     authorizations = [] \<rparr>"

theorem relays_end_witness:
  "(''b'', ''c'', 1) \<in> set (relays False sample_peers sample_package (''c'', ''a'', 2))
   \<and> length [(''c'', ''a'', 2 :: u64), (''b'', ''c'', 1)] \<le> 3 * card {''a'', ''b'', ''c''}"
proof -
  have hop: "(''b'', ''c'', 1) \<in> set (relays False sample_peers sample_package (''c'', ''a'', 2))"
    by (simp add: relays_def broadcast_message_def can_reflect_def sample_peers_def str_compare_def)
  moreover have "length [(''c'', ''a'', 2 :: u64), (''b'', ''c'', 1)] \<le> 3 * card {''a'', ''b'', ''c''}"
    using hop relays_end [of "{''a'', ''b'', ''c''}" sample_peers sample_package "[(''c'', ''a'', 2 :: u64), (''b'', ''c'', 1)]"]
    by (auto simp: sample_peers_def)
  ultimately show ?thesis ..
qed

end
