(* ===== verification/Node_Addresses.thy ===== *)
theory Node_Addresses
  imports Broadcasting Node_State "HOL-Library.Multiset"
begin

text \<open>
  libblockchain/nodeid\_service.cpp: the network addresses that were announced for nodes, which of them
  answered with a signature, and the sessions of sessions.cpp that ask them. An address that is verified
  cannot be pushed aside by an announcement.
\<close>

section \<open>State\<close>

datatype verified_type = Verified_never | Verified_past | Verified_current

text \<open>The action that passes an announcement on when its address is verified: the peer it came from and
  the message.\<close>

record nodeid_address_unit =
  nu_address :: ip_address
  nu_node_address :: string
  nu_checked_time_point :: time
  nu_ssl_address :: ip_address
  nu_action :: "(string \<times> broadcast) option"
  nu_verified :: verified_type

text \<open>The \<open>multi_index_container\<close>, in the order of insertion. Its first index groups the units of a node,
  the second makes the node and the text of its address unique, the third orders by the time of the
  last check. The text of an address is a function of belt.pp.\<close>

type_synonym nodeid_service = "nodeid_address_unit list"

definition for_node :: "string \<Rightarrow> nodeid_service \<Rightarrow> nodeid_service" where
  "for_node node s = filter (\<lambda>u. nu_node_address u = node) s"

definition unit_key :: "(ip_address \<Rightarrow> string) \<Rightarrow> nodeid_address_unit \<Rightarrow> string \<times> string" where
  "unit_key ip_string u = (nu_node_address u, ip_string (nu_address u))"

section \<open>Operations\<close>

definition new_unit :: "string \<Rightarrow> ip_address \<Rightarrow> ip_address \<Rightarrow> (string \<times> broadcast) option \<Rightarrow> nodeid_address_unit" where
  "new_unit node_address address ssl_address action =
     \<lparr> nu_address = address, nu_node_address = node_address, nu_checked_time_point = 0, nu_ssl_address = ssl_address,
       nu_action = action, nu_verified = Verified_never \<rparr>"

definition address_add ::
  "(ip_address \<Rightarrow> string) \<Rightarrow> string \<Rightarrow> ip_address \<Rightarrow> ip_address \<Rightarrow> (string \<times> broadcast) option \<Rightarrow> nodeid_service \<Rightarrow> nodeid_service res" where
  "address_add ip_string node_address address ssl_address action s =
     (let u = new_unit node_address address ssl_address action; same = (\<lambda>v. unit_key ip_string v = unit_key ip_string u)
      in if for_node node_address s \<noteq> [] \<and> nu_verified (hd (for_node node_address s)) = Verified_current then Inr s
         else case find same s of
           None \<Rightarrow> Inr (s @ [u])
         | Some v \<Rightarrow>
             throw_if (nu_address v \<noteq> address)
               (Logic_error ''nodeid_service::add: it_nodeid->header.address != header_address'')
               (Inr (map (\<lambda>v. if same v then v\<lparr>nu_action := action, nu_ssl_address := ssl_address\<rparr> else v) s)))"

text \<open>The first unit of the node, the only one when the loop before did its work, gets the time. The
  service after an exception is returned, too.\<close>

fun set_first :: "string \<Rightarrow> time \<Rightarrow> nodeid_service \<Rightarrow> nodeid_service" where
  "set_first node now [] = []"
| "set_first node now (u # s) =
     (if nu_node_address u = node then u\<lparr>nu_checked_time_point := now\<rparr> # s else u # set_first node now s)"

definition keep_successful :: "string \<Rightarrow> ip_address \<Rightarrow> bool \<Rightarrow> time \<Rightarrow> nodeid_service \<Rightarrow> unit res \<times> nodeid_service" where
  "keep_successful node_address address verified now s =
     (if for_node node_address s = []
      then (Inl (Logic_error ''nodeid_service::keep_successful cannot find the expected nodeid''), s)
      else let kept = filter (\<lambda>u. nu_node_address u \<noteq> node_address \<or> nu_address u = address) s;
               erased_count = length s - length kept;
               kept_count = length (for_node node_address kept);
               s' = map (\<lambda>u. if nu_node_address u = node_address
                             then u\<lparr>nu_verified := (if verified then Verified_current else Verified_past)\<rparr> else u) kept
           in if kept_count \<noteq> 1 then (Inl (Logic_error ''nodeid_service keep_successful()''), s')
              else if \<not> verified \<and> erased_count \<noteq> 0 then (Inl (Logic_error ''nodeid_service keep_successful(false)''), s')
              else (Inr (), set_first node_address now s'))"

definition erase_failed :: "string \<Rightarrow> ip_address \<Rightarrow> nodeid_service \<Rightarrow> nodeid_service res" where
  "erase_failed node_address address s =
     (if for_node node_address s = []
      then Inl (Logic_error ''nodeid_service::erase_failed cannot find the expected entry'')
      else Inr (filter (\<lambda>u. \<not> (nu_node_address u = node_address \<and> nu_address u = address)) s))"

text \<open>The actions, one for each node, and the service without them.\<close>

fun take_actions_from ::
  "string set \<Rightarrow> nodeid_service \<Rightarrow> (string \<times> ip_address \<times> string \<times> broadcast) list \<times> nodeid_service" where
  "take_actions_from prev [] = ([], [])"
| "take_actions_from prev (u # s) =
     (case nu_action u of
        Some a \<Rightarrow>
          if nu_node_address u \<notin> prev
          then let (taken, rest) = take_actions_from (insert (nu_node_address u) prev) s
               in ((nu_node_address u, nu_address u, a) # taken, u\<lparr>nu_action := None\<rparr> # rest)
          else let (taken, rest) = take_actions_from prev s in (taken, u # rest)
      | None \<Rightarrow> let (taken, rest) = take_actions_from prev s in (taken, u # rest))"

definition take_actions :: "nodeid_service \<Rightarrow> (string \<times> ip_address \<times> string \<times> broadcast) list \<times> nodeid_service" where
  "take_actions s = take_actions_from {} s"

text \<open>Both clocks in seconds: the time since the epoch and the steady clock.\<close>

definition seconds_since :: "time \<Rightarrow> time \<Rightarrow> nodeid_address_unit \<Rightarrow> u64" where
  "seconds_since system_now steady_now u =
     (case nu_verified u of
        Verified_current \<Rightarrow> 0
      | Verified_never \<Rightarrow> of_int system_now
      | Verified_past \<Rightarrow> of_int (steady_now - nu_checked_time_point u))"

definition address_info_of :: "time \<Rightarrow> time \<Rightarrow> nodeid_address_unit \<Rightarrow> public_address_info" where
  "address_info_of system_now steady_now u =
     \<lparr> pa_ip_address = nu_address u, pa_ssl_ip_address = nu_ssl_address u, pa_node_address = nu_node_address u,
       pa_seconds_since_checked = seconds_since system_now steady_now u \<rparr>"

definition get_addresses :: "time \<Rightarrow> time \<Rightarrow> nodeid_service \<Rightarrow> public_address_info list" where
  "get_addresses system_now steady_now s =
     (let recent = rev (sort_key nu_checked_time_point s); info = address_info_of system_now steady_now
      in map info (filter (\<lambda>u. nu_verified u = Verified_current) recent)
         @ map info (filter (\<lambda>u. nu_verified u \<noteq> Verified_current) recent))"

section \<open>The session that asks an address for a signature\<close>

text \<open>\<open>session_action_signatures\<close> of sessions.cpp. \<open>sg_expected\<close> says that a \<open>Pong\<close> is waited for.\<close>

record signatures_session =
  sg_need_to_revert :: bool
  sg_nodeid :: string
  sg_address :: ip_address
  sg_authority :: string
  sg_expected :: bool
  sg_completed :: bool
  sg_errored :: bool

record pong =
  pg_node_address :: string
  pg_stamp :: time
  pg_signature :: string

definition signatures_initiate :: "string \<Rightarrow> ip_address \<Rightarrow> signatures_session \<Rightarrow> signatures_session" where
  "signatures_initiate nodeid address g =
     g\<lparr>sg_expected := True, sg_nodeid := nodeid, sg_address := address,
       sg_authority := (if sg_authority g = [] then nodeid else sg_authority g)\<rparr>"

text \<open>\<open>verify\<close> is \<open>meshpp::verify_signature\<close>, \<open>stamp_string\<close> the text of the time. The times of the
  machine are \<open>now\<close> and, on the steady clock, \<open>steady_now\<close>. The package is a \<open>Pong\<close> or another.\<close>

definition pong_ok :: "(string \<Rightarrow> string \<Rightarrow> string \<Rightarrow> bool) \<Rightarrow> (time \<Rightarrow> string) \<Rightarrow> time \<Rightarrow> string \<Rightarrow> pong \<Rightarrow> signatures_session \<Rightarrow> bool" where
  "pong_ok verify stamp_string now nodeid msg g \<longleftrightarrow>
     -30 \<le> pg_stamp msg - now \<and> pg_stamp msg - now < 30 \<and> nodeid = pg_node_address msg
     \<and> verify (sg_authority g) (pg_node_address msg @ stamp_string (pg_stamp msg)) (pg_signature msg)"

definition signatures_process ::
  "(string \<Rightarrow> string \<Rightarrow> string \<Rightarrow> bool) \<Rightarrow> (time \<Rightarrow> string) \<Rightarrow> time \<Rightarrow> time \<Rightarrow> string \<Rightarrow> pong option \<Rightarrow> signatures_session \<times> nodeid_service
     \<Rightarrow> bool res \<times> signatures_session \<times> nodeid_service" where
  "signatures_process verify stamp_string now steady_now nodeid package = (\<lambda>(g, s).
     case package of
       Some msg \<Rightarrow>
         if \<not> sg_expected g then (Inr False, g, s)
         else if pong_ok verify stamp_string now nodeid msg g
         then (case keep_successful (sg_nodeid g) (sg_address g) True steady_now s of
                 (Inl e, s') \<Rightarrow> (Inl e, g\<lparr>sg_errored := True\<rparr>, s')
               | (Inr _, s') \<Rightarrow> (Inr True, g\<lparr>sg_need_to_revert := True, sg_completed := True, sg_expected := False\<rparr>, s'))
         else (case erase_failed (sg_nodeid g) (sg_address g) s of
                 Inl e \<Rightarrow> (Inl e, g\<lparr>sg_errored := True\<rparr>, s)
               | Inr s' \<Rightarrow> (Inr True, g\<lparr>sg_errored := True, sg_completed := True, sg_expected := False\<rparr>, s'))
     | None \<Rightarrow> (Inr False, g, s))"

definition signatures_close :: "time \<Rightarrow> signatures_session \<Rightarrow> nodeid_service \<Rightarrow> unit res \<times> nodeid_service" where
  "signatures_close steady_now g s =
     (if sg_need_to_revert g then keep_successful (sg_nodeid g) (sg_address g) False steady_now s
      else if sg_expected g
      then (case erase_failed (sg_nodeid g) (sg_address g) s of Inl e \<Rightarrow> (Inl e, s) | Inr s' \<Rightarrow> (Inr (), s'))
      else (Inr (), s))"

section \<open>The invariant\<close>

text \<open>No two units have the same node and address, and an address that is verified is the only one of its
  node.\<close>

definition nodeids_wf :: "(ip_address \<Rightarrow> string) \<Rightarrow> nodeid_service \<Rightarrow> bool" where
  "nodeids_wf ip_string s \<longleftrightarrow>
     distinct (map (unit_key ip_string) s)
     \<and> (\<forall>u \<in> set s. nu_verified u = Verified_current \<longrightarrow> for_node (nu_node_address u) s = [u])"

lemma for_node_simps [simp]:
  "for_node n [] = []" "for_node n (u # s) = (if nu_node_address u = n then u # for_node n s else for_node n s)"
  "for_node n (s @ t) = for_node n s @ for_node n t" "for_node n (filter P s) = filter P (for_node n s)"
  "u \<in> set (for_node n s) \<longleftrightarrow> u \<in> set s \<and> nu_node_address u = n"
  by (auto simp: for_node_def intro: filter_cong)

lemma for_node_map: "(\<And>u. nu_node_address (f u) = nu_node_address u) \<Longrightarrow> for_node n (map f s) = map f (for_node n s)"
  by (induction s) auto

lemma nodeids_wf_filter:
  assumes "nodeids_wf ip_string s"
  shows "nodeids_wf ip_string (filter P s)"
  using assms by (auto simp: nodeids_wf_def distinct_map inj_on_def)

text \<open>A change that keeps node and address, and verifies nothing.\<close>

lemma nodeids_wf_map:
  assumes wf: "nodeids_wf ip_string s"
    and f: "\<And>u. nu_node_address (f u) = nu_node_address u" "\<And>u. nu_address (f u) = nu_address u"
      "\<And>u. nu_verified (f u) = Verified_current \<Longrightarrow> nu_verified u = Verified_current"
  shows "nodeids_wf ip_string (map f s)"
proof -
  have "map (unit_key ip_string) (map f s) = map (unit_key ip_string) s" by (simp add: unit_key_def f)
  moreover have "for_node (nu_node_address (f u)) (map f s) = [f u]" if "u \<in> set s" "nu_verified (f u) = Verified_current" for u
    using that wf f by (simp add: for_node_map nodeids_wf_def)
  ultimately show ?thesis using wf by (auto simp: nodeids_wf_def simp del: map_map)
qed

lemma nodeids_wf_map_back:
  assumes wf: "nodeids_wf ip_string (map f s)"
    and f: "\<And>u. nu_node_address (f u) = nu_node_address u" "\<And>u. nu_address (f u) = nu_address u"
      "\<And>u. nu_verified (f u) = nu_verified u"
  shows "nodeids_wf ip_string s"
proof -
  have "map (unit_key ip_string) (map f s) = map (unit_key ip_string) s" by (simp add: unit_key_def f)
  moreover have "for_node (nu_node_address u) s = [u]" if u: "u \<in> set s" "nu_verified u = Verified_current" for u
  proof -
    have "map f (for_node (nu_node_address u) s) = [f u]" using u wf f by (auto simp: nodeids_wf_def simp flip: for_node_map [of f])
    then obtain x where "for_node (nu_node_address u) s = [x]" by auto
    moreover have "u \<in> set (for_node (nu_node_address u) s)" using u by simp
    ultimately show ?thesis by simp
  qed
  ultimately show ?thesis using wf by (auto simp: nodeids_wf_def simp del: map_map)
qed

lemma nodeids_wf_add:
  assumes "nodeids_wf ip_string s" "address_add ip_string node address ssl action s = Inr s'"
  shows "nodeids_wf ip_string s'"
proof -
  let ?u = "new_unit node address ssl action" and ?s = "for_node node s"
  let ?same = "\<lambda>v. unit_key ip_string v = unit_key ip_string ?u"
  have u: "nu_node_address ?u = node" "nu_verified ?u = Verified_never" by (simp_all add: new_unit_def)
  show ?thesis
  proof (cases "?s \<noteq> [] \<and> nu_verified (hd ?s) = Verified_current")
    case True
    then show ?thesis using assms by (simp add: address_add_def Let_def)
  next
    case False
    then have none: "nu_verified v \<noteq> Verified_current" if "v \<in> set s" "nu_node_address v = node" for v
      using assms(1) that by (auto simp: nodeids_wf_def)
    show ?thesis
    proof (cases "find ?same s")
      case None
      then have s': "s' = s @ [?u]" using assms(2) False by (auto simp: address_add_def Let_def)
      have "unit_key ip_string ?u \<notin> unit_key ip_string ` set s" using None by (auto simp: find_None_iff)
      then show ?thesis using assms(1) none u by (auto simp: nodeids_wf_def s')
    next
      case (Some v)
      then have "s' = map (\<lambda>v. if ?same v then v\<lparr>nu_action := action, nu_ssl_address := ssl\<rparr> else v) s"
        using assms(2) False by (auto simp: address_add_def Let_def throw_if_def split: if_splits)
      then show ?thesis using assms(1) by (auto intro!: nodeids_wf_map split: if_splits)
    qed
  qed
qed

lemma set_first_single:
  "length (for_node node s) \<le> 1
   \<Longrightarrow> set_first node now s = map (\<lambda>u. if nu_node_address u = node then u\<lparr>nu_checked_time_point := now\<rparr> else u) s"
proof (induction s)
  case (Cons u s)
  show ?case
  proof (cases "nu_node_address u = node")
    case True
    then have "for_node node s = []" using Cons.prems by simp
    then have "nu_node_address v \<noteq> node" if "v \<in> set s" for v using that by (metis for_node_simps(5) empty_iff empty_set)
    then show ?thesis using True by (auto intro!: map_idI [symmetric])
  qed (use Cons in simp)
qed simp

text \<open>What stays of a node when the other addresses are removed.\<close>

lemma kept_single:
  assumes "nodeids_wf ip_string s"
  shows "length (for_node node (filter (\<lambda>u. nu_node_address u \<noteq> node \<or> nu_address u = address) s)) \<le> 1"
proof -
  let ?k = "for_node node (filter (\<lambda>u. nu_node_address u \<noteq> node \<or> nu_address u = address) s)"
  have "distinct (map (unit_key ip_string) ?k)" using assms by (auto simp: nodeids_wf_def for_node_def distinct_map inj_on_def)
  moreover have "set (map (unit_key ip_string) ?k) \<subseteq> {(node, ip_string address)}" by (auto simp: unit_key_def)
  then have "card (set (map (unit_key ip_string) ?k)) \<le> card {(node, ip_string address)}" by (rule card_mono [rotated]) simp
  ultimately show ?thesis using distinct_card [of "map (unit_key ip_string) ?k"] by simp
qed

lemma for_node_single:
  assumes "length (for_node n s) \<le> 1" "u \<in> set s" "nu_node_address u = n"
  shows "for_node n s = [u]"
proof -
  have "u \<in> set (for_node n s)" using assms by simp
  then show ?thesis using assms(1) by (cases "for_node n s") auto
qed

lemma nodeids_wf_keep:
  assumes wf: "nodeids_wf ip_string s" and keep: "keep_successful node address verified now s = (r, s')"
  shows "nodeids_wf ip_string s'"
proof (cases "for_node node s = []")
  case True
  then show ?thesis using assms by (simp add: keep_successful_def)
next
  case False
  let ?kept = "filter (\<lambda>u. nu_node_address u \<noteq> node \<or> nu_address u = address) s"
  let ?f = "\<lambda>u. if nu_node_address u = node then u\<lparr>nu_verified := (if verified then Verified_current else Verified_past)\<rparr> else u"
  have single: "length (for_node node (map ?f ?kept)) \<le> 1"
    using kept_single [OF wf, of node address] by (subst for_node_map) auto
  have kept: "nodeids_wf ip_string ?kept" using wf by (rule nodeids_wf_filter)
  have marked: "nodeids_wf ip_string (map ?f ?kept)"
  proof -
    have "map (unit_key ip_string) (map ?f ?kept) = map (unit_key ip_string) ?kept" by (simp add: unit_key_def)
    then have "distinct (map (unit_key ip_string) (map ?f ?kept))" using kept by (simp only: nodeids_wf_def)
    moreover have "for_node (nu_node_address u) (map ?f ?kept) = [u]"
      if u: "u \<in> set (map ?f ?kept)" "nu_verified u = Verified_current" for u
    proof (cases "nu_node_address u = node")
      case True
      then show ?thesis using for_node_single [OF single u(1)] by simp
    next
      case False
      then have "u \<in> set ?kept" using u by (auto split: if_splits)
      then have "for_node (nu_node_address u) ?kept = [u]" using kept u(2) by (simp add: nodeids_wf_def del: for_node_simps)
      then show ?thesis using False by (subst for_node_map) auto
    qed
    ultimately show ?thesis unfolding nodeids_wf_def by blast
  qed
  have "s' = map ?f ?kept \<or> s' = set_first node now (map ?f ?kept)"
    using keep False by (auto simp: keep_successful_def Let_def simp del: for_node_simps split: if_splits)
  moreover have "nodeids_wf ip_string (set_first node now (map ?f ?kept))"
    unfolding set_first_single [OF single] using marked by (rule nodeids_wf_map) (auto split: if_splits)
  ultimately show ?thesis using marked by blast
qed

lemma set_first_origin:
  "u \<in> set (set_first node now s) \<Longrightarrow> \<exists>v \<in> set s. u = v \<or> u = v\<lparr>nu_checked_time_point := now\<rparr> \<and> nu_node_address v = node"
  by (induction s) (auto split: if_splits)

text \<open>Only the address that is kept is marked; the others of the node are gone, and those of other nodes
  are as they were.\<close>

lemma keep_marks:
  assumes "snd (keep_successful node address verified now s) = s'" "u \<in> set s'" "nu_verified u = Verified_current"
  shows "if nu_node_address u = node then verified \<and> nu_address u = address else u \<in> set s"
proof -
  let ?kept = "filter (\<lambda>u. nu_node_address u \<noteq> node \<or> nu_address u = address) s"
  let ?f = "\<lambda>u. if nu_node_address u = node then u\<lparr>nu_verified := (if verified then Verified_current else Verified_past)\<rparr> else u"
  let ?g = "\<lambda>u. if nu_node_address u = node then u\<lparr>nu_checked_time_point := now\<rparr> else u"
  consider (none) "s' = s" "for_node node s = []" | (marked) "s' = map ?f ?kept" | (timed) "s' = set_first node now (map ?f ?kept)"
    using assms(1) by (auto simp: keep_successful_def Let_def simp del: for_node_simps split: if_splits)
  then show ?thesis
  proof cases
    case none
    then have "nu_node_address u \<noteq> node" using assms(2) for_node_simps(5) [of u node s] by (metis empty_iff list.set(1))
    then show ?thesis using none assms(2) by simp
  next
    case marked
    then show ?thesis using assms(2,3) by (auto split: if_splits)
  next
    case timed
    obtain v where v: "v \<in> set (map ?f ?kept)" "u = v \<or> u = v\<lparr>nu_checked_time_point := now\<rparr> \<and> nu_node_address v = node"
      using set_first_origin [OF assms(2) [unfolded timed]] by (elim bexE)
    have "nu_node_address v = nu_node_address u" "nu_address v = nu_address u" "nu_verified v = nu_verified u"
      "nu_node_address u = node \<or> u = v"
      using v(2) by (elim disjE; simp)+
    then show ?thesis using v(1) assms(3) by (auto split: if_splits)
  qed
qed

lemma take_actions_strip:
  "map (\<lambda>u. u\<lparr>nu_action := None\<rparr>) (snd (take_actions_from prev s)) = map (\<lambda>u. u\<lparr>nu_action := None\<rparr>) s"
  by (induction s arbitrary: prev) (simp_all add: case_prod_beta split: option.split)

lemma nodeids_wf_take:
  assumes "nodeids_wf ip_string s"
  shows "nodeids_wf ip_string (snd (take_actions s))"
proof -
  have "nodeids_wf ip_string (map (\<lambda>u. u\<lparr>nu_action := None\<rparr>) (snd (take_actions s)))"
    unfolding take_actions_def take_actions_strip using assms by (rule nodeids_wf_map) auto
  then show ?thesis by (rule nodeids_wf_map_back) auto
qed

text \<open>What the service goes through.\<close>

inductive service_step :: "(ip_address \<Rightarrow> string) \<Rightarrow> nodeid_service \<Rightarrow> nodeid_service \<Rightarrow> bool" for ip_string where
  announced: "address_add ip_string node address ssl action s = Inr s' \<Longrightarrow> service_step ip_string s s'"
| kept: "keep_successful node address verified now s = (r, s') \<Longrightarrow> service_step ip_string s s'"
| erased: "erase_failed node address s = Inr s' \<Longrightarrow> service_step ip_string s s'"
| taken: "take_actions s = (actions, s') \<Longrightarrow> service_step ip_string s s'"

lemma nodeids_wf_step: "service_step ip_string s s' \<Longrightarrow> nodeids_wf ip_string s \<Longrightarrow> nodeids_wf ip_string s'"
proof (induction rule: service_step.induct)
  case (erased node address s s')
  then have "s' = filter (\<lambda>u. \<not> (nu_node_address u = node \<and> nu_address u = address)) s"
    by (auto simp: erase_failed_def split: if_splits)
  then show ?case using nodeids_wf_filter erased by blast
next
  case (taken s actions s')
  then show ?case using nodeids_wf_take [of ip_string s] by simp
qed (auto intro: nodeids_wf_add nodeids_wf_keep)

lemma nodeids_wf_reachable: "(service_step ip_string)\<^sup>*\<^sup>* [] s \<Longrightarrow> nodeids_wf ip_string s"
  by (induction rule: rtranclp_induct) (simp add: nodeids_wf_def, blast intro: nodeids_wf_step)

section \<open>Properties\<close>

text \<open>C10: whatever is announced, asked and answered, no two entries have the same node and address, and the
  address a node has proved to have is the only one of that node: a further announcement for it changes
  nothing, and every answer to a request for addresses lists all proved ones before the others.\<close>

theorem verified_address_stands:
  assumes "(service_step ip_string)\<^sup>*\<^sup>* [] s"
  shows "distinct (map (unit_key ip_string) s)
    \<and> (u \<in> set s \<and> nu_verified u = Verified_current
        \<longrightarrow> for_node (nu_node_address u) s = [u] \<and> address_add ip_string (nu_node_address u) address ssl action s = Inr s)
    \<and> (\<exists>proved others. get_addresses system_now steady_now s = proved @ others
        \<and> mset proved = mset (map (address_info_of system_now steady_now) (filter (\<lambda>u. nu_verified u = Verified_current) s))
        \<and> (\<forall>i \<in> set proved. pa_seconds_since_checked i = 0))"
proof (intro conjI impI)
  have wf: "nodeids_wf ip_string s" using assms by (rule nodeids_wf_reachable)
  then show "distinct (map (unit_key ip_string) s)" by (simp add: nodeids_wf_def)
  { assume u: "u \<in> set s \<and> nu_verified u = Verified_current"
    then show "for_node (nu_node_address u) s = [u]" using wf by (auto simp: nodeids_wf_def)
    then show "address_add ip_string (nu_node_address u) address ssl action s = Inr s" using u by (simp add: address_add_def Let_def) }
  let ?info = "address_info_of system_now steady_now"
  let ?recent = "rev (sort_key nu_checked_time_point s)"
  let ?proved = "map ?info (filter (\<lambda>u. nu_verified u = Verified_current) ?recent)"
  have "mset (filter (\<lambda>u. nu_verified u = Verified_current) ?recent) = mset (filter (\<lambda>u. nu_verified u = Verified_current) s)"
    by (simp flip: rev_filter)
  then have "mset ?proved = mset (map ?info (filter (\<lambda>u. nu_verified u = Verified_current) s))" by (simp only: mset_map)
  moreover have "\<forall>i \<in> set ?proved. pa_seconds_since_checked i = 0" by (auto simp: address_info_of_def seconds_since_def)
  ultimately show "\<exists>proved others. get_addresses system_now steady_now s = proved @ others
      \<and> mset proved = mset (map ?info (filter (\<lambda>u. nu_verified u = Verified_current) s))
      \<and> (\<forall>i \<in> set proved. pa_seconds_since_checked i = 0)"
    unfolding get_addresses_def Let_def by (intro exI conjI) (rule refl, assumption+)
qed

text \<open>What happens to the service in the node: an address is announced, the announcements to pass on are
  taken, a session gets a package from the node \<open>nodeid\<close>, or a session is destroyed. An exception leaves what was
  done until then.\<close>

datatype address_event =
    Announced string ip_address ip_address "(string \<times> broadcast) option"
  | Taken
  | Answered time time string "pong option" signatures_session
  | Closed time signatures_session

definition after_event ::
  "(ip_address \<Rightarrow> string) \<Rightarrow> (string \<Rightarrow> string \<Rightarrow> string \<Rightarrow> bool) \<Rightarrow> (time \<Rightarrow> string) \<Rightarrow> address_event \<Rightarrow> nodeid_service \<Rightarrow> nodeid_service" where
  "after_event ip_string verify stamp_string ev s =
     (case ev of
        Announced node address ssl action \<Rightarrow> (case address_add ip_string node address ssl action s of Inl _ \<Rightarrow> s | Inr s' \<Rightarrow> s')
      | Taken \<Rightarrow> snd (take_actions s)
      | Answered now steady_now nodeid package g \<Rightarrow> snd (snd (signatures_process verify stamp_string now steady_now nodeid package (g, s)))
      | Closed steady_now g \<Rightarrow> snd (signatures_close steady_now g s))"

text \<open>The answer that proves an address, and the end of a session that had got such an answer for a node.\<close>

definition proves :: "(string \<Rightarrow> string \<Rightarrow> string \<Rightarrow> bool) \<Rightarrow> (time \<Rightarrow> string) \<Rightarrow> string \<Rightarrow> ip_address \<Rightarrow> address_event \<Rightarrow> bool" where
  "proves verify stamp_string node address ev \<longleftrightarrow>
     (\<exists>now steady_now nodeid msg g. ev = Answered now steady_now nodeid (Some msg) g
        \<and> sg_expected g \<and> sg_nodeid g = node \<and> sg_address g = address
        \<and> pg_node_address msg = nodeid \<and> \<bar>pg_stamp msg - now\<bar> \<le> 30
        \<and> verify (sg_authority g) (nodeid @ stamp_string (pg_stamp msg)) (pg_signature msg))"

definition ends_proof :: "string \<Rightarrow> address_event \<Rightarrow> bool" where
  "ends_proof node ev \<longleftrightarrow> (\<exists>steady_now g. ev = Closed steady_now g \<and> sg_need_to_revert g \<and> sg_nodeid g = node)"

lemma take_actions_from_origin:
  "u \<in> set (snd (take_actions_from prev s)) \<Longrightarrow> \<exists>v \<in> set s. u = v \<or> u = v\<lparr>nu_action := None\<rparr>"
  by (induction s arbitrary: prev) (auto simp: case_prod_beta split: option.splits if_splits)

lemma event_current:
  assumes "u \<in> set (after_event ip_string verify stamp_string ev s)" "nu_verified u = Verified_current"
  shows "proves verify stamp_string (nu_node_address u) (nu_address u) ev
    \<or> \<not> ends_proof (nu_node_address u) ev
      \<and> (\<exists>v \<in> set s. nu_verified v = Verified_current \<and> nu_node_address v = nu_node_address u \<and> nu_address v = nu_address u)"
proof (cases ev)
  case (Announced node address ssl action)
  then have "u \<in> set s \<or> u = new_unit node address ssl action \<or> (\<exists>v \<in> set s. u = v\<lparr>nu_action := action, nu_ssl_address := ssl\<rparr>)"
    using assms(1) by (auto simp: after_event_def address_add_def Let_def throw_if_def
        split: sum.splits if_splits option.splits)
  then show ?thesis using assms(2) by (auto simp: Announced ends_proof_def new_unit_def)
next
  case Taken
  then show ?thesis
    using assms take_actions_from_origin [of u "{}" s] by (auto simp: after_event_def ends_proof_def take_actions_def)
next
  case (Closed steady_now g)
  show ?thesis
  proof (cases "sg_need_to_revert g")
    case True
    then have "snd (keep_successful (sg_nodeid g) (sg_address g) False steady_now s) = after_event ip_string verify stamp_string ev s"
      by (simp add: Closed after_event_def signatures_close_def)
    from keep_marks [OF this assms] show ?thesis using assms(2) by (auto simp: Closed ends_proof_def split: if_splits)
  next
    case False
    then show ?thesis
      using assms by (auto simp: Closed after_event_def ends_proof_def signatures_close_def erase_failed_def split: if_splits)
  qed
next
  case (Answered now steady_now nodeid package g)
  have kept: ?thesis if "u \<in> set s" using that assms(2) by (auto simp: Answered ends_proof_def)
  show ?thesis
  proof (cases package)
    case (Some msg)
    show ?thesis
    proof (cases "sg_expected g \<and> pong_ok verify stamp_string now nodeid msg g")
      case True
      then have "snd (keep_successful (sg_nodeid g) (sg_address g) True steady_now s) = after_event ip_string verify stamp_string ev s"
        by (simp add: Answered Some after_event_def signatures_process_def split: prod.splits sum.splits)
      from keep_marks [OF this assms] show ?thesis
        using True kept by (auto simp: Answered Some proves_def pong_ok_def split: if_splits)
    next
      case False
      then have "u \<in> set s"
        using assms(1) by (auto simp: Answered Some after_event_def signatures_process_def erase_failed_def split: if_splits)
      then show ?thesis by (rule kept)
    qed
  qed (use assms(1) kept in \<open>simp add: Answered after_event_def signatures_process_def\<close>)
qed

text \<open>C14: whatever happens to the service from its start, an address is the proved one of a node only after a
  \<open>Pong\<close> to a session that asked this address, with the name of the node that sent it, a time within
  half a minute and a good signature of the authority the session was given; and no session that had got such an
  answer for this node has been destroyed since.\<close>

theorem verified_only_by_signature:
  assumes "u \<in> set (fold (after_event ip_string verify stamp_string) evs [])" "nu_verified u = Verified_current"
  shows "\<exists>before ev since. evs = before @ ev # since \<and> proves verify stamp_string (nu_node_address u) (nu_address u) ev
    \<and> (\<forall>e \<in> set since. \<not> ends_proof (nu_node_address u) e)"
  using assms
proof (induction evs arbitrary: u rule: rev_induct)
  case (snoc ev evs)
  let ?s = "fold (after_event ip_string verify stamp_string) evs []"
  consider "proves verify stamp_string (nu_node_address u) (nu_address u) ev"
    | v where "v \<in> set ?s" "nu_verified v = Verified_current" "nu_node_address v = nu_node_address u"
        "nu_address v = nu_address u" "\<not> ends_proof (nu_node_address u) ev"
    using event_current [of u ip_string verify stamp_string ev ?s] snoc.prems by auto
  then show ?case
  proof cases
    case 1
    then show ?thesis by (intro exI [of _ evs] exI [of _ ev] exI [of _ "[]"]) simp
  next
    case 2
    then obtain before e since where "evs = before @ e # since" "proves verify stamp_string (nu_node_address u) (nu_address u) e"
        "\<forall>e \<in> set since. \<not> ends_proof (nu_node_address u) e"
      using snoc.IH [of v] by auto
    then show ?thesis using 2(5) by (intro exI [of _ before] exI [of _ e] exI [of _ "since @ [ev]"]) auto
  qed
qed simp

lemma keep_proved:
  assumes wf: "nodeids_wf ip_string s" and u: "u \<in> set s" "nu_node_address u = node"
  shows "\<exists>s'. keep_successful node (nu_address u) True now s = (Inr (), s') \<and> map nu_address (for_node node s') = [nu_address u]"
proof -
  let ?kept = "filter (\<lambda>v. nu_node_address v \<noteq> node \<or> nu_address v = nu_address u) s"
  let ?f = "\<lambda>v. if nu_node_address v = node then v\<lparr>nu_verified := Verified_current\<rparr> else v"
  have kept: "for_node node ?kept = [u]" using for_node_single [OF kept_single [OF wf, of node "nu_address u"]] u by simp
  have marked: "for_node node (map ?f ?kept) = [?f u]" using kept by (subst for_node_map) (simp_all del: for_node_simps)
  have some: "for_node node s \<noteq> []" using u for_node_simps(5) [of u node s] by (metis empty_iff list.set(1))
  have "keep_successful node (nu_address u) True now s = (Inr (), set_first node now (map ?f ?kept))"
    using some kept by (simp add: keep_successful_def Let_def del: for_node_simps)
  moreover have "for_node node (set_first node now (map ?f ?kept)) = map (\<lambda>v. if nu_node_address v = node then v\<lparr>nu_checked_time_point := now\<rparr> else v) [?f u]"
    using marked by (subst set_first_single) (simp_all add: for_node_map del: for_node_simps map_map)
  ultimately show ?thesis using u by simp
qed

lemma keep_unknown:
  assumes "for_node node s \<noteq> []" "\<forall>v \<in> set (for_node node s). nu_address v \<noteq> address"
  shows "\<exists>s'. keep_successful node address verified now s = (Inl (Logic_error ''nodeid_service keep_successful()''), s') \<and> for_node node s' = []"
proof -
  let ?kept = "filter (\<lambda>v. nu_node_address v \<noteq> node \<or> nu_address v = address) s"
  have "for_node node ?kept = []" using assms(2) by (auto simp: filter_empty_conv)
  moreover from this have "for_node node (map f ?kept) = []" if "\<And>u. nu_node_address (f u) = nu_node_address u" for f
    using that by (simp add: for_node_map del: for_node_simps)
  ultimately show ?thesis using assms(1) by (simp add: keep_successful_def Let_def del: for_node_simps)
qed

text \<open>C11: a node that is announced at two addresses and answers well at both stops its peer: the first
  answer removes the other address, the second one then removes the proved address and throws, and the
  destructors of both sessions throw, because the service knows no address of the node any more.\<close>

theorem second_pong_fatal:
  assumes "(service_step ip_string)\<^sup>*\<^sup>* [] s"
    and "{u, v} \<subseteq> set s" "nu_node_address u = nodeid" "nu_node_address v = nodeid" "nu_address u \<noteq> nu_address v"
    and "sg_expected g" "sg_nodeid g = nodeid" "sg_address g = nu_address u" "pong_ok verify stamp_string now nodeid p g"
    and "sg_expected h" "sg_nodeid h = nodeid" "sg_address h = nu_address v" "\<not> sg_need_to_revert h" "pong_ok verify stamp_string now nodeid q h"
  shows "\<exists>g' s1 h' s2. signatures_process verify stamp_string now steady_now nodeid (Some p) (g, s) = (Inr True, g', s1)
    \<and> signatures_process verify stamp_string now steady_now nodeid (Some q) (h, s1) =
        (Inl (Logic_error ''nodeid_service keep_successful()''), h', s2)
    \<and> for_node nodeid s2 = []
    \<and> fst (signatures_close later g' s2) = Inl (Logic_error ''nodeid_service::keep_successful cannot find the expected nodeid'')
    \<and> fst (signatures_close later h' s2) = Inl (Logic_error ''nodeid_service::erase_failed cannot find the expected entry'')"
proof -
  have wf: "nodeids_wf ip_string s" using assms(1) by (rule nodeids_wf_reachable)
  obtain s1 where s1: "keep_successful nodeid (nu_address u) True steady_now s = (Inr (), s1)"
      "map nu_address (for_node nodeid s1) = [nu_address u]"
    using keep_proved [OF wf, of u nodeid steady_now] assms by auto
  then have others: "for_node nodeid s1 \<noteq> []" "\<forall>w \<in> set (for_node nodeid s1). nu_address w \<noteq> nu_address v"
    using assms(5) by (auto simp del: for_node_simps)
  obtain s2 where s2: "keep_successful nodeid (nu_address v) True steady_now s1 = (Inl (Logic_error ''nodeid_service keep_successful()''), s2)"
      "for_node nodeid s2 = []"
    using keep_unknown [OF others] by blast
  show ?thesis
    using assms s1(1) s2 by (simp add: signatures_process_def signatures_close_def keep_successful_def [of _ _ _ _ s2] erase_failed_def)
qed

section \<open>Witnesses\<close>

definition sample_destination :: "string \<Rightarrow> ip_destination" where
  "sample_destination host = \<lparr> ip_port = 80, ip_dest_address = host \<rparr>"

definition sample_address :: "string \<Rightarrow> ip_address" where
  "sample_address host = \<lparr> ip_kind = IP_ipv4, ip_local = sample_destination host, ip_remote = sample_destination [] \<rparr>"

definition sample_text :: "ip_address \<Rightarrow> string" where
  "sample_text a = ip_dest_address (ip_local a)"

definition sample_session :: "string \<Rightarrow> signatures_session" where
  "sample_session host = signatures_initiate ''n'' (sample_address host)
     \<lparr> sg_need_to_revert = False, sg_nodeid = [], sg_address = sample_address [], sg_authority = [], sg_expected = False,
       sg_completed = False, sg_errored = False \<rparr>"

definition sample_verify :: "string \<Rightarrow> string \<Rightarrow> string \<Rightarrow> bool" where
  "sample_verify address message signature \<longleftrightarrow> signature = address @ message"

definition sample_pong :: pong where
  "sample_pong = \<lparr> pg_node_address = ''n'', pg_stamp = 1000, pg_signature = ''nn'' \<rparr>"

definition announced_unit :: "string \<Rightarrow> nodeid_address_unit" where
  "announced_unit host = new_unit ''n'' (sample_address host) (sample_address host) None"

lemma sample_announced: "(service_step sample_text)\<^sup>*\<^sup>* [] [announced_unit ''a'', announced_unit ''b'']"
proof -
  have "service_step sample_text [] [announced_unit ''a'']"
    by (rule announced [of _ "''n''" "sample_address ''a''" "sample_address ''a''" None]) (simp add: address_add_def announced_unit_def)
  moreover have "service_step sample_text [announced_unit ''a''] [announced_unit ''a'', announced_unit ''b'']"
    by (rule announced [of _ "''n''" "sample_address ''b''" "sample_address ''b''" None])
      (simp add: address_add_def announced_unit_def new_unit_def unit_key_def sample_text_def sample_address_def sample_destination_def)
  ultimately show ?thesis by auto
qed

lemma sample_session_simps:
  "sg_expected (sample_session host)" "sg_nodeid (sample_session host) = ''n''" "sg_address (sample_session host) = sample_address host"
  "\<not> sg_need_to_revert (sample_session host)" "pong_ok sample_verify (\<lambda>_. []) 1000 ''n'' sample_pong (sample_session host)"
  "sg_authority (sample_session host) = ''n''"
  by (simp_all add: sample_session_def signatures_initiate_def pong_ok_def sample_verify_def sample_pong_def)

theorem second_pong_fatal_witness:
  "\<exists>g' s1 h' s2. signatures_process sample_verify (\<lambda>_. []) 1000 5 ''n'' (Some sample_pong)
        (sample_session ''a'', [announced_unit ''a'', announced_unit ''b'']) = (Inr True, g', s1)
    \<and> signatures_process sample_verify (\<lambda>_. []) 1000 5 ''n'' (Some sample_pong) (sample_session ''b'', s1) =
        (Inl (Logic_error ''nodeid_service keep_successful()''), h', s2)
    \<and> for_node ''n'' s2 = []
    \<and> fst (signatures_close 6 g' s2) = Inl (Logic_error ''nodeid_service::keep_successful cannot find the expected nodeid'')
    \<and> fst (signatures_close 6 h' s2) = Inl (Logic_error ''nodeid_service::erase_failed cannot find the expected entry'')"
  by (rule second_pong_fatal [OF sample_announced, of "announced_unit ''a''" "announced_unit ''b''"])
    (simp_all add: sample_session_simps announced_unit_def new_unit_def sample_address_def sample_destination_def)

theorem verified_address_stands_witness:
  "announced_unit ''a'' \<in> set [announced_unit ''a'', announced_unit ''b'']
   \<and> distinct (map (unit_key sample_text) [announced_unit ''a'', announced_unit ''b''])"
  using verified_address_stands [OF sample_announced] by simp

text \<open>Announced, answered, and proved.\<close>

definition sample_events :: "address_event list" where
  "sample_events = [Announced ''n'' (sample_address ''a'') (sample_address ''a'') None,
     Answered 1000 5 ''n'' (Some sample_pong) (sample_session ''a'')]"

theorem verified_only_by_signature_witness:
  "\<exists>before ev since. sample_events = before @ ev # since
     \<and> proves sample_verify (\<lambda>_. []) ''n'' (sample_address ''a'') ev"
proof -
  let ?u = "(announced_unit ''a'')\<lparr>nu_verified := Verified_current, nu_checked_time_point := 5\<rparr>"
  have "fold (after_event sample_text sample_verify (\<lambda>_. [])) sample_events [] = [?u]"
    by (simp add: sample_events_def after_event_def address_add_def signatures_process_def sample_session_simps keep_successful_def
        announced_unit_def new_unit_def)
  then have "?u \<in> set (fold (after_event sample_text sample_verify (\<lambda>_. [])) sample_events [])" by simp
  from verified_only_by_signature [OF this] show ?thesis by (auto simp: announced_unit_def new_unit_def)
qed

end
