(* ===== verification/Config.thy ===== *)
theory Config
  imports Messages
begin

text \<open>
  libblockchain/config.cpp: the configuration file of a node, its addresses, keys and switches. Every
  setter saves and commits the file, so the file and the loader agree after each call; the mutex is
  not modelled. A private key is its base58 text.
\<close>

section \<open>State\<close>

record config_file =
  fc_p2p_bind_to_address :: "ip_address option"
  fc_p2p_connect_to_addresses :: "ip_address list option"
  fc_rpc_bind_to_address :: "ip_address option"
  fc_slave_bind_to_address :: "ip_address option"
  fc_public_address :: "ip_address option"
  fc_public_ssl_address :: "ip_address option"
  fc_private_key :: "string option"
  fc_public_key :: "string option"
  fc_private_keys :: "string list option"
  fc_public_keys :: "string list option"
  fc_manager_address :: "string option"
  fc_node_type :: "node_type option"
  fc_automatic_fee :: "coin option"
  fc_enable_action_log :: "bool option"
  fc_enable_inbox :: "bool option"
  fc_testnet :: "bool option"
  fc_discovery_server :: "bool option"
  fc_transfer_only :: "bool option"

record config_internal =
  aes_key :: string
  config_loader :: config_file

text \<open>What belt.pp and mesh.pp give: \<open>ip_destination::empty()\<close> and the default destination, encryption and
  decryption with the key, and what the constructors of \<open>private_key\<close> and \<open>public_key\<close> make of a text;
  \<open>b_public_of\<close> is \<open>get_public_key().to_string()\<close>.\<close>

record belt =
  b_dest_empty :: "ip_destination \<Rightarrow> bool"
  b_no_dest :: ip_destination
  b_no_address :: ip_address
  b_encrypt :: "string \<Rightarrow> string \<Rightarrow> string"
  b_decrypt :: "string \<Rightarrow> string \<Rightarrow> string"
  b_private_key :: "string \<Rightarrow> string res"
  b_public_key :: "string \<Rightarrow> string res"
  b_public_of :: "string \<Rightarrow> string"
  b_node_type :: "string \<Rightarrow> node_type res"

abbreviation update_file :: "(config_file \<Rightarrow> config_file) \<Rightarrow> config_internal \<Rightarrow> config_internal" where
  "update_file f c \<equiv> c\<lparr>config_loader := f (config_loader c)\<rparr>"

definition set_aes_key :: "string \<Rightarrow> config_internal \<Rightarrow> config_internal" where
  "set_aes_key key c = c\<lparr>aes_key := key\<rparr>"

section \<open>Addresses\<close>

definition when_local :: "belt \<Rightarrow> ip_address \<Rightarrow> (config_file \<Rightarrow> config_file) \<Rightarrow> config_internal \<Rightarrow> config_internal" where
  "when_local B address f c = (if \<not> b_dest_empty B (ip_local address) then update_file f c else c)"

definition address_or_empty :: "belt \<Rightarrow> ip_address option \<Rightarrow> ip_address" where
  "address_or_empty B stored = (case stored of None \<Rightarrow> b_no_address B | Some a \<Rightarrow> a)"

definition set_p2p_bind_to_address :: "belt \<Rightarrow> ip_address \<Rightarrow> config_internal \<Rightarrow> config_internal" where
  "set_p2p_bind_to_address B address = when_local B address (fc_p2p_bind_to_address_update (\<lambda>_. Some address))"

definition get_p2p_bind_to_address :: "belt \<Rightarrow> config_internal \<Rightarrow> ip_address" where
  "get_p2p_bind_to_address B c = address_or_empty B (fc_p2p_bind_to_address (config_loader c))"

text \<open>An address to connect to is remote: a local part stands for the remote one when there is none.\<close>

definition connect_address :: "belt \<Rightarrow> ip_address \<Rightarrow> ip_address" where
  "connect_address B address =
     (if \<not> b_dest_empty B (ip_local address) \<and> b_dest_empty B (ip_remote address)
      then address\<lparr>ip_remote := ip_local address\<rparr> else address)\<lparr>ip_local := b_no_dest B\<rparr>"

definition set_p2p_connect_to_addresses :: "belt \<Rightarrow> ip_address list \<Rightarrow> config_internal \<Rightarrow> config_internal" where
  "set_p2p_connect_to_addresses B addresses c =
     (let items = filter (\<lambda>a. \<not> b_dest_empty B (ip_remote a)) (map (connect_address B) addresses)
      in if items = [] then c else update_file (\<lambda>f. f\<lparr>fc_p2p_connect_to_addresses := Some items\<rparr>) c)"

definition get_p2p_connect_to_addresses :: "config_internal \<Rightarrow> ip_address list" where
  "get_p2p_connect_to_addresses c = (case fc_p2p_connect_to_addresses (config_loader c) of None \<Rightarrow> [] | Some as \<Rightarrow> as)"

definition set_rpc_bind_to_address :: "belt \<Rightarrow> ip_address \<Rightarrow> config_internal \<Rightarrow> config_internal" where
  "set_rpc_bind_to_address B address = when_local B address (fc_rpc_bind_to_address_update (\<lambda>_. Some address))"

definition get_rpc_bind_to_address :: "belt \<Rightarrow> config_internal \<Rightarrow> ip_address" where
  "get_rpc_bind_to_address B c = address_or_empty B (fc_rpc_bind_to_address (config_loader c))"

definition set_slave_bind_to_address :: "belt \<Rightarrow> ip_address \<Rightarrow> config_internal \<Rightarrow> config_internal" where
  "set_slave_bind_to_address B address = when_local B address (fc_slave_bind_to_address_update (\<lambda>_. Some address))"

definition get_slave_bind_to_address :: "belt \<Rightarrow> config_internal \<Rightarrow> ip_address" where
  "get_slave_bind_to_address B c = address_or_empty B (fc_slave_bind_to_address (config_loader c))"

definition set_public_address :: "belt \<Rightarrow> ip_address \<Rightarrow> config_internal \<Rightarrow> config_internal" where
  "set_public_address B address = when_local B address (fc_public_address_update (\<lambda>_. Some address))"

definition get_public_address :: "belt \<Rightarrow> config_internal \<Rightarrow> ip_address" where
  "get_public_address B c = address_or_empty B (fc_public_address (config_loader c))"

definition set_public_ssl_address :: "belt \<Rightarrow> ip_address \<Rightarrow> config_internal \<Rightarrow> config_internal" where
  "set_public_ssl_address B address = when_local B address (fc_public_ssl_address_update (\<lambda>_. Some address))"

definition get_public_ssl_address :: "belt \<Rightarrow> config_internal \<Rightarrow> ip_address" where
  "get_public_ssl_address B c = address_or_empty B (fc_public_ssl_address (config_loader c))"

section \<open>Keys\<close>

definition set_manager_address :: "string \<Rightarrow> config_internal \<Rightarrow> config_internal" where
  "set_manager_address manager c =
     (if manager \<noteq> [] then update_file (\<lambda>f. f\<lparr>fc_manager_address := Some manager\<rparr>) c else c)"

definition get_manager_address :: "config_internal \<Rightarrow> string" where
  "get_manager_address c = (case fc_manager_address (config_loader c) of None \<Rightarrow> [] | Some m \<Rightarrow> m)"

definition set_key :: "belt \<Rightarrow> string \<Rightarrow> config_internal \<Rightarrow> config_internal" where
  "set_key B pk c = update_file (\<lambda>f. f\<lparr>fc_private_key := Some (b_encrypt B (aes_key c) pk)\<rparr>) c"

definition get_key :: "belt \<Rightarrow> config_internal \<Rightarrow> string res" where
  "get_key B c =
     (case fc_private_key (config_loader c) of
        Some pk \<Rightarrow> b_private_key B (b_decrypt B (aes_key c) pk)
      | None \<Rightarrow> Inl (Logic_error ''config::get_key''))"

definition is_key_set :: "config_internal \<Rightarrow> bool" where
  "is_key_set c \<longleftrightarrow> fc_private_key (config_loader c) \<noteq> None"

definition set_public_key :: "string \<Rightarrow> config_internal \<Rightarrow> config_internal" where
  "set_public_key pbk = update_file (\<lambda>f. f\<lparr>fc_public_key := Some pbk\<rparr>)"

definition get_public_key :: "belt \<Rightarrow> config_internal \<Rightarrow> string res" where
  "get_public_key B c =
     (case fc_public_key (config_loader c) of
        Some pbk \<Rightarrow> b_public_key B pbk
      | None \<Rightarrow> Inl (Logic_error ''config::get_public_key''))"

definition is_public_key_set :: "config_internal \<Rightarrow> bool" where
  "is_public_key_set c \<longleftrightarrow> fc_public_key (config_loader c) \<noteq> None"

definition stored_keys :: "string list option \<Rightarrow> string list" where
  "stored_keys ks = (case ks of None \<Rightarrow> [] | Some l \<Rightarrow> l)"

definition add_secondary_key :: "belt \<Rightarrow> string \<Rightarrow> config_internal \<Rightarrow> config_internal res" where
  "add_secondary_key B pk c =
     bind_res (if is_key_set c then bind_res (get_key B c) (\<lambda>k. Inr (k = pk)) else Inr False) (\<lambda>is_front.
       Inr (let encrypted = b_encrypt B (aes_key c) pk; pks = fc_private_keys (config_loader c)
            in if is_front \<or> encrypted \<in> set (stored_keys pks) then c
               else update_file (\<lambda>f. f\<lparr>fc_private_keys := Some (stored_keys pks @ [encrypted])\<rparr>) c))"

definition remove_secondary_key :: "belt \<Rightarrow> string \<Rightarrow> config_internal \<Rightarrow> config_internal" where
  "remove_secondary_key B pk c =
     (case fc_private_keys (config_loader c) of
        None \<Rightarrow> c
      | Some pks \<Rightarrow> update_file (\<lambda>f. f\<lparr>fc_private_keys := Some (filter (\<lambda>v. v \<noteq> b_encrypt B (aes_key c) pk) pks)\<rparr>) c)"

fun map_res :: "('a \<Rightarrow> 'b res) \<Rightarrow> 'a list \<Rightarrow> 'b list res" where
  "map_res f [] = Inr []"
| "map_res f (x # xs) = bind_res (f x) (\<lambda>y. bind_res (map_res f xs) (\<lambda>ys. Inr (y # ys)))"

definition keys :: "belt \<Rightarrow> config_internal \<Rightarrow> string list res" where
  "keys B c =
     bind_res (get_key B c) (\<lambda>k.
     bind_res (map_res (\<lambda>e. b_private_key B (b_decrypt B (aes_key c) e)) (stored_keys (fc_private_keys (config_loader c)))) (\<lambda>ks.
       Inr (k # ks)))"

definition add_secondary_public_key :: "belt \<Rightarrow> string \<Rightarrow> config_internal \<Rightarrow> config_internal res" where
  "add_secondary_public_key B pbk c =
     bind_res (if is_public_key_set c then bind_res (get_public_key B c) (\<lambda>k. Inr (k = pbk)) else Inr False) (\<lambda>is_front.
       Inr (let pbks = fc_public_keys (config_loader c)
            in if is_front \<or> pbk \<in> set (stored_keys pbks) then c
               else update_file (\<lambda>f. f\<lparr>fc_public_keys := Some (stored_keys pbks @ [pbk])\<rparr>) c))"

definition remove_secondary_public_key :: "string \<Rightarrow> config_internal \<Rightarrow> config_internal" where
  "remove_secondary_public_key pbk c =
     (case fc_public_keys (config_loader c) of
        None \<Rightarrow> c
      | Some pbks \<Rightarrow> update_file (\<lambda>f. f\<lparr>fc_public_keys := Some (filter (\<lambda>v. v \<noteq> pbk) pbks)\<rparr>) c)"

definition public_keys :: "belt \<Rightarrow> config_internal \<Rightarrow> string list res" where
  "public_keys B c =
     bind_res (get_public_key B c) (\<lambda>k.
     bind_res (map_res (b_public_key B) (stored_keys (fc_public_keys (config_loader c)))) (\<lambda>ks. Inr (k # ks)))"

section \<open>Switches\<close>

definition set_node_type :: "belt \<Rightarrow> string \<Rightarrow> config_internal \<Rightarrow> config_internal res" where
  "set_node_type B node_type c =
     (if node_type \<noteq> []
      then bind_res (b_node_type B node_type) (\<lambda>t. Inr (update_file (\<lambda>f. f\<lparr>fc_node_type := Some t\<rparr>) c))
      else Inr c)"

definition get_node_type :: "config_internal \<Rightarrow> node_type" where
  "get_node_type c = (case fc_node_type (config_loader c) of None \<Rightarrow> NT_blockchain | Some t \<Rightarrow> t)"

definition set_automatic_fee :: "u64 \<Rightarrow> config_internal \<Rightarrow> config_internal" where
  "set_automatic_fee fractions c =
     (if fractions \<noteq> 0
      then update_file (\<lambda>f. f\<lparr>fc_automatic_fee := Some (coin_times (Coin 0 1) fractions)\<rparr>) c else c)"

definition get_automatic_fee :: "config_internal \<Rightarrow> coin res" where
  "get_automatic_fee c = (case fc_automatic_fee (config_loader c) of None \<Rightarrow> Inr coin_zero | Some fee \<Rightarrow> coin_of fee)"

definition switch_on :: "bool option \<Rightarrow> bool" where
  "switch_on s = (case s of None \<Rightarrow> False | Some b \<Rightarrow> b)"

definition enable_action_log :: "config_internal \<Rightarrow> config_internal" where
  "enable_action_log = update_file (\<lambda>f. f\<lparr>fc_enable_action_log := Some True\<rparr>)"

definition config_action_log :: "config_internal \<Rightarrow> bool" where
  "config_action_log c = switch_on (fc_enable_action_log (config_loader c))"

definition enable_inbox :: "config_internal \<Rightarrow> config_internal" where
  "enable_inbox = update_file (\<lambda>f. f\<lparr>fc_enable_inbox := Some True\<rparr>)"

definition config_inbox :: "config_internal \<Rightarrow> bool" where
  "config_inbox c = switch_on (fc_enable_inbox (config_loader c))"

definition set_testnet :: "config_internal \<Rightarrow> config_internal" where
  "set_testnet = update_file (\<lambda>f. f\<lparr>fc_testnet := Some True\<rparr>)"

definition testnet :: "config_internal \<Rightarrow> bool" where
  "testnet c = switch_on (fc_testnet (config_loader c))"

definition set_transfer_only :: "config_internal \<Rightarrow> config_internal" where
  "set_transfer_only = update_file (\<lambda>f. f\<lparr>fc_transfer_only := Some True\<rparr>)"

definition transfer_only :: "config_internal \<Rightarrow> bool" where
  "transfer_only c = switch_on (fc_transfer_only (config_loader c))"

definition set_discovery_server :: "config_internal \<Rightarrow> config_internal" where
  "set_discovery_server = update_file (\<lambda>f. f\<lparr>fc_discovery_server := Some True\<rparr>)"

definition discovery_server :: "config_internal \<Rightarrow> bool" where
  "discovery_server c = switch_on (fc_discovery_server (config_loader c))"

definition check_for_error :: "belt \<Rightarrow> config_internal \<Rightarrow> string" where
  "check_for_error B c =
     (let no_local = (\<lambda>a. b_dest_empty B (ip_local a));
          result = (if no_local (get_p2p_bind_to_address B c) then ''p2p_local_interface is mandatory'' else []);
          result = (if get_node_type c = NT_blockchain \<and> \<not> no_local (get_public_address B c) \<and> no_local (get_rpc_bind_to_address B c)
                    then ''rpc_local_interface is not specified''
                    else if get_node_type c \<noteq> NT_blockchain \<and> no_local (get_public_address B c)
                    then ''public_address is not specified''
                    else if get_node_type c \<noteq> NT_blockchain \<and> no_local (get_slave_bind_to_address B c)
                    then ''slave_local_interface is not specified''
                    else result)
      in if result \<noteq> [] then result @ ''. run with --help to see more detals.'' else [])"

section \<open>The keys a node has\<close>

datatype key_op = Add_key string | Remove_key string | Add_public_key string | Remove_public_key string

definition run_key_op :: "belt \<Rightarrow> key_op \<Rightarrow> config_internal \<Rightarrow> config_internal res" where
  "run_key_op B op c =
     (case op of Add_key pk \<Rightarrow> add_secondary_key B pk c | Remove_key pk \<Rightarrow> Inr (remove_secondary_key B pk c)
      | Add_public_key pbk \<Rightarrow> add_secondary_public_key B pbk c
      | Remove_public_key pbk \<Rightarrow> Inr (remove_secondary_public_key pbk c))"

text \<open>What the operations mean: two lists of keys beside the first ones.\<close>

definition list_add :: "'a \<Rightarrow> 'a \<Rightarrow> 'a list \<Rightarrow> 'a list" where
  "list_add front k ks = (if k = front \<or> k \<in> set ks then ks else ks @ [k])"

definition key_effect :: "string \<Rightarrow> string \<Rightarrow> key_op \<Rightarrow> string list \<times> string list \<Rightarrow> string list \<times> string list" where
  "key_effect pv pb op = (\<lambda>(ks, pbs). case op of
     Add_key k \<Rightarrow> (list_add pv k ks, pbs) | Remove_key k \<Rightarrow> (filter (\<lambda>v. v \<noteq> k) ks, pbs)
   | Add_public_key k \<Rightarrow> (ks, list_add pb k pbs) | Remove_public_key k \<Rightarrow> (ks, filter (\<lambda>v. v \<noteq> k) pbs))"

text \<open>What the code relies on in mesh.pp: the texts are those of keys, and decryption undoes encryption.\<close>

definition keys_readable :: "belt \<Rightarrow> string \<Rightarrow> string set \<Rightarrow> string set \<Rightarrow> bool" where
  "keys_readable B aes ks pbs \<longleftrightarrow>
     (\<forall>k \<in> ks. b_private_key B k = Inr k \<and> b_decrypt B aes (b_encrypt B aes k) = k) \<and> (\<forall>k \<in> pbs. b_public_key B k = Inr k)"

fun op_keys :: "key_op \<Rightarrow> string set" where
  "op_keys (Add_key k) = {k}" | "op_keys (Remove_key k) = {k}" | "op_keys _ = {}"

fun op_public_keys :: "key_op \<Rightarrow> string set" where
  "op_public_keys (Add_public_key k) = {k}" | "op_public_keys (Remove_public_key k) = {k}" | "op_public_keys _ = {}"

definition holds_keys :: "belt \<Rightarrow> string \<Rightarrow> string \<Rightarrow> string \<Rightarrow> config_internal \<Rightarrow> string list \<times> string list \<Rightarrow> bool" where
  "holds_keys B aes pv pb c = (\<lambda>(ks, pbs).
     aes_key c = aes \<and> fc_private_key (config_loader c) = Some (b_encrypt B aes pv) \<and> fc_public_key (config_loader c) = Some pb
     \<and> stored_keys (fc_private_keys (config_loader c)) = map (b_encrypt B aes) ks
     \<and> stored_keys (fc_public_keys (config_loader c)) = pbs \<and> distinct (pv # ks) \<and> distinct (pb # pbs))"

lemma map_res_Inr: "(\<And>x. x \<in> set xs \<Longrightarrow> f x = Inr (g x)) \<Longrightarrow> map_res f xs = Inr (map g xs)"
  by (induction xs) simp_all

lemma stored_keys_simps [simp]: "stored_keys None = []" "stored_keys (Some l) = l"
  by (simp_all add: stored_keys_def)

lemma distinct_list_add: "distinct (front # ks) \<Longrightarrow> distinct (front # list_add front k ks)"
  by (auto simp: list_add_def)

lemma keys_readable_inj:
  "keys_readable B aes K P \<Longrightarrow> a \<in> K \<Longrightarrow> b \<in> K \<Longrightarrow> b_encrypt B aes a = b_encrypt B aes b \<longleftrightarrow> a = b"
  unfolding keys_readable_def by metis

lemma holds_keys_step:
  assumes "holds_keys B aes pv pb c (ks, pbs)" "keys_readable B aes K P" "insert pv (set ks) \<union> op_keys op \<subseteq> K"
    "insert pb (set pbs) \<union> op_public_keys op \<subseteq> P"
  shows "\<exists>c'. run_key_op B op c = Inr c' \<and> holds_keys B aes pv pb c' (key_effect pv pb op (ks, pbs))"
proof (cases op)
  case (Add_key k)
  have "b_encrypt B aes k \<in> b_encrypt B aes ` set ks \<longleftrightarrow> k \<in> set ks"
    using keys_readable_inj [OF assms(2)] assms(3) Add_key by auto
  moreover have "get_key B c = Inr pv" using assms by (simp add: holds_keys_def get_key_def keys_readable_def)
  ultimately show ?thesis using assms(1) Add_key distinct_list_add [of pv ks k]
    by (auto simp: run_key_op_def add_secondary_key_def is_key_set_def holds_keys_def key_effect_def list_add_def Let_def)
next
  case (Remove_key k)
  have "filter (\<lambda>v. v \<noteq> b_encrypt B aes k) (map (b_encrypt B aes) ks) = map (b_encrypt B aes) (filter (\<lambda>v. v \<noteq> k) ks)"
    using assms(3) Remove_key by (induction ks) (auto simp: keys_readable_inj [OF assms(2)])
  then show ?thesis using assms(1) Remove_key
    by (cases "fc_private_keys (config_loader c)")
      (auto simp: run_key_op_def remove_secondary_key_def holds_keys_def key_effect_def)
next
  case (Add_public_key k)
  have "get_public_key B c = Inr pb" using assms by (simp add: holds_keys_def get_public_key_def keys_readable_def)
  then show ?thesis using assms(1) Add_public_key distinct_list_add [of pb pbs k]
    by (auto simp: run_key_op_def add_secondary_public_key_def is_public_key_set_def holds_keys_def key_effect_def list_add_def Let_def)
next
  case (Remove_public_key k)
  then show ?thesis using assms(1)
    by (cases "fc_public_keys (config_loader c)")
      (auto simp: run_key_op_def remove_secondary_public_key_def holds_keys_def key_effect_def)
qed

lemma holds_keys_run:
  assumes "holds_keys B aes pv pb c s" "keys_readable B aes K P" "insert pv (set (fst s)) \<union> \<Union> (op_keys ` set ops) \<subseteq> K"
    "insert pb (set (snd s)) \<union> \<Union> (op_public_keys ` set ops) \<subseteq> P"
  shows "\<exists>c'. fold_res (run_key_op B) ops c = Inr c' \<and> holds_keys B aes pv pb c' (fold (key_effect pv pb) ops s)
    \<and> set (fst (fold (key_effect pv pb) ops s)) \<subseteq> K \<and> set (snd (fold (key_effect pv pb) ops s)) \<subseteq> P"
  using assms
proof (induction ops arbitrary: c s)
  case (Cons op ops)
  let ?s = "key_effect pv pb op s"
  obtain c' where c': "run_key_op B op c = Inr c'" "holds_keys B aes pv pb c' ?s"
    using holds_keys_step [of B aes pv pb c "fst s" "snd s" K P op] Cons.prems by auto
  have "set (fst ?s) \<subseteq> set (fst s) \<union> op_keys op" "set (snd ?s) \<subseteq> set (snd s) \<union> op_public_keys op"
    by (cases op; auto simp: key_effect_def list_add_def split: prod.splits)+
  then have "insert pv (set (fst ?s)) \<union> \<Union> (op_keys ` set ops) \<subseteq> K" "insert pb (set (snd ?s)) \<union> \<Union> (op_public_keys ` set ops) \<subseteq> P"
    using Cons.prems(3,4) by auto
  from Cons.IH [OF c'(2) Cons.prems(2) this] show ?case using c'(1) by simp
qed simp

lemma holds_keys_read:
  assumes "holds_keys B aes pv pb c (ks, pbs)" "keys_readable B aes K P" "insert pv (set ks) \<subseteq> K" "insert pb (set pbs) \<subseteq> P"
  shows "keys B c = Inr (pv # ks) \<and> public_keys B c = Inr (pb # pbs) \<and> distinct (pv # ks) \<and> distinct (pb # pbs)"
proof -
  have "get_key B c = Inr pv" "get_public_key B c = Inr pb"
    using assms by (auto simp: holds_keys_def get_key_def get_public_key_def keys_readable_def)
  moreover have "map_res (\<lambda>e. b_private_key B (b_decrypt B aes e)) (map (b_encrypt B aes) ks) = Inr (map (b_decrypt B aes) (map (b_encrypt B aes) ks))"
    using assms by (intro map_res_Inr) (auto simp: keys_readable_def)
  moreover have "map (b_decrypt B aes) (map (b_encrypt B aes) ks) = ks" using assms by (auto simp: keys_readable_def intro!: map_idI)
  moreover have "map_res (b_public_key B) pbs = Inr (map id pbs)" using assms by (intro map_res_Inr) (auto simp: keys_readable_def)
  ultimately show ?thesis using assms(1) by (simp add: holds_keys_def keys_def public_keys_def)
qed

text \<open>Whatever secondary keys are added and removed, in whatever order, the operations return and the
  node afterwards has exactly the keys in force, the first key in front of them and no key twice, although
  the file holds them encrypted and the removal compares encrypted texts.\<close>

theorem secondary_keys_exact:
  assumes "keys_readable B aes K P" "insert pv (\<Union> (op_keys ` set ops)) \<subseteq> K" "insert pb (\<Union> (op_public_keys ` set ops)) \<subseteq> P"
    and "c = update_file (\<lambda>f. f\<lparr>fc_public_key := Some pb, fc_private_keys := None, fc_public_keys := None\<rparr>) (set_key B pv (set_aes_key aes c0))"
    and "fold (key_effect pv pb) ops ([], []) = (ks, pbs)"
  shows "\<exists>c'. fold_res (run_key_op B) ops c = Inr c' \<and> keys B c' = Inr (pv # ks) \<and> public_keys B c' = Inr (pb # pbs)
    \<and> distinct (pv # ks) \<and> distinct (pb # pbs)"
proof -
  have "holds_keys B aes pv pb c ([], [])" using assms(4) by (simp add: holds_keys_def set_key_def set_aes_key_def)
  from holds_keys_run [OF this assms(1), of ops] obtain c' where c': "fold_res (run_key_op B) ops c = Inr c'"
      "holds_keys B aes pv pb c' (ks, pbs)" "set ks \<subseteq> K" "set pbs \<subseteq> P"
    using assms(2,3,5) by auto
  then show ?thesis using holds_keys_read [OF c'(2) assms(1)] assms(2,3) by auto
qed

definition sample_belt :: belt where
  "sample_belt = \<lparr> b_dest_empty = (\<lambda>d. ip_dest_address d = []), b_no_dest = \<lparr>ip_port = 0, ip_dest_address = []\<rparr>,
     b_no_address = \<lparr>ip_kind = IP_any, ip_local = \<lparr>ip_port = 0, ip_dest_address = []\<rparr>, ip_remote = \<lparr>ip_port = 0, ip_dest_address = []\<rparr>\<rparr>,
     b_encrypt = (\<lambda>k t. rev t), b_decrypt = (\<lambda>k t. rev t), b_private_key = Inr, b_public_key = Inr,
     b_public_of = (\<lambda>k. ''p'' @ k), b_node_type = (\<lambda>_. Inr NT_storage) \<rparr>"

definition sample_config_file :: config_file where
  "sample_config_file = \<lparr> fc_p2p_bind_to_address = None, fc_p2p_connect_to_addresses = None, fc_rpc_bind_to_address = None,
     fc_slave_bind_to_address = None, fc_public_address = None, fc_public_ssl_address = None, fc_private_key = None,
     fc_public_key = None, fc_private_keys = None, fc_public_keys = None, fc_manager_address = None, fc_node_type = None,
     fc_automatic_fee = None, fc_enable_action_log = None, fc_enable_inbox = None, fc_testnet = None, fc_discovery_server = None,
     fc_transfer_only = None \<rparr>"

theorem secondary_keys_exact_witness:
  "\<exists>c'. fold_res (run_key_op sample_belt) [Add_key ''ab'', Add_key ''front'', Add_key ''cd'', Add_key ''ab'', Remove_key ''ab'', Add_public_key ''q'']
     (update_file (\<lambda>f. f\<lparr>fc_public_key := Some ''pfront'', fc_private_keys := None, fc_public_keys := None\<rparr>)
       (set_key sample_belt ''front'' (set_aes_key [] \<lparr>aes_key = [], config_loader = sample_config_file\<rparr>))) = Inr c'
     \<and> keys sample_belt c' = Inr [''front'', ''cd''] \<and> public_keys sample_belt c' = Inr [''pfront'', ''q'']
     \<and> distinct [''front'', ''cd''] \<and> distinct [''pfront'', ''q'']"
  by (rule secondary_keys_exact [of sample_belt "[]" UNIV UNIV])
    (simp_all add: keys_readable_def sample_belt_def key_effect_def list_add_def)

end
