(* ===== verification/Peer_Messages.thy ===== *)
theory Peer_Messages
  imports Node_Properties Node_Addresses Config
begin

text \<open>
  What a node does with a message: the handlers of \<open>node::run\<close> (node.cpp) for transactions, announced
  addresses, storage commands, letters, the inbox and pings, the checks behind them
  (communication\_p2p.cpp), the answer to an exception, and the transactions a node makes itself.
\<close>

section \<open>State\<close>

text \<open>The ledger and its neighbours: the address service, the authorities that announced addresses, the peers
  in the order of their iteration, the counter of served files, the name of the p2p socket and whether
  there is a stream to a storage process.\<close>

record running =
  rn_node :: node
  rn_config :: config_internal
  rn_nodeids :: nodeid_service
  rn_authorities :: "string \<rightharpoonup> string"
  rn_peers :: "string list"
  rn_name :: string
  rn_service_counter :: served_map

text \<open>What comes from outside at one call: the clocks, the dice of \<open>broadcast_message\<close>, the text of an
  address, the signature of a text by a private key, and the stores and the cache a handler left when it
  threw.\<close>

record world =
  w_ext :: ext
  w_belt :: belt
  w_now :: time
  w_steady_now :: time
  w_chance :: bool
  w_ip_string :: "ip_address \<Rightarrow> string"
  w_time_string :: "time \<Rightarrow> string"
  w_sign :: "string \<Rightarrow> string \<Rightarrow> string"
  w_thrown :: "ledger \<times> cache_data"

datatype interface = Rpc | P2p

datatype reply = Reply_done | Reply_transaction_done string | Reply_inbox "letter list" | Reply_pong pong | Reply_error exn

text \<open>What leaves the node: a broadcast to a peer, an answer, a closed stream, a session that has the
  storage delete a file.\<close>

datatype sent = Send_broadcast string broadcast | Send_reply interface string reply | Send_drop string | Delete_file string string

type_synonym outcome = "unit res \<times> sent list \<times> running"

definition attempt :: "running \<Rightarrow> 'a res \<Rightarrow> ('a \<Rightarrow> outcome) \<Rightarrow> outcome" where
  "attempt r x k = (case x of Inl e \<Rightarrow> (Inl e, [], r) | Inr y \<Rightarrow> k y)"

definition with_node :: "node \<Rightarrow> running \<Rightarrow> running" where
  "with_node n r = r\<lparr>rn_node := n\<rparr>"

text \<open>\<open>get_addresses\<close> is asked by the statistics action: the node at this moment.\<close>

definition node_at :: "world \<Rightarrow> running \<Rightarrow> node" where
  "node_at w r = (rn_node r)\<lparr>m_public_addresses := get_addresses (w_now w) (w_steady_now w) (rn_nodeids r)\<rparr>"

definition send_broadcast :: "world \<Rightarrow> string \<Rightarrow> bool \<Rightarrow> string list \<Rightarrow> broadcast \<Rightarrow> running \<Rightarrow> sent list" where
  "send_broadcast w source full_broadcast peers b r =
     map (\<lambda>(peer, b). Send_broadcast peer b) (broadcast_message (w_chance w) (rn_name r) source full_broadcast peers b)"

definition to_client :: "interface \<Rightarrow> string \<Rightarrow> reply \<Rightarrow> sent list" where
  "to_client it peer reply = (if it = Rpc then [Send_reply it peer reply] else [])"

text \<open>A transaction for the pool; what is sent depends on whether it was new.\<close>

definition submit :: "world \<Rightarrow> signed_transaction \<Rightarrow> (bool \<Rightarrow> sent list) \<Rightarrow> running \<Rightarrow> outcome" where
  "submit w st out r =
     (case action_process_on_chain (w_ext w) (w_now w) (w_thrown w) st (node_at w r) of
        (Inl e, n) \<Rightarrow> (Inl e, [], with_node n r)
      | (Inr ok, n) \<Rightarrow> (Inr (), out ok, with_node n r))"

section \<open>Checks of messages that are not stored\<close>

definition admit :: "ext \<Rightarrow> signed_transaction \<Rightarrow> node \<Rightarrow> bool res \<times> node" where
  "admit E st n =
     (if cache_contains E st (m_transaction_cache n) then (Inr False, n)
      else (Inr True, cache_update (\<lambda>c. snd (add_pool E st True (cache_backup_now c))) n))"

definition one_authorization :: "signed_transaction \<Rightarrow> 'a res \<Rightarrow> 'a res" where
  "one_authorization st k = throw_if (length (authorizations st) \<noteq> 1) (Wrong_data ''transaction authorizations error'') k"

definition usable_addresses :: "belt \<Rightarrow> address_info \<Rightarrow> bool" where
  "usable_addresses B info =
     (let address = ai_ip_address info; ssl = ai_ssl_ip_address info; empty = b_dest_empty B;
          ssl_empty = empty (ip_local ssl) \<and> empty (ip_remote ssl);
          ssl_same = ip_dest_address (ip_remote address) = ip_dest_address (ip_remote ssl)
                     \<and> ip_dest_address (ip_local address) = ip_dest_address (ip_local ssl)
      in \<not> (empty (ip_remote address) \<and> empty (ip_local address)) \<and> (ssl_same \<or> ssl_empty))"

definition process_address_info :: "ext \<Rightarrow> belt \<Rightarrow> signed_transaction \<Rightarrow> address_info \<Rightarrow> node \<Rightarrow> bool res \<times> node" where
  "process_address_info E B st info n =
     (if \<not> usable_addresses B info then (Inr False, n)
      else case one_authorization st
                  (check_signer E st (ai_node_address info) K_AddressInfo (authority_exception (ai_node_address info)) n (Inr ())) of
        Inl e \<Rightarrow> (Inl e, n)
      | Inr _ \<Rightarrow> admit E st n)"

definition process_update_command :: "ext \<Rightarrow> signed_transaction \<Rightarrow> storage_update_command \<Rightarrow> node \<Rightarrow> bool res \<times> node" where
  "process_update_command E st command n =
     (let role = (\<lambda>a. get_role a (m_state n))
      in if cache_contains E st (m_transaction_cache n) then (Inr False, n)
         else case throw_if (uc_file_uri command = []) (Wrong_request ''StorageUpdateCommand contains empty file uri!'')
                  (throw_if (uc_status command = UT_store \<and> uc_channel_address command = []) (Wrong_request ''StorageUpdateCommand contains wrong data!'')
                  (throw_if (role (uc_storage_address command) \<noteq> Some NT_storage) (Wrong_request ''StorageUpdateCommand contains wrong storage address!'')
                  (throw_if (uc_channel_address command \<noteq> [] \<and> role (uc_channel_address command) \<noteq> Some NT_channel)
                     (Wrong_request ''StorageUpdateCommand contains wrong channel address!'')
                  (one_authorization st (Inr ()))))) of
           Inl e \<Rightarrow> (Inl e, n)
         | Inr _ \<Rightarrow> admit E st n)"

definition letter_size :: nat where "letter_size = 16384"

definition check_letter :: "ext \<Rightarrow> signed_transaction \<Rightarrow> letter \<Rightarrow> node \<Rightarrow> unit res" where
  "check_letter E st l n =
     throw_if (letter_size < length (lt_message l)) (Too_long_string (lt_message l) letter_size)
     (throw_if (lt_message l = []) (Wrong_data ''empty letter.message!'')
     (check_public_key E (lt_from l)
     (check_public_key E (lt_to l)
     (one_authorization st
     (check_signer E st (lt_from l) K_Letter (authority_exception (lt_from l)) n
     (throw_if (lt_to l = lt_from l) (Wrong_data ''sender can read his messages without blockchain!'') (Inr ())))))))"

text \<open>The letter enters the inbox between the backup of the cache and its change.\<close>

definition process_letter :: "ext \<Rightarrow> signed_transaction \<Rightarrow> letter \<Rightarrow> node \<Rightarrow> bool res \<times> node" where
  "process_letter E st l n =
     (case check_letter E st l n of
        Inl e \<Rightarrow> (Inl e, n)
      | Inr _ \<Rightarrow>
          (case admit E st n of
             (Inr True, n') \<Rightarrow> (Inr True, if lt_to l = own_address n then n'\<lparr>m_inbox := inbox_insert l (m_inbox n')\<rparr> else n')
           | other \<Rightarrow> other))"

section \<open>Handlers\<close>

definition not_signed :: exn where
  "not_signed = Wrong_data ''will process only \"broadcast signed transaction\"''"

definition handle_action :: "world \<Rightarrow> interface \<Rightarrow> string \<Rightarrow> broadcast option \<Rightarrow> action \<Rightarrow> running \<Rightarrow> outcome" where
  "handle_action w it peer bc a r =
     (let n = rn_node r
      in if m_freeze_before_block n \<le> bc_length (m_blockchain n) then (Inr (), [], r)
         else case bc of
           None \<Rightarrow> (Inl not_signed, [], r)
         | Some b \<Rightarrow>
             if cf_transfer_only (pconfig n) \<and> (\<forall>t. a \<noteq> Transfer t) then (Inl (Runtime_error ''this is coin only blockchain''), [], r)
             else submit w (bc_package b)
                    (\<lambda>ok. (if ok then send_broadcast w peer (it = Rpc) (rn_peers r) b r else []) @ to_client it peer Reply_done) r)"

definition handle_address_info :: "world \<Rightarrow> interface \<Rightarrow> string \<Rightarrow> broadcast option \<Rightarrow> address_info \<Rightarrow> running \<Rightarrow> outcome" where
  "handle_address_info w it peer bc info r =
     (case bc of
        None \<Rightarrow> (Inl not_signed, [], r)
      | Some b \<Rightarrow>
          if it \<noteq> P2p then (Inl (Wrong_request ''AddressInfo received through rpc!''), [], r)
          else (case process_address_info (w_ext w) (w_belt w) (bc_package b) info (rn_node r) of
                  (Inl e, n) \<Rightarrow> (Inl e, [], with_node n r)
                | (Inr False, n) \<Rightarrow> (Inr (), [], with_node n r)
                | (Inr True, n) \<Rightarrow>
                    let r1 = with_node n r; node = ai_node_address info
                    in attempt r1 (front_address (bc_package b)) (\<lambda>authority.
                       let r2 = (if authority \<noteq> node then r1\<lparr>rn_authorities := (rn_authorities r1)(node \<mapsto> authority)\<rparr> else r1)
                       in attempt r2 (address_add (w_ip_string w) node (ai_ip_address info) (ai_ssl_ip_address info) (Some (peer, b)) (rn_nodeids r2))
                            (\<lambda>s. (Inr (), [], r2\<lparr>rn_nodeids := s\<rparr>)))))"

text \<open>A message for one node goes to it when it is a peer, and else to all peers.\<close>

definition relay_to :: "world \<Rightarrow> string \<Rightarrow> string \<Rightarrow> broadcast \<Rightarrow> running \<Rightarrow> sent list" where
  "relay_to w source receiver b r =
     send_broadcast w source True (if receiver \<in> set (rn_peers r) then [receiver] else rn_peers r) b r"

definition obey_command :: "world \<Rightarrow> string \<Rightarrow> signed_transaction \<Rightarrow> storage_update_command \<Rightarrow> running \<Rightarrow> outcome" where
  "obey_command w peer st command r =
     (let n = rn_node r
      in attempt r (bind_res (front_address st) (\<lambda>signer.
                      check_authority (cf_manager_address (pconfig n)) signer (x_rtt (w_ext w) K_StorageUpdateCommand) (m_authority_manager n)))
           (\<lambda>ok. if \<not> ok then (Inr (), [], r)
                 else if uc_status command = UT_remove then (Inr (), [Delete_file peer (uc_file_uri command)], r)
                 else (Inr (), [], with_node (n\<lparr>m_storage_controller :=
                         enqueue (uc_file_uri command) (uc_channel_address command) (m_storage_controller n)\<rparr>) r)))"

definition then_reply :: "interface \<Rightarrow> string \<Rightarrow> outcome \<Rightarrow> outcome" where
  "then_reply it peer x = (case x of (Inr _, out, r) \<Rightarrow> (Inr (), out @ to_client it peer Reply_done, r) | (Inl e, out, r) \<Rightarrow> (Inl e, out, r))"

definition handle_update_command ::
  "world \<Rightarrow> interface \<Rightarrow> string \<Rightarrow> broadcast option \<Rightarrow> storage_update_command \<Rightarrow> running \<Rightarrow> outcome" where
  "handle_update_command w it peer bc command r =
     (case bc of
        None \<Rightarrow> (Inl not_signed, [], r)
      | Some b \<Rightarrow>
          then_reply it peer
            (case process_update_command (w_ext w) (bc_package b) command (rn_node r) of
               (Inl e, n) \<Rightarrow> (Inl e, [], with_node n r)
             | (Inr False, n) \<Rightarrow> (Inr (), [], with_node n r)
             | (Inr True, n) \<Rightarrow>
                 let r1 = with_node n r
                 in if uc_storage_address command = own_address n then obey_command w peer (bc_package b) command r1
                    else (Inr (), relay_to w peer (uc_storage_address command) b r1, r1)))"

definition handle_letter :: "world \<Rightarrow> interface \<Rightarrow> string \<Rightarrow> broadcast option \<Rightarrow> letter \<Rightarrow> running \<Rightarrow> outcome" where
  "handle_letter w it peer bc l r =
     (case bc of
        None \<Rightarrow> (Inl not_signed, [], r)
      | Some b \<Rightarrow>
          then_reply it peer
            (case process_letter (w_ext w) (bc_package b) l (rn_node r) of
               (Inl e, n) \<Rightarrow> (Inl e, [], with_node n r)
             | (Inr ok, n) \<Rightarrow>
                 (Inr (), if ok \<and> lt_to l \<noteq> own_address n then relay_to w peer (lt_to l) b (with_node n r) else [], with_node n r)))"

text \<open>A transaction the client has the node sign with a key it sends along.\<close>

definition signed_by :: "world \<Rightarrow> string \<Rightarrow> transaction \<Rightarrow> signed_transaction" where
  "signed_by w pv details =
     \<lparr> transaction_details = details,
       authorizations = [\<lparr> at_address = b_public_of (w_belt w) pv, at_signature = w_sign w pv (x_transaction_string (w_ext w) details) \<rparr>] \<rparr>"

definition handle_transaction_request :: "world \<Rightarrow> interface \<Rightarrow> string \<Rightarrow> string \<Rightarrow> transaction \<Rightarrow> running \<Rightarrow> outcome" where
  "handle_transaction_request w it peer private_key details r =
     attempt r (b_private_key (w_belt w) private_key) (\<lambda>pv.
       let st = signed_by w pv details; E = w_ext w
       in attempt r (signed_transaction_validate E st (w_now w) NODES_TIME_SHIFT) (\<lambda>_.
          submit w st
            (\<lambda>ok. (if ok then send_broadcast w peer (it = Rpc) (rn_peers r) \<lparr> echoes = 2, bc_package = st \<rparr> r else [])
               @ [Send_reply it peer (Reply_transaction_done (tx_key E st))]) r))"

text \<open>\<open>accepted\<close> is the type of the peer, \<open>pending\<close> the seconds the request has waited: an empty inbox is
  answered after ten seconds. What the client gets is removed.\<close>

definition handle_check_inbox :: "interface \<Rightarrow> string \<Rightarrow> bool \<Rightarrow> nat \<Rightarrow> running \<Rightarrow> outcome" where
  "handle_check_inbox it peer accepted pending r =
     (let n = rn_node r; letters = (case m_inbox n of None \<Rightarrow> [] | Some l \<Rightarrow> l)
      in if it \<noteq> Rpc \<or> \<not> accepted then (Inl (Wrong_request ''CheckInbox received not through rpc!''), [], r)
         else if inbox_length (m_inbox n) = 0 \<and> pending < 10 then (Inr (), [], r)
         else (Inr (), [Send_reply it peer (Reply_inbox letters)], with_node (n\<lparr>m_inbox := map_option (\<lambda>_. []) (m_inbox n)\<rparr>) r))"

text \<open>The keys to answer with: the private and the public one.\<close>

definition ping_keys :: "belt \<Rightarrow> string option \<Rightarrow> config_internal \<Rightarrow> (string \<times> string) res" where
  "ping_keys B address c =
     bind_res (get_key B c) (\<lambda>pv.
     bind_res (get_public_key B c) (\<lambda>pb.
       case address of
         None \<Rightarrow> Inr (pv, pb)
       | Some a \<Rightarrow>
           bind_res (public_keys B c) (\<lambda>pbks.
             if a \<in> set pbks then Inr (pv, a)
             else bind_res (keys B c) (\<lambda>pks.
                    Inr (case find (\<lambda>k. b_public_of B k = a) pks of None \<Rightarrow> (pv, pb) | Some k \<Rightarrow> (k, b_public_of B k))))))"

definition handle_ping :: "world \<Rightarrow> interface \<Rightarrow> string \<Rightarrow> string option \<Rightarrow> running \<Rightarrow> outcome" where
  "handle_ping w it peer address r =
     attempt r (ping_keys (w_belt w) address (rn_config r)) (\<lambda>(pv, pb).
       (Inr (), [Send_reply it peer (Reply_pong
          \<lparr> pg_node_address = pb, pg_stamp = w_now w, pg_signature = w_sign w pv (pb @ w_time_string w (w_now w)) \<rparr>)], r))"

section \<open>One message\<close>

text \<open>A broadcast of a signed transaction, the same content without signature or broadcast, and the requests.\<close>

datatype received =
    Received_signed broadcast
  | Received_bare action
  | Received_transaction string transaction
  | Received_check_inbox bool nat
  | Received_ping "string option"

definition handle_package :: "world \<Rightarrow> interface \<Rightarrow> string \<Rightarrow> broadcast option \<Rightarrow> action \<Rightarrow> running \<Rightarrow> outcome" where
  "handle_package w it peer bc a r =
     (case a of
        Other_action p \<Rightarrow>
          (case p of
             AddressInfo info \<Rightarrow> handle_address_info w it peer bc info r
           | Letter l \<Rightarrow> handle_letter w it peer bc l r
           | StorageUpdateCommand command \<Rightarrow> handle_update_command w it peer bc command r
           | Unknown_package \<Rightarrow> (Inr (), [], r))
      | _ \<Rightarrow> handle_action w it peer bc a r)"

definition handle :: "world \<Rightarrow> interface \<Rightarrow> string \<Rightarrow> received \<Rightarrow> running \<Rightarrow> outcome" where
  "handle w it peer m r =
     (case m of
        Received_signed b \<Rightarrow>
          attempt r (signed_transaction_validate (w_ext w) (bc_package b) (w_now w) NODES_TIME_SHIFT)
            (\<lambda>_. handle_package w it peer (Some b) (tx_action (transaction_details (bc_package b))) r)
      | Received_bare a \<Rightarrow> handle_package w it peer None a r
      | Received_transaction private_key details \<Rightarrow> handle_transaction_request w it peer private_key details r
      | Received_check_inbox accepted pending \<Rightarrow> handle_check_inbox it peer accepted pending r
      | Received_ping address \<Rightarrow> handle_ping w it peer address r)"

text \<open>The exceptions with a handler of their own; the peer that sent the message is dropped for them.\<close>

definition blames_sender :: "exn \<Rightarrow> bool" where
  "blames_sender e \<longleftrightarrow> (case e of Runtime_error _ \<Rightarrow> False | Logic_error _ \<Rightarrow> False | External_error \<Rightarrow> False | Undefined_behaviour \<Rightarrow> False
     | _ \<Rightarrow> True)"

text \<open>Removing a peer also ends its sessions.\<close>

definition remove_peer :: "string \<Rightarrow> running \<Rightarrow> running res" where
  "remove_peer peer r =
     throw_if (peer \<notin> set (rn_peers r)) (Runtime_error (''p2p peer not found to remove: '' @ peer))
       (Inr (r\<lparr>rn_peers := filter (\<lambda>p. p \<noteq> peer) (rn_peers r)\<rparr>))"

definition receive :: "world \<Rightarrow> interface \<Rightarrow> string \<Rightarrow> received \<Rightarrow> running \<Rightarrow> outcome" where
  "receive w it peer m r =
     (case handle w it peer m r of
        (Inr _, out, r1) \<Rightarrow> (Inr (), out, r1)
      | (Inl e, out, r1) \<Rightarrow>
          if it = Rpc then (Inl e, out @ [Send_reply Rpc peer (Reply_error e)], r1)
          else if \<not> blames_sender e then (Inl e, out, r1)
          else (case remove_peer peer r1 of
                  Inl e' \<Rightarrow> (Inl e', out @ [Send_drop peer], r1)
                | Inr r2 \<Rightarrow> (Inl e, out @ [Send_drop peer], r2)))"

section \<open>Transactions a node makes itself\<close>

definition own_transaction :: "world \<Rightarrow> running \<Rightarrow> action \<Rightarrow> time \<Rightarrow> coin \<Rightarrow> signed_transaction res" where
  "own_transaction w r a lifetime fee =
     bind_res (get_key (w_belt w) (rn_config r)) (\<lambda>pv.
       Inr (signed_by w pv \<lparr> tx_creation = w_now w, tx_expiry = w_now w + lifetime, tx_fee = fee, tx_action = a \<rparr>))"

definition announce :: "world \<Rightarrow> signed_transaction \<Rightarrow> running \<Rightarrow> sent list" where
  "announce w st r = send_broadcast w (rn_name r) True (rn_peers r) \<lparr> echoes = 2, bc_package = st \<rparr> r"

definition make_transaction :: "world \<Rightarrow> action \<Rightarrow> time \<Rightarrow> running \<Rightarrow> outcome" where
  "make_transaction w a lifetime r =
     attempt r (bind_res (get_automatic_fee (rn_config r)) (own_transaction w r a lifetime)) (\<lambda>st.
       submit w st (\<lambda>ok. if ok then announce w st r else []) r)"

definition broadcast_node_type :: "world \<Rightarrow> running \<Rightarrow> outcome" where
  "broadcast_node_type w r =
     (let n = rn_node r
      in if rn_peers r = [] \<or> \<not> blockchain_updated (w_now w) n \<or> get_role (own_address n) (m_state n) \<noteq> None
            \<or> cf_node_type (pconfig n) = NT_blockchain
         then (Inr (), [], r)
         else make_transaction w (Role \<lparr> rl_node_address = own_address n, rl_node_type = cf_node_type (pconfig n) \<rparr>)
                (TRANSACTION_MAX_LIFETIME_HOURS * 3600) r)"

text \<open>The private and public keys to announce: the public keys under the first private key, and the private
  keys that are not among them.\<close>

definition announced_keys :: "belt \<Rightarrow> string \<Rightarrow> string list \<Rightarrow> string list \<Rightarrow> (string \<times> string) list" where
  "announced_keys B front pbks pks =
     (let used = (if pbks \<noteq> [] then {b_public_of B front} else {}) \<union> set pbks
      in map (\<lambda>pbk. (front, pbk)) pbks @ map (\<lambda>pk. (pk, b_public_of B pk)) (filter (\<lambda>pk. b_public_of B pk \<notin> used) pks))"

definition address_announcement :: "world \<Rightarrow> running \<Rightarrow> string \<times> string \<Rightarrow> signed_transaction" where
  "address_announcement w r = (\<lambda>(pv, pbk).
     signed_by w pv \<lparr> tx_creation = w_now w, tx_expiry = w_now w + 24 * 3600, tx_fee = coin_zero,
       tx_action = Other_action (AddressInfo
         \<lparr> ai_node_address = pbk, ai_ip_address = get_public_address (w_belt w) (rn_config r),
           ai_ssl_ip_address = get_public_ssl_address (w_belt w) (rn_config r) \<rparr>) \<rparr>)"

definition broadcast_address_info :: "world \<Rightarrow> running \<Rightarrow> outcome" where
  "broadcast_address_info w r =
     (let B = w_belt w; c = rn_config r; address = get_public_address B c
      in if b_dest_empty B (ip_local address) \<and> b_dest_empty B (ip_remote address) then (Inr (), [], r)
         else attempt r (bind_res (public_keys B c) (\<lambda>pbks. bind_res (keys B c) (\<lambda>pks.
                           bind_res (get_key B c) (\<lambda>front. Inr (announced_keys B front pbks pks)))))
                (\<lambda>items. (Inr (), concat (map (\<lambda>item. announce w (address_announcement w r item) r) items), r)))"

definition broadcast_service_statistics :: "world \<Rightarrow> running \<Rightarrow> outcome" where
  "broadcast_service_statistics w r =
     (let n = rn_node r
      in if cf_node_type (pconfig n) = NT_blockchain then (Inr (), [], r)
         else let (statistics, counter) = take_statistics_info (w_now w) (rn_service_counter r);
                  r1 = r\<lparr>rn_service_counter := counter\<rparr>; tp_end = time_signed (m_last_header (m_blockchain n))
              in if ss_file_items statistics = [] then (Inr (), [], r1)
                 else make_transaction w (ServiceStatistics (statistics\<lparr> ss_server_address := own_address n,
                          ss_start_time_point := tp_end - int BLOCK_MINE_DELAY, ss_end_time_point := tp_end \<rparr>))
                        (2 * int BLOCK_MINE_DELAY) r1)"

definition broadcast_storage_update :: "world \<Rightarrow> string \<Rightarrow> update_type \<Rightarrow> running \<Rightarrow> outcome" where
  "broadcast_storage_update w uri status r =
     make_transaction w (StorageUpdate \<lparr> su_status = status, su_file_uri = uri, su_storage_address = own_address (rn_node r) \<rparr>)
       (TRANSACTION_MAX_LIFETIME_HOURS * 3600) r"

text \<open>What comes back from the storage when it was asked to delete a file: whether it is \<open>Done\<close>.\<close>

definition file_deleted :: "world \<Rightarrow> string \<Rightarrow> bool \<Rightarrow> running \<Rightarrow> outcome" where
  "file_deleted w uri is_done r =
     (if cf_node_type (pconfig (rn_node r)) = NT_storage \<and> is_done then broadcast_storage_update w uri UT_remove r
      else (Inr (), [], r))"

text \<open>The broadcast timer: what is in the pool for longer than a block goes out again.\<close>

definition rebroadcast_pool :: "world \<Rightarrow> running \<Rightarrow> sent list" where
  "rebroadcast_pool w r =
     (let n = rn_node r
      in if rn_peers r = [] \<or> \<not> blockchain_updated (w_now w) n then []
         else concat (map (\<lambda>st. announce w st r)
                (filter (\<lambda>st. w_now w < tx_expiry (transaction_details st)
                              \<and> w_now w > tx_creation (transaction_details st) + int BLOCK_MINE_DELAY)
                   (m_transaction_pool n))))"

text \<open>The channels with a proved and recent address, as the storage process is told.\<close>

definition verified_channels :: "world \<Rightarrow> running \<Rightarrow> public_address_info list" where
  "verified_channels w r =
     filter (\<lambda>i. get_role (pa_node_address i) (m_state (rn_node r)) = Some NT_channel)
       (takeWhile (\<lambda>i. \<not> 2 * PUBLIC_ADDRESS_FRESH_THRESHHOLD_SECONDS < unat (pa_seconds_since_checked i))
          (get_addresses (w_now w) (w_steady_now w) (rn_nodeids r)))"

end
