(* ===== verification/Message_Properties.thy ===== *)
theory Message_Properties
  imports Peer_Messages
begin

text \<open>
  What holds of every message a node receives: an exception leaves everything as it was and is answered,
  a client gets one answer, and a letter that was handled is neither delivered nor sent on again.
\<close>

section \<open>Frames\<close>

lemma add_to_pool_inbox:
  assumes "add_to_pool E st complete n = Inr n'"
  shows "m_inbox n' = m_inbox n"
proof -
  have "m_inbox m = m_inbox n" if "apply_action E st (tx_action (transaction_details st)) Layer_pool n = Inr m" for m
    by (subst apply_action_frame [OF that], simp)
  then show ?thesis using assms by (auto simp: add_to_pool_def Let_def result_simps cache_update_def split: if_splits)
qed

lemma pool_rollback_inbox: "m_inbox (pool_rollback E (half_changed thrown n)) = m_inbox n"
  by (simp add: pool_rollback_def half_changed_def cache_update_def node_discard_def Let_def split_beta)

lemma action_process_inbox: "action_process_on_chain E now thrown st n = (res, n') \<Longrightarrow> m_inbox n' = m_inbox n"
  by (auto simp: action_process_on_chain_def Let_def pool_rollback_inbox node_save_def cache_update_def
      dest!: add_to_pool_inbox split: sum.splits if_splits)

lemma node_at_fields [simp]:
  "m_inbox (node_at w r) = m_inbox (rn_node r)" "m_freeze_before_block (node_at w r) = m_freeze_before_block (rn_node r)"
  "m_blockchain (node_at w r) = m_blockchain (rn_node r)" "committed E (node_at w r) \<longleftrightarrow> committed E (rn_node r)"
  "same_ledger (node_at w r) n \<longleftrightarrow> same_ledger (rn_node r) n" "m_transaction_cache (node_at w r) = m_transaction_cache (rn_node r)"
  by (simp_all add: node_at_def committed_def same_ledger_def)

lemma with_node_fields [simp]:
  "rn_node (with_node n r) = n" "rn_nodeids (with_node n r) = rn_nodeids r" "rn_authorities (with_node n r) = rn_authorities r"
  "rn_peers (with_node n r) = rn_peers r" "rn_config (with_node n r) = rn_config r" "rn_name (with_node n r) = rn_name r"
  "with_node (rn_node r) r = r"
  by (simp_all add: with_node_def)

text \<open>Everything a message may change, unchanged.\<close>

definition untouched :: "ext \<Rightarrow> running \<Rightarrow> running \<Rightarrow> bool" where
  "untouched E r r' \<longleftrightarrow> same_ledger (rn_node r) (rn_node r') \<and> committed E (rn_node r') \<and> m_inbox (rn_node r') = m_inbox (rn_node r)
     \<and> rn_nodeids r' = rn_nodeids r \<and> rn_authorities r' = rn_authorities r"

lemma untouched_refl: "committed E (rn_node r) \<Longrightarrow> untouched E r r"
  by (simp add: untouched_def same_ledger_def)

lemma process_untouched:
  assumes "action_process_on_chain E now thrown st (node_at w r) = (res, n)" "committed E (rn_node r)" "res \<noteq> Inr True"
  shows "untouched E r (with_node n r)"
  using pool_entry [OF _ assms(1)] assms action_process_inbox [OF assms(1)] by (simp add: untouched_def)

lemma admit_signed: "admit E st n = (Inr True, n') \<Longrightarrow> \<not> cache_contains E st (m_transaction_cache n) \<and> cache_contains E st (m_transaction_cache n')"
  by (auto simp: admit_def cache_update_def split: if_splits)

lemma admit_cases: "admit E st n = (Inl e, n') \<Longrightarrow> False" "admit E st n = (Inr False, n') \<Longrightarrow> n' = n"
  by (auto simp: admit_def split: if_splits)

lemma admit_frame:
  "admit E st n = (res, n') \<Longrightarrow> m_inbox n' = m_inbox n \<and> m_authority_manager n' = m_authority_manager n \<and> pconfig n' = pconfig n
     \<and> m_state n' = m_state n"
  by (auto simp: admit_def cache_update_def split: if_splits)

lemma one_authorization_Inr [result_simps]:
  "one_authorization st k = Inr y \<longleftrightarrow> (\<exists>a. authorizations st = [a]) \<and> k = Inr y"
  by (auto simp: one_authorization_def result_simps length_Suc_conv)

section \<open>Exceptions\<close>

lemma process_info_error: "process_address_info E B st info n = (Inl e, n') \<Longrightarrow> n' = n"
  by (auto simp: process_address_info_def dest: admit_cases split: if_splits sum.splits)

lemma process_info_ok:
  "process_address_info E B st info n = (Inr True, n') \<Longrightarrow> \<exists>a. authorizations st = [a]"
  by (auto simp: process_address_info_def result_simps split: if_splits sum.splits)

lemma process_command_error: "process_update_command E st command n = (Inl e, n') \<Longrightarrow> n' = n"
  by (auto simp: process_update_command_def Let_def dest: admit_cases split: if_splits sum.splits)

lemma process_command_ok:
  "process_update_command E st command n = (Inr True, n') \<Longrightarrow> (\<exists>a. authorizations st = [a]) \<and> m_authority_manager n' = m_authority_manager n"
  by (auto simp: process_update_command_def Let_def result_simps dest: admit_frame split: if_splits sum.splits)

lemma process_letter_error: "process_letter E st l n = (Inl e, n') \<Longrightarrow> n' = n"
  by (auto simp: process_letter_def dest: admit_cases split: if_splits sum.splits prod.splits bool.splits)

lemma address_add_total: "inj ip_string \<Longrightarrow> \<exists>s'. address_add ip_string node address ssl action s = Inr s'"
  by (auto simp: address_add_def Let_def unit_key_def new_unit_def find_Some_iff dest!: injD split: option.splits)

lemma attempt_Inl: "attempt r x k = (Inl e, out, r') \<longleftrightarrow> (x = Inl e \<and> out = [] \<and> r' = r) \<or> (\<exists>y. x = Inr y \<and> k y = (Inl e, out, r'))"
  by (auto simp: attempt_def split: sum.splits)

lemma handle_address_info_error:
  assumes "handle_address_info w it peer bc info r = (Inl e, out, r')" "inj (w_ip_string w)"
  shows "out = [] \<and> r' = r"
proof (cases bc)
  case (Some b)
  have add: "address_add (w_ip_string w) node address ssl action s \<noteq> Inl d" for node address ssl action s d
    using address_add_total [OF assms(2)] by (metis Inl_Inr_False)
  have front: "front_address (bc_package b) \<noteq> Inl d"
    if "process_address_info (w_ext w) (w_belt w) (bc_package b) info (rn_node r) = (Inr True, n)" for n d
    using process_info_ok [OF that] by (auto simp: front_address_def)
  show ?thesis using assms(1) Some add front
    by (auto simp: handle_address_info_def Let_def attempt_Inl dest: process_info_error split: if_splits prod.splits sum.splits bool.splits)
qed (use assms in \<open>simp add: handle_address_info_def\<close>)

lemma then_reply_Inl: "then_reply it peer x = (Inl e, out, r') \<longleftrightarrow> x = (Inl e, out, r')"
  by (cases x) (auto simp: then_reply_def split: sum.splits)

lemma obey_command_error:
  assumes "authorizations st = [a]" "authority_wf (m_authority_manager (rn_node r))"
  shows "fst (obey_command w peer st command r) = Inr ()"
  using assms by (simp add: obey_command_def Let_def front_address_def check_authority_eq attempt_def)

lemma handle_update_command_error:
  assumes "handle_update_command w it peer bc command r = (Inl e, out, r')" "authority_wf (m_authority_manager (rn_node r))"
  shows "out = [] \<and> r' = r"
proof (cases bc)
  case (Some b)
  have obey: "obey_command w peer (bc_package b) command (with_node n r) \<noteq> (Inl e, out, r')"
    if proc: "process_update_command (w_ext w) (bc_package b) command (rn_node r) = (Inr True, n)" for n
  proof -
    obtain a where "authorizations (bc_package b) = [a]" "m_authority_manager n = m_authority_manager (rn_node r)"
      using process_command_ok [OF proc] by blast
    then have "fst (obey_command w peer (bc_package b) command (with_node n r)) = Inr ()"
      using obey_command_error [of "bc_package b" a "with_node n r"] assms(2) by simp
    then show ?thesis by (metis fst_conv Inl_Inr_False)
  qed
  show ?thesis using assms(1) Some obey
    by (auto simp: handle_update_command_def Let_def then_reply_Inl dest: process_command_error
        split: if_splits prod.splits sum.splits bool.splits)
qed (use assms in \<open>simp add: handle_update_command_def\<close>)

lemma handle_letter_error: "handle_letter w it peer bc l r = (Inl e, out, r') \<Longrightarrow> out = [] \<and> r' = r"
  by (auto simp: handle_letter_def then_reply_Inl dest: process_letter_error split: option.splits prod.splits sum.splits)

lemma submit_error:
  assumes "submit w st f r = (Inl e, out, r')" "committed (w_ext w) (rn_node r)"
  shows "out = [] \<and> untouched (w_ext w) r r'"
  using assms by (auto simp: submit_def intro: process_untouched split: prod.splits sum.splits)

lemma submit_peers [simp]: "rn_peers (snd (snd (submit w st f r))) = rn_peers r"
  by (simp add: submit_def split: prod.split sum.split)

lemma handle_action_error:
  assumes "handle_action w it peer bc a r = (Inl e, out, r')" "committed (w_ext w) (rn_node r)"
  shows "out = [] \<and> untouched (w_ext w) r r'"
  using assms by (auto simp: handle_action_def Let_def untouched_refl dest: submit_error split: if_splits option.splits)

lemma handle_transaction_error:
  assumes "handle_transaction_request w it peer key details r = (Inl e, out, r')" "committed (w_ext w) (rn_node r)"
  shows "out = [] \<and> untouched (w_ext w) r r'"
  using assms by (auto simp: handle_transaction_request_def Let_def attempt_Inl untouched_refl dest: submit_error)

lemma handle_error:
  assumes "handle w it peer m r = (Inl e, out, r')" and committed: "committed (w_ext w) (rn_node r)"
    and wf: "authority_wf (m_authority_manager (rn_node r))" "inj (w_ip_string w)"
  shows "out = [] \<and> untouched (w_ext w) r r'"
proof -
  have refl: "untouched (w_ext w) r r" using committed by (simp add: untouched_refl)
  have package: "out = [] \<and> untouched (w_ext w) r r'" if "handle_package w it peer bc a r = (Inl e, out, r')" for bc a
    using that refl
    by (auto simp: handle_package_def split: action.splits package.splits
        dest!: handle_action_error [OF _ committed] handle_address_info_error [OF _ wf(2)]
          handle_update_command_error [OF _ wf(1)] handle_letter_error)
  show ?thesis
    using assms(1) package handle_transaction_error [OF _ committed] refl
    by (cases m) (auto simp: handle_def attempt_Inl handle_check_inbox_def handle_ping_def Let_def split: if_splits)
qed

lemma attempt_cases:
  obtains e where "x = Inl e" "attempt r x k = (Inl e, [], r)" | y where "x = Inr y" "attempt r x k = k y"
  by (cases x) (auto simp: attempt_def)

lemma attempt_peers: "(\<And>y. rn_peers (snd (snd (k y))) = rn_peers r) \<Longrightarrow> rn_peers (snd (snd (attempt r x k))) = rn_peers r"
  by (rule attempt_cases [of x r k]) simp_all

lemma then_reply_running: "snd (snd (then_reply it peer x)) = snd (snd x)"
  by (cases x) (auto simp: then_reply_def split: sum.splits)

lemma handle_package_peers: "rn_peers (snd (snd (handle_package w it peer bc a r))) = rn_peers r"
proof -
  have "rn_peers (snd (snd (handle_action w it peer bc a r))) = rn_peers r"
    for a by (simp add: handle_action_def Let_def split: option.split)
  moreover have "rn_peers (snd (snd (handle_address_info w it peer bc info r))) = rn_peers r" for info
    by (auto simp: handle_address_info_def Let_def attempt_def split: option.split prod.split sum.split bool.split)
  moreover have "rn_peers (snd (snd (obey_command w peer st command r'))) = rn_peers r'" for st command r'
    unfolding obey_command_def Let_def by (rule attempt_peers) simp
  then have "rn_peers (snd (snd (handle_update_command w it peer bc command r))) = rn_peers r" for command
    by (auto simp: handle_update_command_def Let_def then_reply_running split: option.split prod.split sum.split bool.split)
  moreover have "rn_peers (snd (snd (handle_letter w it peer bc l r))) = rn_peers r" for l
    by (auto simp: handle_letter_def then_reply_running split: option.split prod.split sum.split)
  ultimately show ?thesis by (cases a) (simp_all add: handle_package_def split: package.split)
qed

lemma handle_peers: "handle w it peer m r = (res, out, r') \<Longrightarrow> rn_peers r' = rn_peers r"
proof -
  have "rn_peers (snd (snd (handle w it peer m r))) = rn_peers r"
    by (cases m) (auto simp: handle_def handle_package_peers handle_transaction_request_def handle_check_inbox_def handle_ping_def Let_def
        intro!: attempt_peers)
  then show "handle w it peer m r = (res, out, r') \<Longrightarrow> rn_peers r' = rn_peers r" by simp
qed

text \<open>An exception on the way of a message leaves the ledger, the pool, the cache of transactions, the inbox
  and the known addresses exactly as they were, and nothing is sent but the answer to it: a client gets the
  error, a peer that is to blame for it is dropped and is no peer any more, and another peer stays.\<close>

theorem exception_contained:
  assumes "receive w it peer m r = (Inl e, out, r')" "committed (w_ext w) (rn_node r)"
    and "authority_wf (m_authority_manager (rn_node r))" "inj (w_ip_string w)" "it = P2p \<Longrightarrow> peer \<in> set (rn_peers r)"
  shows "untouched (w_ext w) r r'
    \<and> out = (if it = Rpc then [Send_reply Rpc peer (Reply_error e)] else if blames_sender e then [Send_drop peer] else [])
    \<and> rn_peers r' = (if it = P2p \<and> blames_sender e then filter (\<lambda>p. p \<noteq> peer) (rn_peers r) else rn_peers r)"
proof -
  obtain e' out' r1 where h: "handle w it peer m r = (Inl e', out', r1)"
    using assms(1) by (auto simp: receive_def split: prod.splits sum.splits)
  have u: "out' = []" "untouched (w_ext w) r r1" using handle_error [OF h assms(2-4)] by blast+
  have peers: "rn_peers r1 = rn_peers r" using handle_peers [OF h] .
  show ?thesis
    using assms(1,5) h u peers by (cases it) (auto simp: receive_def remove_peer_def untouched_def split: if_splits)
qed

section \<open>Answers\<close>

fun is_reply :: "sent \<Rightarrow> bool" where
  "is_reply (Send_reply it peer reply) = True"
| "is_reply s = False"

text \<open>The requests that are not answered now: actions on a chain that is frozen, an empty inbox before the
  ten seconds are over, and messages of an unknown type.\<close>

fun stored_action :: "action \<Rightarrow> bool" where
  "stored_action (Other_action p) = False"
| "stored_action a = True"

definition frozen :: "running \<Rightarrow> bool" where
  "frozen r \<longleftrightarrow> m_freeze_before_block (rn_node r) \<le> bc_length (m_blockchain (rn_node r))"

definition not_answered :: "world \<Rightarrow> received \<Rightarrow> running \<Rightarrow> bool" where
  "not_answered w m r =
     (case m of
        Received_signed b \<Rightarrow>
          (let a = tx_action (transaction_details (bc_package b))
           in is_ok (signed_transaction_validate (w_ext w) (bc_package b) (w_now w) NODES_TIME_SHIFT)
              \<and> (stored_action a \<and> frozen r \<or> a = Other_action Unknown_package))
      | Received_bare a \<Rightarrow> stored_action a \<and> frozen r \<or> a = Other_action Unknown_package
      | Received_check_inbox accepted pending \<Rightarrow> accepted \<and> inbox_length (m_inbox (rn_node r)) = 0 \<and> pending < 10
      | _ \<Rightarrow> False)"

lemma broadcast_no_reply [simp]: "filter is_reply (send_broadcast w source full peers b r) = []"
  by (auto simp: send_broadcast_def filter_empty_conv)

lemma relay_no_reply [simp]: "filter is_reply (relay_to w source receiver b r) = []"
  by (simp add: relay_to_def)

lemma filter_to_client [simp]: "filter is_reply (to_client Rpc peer reply) = [Send_reply Rpc peer reply]"
  by (simp add: to_client_def)

text \<open>The replies of a handler when it does not throw.\<close>

definition replies_of :: "outcome \<Rightarrow> sent list" where
  "replies_of x = filter is_reply (fst (snd x))"

lemma replies_simps [simp]:
  "replies_of (res, out, r) = filter is_reply out"
  "fst (then_reply it peer x) = Inr () \<longleftrightarrow> fst x = Inr ()"
  "fst (attempt r y k) = Inr () \<longleftrightarrow> (\<exists>z. y = Inr z \<and> fst (k z) = Inr ())"
  by (cases x; auto simp: replies_of_def then_reply_def attempt_def split: sum.splits)+

lemma replies_then_reply: "fst x = Inr () \<Longrightarrow> replies_of (then_reply Rpc peer x) = replies_of x @ [Send_reply Rpc peer Reply_done]"
  by (cases x) (auto simp: then_reply_def)

lemma replies_submit: "fst (submit w st f r) = Inr () \<Longrightarrow> \<exists>ok. replies_of (submit w st f r) = filter is_reply (f ok)"
  by (auto simp: submit_def split: prod.splits sum.splits)

lemma replies_obey: "replies_of (obey_command w peer st command r) = []"
  by (auto simp: obey_command_def attempt_def Let_def split: sum.split)

lemma handle_package_replies:
  assumes "fst (handle_package w Rpc peer bc a r) = Inr ()" "\<not> (stored_action a \<and> frozen r)" "a \<noteq> Other_action Unknown_package"
  shows "\<exists>reply. replies_of (handle_package w Rpc peer bc a r) = [Send_reply Rpc peer reply]"
proof (cases "\<exists>p. a = Other_action p")
  case False
  then have stored: "handle_package w Rpc peer bc a r = handle_action w Rpc peer bc a r" "\<not> frozen r"
    using assms(2) by (cases a; auto simp: handle_package_def)+
  then show ?thesis using assms(1)
    by (auto simp: handle_action_def frozen_def Let_def dest!: replies_submit split: option.splits if_splits)
next
  case True
  then obtain p where p: "a = Other_action p" by blast
  show ?thesis
  proof (cases p)
    case (AddressInfo info)
    then show ?thesis using assms p by (simp add: handle_package_def handle_address_info_def split: option.splits)
  next
    case (Letter l)
    then show ?thesis using assms(1) p
      by (auto simp: handle_package_def handle_letter_def replies_then_reply split: option.splits prod.splits sum.splits)
  next
    case (StorageUpdateCommand command)
    then show ?thesis using assms(1) p
      by (auto simp: handle_package_def handle_update_command_def replies_then_reply replies_obey Let_def
          split: option.splits prod.splits sum.splits bool.splits if_splits)
  next
    case Unknown_package
    then show ?thesis using assms(3) p by simp
  qed
qed

lemma handle_replies:
  assumes "fst (handle w Rpc peer m r) = Inr ()" "\<not> not_answered w m r"
  shows "\<exists>reply. replies_of (handle w Rpc peer m r) = [Send_reply Rpc peer reply]"
proof (cases m)
  case (Received_signed b)
  then have ok: "signed_transaction_validate (w_ext w) (bc_package b) (w_now w) NODES_TIME_SHIFT = Inr ()"
    using assms(1) by (auto simp: handle_def)
  then show ?thesis using assms handle_package_replies Received_signed
    by (simp add: handle_def not_answered_def attempt_def Let_def)
next
  case (Received_bare a)
  then show ?thesis using assms handle_package_replies by (simp add: handle_def not_answered_def)
next
  case (Received_transaction key details)
  then show ?thesis using assms(1)
    by (auto simp: handle_def handle_transaction_request_def Let_def attempt_def dest!: replies_submit split: sum.splits if_splits)
next
  case (Received_check_inbox accepted pending)
  then show ?thesis using assms by (auto simp: handle_def handle_check_inbox_def not_answered_def Let_def split: if_splits)
next
  case (Received_ping address)
  then show ?thesis using assms(1) by (auto simp: handle_def handle_ping_def attempt_def split: sum.splits prod.splits)
qed

lemma handle_not_answered:
  assumes "not_answered w m r"
  shows "\<exists>r'. handle w Rpc peer m r = (Inr (), [], r')"
proof (cases m)
  case (Received_signed b)
  then show ?thesis using assms
    by (cases "tx_action (transaction_details (bc_package b))")
      (auto simp: handle_def not_answered_def Let_def is_ok_iff attempt_def handle_package_def handle_action_def frozen_def)
next
  case (Received_bare a)
  then show ?thesis using assms
    by (cases a) (auto simp: handle_def not_answered_def handle_package_def handle_action_def frozen_def)
qed (use assms in \<open>auto simp: handle_def not_answered_def handle_check_inbox_def Let_def\<close>)

lemma handle_package_silent: "handle_package w it peer bc a r = (Inl e, out, r') \<Longrightarrow> filter is_reply out = []"
proof -
  have submit: "submit w st f r = (Inl e, out, r') \<Longrightarrow> out = []" for st f
    by (auto simp: submit_def split: prod.splits sum.splits)
  have obey: "obey_command w peer st command r1 = (Inl e, out, r') \<Longrightarrow> filter is_reply out = []" for st command r1
    using replies_obey [of w peer st command r1] by simp
  show "handle_package w it peer bc a r = (Inl e, out, r') \<Longrightarrow> filter is_reply out = []"
    by (auto simp: handle_package_def handle_action_def handle_address_info_def handle_update_command_def handle_letter_def
        Let_def then_reply_Inl attempt_Inl dest: submit obey
        split: action.splits package.splits option.splits if_splits prod.splits sum.splits bool.splits)
qed

lemma handle_silent: "handle w it peer m r = (Inl e, out, r') \<Longrightarrow> filter is_reply out = []"
proof -
  have submit: "submit w st f r = (Inl e, out, r') \<Longrightarrow> out = []" for st f
    by (auto simp: submit_def split: prod.splits sum.splits)
  show "handle w it peer m r = (Inl e, out, r') \<Longrightarrow> filter is_reply out = []"
    by (cases m) (auto simp: handle_def attempt_Inl handle_transaction_request_def handle_check_inbox_def handle_ping_def Let_def
        dest: handle_package_silent submit split: if_splits)
qed

text \<open>A client gets exactly one answer to a request, the error when there was an exception, but for three
  cases: an action for a chain that is frozen is dropped in silence, a message of an unknown type is, and
  the question for an empty inbox waits.\<close>

theorem client_answered_once:
  assumes "receive w Rpc peer m r = (res, out, r')"
  shows "if not_answered w m r then filter is_reply out = [] \<and> res = Inr ()
    else \<exists>reply. filter is_reply out = [Send_reply Rpc peer reply] \<and> (\<forall>e. res = Inl e \<longrightarrow> reply = Reply_error e)"
proof (cases "not_answered w m r")
  case True
  then show ?thesis using assms handle_not_answered [OF True, of peer] by (auto simp: receive_def)
next
  case False
  show ?thesis
  proof (cases "handle w Rpc peer m r")
    case (fields x out1 r1)
    then show ?thesis
    proof (cases x)
      case (Inl e)
      then show ?thesis using assms fields False handle_silent [of w Rpc peer m r e out1 r1] by (auto simp: receive_def)
    next
      case (Inr u)
      then show ?thesis using assms fields False handle_replies [of w peer m r] by (auto simp: receive_def)
    qed
  qed
qed

section \<open>Letters\<close>

lemma process_letter_contains:
  "process_letter E st l n = (Inr ok, n') \<Longrightarrow> cache_contains E st (m_transaction_cache n')"
  by (auto simp: process_letter_def admit_def cache_update_def split: sum.splits if_splits)

lemma process_letter_again:
  "cache_contains E st (m_transaction_cache n) \<Longrightarrow> process_letter E st l n = (res, n') \<Longrightarrow> res \<noteq> Inr True \<and> n' = n"
  by (auto simp: process_letter_def admit_def split: sum.splits)

text \<open>A letter that was handled is in the cache of the node, and as long as it stays there it is neither put
  into the inbox nor sent on again.\<close>

theorem letter_once:
  assumes "handle_letter w it peer (Some b) l r = (Inr (), out, r')"
    and "handle_letter w' it' peer' (Some b) l r' = (res, out', r'')" "w_ext w' = w_ext w"
  shows "cache_contains (w_ext w) (bc_package b) (m_transaction_cache (rn_node r')) \<and> r'' = r'
    \<and> (\<forall>p c. Send_broadcast p c \<notin> set out')"
proof -
  have known: "cache_contains (w_ext w) (bc_package b) (m_transaction_cache (rn_node r'))"
    using assms(1) process_letter_contains [of "w_ext w" "bc_package b" l "rn_node r"]
    by (auto simp: handle_letter_def then_reply_def with_node_def split: prod.splits sum.splits)
  obtain x n where x: "process_letter (w_ext w) (bc_package b) l (rn_node r') = (x, n)" by force
  with process_letter_again [OF known x] have "x \<noteq> Inr True" "n = rn_node r'" by simp_all
  then show ?thesis
    using assms(2,3) x known by (cases x) (auto simp: handle_letter_def then_reply_def to_client_def)
qed

end
