(* ===== verification/Spec2Isabelle.thy ===== *)
theory Spec2Isabelle
  imports Mining_Properties Sync_Worker Account_History Message_Properties
begin

text \<open>
  A model of the core of publiq.pp (\<open>src/src/libblockchain\<close>), the node of the PUBLIQ
  blockchain: the ledger and the stores behind it, the actions a transaction can carry, the
  transaction pool, the proof of stake rules, the rewards and the exchange of blocks with peers.

  \<^bold>\<open>The program.\<close> A node keeps five persistent stores: the chain of signed blocks
  (\<open>blockchain.cpp\<close>), the log of actions for its clients (\<open>action_log.cpp\<close>), balances and
  roles (\<open>state.cpp\<close>), files, content units and sponsorships (\<open>documents.cpp\<close>) and
  delegated rights (\<open>authority_manager.cpp\<close>). Beside them are the transaction pool, a cache of
  recent transactions against replays, a counter of served units and a storage with its queue of
  files to fetch. A transaction reaches the pool through \<open>action_process_on_chain\<close>
  (\<open>transaction_handler.cpp\<close>): it is validated, applied to the stores by the handlers of its
  action (\<open>transaction_*.cpp\<close>) and kept. Mining and importing a block revert the pool, apply the
  block's transactions and pay its rewards (\<open>communication_p2p.cpp\<close>, \<open>sessions.cpp\<close>);
  leaving a fork reverts the same steps in the opposite order. Hence the two questions this
  development asks of every operation: is the money right, and does reverting undo applying?

  \<^bold>\<open>Theories.\<close>
  \<^item> Prelude: results (an exception to the left), loops over them, ordered and plain maps,
    decimal printing of numbers, and the collections of lemmas the other theories use.
  \<^item> Coin: \<open>coin.cpp\<close>. Two 64-bit words, whole coins and fractions; every operator.
  \<^item> Messages: the messages of \<open>message.idl\<close> and \<open>types.idl\<close> the model needs, and the
    parameters (record \<open>ext\<close>) that stand for code outside the repository.
  \<^item> Balances, Ledger_State: \<open>state.cpp\<close>. Sums over stores of balances; balances on the
    two layers, pool and chain, and roles.
  \<^item> Authority_Manager: \<open>authority_manager.cpp\<close>, with the invariant \<open>authority_wf\<close> of
    its normal form.
  \<^item> Blockchain: \<open>blockchain.cpp\<close>, with \<open>blockchain_wf\<close> (the cached header and hash are
    those of the last block) and \<open>linked\<close>.
  \<^item> Action_Log: \<open>action_log.cpp\<close>. The log is only appended to; reverting searches for the
    last entry still in force. \<open>open_entries\<close> is the abstract view, a stack.
  \<^item> Documents, Sponsoring: \<open>documents.cpp\<close>.
  \<^item> Storage: \<open>storage.cpp\<close> and \<open>inbox.cpp\<close>.
  \<^item> Transaction_Cache: the classes \<open>service_counter\<close> and \<open>transaction_cache\<close> of
    \<open>node_internals.hpp\<close>.
  \<^item> Node_State: the class \<open>node_internals\<close>, its save and discard, \<open>calc_delta\<close>, the genesis
    block, and the two callbacks of \<open>publiqd/main.cpp\<close> that count views and check units.
  \<^item> Action_Transfer (\<open>transaction_transfer.cpp\<close>, \<open>transaction_role.cpp\<close>), Action_Documents
    (\<open>transaction_file.cpp\<close>, \<open>transaction_contentunit.cpp\<close>, \<open>transaction_content.cpp\<close>,
    \<open>transaction_storageupdate.cpp\<close>), Action_Authorization, Action_Statistics
    (\<open>transaction_statinfo.cpp\<close>) and Action_Sponsoring: for each action the functions
    owners, participants, validate, is complete, can apply, apply and revert.
  \<^item> Transaction_Handler: \<open>transaction_handler.cpp\<close>, \<open>transaction_pool.cpp\<close>, and applying,
    reverting and re-adding transactions from \<open>communication_p2p.cpp\<close>.
  \<^item> Consensus: \<open>check_headers\<close> and \<open>check_delta_vector\<close>.
  \<^item> Rewards: the statistics, the distribution and the granting of rewards.
  \<^item> Block_Sync, Block_Import: the sessions of \<open>sessions.cpp\<close> that exchange headers and blocks:
    the answers to requests, taking over headers, checking received blocks, and importing them
    (reverting the pool and the own blocks, applying the received ones, refilling the pool).
  \<^item> Mining: \<open>mine_block\<close> of \<open>communication_p2p.cpp\<close>, with the choice of the transactions.
  \<^item> Voting, Sync_Worker: \<open>block_worker\<close>, \<open>header_worker\<close> and \<open>sync_worker\<close> of \<open>node.cpp\<close> and the
    promises of \<open>node_synchronization.cpp\<close>: the poll before own blocks are given up, the choice
    of a chain, and the decision to take over headers, to mine or to wait.
  \<^item> Log_Answer: \<open>get_actions\<close> of \<open>communication_rpc.cpp\<close>, the part of the action log a client is
    sent, with \<open>answer_state\<close>, the invariant of its loops.
  \<^item> Account_Log, Channel_History, Commander, Commander_Sync: the commander (\<open>src/src/commander\<close>), a
    client that follows the log of a node: \<open>utility.cpp\<close> and \<open>sync\<close> of \<open>daemon_rpc.cpp\<close>.
    \<open>commander_spec\<close> is what the entries in force say; the commander represents it (\<open>tracks\<close>).
  \<^item> Account_History: the balance and the history of an account a commander answers
    (\<open>rpc.cpp\<close>), read from the logs Commander\_Sync keeps.
  \<^item> Broadcasting: \<open>broadcast_message\<close> of \<open>communication_rpc.cpp\<close>.
  \<^item> Node_Addresses: \<open>nodeid_service.cpp\<close> and the session that asks an address for a signature,
    with the invariant \<open>nodeids_wf\<close> of every run of its operations.
  \<^item> Config: \<open>config.cpp\<close>, the configuration file with its addresses, keys and switches, and what
    a sequence of changes does to the secondary keys.
  \<^item> Peer_Messages: what \<open>node::run\<close> does with a transaction, an announced address, a storage command, a
    letter, a ping and a request for the inbox, the checks of \<open>communication_p2p.cpp\<close> behind it,
    the answer to an exception, and the transactions a node makes itself.
  \<^item> Message_Properties: an exception in a handler leaves ledger, cache, inbox and addresses as they were,
    is answered to a client and costs a peer its connection when it is to blame; a client gets one answer.
  \<^item> Samples: a small concrete node, on which the properties with hypotheses are applied.
  \<^item> Store_Properties, Node_Properties, Block_Properties, Sync_Properties, Mining_Properties and
    the end of Coin hold the properties.

  The locales \<open>balances\<close> (a store of balances; interpreted on \<open>state.cpp\<close>), \<open>registry\<close> (entries that
  are inserted once and removed; interpreted on files and units) and \<open>undoable\<close> (a loop whose steps
  are undone backwards; interpreted on the transactions and on the rewards of a block) and \<open>replica\<close>
  (a state that follows messages which apply or revert actions; interpreted on the commander's
  transactions, rewards and log entries) hold the lemmas several operations share.

  \<^bold>\<open>What the lemmas show.\<close> Coin: the operators compute with the number of fractions, with the
  exact bounds where 64 bits do not suffice. Stores: each has an invariant that its operations
  keep, and each operation that has a counterpart is undone by it. Actions: applying moves exactly
  the stated amount, changes nothing else, and reverting restores the node; the test before
  applying agrees with applying. Handler: a refused transaction, a fee that is not covered and an
  exception leave the node as it was, and whole transactions are undone. Rewards: no fraction is
  lost or created. Consensus: the rule of the constant \<open>c_const\<close>, and the bounds of delta. Blocks:
  a loop over transactions or rewards is undone in the opposite order; accepted headers continue
  the own chain; a block mined in a state is accepted by any node in that state. Clients: the answers to a client that
  follows the log lead it to the entries in force, and a commander that applies and reverts them holds
  exactly what these entries say.

  \<^bold>\<open>How the code is read.\<close>
  \<^item> An exception is the left side of a result, with the exception's class and text. Where a
    caller sees the state after an exception the function returns both. The handlers change the stores in
    place: what they have left half changed when they throw, in the pool, in mining and in the import of blocks, is
    an argument (\<open>thrown\<close>), which the guard that catches the exception takes back. An \<open>assert\<close> that is
    followed by a throw with the same condition is not modelled; reading the front of an empty
    vector is \<open>Undefined_behaviour\<close>.
  \<^item> \<open>uint64_t\<close> is a 64-bit word with its wrap-around. Times are whole seconds as integers.
    Sizes and indexes of containers are natural numbers, converted where the code stores them.
  \<^item> A meshpp loader is its contents. \<open>insert\<close> of a map loader keeps an existing entry, \<open>at\<close> of a
    missing key throws. The stores' save, commit and discard are modelled at the node: \<open>saved\<close>
    holds the last saved ledger. The documents loader and the storage controller save themselves
    outside of it and have no saved copy of their own.
  \<^item> \<open>std::map\<close> is a list of pairs with increasing keys, \<open>std::multimap\<close> one where keys repeat.
    The order in which an \<open>unordered_set\<close> is read is a parameter \<open>x_set_order\<close> of which only
    \<open>set_order_ok\<close> is known. \<open>std::sort\<close> is a stable sort.
  \<^item> Keys, signatures, hashes, base58 and the text of a message are code outside the
    repository, hence fields of \<open>ext\<close>.
  \<^item> The genesis block parsed from its text is an argument.
  \<^item> The double product 1.2 * min in \<open>stat_mismatch\<close> is compared exactly, and the revert
    coefficient of the synchronisation, a double, is a rational number. Unordered maps that are
    iterated are lists in the order of the iteration.
  \<^item> Blocks that are removed and still read afterwards are copied first. In the code the
    reference to a removed block lives in a cache of the loader.

  \<^bold>\<open>Bounds.\<close> No definition uses fuel: each loop is a structural recursion or a fold, but for the
  search for groups of transactions, whose termination is proved, and \<open>sync\<close> of the commander, a
  \<open>partial_function\<close> that is proved to return against a node that answers from its log. Hypotheses such as \<open>length < 2 ^ 64 - 4\<close> say that a stored index fits into 64 bits.

  \<^bold>\<open>Not modelled.\<close> Sockets, timers and the event loop (\<open>common.cpp\<close>, the frame of \<open>node::run\<close> and its
  requests for files), the loop of a storage (\<open>storage_node.cpp\<close>), the
  generated message code and its generators (\<open>idl_php\<close>, \<open>idl_ts\<close>), the command line tools
  and clients (the other requests a commander answers, blockchain client, genesis creator, storage helper and
  manager) and the test programs. The node a commander follows is given by what it answers; its answer
  of any other type is the error \<open>sync\<close> reports.

  \<^bold>\<open>Limits of the theorems.\<close> The theorems on whole transactions (undoing one, refusing one, undoing or mining
  a block of them) are about transactions that satisfy \<open>tx_ok\<close>. Reverting a cancelled sponsorship is modelled and
  not proved to restore the node; on a storage node without a manager a content of a block enters its files
  into the storage queue, and reverting does not take them out; sponsorships must not be known yet. The theorem on
  \<open>sync\<close> is about logs whose entries in force the commander can follow (\<open>sound_log\<close>), which leaves out authorisation
  updates and contents that list a unit twice. The bound on relays is for transactions that peers pass on;
  what is relayed with \<open>full_broadcast\<close> is stopped by the caches only.
\<close>

end
